(* ===== verification/Prelude.thy ===== *)
theory Prelude
  imports Main "HOL-Library.Word"
begin

text \<open>
  Shared vocabulary of the development: bytes, Go strings, time, the error values of
  \<open>errors/errors.go\<close>, and the result type every fallible operation returns.

  A Go call can end in five ways and the model keeps them apart: it returns a value
  (\<open>Inr\<close>), it returns one of the error values (\<open>Inl (Error e)\<close>), it calls
  \<open>log.Fatal\<close>, which prints and ends the whole process (\<open>Inl Fatal\<close>), the runtime
  panics, for instance on a slice bound (\<open>Inl Panic\<close>), or it never returns
  (\<open>Inl Hang\<close>, for loops over stored data whose end is not certain).
\<close>

named_theorems result_simps \<open>rules that compute with the result type\<close>

section \<open>Basic types\<close>

type_synonym byte = "8 word"
type_synonym bytes = "byte list"
  \<comment> \<open>a Go string is a byte string; \<open>length\<close> counts bytes as \<open>len\<close> does\<close>
type_synonym gostring = string
  \<comment> \<open>an instant, in nanoseconds since the Unix epoch\<close>
type_synonym time = int
type_synonym duration = int

definition Second :: duration where "Second = 1000000000"
definition Minute :: duration where "Minute = 60 * Second"
definition Hour :: duration where "Hour = 60 * Minute"

text \<open>\<open>time.Time{}\<close>, January 1 of year 1, the value \<open>IsZero\<close> tests for.\<close>

definition zero_time :: time where "zero_time = - 62135596800 * Second"

text \<open>\<open>t.Sub(u)\<close> saturates at the bounds of a 64-bit \<open>Duration\<close>.\<close>

definition time_sub :: "time \<Rightarrow> time \<Rightarrow> duration" where
  "time_sub t u = max (- (2 ^ 63)) (min (2 ^ 63 - 1) (t - u))"

lemma time_sub_less_iff:
  assumes "- (2 ^ 63) < d" "d \<le> 2 ^ 63 - 1"
  shows "time_sub t u < d \<longleftrightarrow> t - u < d"
  using assms by (auto simp: time_sub_def min_def max_def)

lemma time_sub_gt_iff:
  assumes "- (2 ^ 63) \<le> d" "d < 2 ^ 63 - 1"
  shows "d < time_sub t u \<longleftrightarrow> d < t - u"
  using assms by (auto simp: time_sub_def min_def max_def)

lemmas duration_defs = Second_def Minute_def Hour_def

section \<open>Error values\<close>

datatype error =
    Internal | Filesystem | Parsing | Config | Database | CantOpenDB | DBOperFailed
  | InconsistentDB | NoSuchEntity | WrongNickname | AlreadyLoggedIn | NotLoggedIn
  | AlreadyRegistered | NoSuchUser | NoSuchModerator | AlreadyModerator
  | DuplicationAttempt | NoUserHistory | WrongPacketType | MalformedPayload
  | ProtocolViolation | UnsupportedProtocol | ClosedConnection | InvalidPeer
  | WrongArguments | AlreadySubscribed | NotSubscribed | ForbiddenOperation
  | UserBanned | NoSuchTag | PacketSizeExceeded | MsgDepthExceeded | MsgPostRateErr
  | OperPostRateErr | SubsSizeExceeded
    \<comment> \<open>an error value of a library, passed on unchanged\<close>
  | Foreign string

datatype fault = Error error | Fatal | Panic | Hang

type_synonym 'a result = "fault + 'a"

abbreviation Ok :: "'a \<Rightarrow> 'a result" where "Ok x \<equiv> Inr x"
abbreviation Err :: "error \<Rightarrow> 'a result" where "Err e \<equiv> Inl (Error e)"

definition bind_result :: "'a result \<Rightarrow> ('a \<Rightarrow> 'b result) \<Rightarrow> 'b result" where
  "bind_result r f = (case r of Inl e \<Rightarrow> Inl e | Inr x \<Rightarrow> f x)"

lemma bind_result_Inl [simp, result_simps]: "bind_result (Inl e) f = Inl e"
  by (simp add: bind_result_def)

lemma bind_result_Inr [simp, result_simps]: "bind_result (Inr x) f = f x"
  by (simp add: bind_result_def)

lemma bind_result_eq_Inr:
  "bind_result r f = Inr y \<longleftrightarrow> (\<exists>x. r = Inr x \<and> f x = Inr y)"
  by (cases r) auto

lemma bind_result_split:
  "P (bind_result r f) \<longleftrightarrow> (\<forall>e. r = Inl e \<longrightarrow> P (Inl e)) \<and> (\<forall>x. r = Inr x \<longrightarrow> P (f x))"
  by (cases r) auto

text \<open>
  \<open>if err != nil \<dots> log.Fatal\<close>: any error value becomes the end of the process.
\<close>

definition or_fatal :: "'a result \<Rightarrow> 'a result" where
  "or_fatal r = (case r of
        Inl Panic \<Rightarrow> Inl Panic | Inl Hang \<Rightarrow> Inl Hang | Inl _ \<Rightarrow> Inl Fatal | Inr x \<Rightarrow> Inr x)"

lemma or_fatal_simps [simp, result_simps]:
  "or_fatal (Inr x) = Inr x"
  "or_fatal (Inl (Error e)) = Inl Fatal"
  "or_fatal (Inl Fatal) = Inl Fatal"
  "or_fatal (Inl Panic) = Inl Panic"
  "or_fatal (Inl Hang) = Inl Hang"
  by (simp_all add: or_fatal_def)

lemma or_fatal_eq_Inr [simp]: "or_fatal r = Inr x \<longleftrightarrow> r = Inr x"
  by (cases r) (auto simp: or_fatal_def split: fault.splits)

lemma or_fatal_not_Error [simp]: "or_fatal r \<noteq> Inl (Error e)"
  by (auto simp: or_fatal_def split: sum.splits fault.splits)

text \<open>
  A \<open>for _, x := range xs\<close> loop whose body updates \<open>s\<close> and may leave the function.
\<close>

fun fold_result :: "('a \<Rightarrow> 's \<Rightarrow> 's result) \<Rightarrow> 'a list \<Rightarrow> 's \<Rightarrow> 's result" where
  "fold_result f [] s = Inr s"
| "fold_result f (x # xs) s = (case f x s of Inl e \<Rightarrow> Inl e | Inr s' \<Rightarrow> fold_result f xs s')"

lemma fold_result_cong [fundef_cong]:
  assumes "xs = ys" "s = t" "\<And>x s. x \<in> set ys \<Longrightarrow> f x s = g x s"
  shows "fold_result f xs s = fold_result g ys t"
proof -
  have "\<forall>x\<in>set xs. \<forall>s. f x s = g x s \<Longrightarrow> fold_result f xs s = fold_result g xs s"
    by (induction xs arbitrary: s) (auto split: sum.splits)
  with assms show ?thesis by auto
qed

lemma fold_result_append:
  "fold_result f (xs @ ys) s = bind_result (fold_result f xs s) (fold_result f ys)"
  by (induction xs arbitrary: s) (auto split: sum.splits)

text \<open>
  Loop rule: under the invariant \<open>I\<close> the body never leaves the function, moves the state
  along \<open>R\<close> and achieves \<open>Q x\<close>, which later steps keep.
\<close>

lemma fold_result_rule:
  assumes "\<And>x s. x \<in> set xs \<Longrightarrow> I s \<Longrightarrow> \<exists>s'. f x s = Inr s' \<and> I s' \<and> R s s' \<and> Q x s'"
    and "I s" "\<And>s. R s s" "\<And>s t u. R s t \<Longrightarrow> R t u \<Longrightarrow> R s u"
    and "\<And>x s t. Q x s \<Longrightarrow> R s t \<Longrightarrow> Q x t"
  shows "\<exists>s'. fold_result f xs s = Inr s' \<and> I s' \<and> R s s' \<and> (\<forall>x \<in> set xs. Q x s')"
  using assms(1,2)
proof (induction xs arbitrary: s)
  case Nil
  then show ?case using assms(3) by simp
next
  case (Cons x xs)
  then obtain t where t: "f x s = Inr t" "I t" "R s t" "Q x t" by (meson list.set_intros(1))
  have "\<And>y s. y \<in> set xs \<Longrightarrow> I s \<Longrightarrow> \<exists>s'. f y s = Inr s' \<and> I s' \<and> R s s' \<and> Q y s'"
    using Cons.prems(1) by simp
  from Cons.IH [OF this t(2)] obtain u
    where "fold_result f xs t = Inr u" "I u" "R t u" "\<forall>y \<in> set xs. Q y u" by auto
  with t assms(4,5) show ?case by auto
qed

text \<open>
  A loop that appends the value of each element to its result, leaving on the first error.
\<close>

fun map_result :: "('a \<Rightarrow> 'b result) \<Rightarrow> 'a list \<Rightarrow> 'b list result" where
  "map_result f [] = Inr []"
| "map_result f (x # xs) =
     (case f x of Inl e \<Rightarrow> Inl e
      | Inr y \<Rightarrow> (case map_result f xs of Inl e \<Rightarrow> Inl e | Inr ys \<Rightarrow> Inr (y # ys)))"

lemma map_result_cong [fundef_cong]:
  assumes "xs = ys" "\<And>x. x \<in> set ys \<Longrightarrow> f x = g x"
  shows "map_result f xs = map_result g ys"
proof -
  have "\<forall>x\<in>set xs. f x = g x \<Longrightarrow> map_result f xs = map_result g xs"
    by (induction xs) (auto split: sum.splits)
  with assms show ?thesis by auto
qed

lemma map_result_Inr_iff:
  "map_result f xs = Inr ys \<longleftrightarrow> map f xs = map Inr ys"
proof (induction xs arbitrary: ys)
  case (Cons x xs)
  then show ?case by (cases ys; cases "f x"; cases "map_result f xs") auto
qed auto

lemma map_result_all_Inr:
  assumes "\<And>x. x \<in> set xs \<Longrightarrow> f x = Inr (g x)"
  shows "map_result f xs = Inr (map g xs)"
  using assms by (simp add: map_result_Inr_iff)

lemma map_result_Inl:
  assumes "x \<in> set xs" "f x = Inl e"
  shows "\<exists>e'. map_result f xs = Inl e'"
  using assms by (induction xs) (auto split: sum.splits)

lemma map_result_only_error:
  assumes "\<And>x. x \<in> set xs \<Longrightarrow> (\<exists>y. f x = Inr y) \<or> f x = Inl e" "x \<in> set xs" "f x = Inl e"
  shows "map_result f xs = Inl e"
  using assms
proof (induction xs)
  case (Cons a xs)
  show ?case
  proof (cases "f a")
    case (Inr y)
    with Cons.prems(2,3) have "x \<in> set xs" by auto
    with Cons Inr show ?thesis by simp
  qed (use Cons.prems(1) [of a] in auto)
qed simp

lemma map_result_map: "map_result f (map g xs) = map_result (\<lambda>x. f (g x)) xs"
  by (induction xs) (auto split: sum.splits)

lemma length_map_result: "map_result f xs = Inr ys \<Longrightarrow> length ys = length xs"
  by (induction xs arbitrary: ys) (auto split: sum.splits)

section \<open>Go builtins\<close>

text \<open>
  \<open>copy(dst, src)\<close>: as many elements as fit, the rest of \<open>dst\<close> is left alone.
\<close>

definition go_copy :: "'a list \<Rightarrow> 'a list \<Rightarrow> 'a list" where
  "go_copy dst src = take (length dst) src @ drop (length src) dst"

lemma length_go_copy [simp]: "length (go_copy dst src) = length dst"
  by (simp add: go_copy_def)

lemma go_copy_same_length [simp]: "length src = length dst \<Longrightarrow> go_copy dst src = src"
  by (simp add: go_copy_def)

text \<open>\<open>strings/strings.go\<close>: the first \<open>n\<close> bytes of a longer string.\<close>

definition Truncate :: "gostring \<Rightarrow> nat \<Rightarrow> gostring" where
  "Truncate s n = (if n < length s then take n s else s)"

lemma length_Truncate: "length (Truncate s n) = min n (length s)"
  by (simp add: Truncate_def min_def)

text \<open>\<open>strings.Join\<close> and \<open>strings.Split\<close> for a separator of one byte.\<close>

fun join :: "'a \<Rightarrow> 'a list list \<Rightarrow> 'a list" where
  "join c [] = []"
| "join c [s] = s"
| "join c (s # ss) = s @ c # join c ss"

fun split_on :: "'a \<Rightarrow> 'a list \<Rightarrow> 'a list list" where
  "split_on c [] = [[]]"
| "split_on c (x # xs) =
     (if x = c then [] # split_on c xs
      else (case split_on c xs of [] \<Rightarrow> [[x]] | s # ss \<Rightarrow> (x # s) # ss))"

lemma split_on_nonempty [simp]: "split_on c xs \<noteq> []"
  by (induction xs) (auto split: list.splits)

lemma split_on_append:
  "c \<notin> set s \<Longrightarrow> split_on c (s @ c # t) = s # split_on c t"
  by (induction s) auto

lemma split_on_single: "c \<notin> set s \<Longrightarrow> split_on c s = [s]"
  by (induction s) auto

lemma split_join:
  assumes "ss \<noteq> []" "\<forall>s \<in> set ss. c \<notin> set s"
  shows "split_on c (join c ss) = ss"
  using assms
  by (induction c ss rule: join.induct) (auto simp: split_on_append split_on_single)

lemma join_split: "join c (split_on c xs) = xs"
proof (induction xs)
  case (Cons x xs)
  then show ?case
    by (cases "split_on c xs") (auto simp: neq_Nil_conv split: list.splits
        elim: join.elims, (metis join.simps list.exhaust append_Cons)+)
qed simp

lemma split_on_no_sep: "s \<in> set (split_on c xs) \<Longrightarrow> c \<notin> set s"
  by (induction xs arbitrary: s) (auto split: list.splits if_splits)

lemma set_join_subset: "set (join c ss) \<subseteq> insert c (\<Union> (set ` set ss))"
  by (induction c ss rule: join.induct) auto

section \<open>Runs\<close>

text \<open>
  Goroutines interleave, so their effects are relations on a shared state and what holds in
  every interleaving is an invariant of the relation. A strengthening of an invariant by a
  second one may use the first.
\<close>

locale invariant =
  fixes init :: "'s \<Rightarrow> bool" and step :: "'s \<Rightarrow> 's \<Rightarrow> bool" and I :: "'s \<Rightarrow> bool"
  assumes init_holds: "init s \<Longrightarrow> I s"
    and step_keeps: "I s \<Longrightarrow> step s t \<Longrightarrow> I t"
begin

lemma run_keeps: "step\<^sup>*\<^sup>* s t \<Longrightarrow> I s \<Longrightarrow> I t"
  by (induction rule: rtranclp_induct) (auto intro: step_keeps)

lemma reachable_holds: "step\<^sup>*\<^sup>* s t \<Longrightarrow> init s \<Longrightarrow> I t"
  using run_keeps init_holds by blast

end

end
