(* ===== verification/Encoding.thy ===== *)
theory Encoding
  imports Prelude
begin

text \<open>
  The part of \<open>encoding/base64\<close> and of big-endian integer conversion that entity IDs,
  signatures and the proof of work use. The decoder follows the Go library where it is
  lenient: carriage returns and newlines are skipped wherever they stand, and the unused
  low bits of the last symbol are not checked.
\<close>

section \<open>Base64\<close>

definition std_alphabet :: gostring where
  "std_alphabet = ''ABCDEFGHIJKLMNOPQRSTUVWXYZabcdefghijklmnopqrstuvwxyz0123456789+/''"

definition url_alphabet :: gostring where
  "url_alphabet = ''ABCDEFGHIJKLMNOPQRSTUVWXYZabcdefghijklmnopqrstuvwxyz0123456789-_''"

definition b64_value :: "gostring \<Rightarrow> char \<Rightarrow> nat option" where
  "b64_value al c = map_of (zip al [0..<64]) c"

text \<open>The three bytes of a group as one 24-bit number, and its four symbols.\<close>

definition group24 :: "byte \<Rightarrow> byte \<Rightarrow> byte \<Rightarrow> nat" where
  "group24 a b c = unat a * 65536 + unat b * 256 + unat c"

fun b64_encode :: "bool \<Rightarrow> gostring \<Rightarrow> bytes \<Rightarrow> gostring" where
  "b64_encode pad al [] = []"
| "b64_encode pad al [a] =
     (let v = group24 a 0 0
      in [al ! (v div 262144), al ! (v div 4096 mod 64)]
         @ (if pad then [CHR ''='', CHR ''=''] else []))"
| "b64_encode pad al [a, b] =
     (let v = group24 a b 0
      in [al ! (v div 262144), al ! (v div 4096 mod 64), al ! (v div 64 mod 64)]
         @ (if pad then [CHR ''=''] else []))"
| "b64_encode pad al (a # b # c # xs) =
     (let v = group24 a b c
      in [al ! (v div 262144), al ! (v div 4096 mod 64), al ! (v div 64 mod 64), al ! (v mod 64)]
         @ b64_encode pad al xs)"

definition byte2 :: "nat \<Rightarrow> byte" where "byte2 v = word_of_nat (v div 65536)"
definition byte1 :: "nat \<Rightarrow> byte" where "byte1 v = word_of_nat (v div 256 mod 256)"
definition byte0 :: "nat \<Rightarrow> byte" where "byte0 v = word_of_nat (v mod 256)"

definition quad24 :: "nat \<Rightarrow> nat \<Rightarrow> nat \<Rightarrow> nat \<Rightarrow> nat" where
  "quad24 w x y z = w * 262144 + x * 4096 + y * 64 + z"

text \<open>Decoding of padded text, after the newlines are removed.\<close>

fun b64_decode_pad :: "gostring \<Rightarrow> gostring \<Rightarrow> bytes option" where
  "b64_decode_pad al [] = Some []"
| "b64_decode_pad al (p # q # r # s # rest) =
     (case (b64_value al p, b64_value al q) of
        (Some w, Some x) \<Rightarrow>
          (if r = CHR ''='' then
             (if s = CHR ''='' \<and> rest = [] then Some [byte2 (quad24 w x 0 0)] else None)
           else (case b64_value al r of
              None \<Rightarrow> None
            | Some y \<Rightarrow>
                (if s = CHR ''='' then
                   (if rest = [] then Some [byte2 (quad24 w x y 0), byte1 (quad24 w x y 0)] else None)
                 else (case b64_value al s of
                    None \<Rightarrow> None
                  | Some z \<Rightarrow>
                      map_option (\<lambda>bs. [byte2 (quad24 w x y z), byte1 (quad24 w x y z),
                                        byte0 (quad24 w x y z)] @ bs)
                        (b64_decode_pad al rest)))))
      | _ \<Rightarrow> None)"
| "b64_decode_pad al _ = None"

text \<open>Decoding of text without padding.\<close>

fun b64_decode_raw :: "gostring \<Rightarrow> gostring \<Rightarrow> bytes option" where
  "b64_decode_raw al [] = Some []"
| "b64_decode_raw al [p] = None"
| "b64_decode_raw al [p, q] =
     (case (b64_value al p, b64_value al q) of
        (Some w, Some x) \<Rightarrow> Some [byte2 (quad24 w x 0 0)] | _ \<Rightarrow> None)"
| "b64_decode_raw al [p, q, r] =
     (case (b64_value al p, b64_value al q, b64_value al r) of
        (Some w, Some x, Some y) \<Rightarrow> Some [byte2 (quad24 w x y 0), byte1 (quad24 w x y 0)]
      | _ \<Rightarrow> None)"
| "b64_decode_raw al (p # q # r # s # rest) =
     (case (b64_value al p, b64_value al q, b64_value al r, b64_value al s) of
        (Some w, Some x, Some y, Some z) \<Rightarrow>
          map_option (\<lambda>bs. [byte2 (quad24 w x y z), byte1 (quad24 w x y z),
                            byte0 (quad24 w x y z)] @ bs)
            (b64_decode_raw al rest)
      | _ \<Rightarrow> None)"

definition strip_newlines :: "gostring \<Rightarrow> gostring" where
  "strip_newlines = filter (\<lambda>c. c \<noteq> CHR 0x0A \<and> c \<noteq> CHR 0x0D)"

definition std_encode :: "bytes \<Rightarrow> gostring" where
  "std_encode = b64_encode True std_alphabet"
definition std_decode :: "gostring \<Rightarrow> bytes option" where
  "std_decode s = b64_decode_pad std_alphabet (strip_newlines s)"
definition rawurl_encode :: "bytes \<Rightarrow> gostring" where
  "rawurl_encode = b64_encode False url_alphabet"
definition rawurl_decode :: "gostring \<Rightarrow> bytes option" where
  "rawurl_decode s = b64_decode_raw url_alphabet (strip_newlines s)"

subsection \<open>Round trip\<close>

text \<open>An alphabet has 64 distinct symbols, none of them padding or a newline.\<close>

definition good_alphabet :: "gostring \<Rightarrow> bool" where
  "good_alphabet al \<longleftrightarrow> length al = 64 \<and> distinct al \<and>
     CHR ''='' \<notin> set al \<and> CHR 0x0A \<notin> set al \<and> CHR 0x0D \<notin> set al"

lemma good_std [simp]: "good_alphabet std_alphabet"
  by (simp add: good_alphabet_def std_alphabet_def)

lemma good_url [simp]: "good_alphabet url_alphabet"
  by (simp add: good_alphabet_def url_alphabet_def)

lemma b64_value_nth:
  assumes "good_alphabet al" "n < 64"
  shows "b64_value al (al ! n) = Some n"
proof -
  have "(al ! n, n) \<in> set (zip al [0..<64])"
    using assms by (auto simp: set_zip good_alphabet_def)
  with assms show ?thesis
    by (auto simp: b64_value_def good_alphabet_def intro!: map_of_is_SomeI)
qed

lemma alphabet_nth_neq:
  assumes "good_alphabet al" "n < 64"
  shows "al ! n \<noteq> CHR ''=''" "al ! n \<noteq> CHR 0x0A" "al ! n \<noteq> CHR 0x0D"
  using assms nth_mem [of n al] by (force simp: good_alphabet_def)+

lemma unat_byte_less: "unat (b :: byte) < 256"
proof -
  have "unat b < 2 ^ LENGTH(8)" by (rule unsigned_less)
  then show ?thesis by simp
qed

lemma group24_less: "group24 a b c < 16777216"
  using unat_byte_less [of a] unat_byte_less [of b] unat_byte_less [of c]
  by (simp add: group24_def)

lemma symbols_less:
  "group24 a b c div 262144 < 64" "group24 a b c div 4096 mod 64 < 64"
  "group24 a b c div 64 mod 64 < 64" "group24 a b c mod 64 < 64"
  using group24_less [of a b c] by auto

lemma quad24_symbols:
  "quad24 (v div 262144) (v div 4096 mod 64) (v div 64 mod 64) (v mod 64) = v"
proof -
  have "v = v div 64 * 64 + v mod 64"
    and "v div 64 = v div 4096 * 64 + v div 64 mod 64"
    and "v div 4096 = v div 262144 * 64 + v div 4096 mod 64"
    using div_mult_mod_eq [of v 64] div_mult_mod_eq [of "v div 64" 64]
      div_mult_mod_eq [of "v div 4096" 64]
    by (simp_all flip: div_mult2_eq)
  then show ?thesis unfolding quad24_def by linarith
qed

lemma group24_bytes:
  "byte2 (group24 a b c) = a" "byte1 (group24 a b c) = b" "byte0 (group24 a b c) = c"
proof -
  note * = unat_byte_less [of a] unat_byte_less [of b] unat_byte_less [of c]
  have 1: "group24 a b c = unat c + 256 * (unat b + 256 * unat a)"
    by (simp add: group24_def)
  have 2: "group24 a b c div 256 = unat b + 256 * unat a" "group24 a b c mod 256 = unat c"
    using * unfolding 1 by (simp_all only: mod_mult_self2 mod_less div_mult_self2 div_less)
  have "group24 a b c div 65536 = group24 a b c div 256 div 256"
    by (simp flip: div_mult2_eq)
  with 2 * have "group24 a b c div 65536 = unat a" "group24 a b c div 256 mod 256 = unat b"
    "group24 a b c mod 256 = unat c"
    by simp_all
  then show "byte2 (group24 a b c) = a" "byte1 (group24 a b c) = b" "byte0 (group24 a b c) = c"
    by (simp_all add: byte2_def byte1_def byte0_def)
qed

lemma quad24_one:
  "quad24 (group24 a 0 0 div 262144) (group24 a 0 0 div 4096 mod 64) 0 0 = group24 a 0 0"
proof -
  have "group24 a 0 0 = unat a * 16 * 4096" by (simp add: group24_def)
  then have "group24 a 0 0 div 64 mod 64 = 0" "group24 a 0 0 mod 64 = 0"
    by (simp_all add: mult.assoc)
  with quad24_symbols [of "group24 a 0 0"] show ?thesis by simp
qed

lemma quad24_two:
  "quad24 (group24 a b 0 div 262144) (group24 a b 0 div 4096 mod 64)
     (group24 a b 0 div 64 mod 64) 0 = group24 a b 0"
proof -
  have "group24 a b 0 = (unat a * 1024 + unat b * 4) * 64" by (simp add: group24_def)
  then have "group24 a b 0 mod 64 = 0" by (simp only: mod_mult_self2_is_0)
  with quad24_symbols [of "group24 a b 0"] show ?thesis by simp
qed

lemmas b64_simps = b64_value_nth alphabet_nth_neq symbols_less quad24_symbols
  quad24_one quad24_two group24_bytes Let_def

lemma b64_decode_pad_encode:
  "good_alphabet al \<Longrightarrow> b64_decode_pad al (b64_encode True al xs) = Some xs"
  by (induction "True" al xs rule: b64_encode.induct) (simp_all add: b64_simps)

lemma b64_decode_raw_encode:
  "good_alphabet al \<Longrightarrow> b64_decode_raw al (b64_encode False al xs) = Some xs"
  by (induction "False" al xs rule: b64_encode.induct) (simp_all add: b64_simps)

lemma strip_newlines_encode [simp]:
  "good_alphabet al \<Longrightarrow> strip_newlines (b64_encode pad al xs) = b64_encode pad al xs"
  by (induction pad al xs rule: b64_encode.induct) (simp_all add: strip_newlines_def b64_simps)

lemma std_decode_encode [simp]: "std_decode (std_encode xs) = Some xs"
  by (simp add: std_decode_def std_encode_def b64_decode_pad_encode)

text \<open>Text that decodes is made of the symbols of the alphabet and padding.\<close>

lemma b64_value_Some: "b64_value al c = Some v \<Longrightarrow> c \<in> set al"
  unfolding b64_value_def by (meson map_of_SomeD set_zip_leftD)

lemma b64_decode_pad_chars: "b64_decode_pad al s = Some bs \<Longrightarrow> set s \<subseteq> insert CHR ''='' (set al)"
  by (induction al s arbitrary: bs rule: b64_decode_pad.induct)
    (fastforce dest: b64_value_Some split: option.splits if_splits)+

lemma std_decode_chars: "std_decode s = Some bs \<Longrightarrow> set (strip_newlines s) \<subseteq> insert CHR ''='' (set std_alphabet)"
  unfolding std_decode_def by (rule b64_decode_pad_chars)

lemma std_encode_chars: "set (std_encode xs) \<subseteq> insert CHR ''='' (set std_alphabet)"
  using std_decode_chars [OF std_decode_encode [of xs]] by (simp add: std_encode_def)

lemma rawurl_decode_encode [simp]: "rawurl_decode (rawurl_encode xs) = Some xs"
  by (simp add: rawurl_decode_def rawurl_encode_def b64_decode_raw_encode)

lemma add5_div3: "(5 + n) div 3 = Suc ((n + 2) div 3)" for n :: nat
  by presburger

lemma length_std_encode: "length (std_encode xs) = 4 * ((length xs + 2) div 3)"
  unfolding std_encode_def
  by (induction "True" std_alphabet xs rule: b64_encode.induct)
    (simp_all add: Let_def add5_div3)

lemma length_rawurl_encode: "length (rawurl_encode xs) = (length xs * 8 + 5) div 6"
  unfolding rawurl_encode_def
  by (induction "False" url_alphabet xs rule: b64_encode.induct) (simp_all add: Let_def)

lemma std_encode_inject: "std_encode xs = std_encode ys \<longleftrightarrow> xs = ys"
  by (metis std_decode_encode option.inject)

lemma rawurl_encode_inject: "rawurl_encode xs = rawurl_encode ys \<longleftrightarrow> xs = ys"
  by (metis rawurl_decode_encode option.inject)

section \<open>Big-endian integers\<close>

text \<open>\<open>big.Int.SetBytes\<close> and \<open>big.Int.Bytes\<close> (no leading zero byte).\<close>

definition be_value :: "bytes \<Rightarrow> nat" where
  "be_value bs = foldl (\<lambda>v b. v * 256 + unat b) 0 bs"

fun be_bytes :: "nat \<Rightarrow> bytes" where
  "be_bytes n = (if n = 0 then [] else be_bytes (n div 256) @ [word_of_nat (n mod 256)])"

declare be_bytes.simps [simp del]

lemma be_value_Nil [simp]: "be_value [] = 0"
  by (simp add: be_value_def)

lemma be_value_snoc [simp]: "be_value (bs @ [b]) = be_value bs * 256 + unat b"
  by (simp add: be_value_def)

lemma be_value_zeros [simp]: "be_value (replicate k 0 @ bs) = be_value bs"
  by (simp add: be_value_def, induction k) simp_all

lemma unat_byte_of_nat: "n < 256 \<Longrightarrow> unat (word_of_nat n :: byte) = n"
  by (simp add: unat_of_nat)

lemma be_value_bytes [simp]: "be_value (be_bytes n) = n"
proof (induction n rule: be_bytes.induct)
  case (1 n)
  show ?case
  proof (cases "n = 0")
    case True
    then show ?thesis by (simp add: be_bytes.simps [of 0])
  next
    case False
    with 1 show ?thesis by (simp add: be_bytes.simps [of n] unat_byte_of_nat)
  qed
qed

lemma length_be_bytes: "n < 256 ^ k \<Longrightarrow> length (be_bytes n) \<le> k"
proof (induction k arbitrary: n)
  case 0
  then show ?case by (simp add: be_bytes.simps)
next
  case (Suc k)
  have "n div 256 < 256 ^ k"
    using Suc.prems by (simp add: less_mult_imp_div_less mult.commute)
  then have "length (be_bytes (n div 256)) \<le> k" by (rule Suc.IH)
  then show ?case by (subst be_bytes.simps) simp
qed

text \<open>\<open>binary.BigEndian.PutUint64\<close>: exactly eight bytes.\<close>

definition put_uint64 :: "64 word \<Rightarrow> bytes" where
  "put_uint64 n = map (\<lambda>i. word_of_nat (unat n div 256 ^ (7 - i) mod 256)) [0..<8]"

lemma length_put_uint64 [simp]: "length (put_uint64 n) = 8"
  by (simp add: put_uint64_def)

lemma be_value_digits:
  "be_value (map (\<lambda>i. word_of_nat (v div 256 ^ (k - i) mod 256)) [0..<Suc k]) = v mod 256 ^ Suc k"
proof (induction k arbitrary: v)
  case 0
  show ?case by (simp add: be_value_def unat_byte_of_nat)
next
  case (Suc k)
  have *: "map (\<lambda>i. word_of_nat (v div 256 ^ (Suc k - i) mod 256) :: byte) [0..<Suc k]
    = map (\<lambda>i. word_of_nat (v div 256 div 256 ^ (k - i) mod 256)) [0..<Suc k]"
    by (rule map_cong) (auto simp: Suc_diff_le div_mult2_eq)
  have "be_value (map (\<lambda>i. word_of_nat (v div 256 ^ (Suc k - i) mod 256)) [0..<Suc (Suc k)])
    = v div 256 mod 256 ^ Suc k * 256 + v mod 256"
    using Suc.IH [of "v div 256"] unfolding * [symmetric]
    by (simp only: upt_Suc_append [of 0 "Suc k"] le0 map_append list.map be_value_snoc)
      (simp add: unat_byte_of_nat)
  also have "\<dots> = v mod 256 ^ Suc (Suc k)"
    using mod_mult2_eq [of v 256 "256 ^ Suc k"] by simp
  finally show ?case .
qed

lemma be_value_put_uint64: "be_value (put_uint64 n) = unat n"
proof -
  have "unat n < 2 ^ LENGTH(64)" by (rule unsigned_less)
  then have "unat n mod 256 ^ 8 = unat n" by simp
  moreover have "Suc 7 = 8" by simp
  ultimately show ?thesis
    using be_value_digits [of "unat n" 7] by (simp only: put_uint64_def)
qed

lemma put_uint64_inject: "put_uint64 m = put_uint64 n \<longleftrightarrow> m = n"
  by (metis be_value_put_uint64 word_unat_eq_iff)

end
