(* ===== verification/Subs.thy ===== *)
theory Subs
  imports Prelude
begin

text \<open>
  Topics and subscriptions (\<open>subs/topic.go\<close>, \<open>subs/subscriptions.go\<close>).
  A Go slice is \<open>nil\<close> or a possibly empty sequence, and the code tells the two apart
  for topics (\<open>nil\<close> is allowed, empty is not), so a topic is an optional list of
  tags. No operation tells \<open>nil\<close> and empty subscriptions apart, so they are lists.
\<close>

section \<open>Topics\<close>

type_synonym topic = "gostring list option"

definition tags :: "topic \<Rightarrow> gostring list" where
  "tags t = (case t of None \<Rightarrow> [] | Some ts \<Rightarrow> ts)"

lemma tags_simps [simp]: "tags None = []" "tags (Some ts) = ts"
  by (simp_all add: tags_def)

definition MaxTagLen :: nat where "MaxTagLen = 24"
definition MaxTopicCapacity :: nat where "MaxTopicCapacity = 8"

definition comma :: char where "comma = CHR '',''"
definition newline :: char where "newline = CHR 0x0A"

definition tag_chars :: gostring where
  "tag_chars = ''abcdefghijklmnopqrstuvwxyz0123456789_''"

text \<open>The regular expression \<open>^[a-z0-9_]+$\<close> and the length limit.\<close>

definition isTagValid :: "gostring \<Rightarrow> bool" where
  "isTagValid tag \<longleftrightarrow> length tag \<le> MaxTagLen \<and> tag \<noteq> [] \<and> list_all (\<lambda>c. c \<in> set tag_chars) tag"

fun Topic_IsValid_loop :: "gostring set \<Rightarrow> gostring list \<Rightarrow> bool" where
  "Topic_IsValid_loop seen [] = True"
| "Topic_IsValid_loop seen (tag # ts) =
     (if tag \<in> seen then False
      else if \<not> isTagValid tag then False
      else Topic_IsValid_loop (insert tag seen) ts)"

definition Topic_IsValid :: "topic \<Rightarrow> bool" where
  "Topic_IsValid t =
     (if t \<noteq> None \<and> length (tags t) = 0 then False
      else if MaxTopicCapacity < length (tags t) then False
      else Topic_IsValid_loop {} (tags t))"

definition NewTopic :: "gostring \<Rightarrow> topic result" where
  "NewTopic str =
     (if str = [] then Ok None
      else let t = Some (split_on comma str)
           in if \<not> Topic_IsValid t then Err WrongArguments else Ok t)"

definition Topic_String :: "topic \<Rightarrow> gostring" where
  "Topic_String t = join comma (tags t)"

definition Topic_IsEqual :: "topic \<Rightarrow> topic \<Rightarrow> bool" where
  "Topic_IsEqual t target \<longleftrightarrow> Topic_String t = Topic_String target"

definition ContainsTag :: "topic \<Rightarrow> gostring \<Rightarrow> bool" where
  "ContainsTag t target \<longleftrightarrow> list_ex (\<lambda>tag. tag = target) (tags t)"

definition ContainsTopic :: "topic \<Rightarrow> topic \<Rightarrow> bool" where
  "ContainsTopic t subtop \<longleftrightarrow> list_all (\<lambda>tag. ContainsTag subtop tag) (tags t)"

text \<open>\<open>make([]string, len(t))\<close> is never \<open>nil\<close>, so the copy of the nil topic is not nil.\<close>

definition Topic_Copy :: "topic \<Rightarrow> topic" where
  "Topic_Copy t = Some (tags t)"

fun index_of :: "'a \<Rightarrow> 'a list \<Rightarrow> nat option" where
  "index_of x [] = None"
| "index_of x (y # ys) = (if y = x then Some 0 else map_option Suc (index_of x ys))"

definition Topic_Remove :: "topic \<Rightarrow> gostring \<Rightarrow> topic result" where
  "Topic_Remove t target =
     (let res = tags t in
      case index_of target res of
        None \<Rightarrow> Err NoSuchTag
      | Some i \<Rightarrow> Ok (Some (butlast (res[i := last res]))))"

section \<open>Subscriptions\<close>

type_synonym subscriptions = "topic list"

definition MaxSubscriptionLen :: nat where "MaxSubscriptionLen = 32"

definition Subs_Contains :: "subscriptions \<Rightarrow> topic \<Rightarrow> bool" where
  "Subs_Contains s target \<longleftrightarrow> list_ex (\<lambda>t. Topic_IsEqual t target) s"

definition AddTopic :: "subscriptions \<Rightarrow> topic \<Rightarrow> subscriptions" where
  "AddTopic s t = (if Subs_Contains s t then s else s @ [t])"

definition Subs_Copy :: "subscriptions \<Rightarrow> subscriptions" where
  "Subs_Copy s = foldl (\<lambda>res t. AddTopic res (Topic_Copy t)) [] s"

definition Covers :: "subscriptions \<Rightarrow> topic \<Rightarrow> bool" where
  "Covers s target \<longleftrightarrow> list_ex (\<lambda>t. ContainsTopic t target) s"

definition Subs_Diff :: "subscriptions \<Rightarrow> subscriptions \<Rightarrow> subscriptions" where
  "Subs_Diff s a =
     foldl (\<lambda>res t. if \<not> Covers a t then AddTopic res (Topic_Copy t) else res) [] s"

definition Subs_IsValid :: "subscriptions \<Rightarrow> bool" where
  "Subs_IsValid s =
     (if s = [] then False
      else if MaxSubscriptionLen < length s then False
      else list_all Topic_IsValid s)"

definition Subs_String :: "subscriptions \<Rightarrow> gostring" where
  "Subs_String s = foldl (\<lambda>str t. str @ Topic_String t @ [newline]) [] s"

definition StringSlice :: "subscriptions \<Rightarrow> gostring list" where
  "StringSlice s = map Topic_String s"

lemma index_of_less: "index_of x xs = Some i \<Longrightarrow> i < length xs \<and> xs ! i = x"
  by (induction xs arbitrary: i) (auto split: if_splits)

lemma index_of_None: "index_of x xs = None \<longleftrightarrow> x \<notin> set xs"
  by (induction xs) auto

lemma Topic_Remove_length:
  "Topic_Remove t tag = Inr u \<Longrightarrow> length (tags u) < length (tags t)"
  by (auto simp: Topic_Remove_def Let_def dest: index_of_less split: option.splits)

text \<open>
  \<open>addCombinations\<close> adds a topic and, recursively, every topic with one tag less. A
  failing \<open>Remove\<close> is \<open>log.Fatalf\<close>.
\<close>

function addCombinations :: "subscriptions \<Rightarrow> topic \<Rightarrow> subscriptions result" where
  "addCombinations s t =
     fold_result
       (\<lambda>tag res.
          case Topic_Remove t tag of
            Inl _ \<Rightarrow> Inl Fatal
          | Inr supTopic \<Rightarrow>
              if 0 < length (tags supTopic) then addCombinations res supTopic else Ok res)
       (tags t) (AddTopic s t)"
  by pat_completeness auto
termination
  by (relation "measure (\<lambda>(s, t). length (tags t))") (auto dest: Topic_Remove_length)

declare addCombinations.simps [simp del]

definition ToCombinations :: "subscriptions \<Rightarrow> subscriptions result" where
  "ToCombinations s = fold_result (\<lambda>topic res. addCombinations res topic) s []"

subsection \<open>Reading subscriptions from text\<close>

text \<open>
  \<open>bufio.Scanner\<close> with \<open>ScanLines\<close>: a line ends at a newline or at the end of the
  input, one trailing carriage return is dropped, and a line that does not fit the
  64 KiB buffer stops the scan with an error (the second component).
\<close>

definition MaxScanTokenSize :: nat where "MaxScanTokenSize = 65536"

definition dropCR :: "gostring \<Rightarrow> gostring" where
  "dropCR line = (if line \<noteq> [] \<and> last line = CHR 0x0D then butlast line else line)"

function scan_lines :: "gostring \<Rightarrow> gostring list \<times> bool" where
  "scan_lines s =
     (if s = [] then ([], False)
      else let line = takeWhile (\<lambda>c. c \<noteq> newline) s;
               rest = dropWhile (\<lambda>c. c \<noteq> newline) s
           in if MaxScanTokenSize \<le> length line then ([], True)
              else if rest = [] then ([dropCR line], False)
              else let (ls, e) = scan_lines (tl rest) in (dropCR line # ls, e))"
  by pat_completeness auto
termination
proof (relation "measure length", goal_cases)
  case (2 s line rest)
  then have "length rest \<le> length s" "0 < length s" by (simp_all add: length_dropWhile_le)
  then have "length (tl rest) < length s" by (simp only: length_tl)
  then show ?case by simp
qed simp

declare scan_lines.simps [simp del]

text \<open>
  The loop of \<open>Read\<close>. \<open>None\<close> is the early \<open>return nil, err\<close> of the size check, where
  \<open>err\<close> is the nil error of the \<open>NewTopic\<close> call just made.
\<close>

fun Read_loop :: "gostring list \<Rightarrow> subscriptions \<Rightarrow> subscriptions option" where
  "Read_loop [] subs = Some subs"
| "Read_loop (line # lines) subs =
     (case NewTopic line of
        Inl _ \<Rightarrow> Read_loop lines subs
      | Inr topic \<Rightarrow>
          if Subs_Contains subs topic then Read_loop lines subs
          else if MaxSubscriptionLen < length subs then None
          else Read_loop lines (subs @ [topic]))"

definition ReadString :: "gostring \<Rightarrow> subscriptions result" where
  "ReadString s =
     (let (lines, err) = scan_lines s in
      case Read_loop lines [] of
        None \<Rightarrow> Ok []
      | Some subs \<Rightarrow>
          if err then Err (Foreign ''bufio.Scanner: token too long'') else Ok subs)"

section \<open>Tags and topics: lemmas\<close>

lemma isTagValid_chars:
  assumes "isTagValid tag"
  shows "comma \<notin> set tag \<and> newline \<notin> set tag \<and> CHR 0x0D \<notin> set tag \<and> tag \<noteq> []"
proof -
  have "comma \<notin> set tag_chars" "newline \<notin> set tag_chars" "CHR 0x0D \<notin> set tag_chars"
    by (simp_all add: tag_chars_def comma_def newline_def)
  with assms show ?thesis unfolding isTagValid_def list_all_iff by blast
qed

lemma Topic_IsValid_loop_iff:
  "Topic_IsValid_loop seen ts \<longleftrightarrow>
     distinct ts \<and> set ts \<inter> seen = {} \<and> (\<forall>tag \<in> set ts. isTagValid tag)"
  by (induction seen ts rule: Topic_IsValid_loop.induct) auto

lemma Topic_IsValid_iff:
  "Topic_IsValid t \<longleftrightarrow> t \<noteq> Some [] \<and> length (tags t) \<le> MaxTopicCapacity \<and>
     distinct (tags t) \<and> (\<forall>tag \<in> set (tags t). isTagValid tag)"
  by (cases t) (auto simp: Topic_IsValid_def Topic_IsValid_loop_iff)

lemma Topic_IsValid_None [simp]: "Topic_IsValid None"
  by (simp add: Topic_IsValid_iff)

lemma Topic_String_Copy [simp]: "Topic_String (Topic_Copy t) = Topic_String t"
  by (simp add: Topic_String_def Topic_Copy_def)

lemma tags_Copy [simp]: "tags (Topic_Copy t) = tags t"
  by (simp add: Topic_Copy_def)

lemma ContainsTopic_iff: "ContainsTopic t u \<longleftrightarrow> set (tags t) \<subseteq> set (tags u)"
  by (auto simp: ContainsTopic_def ContainsTag_def list_all_iff list_ex_iff)

lemma Topic_String_inject:
  assumes "Topic_IsValid t" "Topic_IsValid u"
  shows "Topic_String t = Topic_String u \<longleftrightarrow> t = u"
proof
  assume eq: "Topic_String t = Topic_String u"
  have split: "split_on comma (Topic_String v) = tags v" "Topic_String v \<noteq> []"
    if "Topic_IsValid v" "v \<noteq> None" for v
  proof -
    from that have ne: "tags v \<noteq> []" and val: "\<forall>s \<in> set (tags v). comma \<notin> set s \<and> s \<noteq> []"
      by (auto simp: Topic_IsValid_iff dest: isTagValid_chars)
    then show "split_on comma (Topic_String v) = tags v"
      by (simp add: Topic_String_def split_join)
    from ne val show "Topic_String v \<noteq> []"
      unfolding Topic_String_def by (cases "tags v" rule: remdups_adj.cases) auto
  qed
  have none: "Topic_String None = []" by (simp add: Topic_String_def)
  show "t = u"
  proof (cases "t = None \<or> u = None")
    case True
    with eq none split(2) [OF assms(1)] split(2) [OF assms(2)] show ?thesis by metis
  next
    case False
    with eq split(1) [OF assms(1)] split(1) [OF assms(2)] have "tags t = tags u" by metis
    with False show ?thesis by auto
  qed
qed simp

lemma Topic_String_valid:
  assumes "Topic_IsValid t" "t \<noteq> None"
  shows "Topic_String t \<noteq> []" "split_on comma (Topic_String t) = tags t"
proof -
  show "Topic_String t \<noteq> []"
    using Topic_String_inject [OF assms(1) Topic_IsValid_None] assms(2)
    by (simp add: Topic_String_def [of None])
  show "split_on comma (Topic_String t) = tags t"
    using assms by (auto simp: Topic_String_def Topic_IsValid_iff dest: isTagValid_chars
        intro!: split_join)
qed

lemma NewTopic_String: "Topic_IsValid t \<Longrightarrow> NewTopic (Topic_String t) = Ok t"
  by (cases t) (auto simp: NewTopic_def Topic_String_valid Topic_String_def [of None])

lemma NewTopic_Ok:
  assumes "NewTopic s = Inr t"
  shows "Topic_IsValid t" "Topic_String t = s"
proof -
  show "Topic_IsValid t"
    using assms by (auto simp: NewTopic_def Let_def split: if_splits)
  show "Topic_String t = s"
    using assms by (auto simp: NewTopic_def Let_def Topic_String_def join_split split: if_splits)
qed

lemma Topic_Remove_tags:
  assumes "Topic_Remove t tag = Inr u" "distinct (tags t)"
  shows "set (tags u) = set (tags t) - {tag}" "distinct (tags u)" "u \<noteq> None"
    "tag \<in> set (tags t)"
proof -
  from assms(1) obtain i where i: "index_of tag (tags t) = Some i"
    and u: "u = Some (butlast ((tags t)[i := last (tags t)]))"
    by (auto simp: Topic_Remove_def Let_def split: option.splits)
  from index_of_less [OF i] obtain ys where ys: "tags t = ys @ [last (tags t)]"
    by (metis append_butlast_last_id list.size(3) not_less_zero)
  define l where "l = last (tags t)"
  have *: "tags t = ys @ [l]" using ys by (simp add: l_def)
  show "tag \<in> set (tags t)" using index_of_less [OF i] nth_mem by metis
  show "u \<noteq> None" using u by simp
  have "set (tags u) = set (tags t) - {tag} \<and> distinct (tags u)"
  proof (cases "i = length ys")
    case True
    with index_of_less [OF i] u * assms(2) show ?thesis by (auto simp: nth_append)
  next
    case False
    with index_of_less [OF i] * have il: "i < length ys" "ys ! i = tag"
      by (auto simp: nth_append)
    have tu: "tags u = ys[i := l]" using u * il by (simp add: list_update_append)
    have dy: "distinct ys" "l \<notin> set ys" using assms(2) * by auto
    have "set (ys[i := l]) = insert l (set ys - {ys ! i})"
      using dy il by (simp add: set_update_distinct)
    with tu il dy * show ?thesis by (auto intro!: distinct_list_update)
  qed
  then show "set (tags u) = set (tags t) - {tag}" "distinct (tags u)" by auto
qed

lemma Topic_Remove_total:
  "tag \<in> set (tags t) \<Longrightarrow> \<exists>u. Topic_Remove t tag = Inr u"
  using index_of_None [of tag "tags t"]
  by (cases "index_of tag (tags t)") (auto simp: Topic_Remove_def Let_def)

section \<open>Subscriptions: lemmas\<close>

abbreviation wf_topic :: "topic \<Rightarrow> bool" where
  "wf_topic t \<equiv> \<forall>tag \<in> set (tags t). isTagValid tag"

lemma wf_topic_valid: "Topic_IsValid t \<Longrightarrow> wf_topic t"
  by (simp add: Topic_IsValid_iff)

lemma Topic_String_tags:
  assumes "wf_topic t" "wf_topic u" "Topic_String t = Topic_String u"
  shows "tags t = tags u"
proof -
  have split: "split_on comma (Topic_String v) = (if tags v = [] then [[]] else tags v)"
    if "wf_topic v" for v
    using that isTagValid_chars by (auto simp: Topic_String_def intro!: split_join)
  have "[] \<notin> set (tags v)" if "wf_topic v" for v
    using that isTagValid_chars by blast
  with split [OF assms(1)] split [OF assms(2)] assms show ?thesis
    by (metis list.set_intros(1))
qed

lemma Subs_Contains_iff:
  "Subs_Contains s t \<longleftrightarrow> Topic_String t \<in> Topic_String ` set s"
  unfolding Subs_Contains_def Topic_IsEqual_def list_ex_iff image_iff by metis

lemma Covers_iff: "Covers s m \<longleftrightarrow> (\<exists>t \<in> set s. set (tags t) \<subseteq> set (tags m))"
  by (simp add: Covers_def list_ex_iff ContainsTopic_iff)

lemma foldl_AddTopic_subset: "set (foldl AddTopic s ts) \<subseteq> set s \<union> set ts"
proof (induction ts arbitrary: s)
  case (Cons t ts)
  from Cons [of "AddTopic s t"] show ?case by (auto simp: AddTopic_def split: if_splits)
qed simp

lemma foldl_AddTopic_mono: "set s \<subseteq> set (foldl AddTopic s ts)"
proof (induction ts arbitrary: s)
  case (Cons t ts)
  from Cons [of "AddTopic s t"] show ?case by (auto simp: AddTopic_def split: if_splits)
qed simp

lemma foldl_AddTopic_strings:
  "Topic_String ` set (foldl AddTopic s ts) = Topic_String ` set s \<union> Topic_String ` set ts"
  by (induction ts arbitrary: s) (auto simp: AddTopic_def Subs_Contains_iff)

lemma foldl_AddTopic_length: "length (foldl AddTopic s ts) \<le> length s + length ts"
proof (induction ts arbitrary: s)
  case (Cons t ts)
  from Cons [of "AddTopic s t"] show ?case by (simp add: AddTopic_def split: if_splits)
qed simp

lemma foldl_AddTopic_distinct:
  "distinct (map Topic_String s) \<Longrightarrow> distinct (map Topic_String (foldl AddTopic s ts))"
  by (induction ts arbitrary: s) (auto simp: AddTopic_def Subs_Contains_iff)

lemma foldl_AddTopic_Covers:
  assumes "\<forall>t \<in> set s \<union> set ts. wf_topic t"
  shows "Covers (foldl AddTopic s ts) m \<longleftrightarrow> Covers s m \<or> Covers ts m"
proof -
  have wf: "wf_topic t" if "t \<in> set (foldl AddTopic s ts)" for t
    using that foldl_AddTopic_subset [of s ts] assms by blast
  have key: "\<exists>u \<in> set (foldl AddTopic s ts). tags u = tags t" if "t \<in> set s \<union> set ts" for t
  proof -
    have "Topic_String t \<in> Topic_String ` set (foldl AddTopic s ts)"
      using that unfolding foldl_AddTopic_strings by blast
    then obtain u where "u \<in> set (foldl AddTopic s ts)" "Topic_String u = Topic_String t" by force
    with wf assms that Topic_String_tags show ?thesis by blast
  qed
  have "Covers (foldl AddTopic s ts) m" if c: "Covers s m \<or> Covers ts m"
  proof -
    from c obtain t where "t \<in> set s \<union> set ts" "set (tags t) \<subseteq> set (tags m)"
      unfolding Covers_iff by blast
    with key [of t] show ?thesis unfolding Covers_iff by metis
  qed
  moreover have "Covers s m \<or> Covers ts m" if "Covers (foldl AddTopic s ts) m"
    using that foldl_AddTopic_subset [of s ts] unfolding Covers_iff by blast
  ultimately show ?thesis by blast
qed

lemma Subs_Copy_foldl: "Subs_Copy s = foldl AddTopic [] (map Topic_Copy s)"
  by (simp add: Subs_Copy_def foldl_map)

lemma Subs_Diff_foldl:
  "Subs_Diff s a = foldl AddTopic [] (map Topic_Copy (filter (\<lambda>t. \<not> Covers a t) s))"
proof -
  have "foldl (\<lambda>res t. if \<not> Covers a t then AddTopic res (Topic_Copy t) else res) r s
    = foldl AddTopic r (map Topic_Copy (filter (\<lambda>t. \<not> Covers a t) s))" for r
    by (induction s arbitrary: r) auto
  then show ?thesis by (simp add: Subs_Diff_def)
qed

lemma Covers_Copy:
  "\<forall>t \<in> set s. wf_topic t \<Longrightarrow> Covers (Subs_Copy s) m \<longleftrightarrow> Covers s m"
  unfolding Subs_Copy_foldl by (subst foldl_AddTopic_Covers) (auto simp: Covers_iff)

lemma Covers_Diff:
  "\<forall>t \<in> set s. wf_topic t \<Longrightarrow>
     Covers (Subs_Diff s a) m \<longleftrightarrow> (\<exists>t \<in> set s. \<not> Covers a t \<and> ContainsTopic t m)"
  unfolding Subs_Diff_foldl
  by (subst foldl_AddTopic_Covers) (auto simp: Covers_iff ContainsTopic_iff)

lemma Covers_trans: "Covers a t \<Longrightarrow> ContainsTopic t m \<Longrightarrow> Covers a m"
  by (auto simp: Covers_iff ContainsTopic_iff)

lemma Subs_Diff_Nil: "Subs_Diff s a = [] \<longleftrightarrow> (\<forall>t \<in> set s. Covers a t)"
proof -
  have "Topic_String ` set (Subs_Diff s a)
    = Topic_String ` set (map Topic_Copy (filter (\<lambda>t. \<not> Covers a t) s))"
    unfolding Subs_Diff_foldl foldl_AddTopic_strings by simp
  then have "set (Subs_Diff s a) = {} \<longleftrightarrow> {t \<in> set s. \<not> Covers a t} = {}"
    unfolding set_map set_filter image_is_empty [of Topic_String, symmetric]
    by (simp only: image_is_empty)
  then show ?thesis by auto
qed

lemma Subs_IsValidD:
  "Subs_IsValid s \<Longrightarrow> s \<noteq> [] \<and> length s \<le> MaxSubscriptionLen \<and> (\<forall>t \<in> set s. Topic_IsValid t)"
  by (auto simp: Subs_IsValid_def list_all_iff split: if_splits)

lemma Subs_Copy_valid:
  assumes "Subs_IsValid s"
  shows "Subs_IsValid (Subs_Copy s) \<longleftrightarrow> None \<notin> set s"
proof
  assume valid: "Subs_IsValid (Subs_Copy s)"
  show "None \<notin> set s"
  proof
    assume "None \<in> set s"
    then have "Topic_String None \<in> Topic_String ` set (Subs_Copy s)"
      unfolding Subs_Copy_foldl foldl_AddTopic_strings
      using image_eqI [of "Topic_String None" Topic_String "Topic_Copy None"] by simp
    then obtain u where u: "u \<in> set (Subs_Copy s)" "Topic_String u = Topic_String None" by force
    then have "Topic_IsValid u" using valid Subs_IsValidD by blast
    with u have "u = None" using Topic_String_inject [of u None] by simp
    moreover have "u \<in> Topic_Copy ` set s"
      using u foldl_AddTopic_subset [of "[]"] unfolding Subs_Copy_foldl by fastforce
    ultimately show False by (auto simp: Topic_Copy_def)
  qed
next
  assume "None \<notin> set s"
  then have "Topic_Copy t = t" if "t \<in> set s" for t
    using that by (cases t) (auto simp: Topic_Copy_def)
  then have "map Topic_Copy s = s" by (simp add: map_idI)
  then have eq: "Subs_Copy s = foldl AddTopic [] s" by (simp add: Subs_Copy_foldl)
  from Subs_IsValidD [OF assms] have v: "s \<noteq> []" "length s \<le> MaxSubscriptionLen"
    "\<forall>t \<in> set s. Topic_IsValid t" by auto
  have "Topic_String ` set (Subs_Copy s) \<noteq> {}"
    unfolding eq foldl_AddTopic_strings using v(1) by simp
  with v eq foldl_AddTopic_length [of "[]" s] foldl_AddTopic_subset [of "[]" s]
  show "Subs_IsValid (Subs_Copy s)"
    by (auto simp: Subs_IsValid_def list_all_iff)
qed

subsection \<open>Combinations\<close>

lemma wf_topic_Remove:
  assumes "Topic_Remove t tag = Inr u" "distinct (tags t)" "wf_topic t"
  shows "wf_topic u"
  using Topic_Remove_tags(1) [OF assms(1,2)] assms(3) by auto

lemma AddTopic_has:
  assumes "\<forall>u \<in> set s. wf_topic u" "wf_topic t"
  shows "\<exists>u \<in> set (AddTopic s t). tags u = tags t"
proof (cases "Subs_Contains s t")
  case True
  then obtain u where "u \<in> set s" "Topic_String u = Topic_String t"
    unfolding Subs_Contains_iff by force
  moreover from this assms have "tags u = tags t" by (intro Topic_String_tags) auto
  ultimately show ?thesis using True unfolding AddTopic_def by auto
qed (auto simp: AddTopic_def)

text \<open>
  What \<open>addCombinations\<close> owes: it does not fail, adds only topics whose tags all come
  from \<open>t\<close>, and every non-empty set of tags of \<open>t\<close> is there afterwards.
\<close>

definition combos_grow :: "topic \<Rightarrow> subscriptions \<Rightarrow> subscriptions \<Rightarrow> bool" where
  "combos_grow t s r \<longleftrightarrow> set s \<subseteq> set r \<and> (\<forall>u \<in> set r - set s. set (tags u) \<subseteq> set (tags t))"

definition combos_all :: "topic \<Rightarrow> subscriptions \<Rightarrow> bool" where
  "combos_all t r \<longleftrightarrow> (\<forall>A. A \<noteq> {} \<and> A \<subseteq> set (tags t) \<longrightarrow> (\<exists>u \<in> set r. set (tags u) = A))"

lemma combos_grow_refl [simp]: "combos_grow t s s"
  by (simp add: combos_grow_def)

lemma combos_grow_trans: "combos_grow t s r \<Longrightarrow> combos_grow t r q \<Longrightarrow> combos_grow t s q"
  unfolding combos_grow_def by blast

lemma combos_all_mono: "combos_all t r \<Longrightarrow> set r \<subseteq> set q \<Longrightarrow> combos_all t q"
  unfolding combos_all_def by (meson subsetD)

lemma AddTopic_grow: "combos_grow t s (AddTopic s t)"
  by (auto simp: combos_grow_def AddTopic_def)

lemma combos_all_step:
  assumes "distinct (tags t)"
    and "\<exists>u \<in> set r. tags u = tags t"
    and "\<forall>tag \<in> set (tags t). \<forall>u. Topic_Remove t tag = Inr u \<longrightarrow> tags u \<noteq> [] \<longrightarrow> combos_all u r"
  shows "combos_all t r"
  unfolding combos_all_def
proof (intro allI impI)
  fix A assume A: "A \<noteq> {} \<and> A \<subseteq> set (tags t)"
  show "\<exists>u \<in> set r. set (tags u) = A"
  proof (cases "A = set (tags t)")
    case True
    with assms(2) show ?thesis by metis
  next
    case False
    with A obtain tag where tag: "tag \<in> set (tags t)" "tag \<notin> A" by auto
    with Topic_Remove_total obtain u where u: "Topic_Remove t tag = Inr u" by blast
    from Topic_Remove_tags(1) [OF u assms(1)] A tag have "A \<subseteq> set (tags u)" by auto
    moreover have "tags u \<noteq> []" using A \<open>A \<subseteq> set (tags u)\<close> by auto
    ultimately show ?thesis using assms(3) tag(1) u A unfolding combos_all_def by blast
  qed
qed

lemma addCombinations_spec:
  assumes "distinct (tags t)" "wf_topic t" "\<forall>u \<in> set s. wf_topic u"
  shows "\<exists>r. addCombinations s t = Inr r \<and> (\<forall>u \<in> set r. wf_topic u) \<and>
           combos_grow t s r \<and> combos_all t r"
  using assms
proof (induction s t rule: addCombinations.induct)
  case (1 s t)
  let ?f = "\<lambda>tag res. case Topic_Remove t tag of Inl _ \<Rightarrow> Inl Fatal
    | Inr v \<Rightarrow> if 0 < length (tags v) then addCombinations res v else Ok res"
  let ?Q = "\<lambda>tag r. \<forall>u. Topic_Remove t tag = Inr u \<longrightarrow> tags u \<noteq> [] \<longrightarrow> combos_all u r"
  let ?I = "\<lambda>r. \<forall>u \<in> set r. wf_topic u"
  have step: "\<exists>r'. ?f tag r = Inr r' \<and> ?I r' \<and> combos_grow t r r' \<and> ?Q tag r'"
    if tag: "tag \<in> set (tags t)" and I: "?I r" for tag r
  proof -
    obtain u where u: "Topic_Remove t tag = Inr u" using Topic_Remove_total [OF tag] by blast
    note ut = Topic_Remove_tags [OF u "1.prems"(1)]
    show ?thesis
    proof (cases "0 < length (tags u)")
      case True
      from "1.IH" [OF tag u True ut(2) wf_topic_Remove [OF u "1.prems"(1,2)] I]
      obtain r' where "addCombinations r u = Inr r'" "?I r'" "combos_grow u r r'" "combos_all u r'"
        by blast
      moreover from this(3) ut(1) have "combos_grow t r r'" by (auto simp: combos_grow_def)
      ultimately show ?thesis using u True by auto
    next
      case False
      then show ?thesis using u I by auto
    qed
  qed
  have I0: "?I (AddTopic s t)" using "1.prems" by (auto simp: AddTopic_def)
  have Qmono: "?Q tag q" if "?Q tag r" "combos_grow t r q" for tag r q
    using that combos_all_mono unfolding combos_grow_def by blast
  have "\<exists>r. fold_result ?f (tags t) (AddTopic s t) = Inr r \<and> ?I r \<and>
      combos_grow t (AddTopic s t) r \<and> (\<forall>tag \<in> set (tags t). ?Q tag r)"
  proof (rule fold_result_rule)
    show "combos_grow t r q \<Longrightarrow> combos_grow t q p \<Longrightarrow> combos_grow t r p" for r q p
      by (rule combos_grow_trans)
    show "?Q tag r \<Longrightarrow> combos_grow t r q \<Longrightarrow> ?Q tag q" for tag r q by (rule Qmono)
  qed (use step I0 in auto)
  then obtain r where r: "fold_result ?f (tags t) (AddTopic s t) = Inr r" "?I r"
    "combos_grow t (AddTopic s t) r" "\<forall>tag \<in> set (tags t). ?Q tag r" by blast
  have "\<exists>u \<in> set r. tags u = tags t"
    using AddTopic_has [of s t] "1.prems"(2,3) r(3) by (auto simp: combos_grow_def)
  then have "combos_all t r" using combos_all_step "1.prems"(1) r(4) by blast
  moreover have "combos_grow t s r" using AddTopic_grow r(3) combos_grow_trans by blast
  ultimately show ?case using r(1,2) by (simp add: addCombinations.simps [of s t])
qed

lemma ToCombinations_spec:
  assumes "\<forall>t \<in> set s. Topic_IsValid t"
  shows "\<exists>r. ToCombinations s = Inr r \<and>
     (\<forall>u \<in> set r. \<exists>t \<in> set s. set (tags u) \<subseteq> set (tags t)) \<and> (\<forall>t \<in> set s. combos_all t r)"
proof -
  let ?I = "\<lambda>r. (\<forall>u \<in> set r. wf_topic u) \<and> (\<forall>u \<in> set r. \<exists>t \<in> set s. set (tags u) \<subseteq> set (tags t))"
  have "\<exists>r'. addCombinations r t = Inr r' \<and> ?I r' \<and> set r \<subseteq> set r' \<and> combos_all t r'"
    if "t \<in> set s" "?I r" for t r
  proof -
    have "distinct (tags t)" "wf_topic t" using assms that by (auto simp: Topic_IsValid_iff)
    with addCombinations_spec [of t r] that obtain r' where "addCombinations r t = Inr r'"
      "\<forall>u \<in> set r'. wf_topic u" "combos_grow t r r'" "combos_all t r'" by blast
    moreover from this(3) that have "\<forall>u \<in> set r'. \<exists>t \<in> set s. set (tags u) \<subseteq> set (tags t)"
      unfolding combos_grow_def by blast
    ultimately show ?thesis using combos_grow_def by blast
  qed
  note step = this
  have "\<exists>r. fold_result (\<lambda>t r. addCombinations r t) s [] = Inr r \<and> ?I r \<and>
      set [] \<subseteq> set r \<and> (\<forall>t \<in> set s. combos_all t r)"
    by (rule fold_result_rule) (use step combos_all_mono in auto)
  then show ?thesis unfolding ToCombinations_def by auto
qed

subsection \<open>Reading text\<close>

lemma Subs_String_concat: "Subs_String s = concat (map (\<lambda>t. Topic_String t @ [newline]) s)"
proof -
  have "foldl (\<lambda>str t. str @ Topic_String t @ [newline]) r s
    = r @ concat (map (\<lambda>t. Topic_String t @ [newline]) s)" for r
    by (induction s arbitrary: r) auto
  from this [of "[]"] show ?thesis by (simp add: Subs_String_def)
qed

lemma length_join_bound:
  "\<forall>s \<in> set ss. length s \<le> k \<Longrightarrow> length (join c ss) \<le> length ss * Suc k"
  by (induction c ss rule: join.induct) auto

lemma Topic_String_short:
  assumes "Topic_IsValid t"
  shows "length (Topic_String t) < MaxScanTokenSize"
proof -
  have "length (Topic_String t) \<le> length (tags t) * Suc MaxTagLen"
    unfolding Topic_String_def using assms
    by (intro length_join_bound) (auto simp: Topic_IsValid_iff isTagValid_def)
  also have "\<dots> \<le> 8 * 25"
    using assms mult_le_mono1 [of "length (tags t)" 8 25]
    by (auto simp: Topic_IsValid_iff MaxTopicCapacity_def MaxTagLen_def)
  finally show ?thesis by (simp add: MaxScanTokenSize_def)
qed

lemma Topic_String_chars:
  assumes "Topic_IsValid t"
  shows "newline \<notin> set (Topic_String t)" "CHR 0x0D \<notin> set (Topic_String t)"
proof -
  have "newline \<notin> set tag \<and> CHR 0x0D \<notin> set tag" if "tag \<in> set (tags t)" for tag
    using assms that isTagValid_chars by (auto simp: Topic_IsValid_iff)
  moreover have "newline \<noteq> comma" "CHR 0x0D \<noteq> comma" by (simp_all add: newline_def comma_def)
  ultimately show "newline \<notin> set (Topic_String t)" "CHR 0x0D \<notin> set (Topic_String t)"
    using set_join_subset [of comma "tags t"] unfolding Topic_String_def by blast+
qed

lemma scan_lines_Cons:
  assumes "newline \<notin> set l" "length l < MaxScanTokenSize"
  shows "scan_lines (l @ newline # s) = (dropCR l # fst (scan_lines s), snd (scan_lines s))"
proof -
  have "takeWhile (\<lambda>c. c \<noteq> newline) (l @ newline # s) = l"
    "dropWhile (\<lambda>c. c \<noteq> newline) (l @ newline # s) = newline # s"
    using assms(1) by (auto simp: takeWhile_append dropWhile_append)
  then show ?thesis
    using assms(2) by (subst scan_lines.simps) (simp add: Let_def split_beta)
qed

lemma scan_lines_String:
  "\<forall>t \<in> set s. Topic_IsValid t \<Longrightarrow> scan_lines (Subs_String s) = (map Topic_String s, False)"
proof (induction s)
  case Nil
  show ?case by (subst scan_lines.simps) (simp add: Subs_String_concat)
next
  case (Cons t s)
  then have t: "Topic_IsValid t" by simp
  have "dropCR (Topic_String t) = Topic_String t"
    using Topic_String_chars(2) [OF t] last_in_set by (fastforce simp: dropCR_def)
  moreover have "Subs_String (t # s) = Topic_String t @ newline # Subs_String s"
    by (simp add: Subs_String_concat)
  ultimately show ?case
    using Cons scan_lines_Cons [OF Topic_String_chars(1) [OF t] Topic_String_short [OF t]] by simp
qed

lemma Read_loop_String:
  assumes "\<forall>t \<in> set (subs @ s). Topic_IsValid t" "distinct (subs @ s)"
    "length subs \<le> Suc MaxSubscriptionLen"
  shows "Read_loop (map Topic_String s) subs =
    (if length (subs @ s) \<le> Suc MaxSubscriptionLen then Some (subs @ s) else None)"
  using assms
proof (induction s arbitrary: subs)
  case (Cons t s)
  have new: "NewTopic (Topic_String t) = Ok t" using Cons.prems NewTopic_String by simp
  have "\<not> Subs_Contains subs t"
  proof
    assume "Subs_Contains subs t"
    then obtain u where "u \<in> set subs" "Topic_String u = Topic_String t"
      unfolding Subs_Contains_iff by force
    with Cons.prems Topic_String_inject [of u t] show False by auto
  qed
  with Cons.IH [of "subs @ [t]"] Cons.prems new show ?case by auto
qed simp

lemma Read_loop_Some:
  assumes "Read_loop lines subs = Some r"
    "\<forall>t \<in> set subs. Topic_IsValid t" "length subs \<le> Suc MaxSubscriptionLen"
  shows "(\<forall>t \<in> set r. Topic_IsValid t) \<and> length r \<le> Suc MaxSubscriptionLen"
  using assms
  by (induction lines subs rule: Read_loop.induct)
    (auto split: sum.splits if_splits dest: NewTopic_Ok)

section \<open>Properties\<close>

text \<open>
  Parsing and printing a topic are inverse: \<open>NewTopic\<close> accepts exactly the strings
  that some valid topic prints as, and returns that topic; every other string is an error.
\<close>

theorem NewTopic_iff: "NewTopic s = Ok t \<longleftrightarrow> Topic_IsValid t \<and> Topic_String t = s"
  using NewTopic_Ok NewTopic_String by blast

text \<open>
  \<open>Diff\<close> loses nothing that is news to the peer: for subscriptions \<open>s\<close> made of valid
  topics, a topic the old subscriptions \<open>a\<close> did not cover is covered by \<open>s.Diff(a)\<close>
  exactly when \<open>s\<close> covers it, and the difference never covers anything \<open>s\<close> does not.
\<close>

theorem Diff_covers_new:
  assumes "\<forall>t \<in> set s. Topic_IsValid t"
  shows "(\<not> Covers a m \<longrightarrow> Covers (Subs_Diff s a) m = Covers s m) \<and>
         (Covers (Subs_Diff s a) m \<longrightarrow> Covers s m) \<and>
         (Subs_Diff s a = [] \<longleftrightarrow> (\<forall>t \<in> set s. Covers a t))"
proof -
  have "\<forall>t \<in> set s. wf_topic t" using assms wf_topic_valid by blast
  note D = Covers_Diff [OF this, of a m]
  have "Covers s m \<longleftrightarrow> (\<exists>t \<in> set s. ContainsTopic t m)" by (simp add: Covers_def list_ex_iff)
  then show ?thesis using D Covers_trans [of a _ m] Subs_Diff_Nil by blast
qed

theorem Diff_covers_new_witness:
  "\<not> Covers [Some [''go'']] (Some [''c'', ''go_lang'']) \<and>
   Covers (Subs_Diff [Some [''go''], Some [''c'']] [Some [''go'']]) (Some [''c'', ''go_lang''])"
proof -
  have v: "\<forall>t \<in> set [Some [''go''], Some [''c'']]. Topic_IsValid t"
    by (simp add: Topic_IsValid_iff isTagValid_def tag_chars_def MaxTagLen_def MaxTopicCapacity_def)
  have a: "\<not> Covers [Some [''go'']] (Some [''c'', ''go_lang''])"
    and s: "Covers [Some [''go''], Some [''c'']] (Some [''c'', ''go_lang''])"
    by (simp_all add: Covers_iff)
  from Diff_covers_new [OF v, of "[Some [''go'']]" "Some [''c'', ''go_lang'']"] a s
  show ?thesis by blast
qed

text \<open>
  \<open>ToCombinations\<close>, which tells the DHT crawler what to look up, terminates without
  its fatal branch and yields, as sets of tags, all the non-empty subsets of the
  subscribed topics and nothing outside them.
\<close>

theorem ToCombinations_powerset:
  assumes "\<forall>t \<in> set s. Topic_IsValid t"
  shows "\<exists>r. ToCombinations s = Ok r \<and>
    (\<forall>u \<in> set r. \<exists>t \<in> set s. set (tags u) \<subseteq> set (tags t)) \<and>
    (\<forall>t \<in> set s. \<forall>A. A \<noteq> {} \<and> A \<subseteq> set (tags t) \<longrightarrow> (\<exists>u \<in> set r. set (tags u) = A))"
  using ToCombinations_spec [OF assms] by (simp add: combos_all_def)

theorem ToCombinations_powerset_witness:
  "\<exists>r. ToCombinations [Some [''a'', ''b'']] = Ok r \<and> (\<exists>u \<in> set r. set (tags u) = {''b''})"
proof -
  have "\<forall>t \<in> set [Some [''a'', ''b'']]. Topic_IsValid t"
    by (simp add: Topic_IsValid_iff isTagValid_def tag_chars_def MaxTagLen_def MaxTopicCapacity_def)
  from ToCombinations_powerset [OF this] show ?thesis by fastforce
qed

text \<open>
  Reading back what \<open>Subscriptions.String\<close> prints. For distinct valid topics
  \<open>ReadString\<close> returns them all, in order, as long as there are at most 33, one more than
  \<open>MaxSubscriptionLen\<close>; with more it returns no topics and no error, because the error
  variable it returns is the nil error of the last \<open>NewTopic\<close>.
\<close>

theorem ReadString_String:
  assumes "\<forall>t \<in> set s. Topic_IsValid t" "distinct s"
  shows "ReadString (Subs_String s) =
    (if length s \<le> MaxSubscriptionLen + 1 then Ok s else Ok [])"
  using Read_loop_String [of "[]" s] assms scan_lines_String [OF assms(1)]
  by (auto simp: ReadString_def)

definition ex_topics :: "nat \<Rightarrow> subscriptions" where
  "ex_topics n = map (\<lambda>i. Some [replicate (i mod 10 + 1) CHR ''a'' @ replicate (i div 10) CHR ''b'']) [0..<n]"

lemma ex_topics_valid: "\<forall>t \<in> set (ex_topics 34). Topic_IsValid t"
  by (simp add: ex_topics_def Topic_IsValid_iff isTagValid_def tag_chars_def MaxTagLen_def
      MaxTopicCapacity_def upt_rec list_all_iff)

lemma ex_topics_distinct: "distinct (ex_topics 34)"
  unfolding ex_topics_def by code_simp

theorem ReadString_String_witness:
  "length (ex_topics 34) = 34 \<and> ReadString (Subs_String (ex_topics 34)) = Ok []"
  using ReadString_String [OF ex_topics_valid ex_topics_distinct]
  by (simp add: ex_topics_def MaxSubscriptionLen_def)

text \<open>
  The nil topic (subscribe to everything) is valid, but a copied list of subscriptions
  is valid only if the nil topic was not in it: \<open>Copy\<close> turns it into an empty topic.
  \<open>Profile.GetSubscriptions\<close> copies, so such an owner sends a Hello its peers reject.
\<close>

theorem Copy_valid_iff_no_nil:
  assumes "Subs_IsValid s"
  shows "Subs_IsValid (Subs_Copy s) \<longleftrightarrow> None \<notin> set s"
  using Subs_Copy_valid [OF assms] .

theorem Copy_valid_iff_no_nil_witness: "Subs_IsValid [None] \<and> \<not> Subs_IsValid (Subs_Copy [None])"
proof -
  have v: "Subs_IsValid [None]" by (simp add: Subs_IsValid_def MaxSubscriptionLen_def)
  from Copy_valid_iff_no_nil [OF v] v show ?thesis by simp
qed

end
