(* ===== verification/Crypto.thy ===== *)
theory Crypto
  imports Encoding
begin

text \<open>
  Signatures and keys (\<open>crypto/signature.go\<close>, \<open>signer.go\<close>, \<open>public_key.go\<close>).

  The primitives themselves (SHA-256, ECDSA, the X.509 key encoding, scrypt) are the
  fields of the record \<open>crypto\<close>, a parameter of everything that uses them; what is
  modelled is what the program does around them: how a signature is laid out, cut in two
  and encoded, and where that code can panic.
\<close>

text \<open>An ECDSA public key: the bit length of its curve's prime, and the point.\<close>

record pubkey =
  pk_bits :: nat
  pk_x :: nat
  pk_y :: nat

text \<open>What \<open>x509.ParsePKIXPublicKey\<close> finds: nothing, an ECDSA key, or another kind.\<close>

datatype pkix = Malformed_key | Ecdsa_key pubkey | Other_key

record crypto =
  sha256 :: "bytes \<Rightarrow> bytes"
  marshal_pkix :: "pubkey \<Rightarrow> bytes"
  parse_pkix :: "bytes \<Rightarrow> pkix"
  ecdsa_verify :: "pubkey \<Rightarrow> bytes \<Rightarrow> nat \<Rightarrow> nat \<Rightarrow> bool"
  scrypt_key :: "bytes \<Rightarrow> bytes \<Rightarrow> bytes"

text \<open>
  A signer holds a private key: its public half, and \<open>ecdsa.Sign\<close> on a digest, which
  yields the pair of integers or fails.
\<close>

record signer =
  s_public :: pubkey
  s_sign :: "bytes \<Rightarrow> (nat \<times> nat) option"

type_synonym signature = bytes

definition curveOrderByteLen :: "pubkey \<Rightarrow> nat" where
  "curveOrderByteLen pk = pk_bits pk div 8"

section \<open>Public keys\<close>

definition ParsePublicKeyFromDER :: "crypto \<Rightarrow> bytes \<Rightarrow> pubkey result" where
  "ParsePublicKeyFromDER cr encodedKey =
     (case parse_pkix cr encodedKey of
        Malformed_key \<Rightarrow> Err Parsing
      | Other_key \<Rightarrow> Inl Fatal
      | Ecdsa_key pub \<Rightarrow> Ok pub)"

definition EncodeToDER :: "crypto \<Rightarrow> pubkey \<Rightarrow> bytes" where
  "EncodeToDER cr key = marshal_pkix cr key"

definition quote :: char where "quote = CHR 0x22"

text \<open>\<open>bytes.Trim(b, "\"")\<close>: quotes off both ends.\<close>

definition trim_quotes :: "gostring \<Rightarrow> gostring" where
  "trim_quotes b = rev (dropWhile (\<lambda>c. c = quote) (rev (dropWhile (\<lambda>c. c = quote) b)))"

text \<open>The buffer \<open>make([]byte, enc.DecodedLen(n))\<close> a raw text of length \<open>n\<close> is decoded into.\<close>

definition raw_buffer :: "gostring \<Rightarrow> bytes" where
  "raw_buffer s = replicate (length s * 6 div 8) 0"

definition PublicKey_MarshalJSON :: "crypto \<Rightarrow> pubkey \<Rightarrow> gostring" where
  "PublicKey_MarshalJSON cr key = quote # rawurl_encode (EncodeToDER cr key) @ [quote]"

definition PublicKey_UnmarshalJSON :: "crypto \<Rightarrow> gostring \<Rightarrow> pubkey result" where
  "PublicKey_UnmarshalJSON cr b =
     (let trimmed = trim_quotes b in
      case rawurl_decode trimmed of
        None \<Rightarrow> Err Parsing
      | Some bs \<Rightarrow> ParsePublicKeyFromDER cr (go_copy (raw_buffer trimmed) bs))"

text \<open>
  \<open>sig[:n]\<close> and \<open>sig[n:]\<close> are out of range, a panic, when the signature is shorter than
  \<open>n\<close>.
\<close>

definition Verify :: "crypto \<Rightarrow> pubkey \<Rightarrow> bytes \<Rightarrow> signature \<Rightarrow> bool result" where
  "Verify cr key data sig =
     (let digest = sha256 cr data; n = curveOrderByteLen key in
      if length sig < n then Inl Panic
      else Ok (ecdsa_verify cr key digest (be_value (take n sig)) (be_value (drop n sig))))"

section \<open>Signing\<close>

text \<open>
  \<open>copy(Signature[n-len(b):], b)\<close>: a panic when \<open>b\<close> has more than \<open>n\<close> bytes.
\<close>

definition put_right :: "bytes \<Rightarrow> nat \<Rightarrow> bytes \<Rightarrow> bytes result" where
  "put_right buf n b =
     (if n < length b then Inl Panic
      else Ok (take (n - length b) buf @ go_copy (drop (n - length b) buf) b))"

definition Sign :: "crypto \<Rightarrow> signer \<Rightarrow> bytes \<Rightarrow> signature result" where
  "Sign cr s data =
     (case s_sign s (sha256 cr data) of
        None \<Rightarrow> Err Internal
      | Some (r, t) \<Rightarrow>
          let n = curveOrderByteLen (s_public s)
          in bind_result (put_right (replicate (n * 2) 0) n (be_bytes r))
               (\<lambda>sig. put_right sig (n * 2) (be_bytes t)))"

section \<open>Signature encoding\<close>

definition Signature_Encode :: "signature \<Rightarrow> gostring" where
  "Signature_Encode sig = rawurl_encode sig"

definition ParseSignature :: "gostring \<Rightarrow> signature result" where
  "ParseSignature b64sig =
     (case rawurl_decode b64sig of
        None \<Rightarrow> Err Parsing
      | Some bs \<Rightarrow> Ok (go_copy (raw_buffer b64sig) bs))"

definition Signature_MarshalJSON :: "signature \<Rightarrow> gostring" where
  "Signature_MarshalJSON sig = quote # Signature_Encode sig @ [quote]"

definition Signature_UnmarshalJSON :: "gostring \<Rightarrow> signature result" where
  "Signature_UnmarshalJSON b = ParseSignature (trim_quotes b)"

section \<open>Lemmas\<close>

lemma alphabet_nth_other:
  assumes "good_alphabet al" "c \<notin> set al" "n < 64"
  shows "c \<noteq> al ! n" "al ! n \<noteq> c"
  using assms nth_mem [of n al] by (force simp: good_alphabet_def)+

lemma b64_encode_no_quote:
  "good_alphabet al \<Longrightarrow> quote \<notin> set al \<Longrightarrow> quote \<notin> set (b64_encode pad al xs)"
proof (induction pad al xs rule: b64_encode.induct)
  case (2 pad al a)
  with alphabet_nth_other show ?case by (auto simp: Let_def symbols_less quote_def)
next
  case (3 pad al a b)
  with alphabet_nth_other show ?case by (auto simp: Let_def symbols_less quote_def)
next
  case (4 pad al a b c xs)
  with alphabet_nth_other show ?case by (auto simp: Let_def symbols_less)
qed simp

lemma rawurl_no_quote: "quote \<notin> set (rawurl_encode xs)"
proof -
  have "quote \<notin> set url_alphabet" by (simp add: url_alphabet_def quote_def)
  then show ?thesis unfolding rawurl_encode_def by (intro b64_encode_no_quote) simp_all
qed

lemma std_no_quote: "quote \<notin> set (std_encode xs)"
proof -
  have "quote \<notin> set std_alphabet" by (simp add: std_alphabet_def quote_def)
  then show ?thesis unfolding std_encode_def by (intro b64_encode_no_quote) simp_all
qed

lemma trim_quotes_quoted:
  assumes "quote \<notin> set s"
  shows "trim_quotes (quote # s @ [quote]) = s"
proof -
  have drop: "dropWhile (\<lambda>c. c = quote) (s' @ [quote]) = (if s' = [] then [] else s' @ [quote])"
    "dropWhile (\<lambda>c. c = quote) s' = s'" if "quote \<notin> set s'" for s'
    using that by (cases s'; auto)+
  show ?thesis
    using assms drop [of s] drop(2) [of "rev s"] by (auto simp: trim_quotes_def)
qed

lemma length_raw_buffer: "length (raw_buffer (rawurl_encode xs)) = length xs"
  unfolding raw_buffer_def length_replicate length_rawurl_encode by presburger

lemma raw_buffer_decode:
  "go_copy (raw_buffer (rawurl_encode xs)) xs = xs"
  by (simp add: length_raw_buffer)

text \<open>A well-formed key of another kind than ECDSA, in the JSON form of a user, ends the process.\<close>

theorem Foreign_key_is_fatal:
  assumes "parse_pkix cr der = Other_key"
  shows "PublicKey_UnmarshalJSON cr (quote # rawurl_encode der @ [quote]) = Inl Fatal"
  using assms
  by (simp add: PublicKey_UnmarshalJSON_def trim_quotes_quoted rawurl_no_quote raw_buffer_decode ParsePublicKeyFromDER_def Let_def)

lemma ParseSignature_Encode: "ParseSignature (Signature_Encode sig) = Ok sig"
  by (simp add: ParseSignature_def Signature_Encode_def raw_buffer_decode)

lemma put_right_zeros:
  "length b \<le> n \<Longrightarrow> n \<le> length buf \<Longrightarrow>
     put_right buf n b = Ok (take (n - length b) buf @ b @ drop n buf)"
  by (simp add: put_right_def go_copy_def)

lemma Sign_layout:
  assumes "s_sign s (sha256 cr data) = Some (r, t)"
    and "r < 256 ^ n" "t < 256 ^ n" "n = curveOrderByteLen (s_public s)"
  shows "Sign cr s data =
    Ok ((replicate (n - length (be_bytes r)) 0 @ be_bytes r)
      @ (replicate (n - length (be_bytes t)) 0 @ be_bytes t))"
proof -
  define k l where "k = length (be_bytes r)" and "l = length (be_bytes t)"
  have kl: "k \<le> n" "l \<le> n" using assms length_be_bytes by (auto simp: k_def l_def)
  have le: "n - k \<le> n * 2" by linarith
  have "put_right (replicate (n * 2) 0) n (be_bytes r)
    = Ok (replicate (n - k) 0 @ be_bytes r @ replicate n 0)"
    using kl by (simp add: put_right_zeros min_absorb1 [OF le] mult_2_right flip: k_def)
  moreover have "put_right (replicate (n - k) 0 @ be_bytes r @ replicate n 0) (n * 2) (be_bytes t)
    = Ok (replicate (n - k) 0 @ be_bytes r @ replicate (n - l) 0 @ be_bytes t)"
    using kl put_right_zeros [of "be_bytes t" "n * 2" "replicate (n - k) 0 @ be_bytes r @ replicate n 0"]
    by (simp add: mult_2_right flip: k_def l_def)
  ultimately show ?thesis using assms(1) by (simp add: Sign_def assms(4) [symmetric] k_def l_def)
qed

lemma Verify_Panic_iff: "Verify cr key data sig = Inl Panic \<longleftrightarrow> length sig < curveOrderByteLen key"
  by (simp add: Verify_def Let_def)

lemma Verify_not_Error [simp]: "Verify cr key data sig \<noteq> Inl (Error e)" "Verify cr key data sig \<noteq> Inl Fatal"
  by (simp_all add: Verify_def Let_def)

text \<open>
  What the program relies on of ECDSA: the integers of a signature fit the byte length of
  the curve, and a signature by a key verifies under that key.
\<close>

definition good_signer :: "crypto \<Rightarrow> signer \<Rightarrow> bool" where
  "good_signer cr s \<longleftrightarrow> (\<forall>d r t. s_sign s d = Some (r, t) \<longrightarrow>
     r < 256 ^ curveOrderByteLen (s_public s) \<and> t < 256 ^ curveOrderByteLen (s_public s) \<and>
     ecdsa_verify cr (s_public s) d r t)"

lemma Verify_Sign_layout:
  assumes "length (be_bytes r) \<le> n" "length (be_bytes t) \<le> n" "n = curveOrderByteLen key"
  shows "Verify cr key data ((replicate (n - length (be_bytes r)) 0 @ be_bytes r)
      @ (replicate (n - length (be_bytes t)) 0 @ be_bytes t))
    = Ok (ecdsa_verify cr key (sha256 cr data) r t)"
  using assms by (simp add: Verify_def Let_def)

lemma good_signer_Verify:
  assumes "good_signer cr s" "Sign cr s data = Inr sig"
  shows "Verify cr (s_public s) data sig = Ok True"
proof -
  from assms(2) obtain r t where rt: "s_sign s (sha256 cr data) = Some (r, t)"
    by (auto simp: Sign_def split: option.splits)
  let ?n = "curveOrderByteLen (s_public s)"
  from assms(1) rt have b: "r < 256 ^ ?n" "t < 256 ^ ?n"
    and v: "ecdsa_verify cr (s_public s) (sha256 cr data) r t"
    by (auto simp: good_signer_def)
  from Sign_layout [OF rt b refl] assms(2) show ?thesis
    using Verify_Sign_layout [OF length_be_bytes [OF b(1)] length_be_bytes [OF b(2)] refl] v by simp
qed

lemma good_signer_Sign_cases:
  assumes "good_signer cr s"
  shows "(\<exists>sig. Sign cr s data = Inr sig) \<or> Sign cr s data = Inl (Error Internal)"
proof (cases "s_sign s (sha256 cr data)")
  case None
  then show ?thesis by (simp add: Sign_def)
next
  case (Some rt)
  obtain r t where "rt = (r, t)" by (cases rt)
  with assms Some Sign_layout [of s cr data r t] show ?thesis by (auto simp: good_signer_def)
qed

section \<open>Properties\<close>

text \<open>
  Verification reads back exactly the pair of integers signing wrote. When ECDSA signs
  the digest with integers that fit the curve's byte length, \<open>Sign\<close> returns a signature of
  twice that length, and \<open>Verify\<close> of it answers what ECDSA says of this digest and pair.
\<close>

theorem Sign_then_Verify:
  assumes "s_sign s (sha256 cr data) = Some (r, t)"
    and "r < 256 ^ curveOrderByteLen (s_public s)" "t < 256 ^ curveOrderByteLen (s_public s)"
  shows "\<exists>sig. Sign cr s data = Ok sig \<and> length sig = 2 * curveOrderByteLen (s_public s) \<and>
    Verify cr (s_public s) data sig = Ok (ecdsa_verify cr (s_public s) (sha256 cr data) r t)"
proof -
  let ?n = "curveOrderByteLen (s_public s)"
  have len: "length (be_bytes r) \<le> ?n" "length (be_bytes t) \<le> ?n"
    using assms length_be_bytes by auto
  then show ?thesis
    using Sign_layout [OF assms refl] Verify_Sign_layout [OF len refl] by simp
qed

definition toy_crypto :: crypto where
  "toy_crypto = \<lparr>sha256 = (\<lambda>b. b), marshal_pkix = (\<lambda>pk. be_bytes (pk_x pk)),
     parse_pkix = (\<lambda>b. if b = [] then Malformed_key else if b = [255] then Other_key
                       else Ecdsa_key \<lparr>pk_bits = 224, pk_x = be_value b, pk_y = 0\<rparr>),
     ecdsa_verify = (\<lambda>pk d r s. r = pk_x pk \<and> s = be_value d), scrypt_key = (\<lambda>d s. [])\<rparr>"

definition toy_signer :: signer where
  "toy_signer = \<lparr>s_public = \<lparr>pk_bits = 224, pk_x = 7, pk_y = 0\<rparr>, s_sign = (\<lambda>d. Some (7, be_value d))\<rparr>"

theorem Sign_then_Verify_witness:
  "\<exists>sig. Sign toy_crypto toy_signer [5] = Ok sig \<and> length sig = 56 \<and>
     Verify toy_crypto (s_public toy_signer) [5] sig = Ok True"
proof -
  have s: "s_sign toy_signer (sha256 toy_crypto [5]) = Some (7, 5)"
    and b: "(7::nat) < 256 ^ curveOrderByteLen (s_public toy_signer)"
      "(5::nat) < 256 ^ curveOrderByteLen (s_public toy_signer)"
    by (simp_all add: toy_signer_def toy_crypto_def be_value_def curveOrderByteLen_def)
  from Sign_then_Verify [OF s b] show ?thesis
    by (auto simp: toy_signer_def toy_crypto_def be_value_def curveOrderByteLen_def)
qed

text \<open>
  \<open>Verify\<close> ends in a runtime panic exactly when the signature is shorter than the
  curve's byte length, whatever key, data and ECDSA are: no caller checks the length of a
  signature that came from the network.
\<close>

theorem Verify_panics_iff_short:
  "(Verify cr key data sig = Inl Panic \<longleftrightarrow> length sig < curveOrderByteLen key) \<and>
   (curveOrderByteLen key \<le> length sig \<longrightarrow> (\<exists>b. Verify cr key data sig = Ok b))"
  by (auto simp: Verify_def Let_def)

theorem Verify_panics_iff_short_witness:
  "Verify toy_crypto (s_public toy_signer) [5] [] = Inl Panic"
  using Verify_panics_iff_short [of toy_crypto "s_public toy_signer" "[5]" "[]"]
  by (simp add: toy_signer_def curveOrderByteLen_def)

text \<open>
  Text forms of signatures and keys round-trip: the base64 text stored in the database
  and the JSON string sent to peers decode to the same signature, and the JSON of a key
  decodes to whatever its DER encoding parses as.
\<close>

theorem signature_key_text_roundtrip:
  "ParseSignature (Signature_Encode sig) = Ok sig \<and>
   Signature_UnmarshalJSON (Signature_MarshalJSON sig) = Ok sig \<and>
   PublicKey_UnmarshalJSON cr (PublicKey_MarshalJSON cr key) =
     ParsePublicKeyFromDER cr (EncodeToDER cr key)"
proof (intro conjI)
  show "ParseSignature (Signature_Encode sig) = Ok sig" by (rule ParseSignature_Encode)
  have "trim_quotes (Signature_MarshalJSON sig) = Signature_Encode sig"
    by (simp add: Signature_MarshalJSON_def Signature_Encode_def trim_quotes_quoted rawurl_no_quote)
  then show "Signature_UnmarshalJSON (Signature_MarshalJSON sig) = Ok sig"
    by (simp add: Signature_UnmarshalJSON_def ParseSignature_Encode)
  show "PublicKey_UnmarshalJSON cr (PublicKey_MarshalJSON cr key) =
     ParsePublicKeyFromDER cr (EncodeToDER cr key)"
    by (simp add: PublicKey_UnmarshalJSON_def PublicKey_MarshalJSON_def Let_def
        trim_quotes_quoted rawurl_no_quote raw_buffer_decode del: go_copy_same_length)
qed

end
