(* ===== verification/Pow.thy ===== *)
theory Pow
  imports Crypto
begin

text \<open>
  Proof of work (\<open>crypto/pow.go\<close>): the check of a nonce, and the parallel search as a
  step relation over its workers, the shared counter and the goroutine that called
  \<open>Find\<close>.
\<close>

definition powTargetBits :: nat where "powTargetBits = 8"
definition powKeyLenBytes :: nat where "powKeyLenBytes = 32"
definition powSalt :: bytes where
  "powSalt = map (word_of_nat \<circ> of_char) ''dscuss-proof-of-work''"

type_synonym proof_of_work = "64 word"

text \<open>The counter of the Go struct is part of the search state below.\<close>

record pow_finder =
  pf_data :: bytes
  pf_target :: nat

definition NewPowFinder :: "bytes \<Rightarrow> pow_finder" where
  "NewPowFinder data = \<lparr>pf_data = data, pf_target = push_bit (powKeyLenBytes * 8 - powTargetBits) 1\<rparr>"

definition setComplexity :: "pow_finder \<Rightarrow> nat \<Rightarrow> pow_finder" where
  "setComplexity pf targetBitNum = pf\<lparr>pf_target := push_bit (powKeyLenBytes * 8 - targetBitNum) 1\<rparr>"

definition prepareData :: "pow_finder \<Rightarrow> 64 word \<Rightarrow> bytes" where
  "prepareData pf nonce = concat [pf_data pf, put_uint64 nonce]"

definition Validate :: "crypto \<Rightarrow> pow_finder \<Rightarrow> proof_of_work \<Rightarrow> bool" where
  "Validate cr pf nonce =
     (let key = scrypt_key cr (prepareData pf nonce) powSalt in be_value key < pf_target pf)"

section \<open>The parallel search\<close>

text \<open>
  A worker is about to draw a nonce, has drawn one and is about to look at the stop
  channel, is validating it, is blocked sending it on the unbuffered result channel, or
  has returned.
  The loop's own \<open>nonce\<close> stays 0 (the one drawn shadows it), so the loop has no other
  exit and its final \<open>resultChan <- 0\<close> is not reached.
\<close>

datatype worker_pc = Draw | Select "64 word" | Check "64 word" | Send "64 word" | Returned

text \<open>\<open>received\<close> is the main goroutine's \<open>proof\<close>, \<open>stopped\<close> says the stop channel is closed.\<close>

record search =
  counter :: "64 word"
  workers :: "nat \<Rightarrow> worker_pc"
  received :: "64 word option"
  stopped :: bool
  returned :: bool

definition search_init :: search where
  "search_init = \<lparr>counter = 0, workers = (\<lambda>_. Draw), received = None, stopped = False, returned = False\<rparr>"

definition goto :: "search \<Rightarrow> nat \<Rightarrow> worker_pc \<Rightarrow> search" where
  "goto s i pc = s\<lparr>workers := (workers s)(i := pc)\<rparr>"

lemma goto_simps [simp]:
  "counter (goto s i pc) = counter s" "received (goto s i pc) = received s"
  "stopped (goto s i pc) = stopped s" "returned (goto s i pc) = returned s"
  "workers (goto s i pc) = (workers s)(i := pc)"
  by (simp_all add: goto_def)

text \<open>One step of one of the \<open>n\<close> workers, or of \<open>Find\<close> itself.\<close>

inductive Find_step :: "crypto \<Rightarrow> pow_finder \<Rightarrow> nat \<Rightarrow> search \<Rightarrow> search \<Rightarrow> bool"
  for cr :: crypto and pf :: pow_finder and n :: nat where
  draw: "i < n \<Longrightarrow> workers s i = Draw \<Longrightarrow>
    Find_step cr pf n s ((goto s i (Select (counter s + 1)))\<lparr>counter := counter s + 1\<rparr>)"
| quit: "i < n \<Longrightarrow> workers s i = Select k \<Longrightarrow> stopped s \<Longrightarrow>
    Find_step cr pf n s (goto s i Returned)"
| try_nonce: "i < n \<Longrightarrow> workers s i = Select k \<Longrightarrow> \<not> stopped s \<Longrightarrow>
    Find_step cr pf n s (goto s i (Check k))"
| hit: "i < n \<Longrightarrow> workers s i = Check k \<Longrightarrow> Validate cr pf k \<Longrightarrow>
    Find_step cr pf n s (goto s i (Send k))"
| miss: "i < n \<Longrightarrow> workers s i = Check k \<Longrightarrow> \<not> Validate cr pf k \<Longrightarrow>
    Find_step cr pf n s (goto s i Draw)"
| receive: "i < n \<Longrightarrow> workers s i = Send k \<Longrightarrow> received s = None \<Longrightarrow>
    Find_step cr pf n s ((goto s i Returned)\<lparr>received := Some k\<rparr>)"
| close: "received s = Some k \<Longrightarrow> \<not> stopped s \<Longrightarrow> Find_step cr pf n s (s\<lparr>stopped := True\<rparr>)"
| wait: "received s = Some k \<Longrightarrow> stopped s \<Longrightarrow> \<forall>i < n. workers s i = Returned \<Longrightarrow>
    Find_step cr pf n s (s\<lparr>returned := True\<rparr>)"

inductive Find_reach :: "crypto \<Rightarrow> pow_finder \<Rightarrow> nat \<Rightarrow> search \<Rightarrow> search \<Rightarrow> bool"
  for cr :: crypto and pf :: pow_finder and n :: nat and s :: search where
  init: "Find_reach cr pf n s s"
| more: "Find_reach cr pf n s t \<Longrightarrow> Find_step cr pf n t u \<Longrightarrow> Find_reach cr pf n s u"

text \<open>What \<open>Find\<close> returns: 0 is \<open>log.Fatal\<close>, anything else the proof.\<close>

definition Find_result :: "search \<Rightarrow> proof_of_work result option" where
  "Find_result s =
     (if \<not> returned s then None
      else case received s of
        None \<Rightarrow> None
      | Some proof \<Rightarrow> Some (if proof = 0 then Inl Fatal else Ok proof))"

section \<open>Invariants\<close>

definition search_inv :: "crypto \<Rightarrow> pow_finder \<Rightarrow> search \<Rightarrow> bool" where
  "search_inv cr pf s \<longleftrightarrow>
     (\<forall>i k. workers s i = Send k \<longrightarrow> Validate cr pf k) \<and>
     (\<forall>k. received s = Some k \<longrightarrow> Validate cr pf k)"

lemma search_inv_step: "Find_step cr pf n s t \<Longrightarrow> search_inv cr pf s \<Longrightarrow> search_inv cr pf t"
  by (induction rule: Find_step.induct) (auto simp: search_inv_def)

lemma search_inv_reach:
  "Find_reach cr pf n s t \<Longrightarrow> search_inv cr pf s \<Longrightarrow> search_inv cr pf t"
  by (induction rule: Find_reach.induct) (auto intro: search_inv_step)

text \<open>A worker that sends after the result was taken is never received from.\<close>

definition blocked :: "nat \<Rightarrow> nat \<Rightarrow> search \<Rightarrow> bool" where
  "blocked n i s \<longleftrightarrow> i < n \<and> (\<exists>k. workers s i = Send k) \<and> received s \<noteq> None \<and> \<not> returned s"

lemma blocked_step: "Find_step cr pf n s t \<Longrightarrow> blocked n i s \<Longrightarrow> blocked n i t"
  by (induction rule: Find_step.induct) (auto simp: blocked_def)

lemma blocked_reach: "Find_reach cr pf n s t \<Longrightarrow> blocked n i s \<Longrightarrow> blocked n i t"
  by (induction rule: Find_reach.induct) (auto intro: blocked_step)

lemma Find_reach_trans:
  "Find_reach cr pf n t u \<Longrightarrow> Find_reach cr pf n s t \<Longrightarrow> Find_reach cr pf n s u"
  by (induction rule: Find_reach.induct) (auto intro: Find_reach.more)

lemma Find_reach_3:
  "Find_step cr pf n s a \<Longrightarrow> Find_step cr pf n a b \<Longrightarrow> Find_step cr pf n b c \<Longrightarrow>
   Find_reach cr pf n s c"
  by (rule Find_reach.more [OF Find_reach.more [OF Find_reach.more [OF Find_reach.init]]])

text \<open>One worker draws a nonce, passes the stop channel, finds the nonce valid and sends.\<close>

lemma worker_sends:
  assumes "i < n" "workers s i = Draw" "\<not> stopped s" "Validate cr pf (counter s + 1)"
  shows "Find_reach cr pf n s ((goto s i (Send (counter s + 1)))\<lparr>counter := counter s + 1\<rparr>)"
proof -
  define k where "k = counter s + 1"
  define a b where "a = (goto s i (Select k))\<lparr>counter := k\<rparr>"
    and "b = (goto s i (Check k))\<lparr>counter := k\<rparr>"
  have 1: "Find_step cr pf n s a"
    unfolding a_def k_def using assms by (intro Find_step.draw)
  have "Find_step cr pf n a (goto a i (Check k))"
    using assms by (intro Find_step.try_nonce) (simp_all add: a_def)
  moreover have "goto a i (Check k) = b" by (simp add: a_def b_def goto_def)
  ultimately have 2: "Find_step cr pf n a b" by simp
  have "Find_step cr pf n b (goto b i (Send k))"
    using assms by (intro Find_step.hit) (simp_all add: b_def k_def)
  moreover have "goto b i (Send k) = (goto s i (Send k))\<lparr>counter := k\<rparr>"
    by (simp add: b_def goto_def)
  ultimately have 3: "Find_step cr pf n b ((goto s i (Send k))\<lparr>counter := k\<rparr>)" by simp
  from Find_reach_3 [OF 1 2 3] show ?thesis by (simp add: k_def)
qed

text \<open>Two workers that draw 1 and 2, both valid, and both reach the send.\<close>

definition two_senders :: search where
  "two_senders = (goto (goto (search_init\<lparr>counter := 2\<rparr>) 0 (Send 1)) 1 (Send 2))"

lemma two_senders_reach:
  assumes "Validate cr pf 1" "Validate cr pf 2" "2 \<le> n"
  shows "Find_reach cr pf n search_init two_senders"
proof -
  let ?a = "(goto search_init 0 (Send 1))\<lparr>counter := 1\<rparr>"
  have 1: "Find_reach cr pf n search_init ?a"
    using worker_sends [of 0 n search_init cr pf] assms by (simp add: search_init_def)
  have 2: "Find_reach cr pf n ?a ((goto ?a 1 (Send 2))\<lparr>counter := 2\<rparr>)"
    using worker_sends [of 1 n ?a cr pf] assms by (simp add: search_init_def)
  have "(goto ?a 1 (Send 2))\<lparr>counter := 2\<rparr> = two_senders"
    by (simp add: two_senders_def goto_def search_init_def fun_eq_iff)
  with Find_reach_trans [OF 2 1] show ?thesis by simp
qed

section \<open>Properties\<close>

text \<open>
  C36. Safety of the search, for any number of workers and any interleaving: the nonce
  \<open>Find\<close> returns passes \<open>Validate\<close> for the same data and target.
\<close>

theorem Find_sound:
  assumes "Find_reach cr pf n search_init s" "Find_result s = Some (Ok proof)"
  shows "Validate cr pf proof"
proof -
  have "search_inv cr pf search_init" by (simp add: search_inv_def search_init_def)
  with assms(1) have "search_inv cr pf s" by (rule search_inv_reach)
  with assms(2) show ?thesis
    by (auto simp: Find_result_def search_inv_def split: if_splits option.splits)
qed

lemma toy_Validate: "Validate toy_crypto (NewPowFinder d) k"
  by (simp add: Validate_def toy_crypto_def NewPowFinder_def push_bit_eq_mult)

theorem Find_sound_witness:
  "\<exists>s. Find_result s = Some (Ok 1) \<and> Validate toy_crypto (NewPowFinder [7]) 1"
proof -
  let ?pf = "NewPowFinder [7]" and ?step = "Find_step toy_crypto (NewPowFinder [7]) 1"
  let ?b = "(goto search_init 0 (Send 1))\<lparr>counter := 1\<rparr>"
  let ?c = "(goto ?b 0 Returned)\<lparr>received := Some 1\<rparr>"
  let ?d = "?c\<lparr>stopped := True\<rparr>"
  have 1: "Find_reach toy_crypto ?pf 1 search_init ?b"
    using worker_sends [of 0 1 search_init toy_crypto ?pf] toy_Validate
    by (simp add: search_init_def)
  have 2: "?step ?b ?c" by (intro Find_step.receive) (simp_all add: search_init_def)
  have 3: "?step ?c ?d" by (rule Find_step.close) (simp_all add: search_init_def)
  have 4: "?step ?d (?d\<lparr>returned := True\<rparr>)" by (rule Find_step.wait) simp_all
  have "Find_reach toy_crypto ?pf 1 search_init (?d\<lparr>returned := True\<rparr>)"
    by (rule Find_reach_trans [OF Find_reach_3 [OF 2 3 4] 1])
  moreover have "Find_result (?d\<lparr>returned := True\<rparr>) = Some (Ok 1)" by (simp add: Find_result_def)
  ultimately show ?thesis using Find_sound by blast
qed

text \<open>
  The search can hang. If two workers have each found a valid nonce before the stop
  channel is closed, \<open>Find\<close> takes one of them and then waits for ever for the other,
  which is blocked sending: there is such a run whenever two of the nonces are valid and
  there are at least two workers, and \<open>Find\<close> returns in no continuation of it.
\<close>

theorem Find_can_hang:
  assumes "Validate cr pf 1" "Validate cr pf 2" "2 \<le> n"
  shows "\<exists>s. Find_reach cr pf n search_init s \<and> received s = Some 1 \<and>
    (\<forall>t. Find_reach cr pf n s t \<longrightarrow> Find_result t = None)"
proof -
  let ?s = "(goto two_senders 0 Returned)\<lparr>received := Some 1\<rparr>"
  have "Find_step cr pf n two_senders ?s"
    using assms(3) by (intro Find_step.receive) (simp_all add: two_senders_def search_init_def)
  then have reach: "Find_reach cr pf n search_init ?s"
    using two_senders_reach [OF assms] by (rule Find_reach.more [rotated])
  have b: "blocked n 1 ?s"
    using assms(3) by (simp add: blocked_def two_senders_def search_init_def)
  have "Find_result t = None" if "Find_reach cr pf n ?s t" for t
    using blocked_reach [OF that b] by (simp add: Find_result_def blocked_def)
  with reach show ?thesis by (intro exI [of _ ?s]) simp
qed

theorem Find_can_hang_witness:
  "\<exists>s. Find_reach toy_crypto (NewPowFinder [7]) 4 search_init s \<and> received s = Some 1"
  using Find_can_hang [OF toy_Validate toy_Validate, of 4 "[7]"] by auto

end
