(* ===== verification/Entity.thy ===== *)
theory Entity
  imports Subs Pow
begin

text \<open>
  Entities: identifiers (\<open>entity/entity.go\<close>), users (\<open>entity/user.go\<close>), messages
  (\<open>entity/message.go\<close>) and operations (\<open>entity/operation.go\<close>).

  The JSON text that is hashed and signed comes from \<open>encoding/json\<close>; the record \<open>env\<close>
  holds that encoder, one function per type the program encodes, beside the cryptographic
  primitives. Go's \<open>int\<close> enumerations are integers here, because values that arrive from
  the network need not be among the declared constants.
\<close>

section \<open>Identifiers\<close>

type_synonym entity_id = bytes

definition IDLen :: nat where "IDLen = 32"
definition ZeroID :: entity_id where "ZeroID = replicate IDLen 0"

definition TypeUser :: int where "TypeUser = 0"
definition TypeMessage :: int where "TypeMessage = 1"
definition TypeOperation :: int where "TypeOperation = 2"

lemmas type_defs = TypeUser_def TypeMessage_def TypeOperation_def

record descriptor =
  d_type :: int
  d_id :: entity_id

definition NewID :: "crypto \<Rightarrow> bytes \<Rightarrow> entity_id" where
  "NewID cr data = sha256 cr data"

text \<open>The receiver \<open>i\<close> is an array of \<open>IDLen\<close> bytes; the result is its new contents.\<close>

definition ParseSlice :: "entity_id \<Rightarrow> bytes \<Rightarrow> entity_id result" where
  "ParseSlice i s = (if length s \<noteq> length i then Err Parsing else Ok (go_copy i s))"

definition ID_String :: "entity_id \<Rightarrow> gostring" where
  "ID_String i = std_encode i"

definition ID_ParseString :: "entity_id \<Rightarrow> gostring \<Rightarrow> entity_id result" where
  "ID_ParseString i s =
     (if length s \<noteq> length (ID_String i) then Err Parsing
      else case std_decode s of
             None \<Rightarrow> Err (Foreign ''illegal base64 data'')
           | Some res \<Rightarrow> Ok (go_copy i res))"

definition ID_MarshalJSON :: "entity_id \<Rightarrow> gostring" where
  "ID_MarshalJSON i = quote # ID_String i @ [quote]"

definition ID_UnmarshalJSON :: "entity_id \<Rightarrow> gostring \<Rightarrow> entity_id result" where
  "ID_UnmarshalJSON i b = (let trimmed = trim_quotes b in ID_ParseString i trimmed)"

definition Shorten :: "entity_id \<Rightarrow> gostring" where
  "Shorten i = Truncate (ID_String i) 8"

definition ID_IsZero :: "entity_id \<Rightarrow> bool" where
  "ID_IsZero i \<longleftrightarrow> i = ZeroID"

section \<open>Records\<close>

record user_content =
  uPubKey :: pubkey
  uProof :: proof_of_work
  uNickname :: gostring
  uInfo :: gostring
  uRegDate :: time

record unsigned_user =
  uu_desc :: descriptor
  uu_content :: user_content

record user =
  user_unsigned :: unsigned_user
  user_sig :: signature

record message_content =
  mSubject :: gostring
  mText :: gostring
  mAuthorID :: entity_id
  mParentID :: entity_id
  mDateWritten :: time
  mTopic :: topic

record unsigned_message =
  um_desc :: descriptor
  um_content :: message_content

record message =
  msg_unsigned :: unsigned_message
  msg_sig :: signature

record operation_content =
  oType :: int
  oReason :: int
  oComment :: gostring
  oAuthorID :: entity_id
  oObjectID :: entity_id
  oDatePerformed :: time

record unsigned_operation =
  uo_desc :: descriptor
  uo_content :: operation_content

record operation =
  oper_unsigned :: unsigned_operation
  oper_sig :: signature

record user_history =
  h_id :: entity_id
  h_disconnected :: time
  h_subs :: subscriptions

text \<open>The interface type \<open>Entity\<close> and its three implementations.\<close>

datatype entity = EUser user | EMessage message | EOperation operation

record env =
  env_crypto :: crypto
  json_unsigned_user :: "unsigned_user \<Rightarrow> bytes"
  json_message_content :: "message_content \<Rightarrow> bytes"
  json_unsigned_message :: "unsigned_message \<Rightarrow> bytes"
  json_operation_content :: "operation_content \<Rightarrow> bytes"
  json_unsigned_operation :: "unsigned_operation \<Rightarrow> bytes"

text \<open>Go reads the fields of embedded structs directly.\<close>

abbreviation user_content_of :: "user \<Rightarrow> user_content" where
  "user_content_of u \<equiv> uu_content (user_unsigned u)"
abbreviation message_content_of :: "message \<Rightarrow> message_content" where
  "message_content_of m \<equiv> um_content (msg_unsigned m)"
abbreviation operation_content_of :: "operation \<Rightarrow> operation_content" where
  "operation_content_of oper \<equiv> uo_content (oper_unsigned oper)"

definition user_id :: "user \<Rightarrow> entity_id" where
  "user_id u = d_id (uu_desc (user_unsigned u))"
definition message_id :: "message \<Rightarrow> entity_id" where
  "message_id m = d_id (um_desc (msg_unsigned m))"
definition operation_id :: "operation \<Rightarrow> entity_id" where
  "operation_id oper = d_id (uo_desc (oper_unsigned oper))"

fun id_of :: "entity \<Rightarrow> entity_id" where
  "id_of (EUser u) = user_id u"
| "id_of (EMessage m) = message_id m"
| "id_of (EOperation oper) = operation_id oper"

text \<open>\<open>Type()\<close> is the type field of the descriptor, not the Go type of the entity.\<close>

fun type_of :: "entity \<Rightarrow> int" where
  "type_of (EUser u) = d_type (uu_desc (user_unsigned u))"
| "type_of (EMessage m) = d_type (um_desc (msg_unsigned m))"
| "type_of (EOperation oper) = d_type (uo_desc (oper_unsigned oper))"

section \<open>Users\<close>

definition MaxUsernameLen :: nat where "MaxUsernameLen = 64"
definition Epoch :: time where "Epoch = 1546300800000000000"

definition nickname_chars :: gostring where
  "nickname_chars = ''abcdefghijklmnopqrstuvwxyzABCDEFGHIJKLMNOPQRSTUVWXYZ0123456789_''"

definition IsNicknameValid :: "gostring \<Rightarrow> bool" where
  "IsNicknameValid nickname \<longleftrightarrow> length nickname \<le> MaxUsernameLen \<and>
     nickname \<noteq> [] \<and> list_all (\<lambda>c. c \<in> set nickname_chars) nickname"

definition UserContent_ToID :: "env \<Rightarrow> user_content \<Rightarrow> entity_id" where
  "UserContent_ToID env uc = NewID (env_crypto env) (EncodeToDER (env_crypto env) (uPubKey uc))"

definition newUserContent ::
  "gostring \<Rightarrow> gostring \<Rightarrow> pubkey \<Rightarrow> proof_of_work \<Rightarrow> time \<Rightarrow> user_content" where
  "newUserContent nickname info pubkey proof regdate =
     \<lparr>uPubKey = pubkey, uProof = proof, uNickname = nickname, uInfo = info, uRegDate = regdate\<rparr>"

definition newUnsignedUser ::
  "env \<Rightarrow> gostring \<Rightarrow> gostring \<Rightarrow> pubkey \<Rightarrow> proof_of_work \<Rightarrow> time \<Rightarrow> unsigned_user" where
  "newUnsignedUser env nickname info pubkey proof regdate =
     (let uc = newUserContent nickname info pubkey proof regdate
      in \<lparr>uu_desc = \<lparr>d_type = TypeUser, d_id = UserContent_ToID env uc\<rparr>, uu_content = uc\<rparr>)"

definition UnsignedUser_isValid :: "env \<Rightarrow> unsigned_user \<Rightarrow> bool" where
  "UnsignedUser_isValid env uu =
     (let uc = uu_content uu;
          correctID = UserContent_ToID env uc;
          pow = NewPowFinder (EncodeToDER (env_crypto env) (uPubKey uc))
      in if d_id (uu_desc uu) \<noteq> correctID then False
         else if uRegDate uc < Epoch then False
         else if \<not> Validate (env_crypto env) pow (uProof uc) then False
         else if \<not> IsNicknameValid (uNickname uc) then False
         else True)"

definition User_IsValid :: "env \<Rightarrow> user \<Rightarrow> bool result" where
  "User_IsValid env u =
     (let uu = user_unsigned u
      in bind_result
           (Verify (env_crypto env) (uPubKey (uu_content uu)) (json_unsigned_user env uu) (user_sig u))
           (\<lambda>ok. if \<not> ok then Ok False else Ok (UnsignedUser_isValid env uu)))"

definition NewUser ::
  "env \<Rightarrow> gostring \<Rightarrow> gostring \<Rightarrow> pubkey \<Rightarrow> proof_of_work \<Rightarrow> time \<Rightarrow> signature \<Rightarrow> user" where
  "NewUser env nickname info pubkey proof regdate sig =
     \<lparr>user_unsigned = newUnsignedUser env nickname info pubkey proof regdate, user_sig = sig\<rparr>"

definition EmergeUser ::
  "env \<Rightarrow> gostring \<Rightarrow> gostring \<Rightarrow> proof_of_work \<Rightarrow> signer \<Rightarrow> time \<Rightarrow> user result" where
  "EmergeUser env nickname info proof signer now =
     (let uu = newUnsignedUser env nickname info (s_public signer) proof now
      in if \<not> UnsignedUser_isValid env uu then Err WrongNickname
         else bind_result (or_fatal (Sign (env_crypto env) signer (json_unsigned_user env uu)))
                (\<lambda>sig. Ok \<lparr>user_unsigned = uu, user_sig = sig\<rparr>))"

section \<open>Messages\<close>

definition MaxMessageSubjectLen :: nat where "MaxMessageSubjectLen = 128"
definition MaxMessageTextLen :: nat where "MaxMessageTextLen = 1024"
definition MaxMessageDepth :: nat where "MaxMessageDepth = 1024"
definition MinMessagePostDelay :: duration where "MinMessagePostDelay = 1 * Minute"

definition newMessageContent ::
  "gostring \<Rightarrow> gostring \<Rightarrow> entity_id \<Rightarrow> entity_id \<Rightarrow> time \<Rightarrow> topic \<Rightarrow> message_content" where
  "newMessageContent subject txt authorID parentID dateWritten tpc =
     \<lparr>mSubject = subject, mText = txt, mAuthorID = authorID, mParentID = parentID,
      mDateWritten = dateWritten,
      mTopic = (if tpc \<noteq> None then Topic_Copy tpc else None)\<rparr>"

definition MessageContent_ToID :: "env \<Rightarrow> message_content \<Rightarrow> entity_id" where
  "MessageContent_ToID env mc = NewID (env_crypto env) (json_message_content env mc)"

definition newUnsignedMessage ::
  "env \<Rightarrow> gostring \<Rightarrow> gostring \<Rightarrow> entity_id \<Rightarrow> entity_id \<Rightarrow> time \<Rightarrow> topic \<Rightarrow> unsigned_message" where
  "newUnsignedMessage env subject txt authorID parentID dateWritten tpc =
     (let mc = newMessageContent subject txt authorID parentID dateWritten tpc
      in \<lparr>um_desc = \<lparr>d_type = TypeMessage, d_id = MessageContent_ToID env mc\<rparr>, um_content = mc\<rparr>)"

definition UnsignedMessage_isValid :: "env \<Rightarrow> unsigned_message \<Rightarrow> bool" where
  "UnsignedMessage_isValid env um =
     (let mc = um_content um; correctID = MessageContent_ToID env mc
      in if d_id (um_desc um) \<noteq> correctID then False
         else if MaxMessageSubjectLen < length (mSubject mc) then False
         else if MaxMessageTextLen < length (mText mc) then False
         else if mSubject mc = [] \<or> mText mc = [] then False
         else if mTopic mc = None \<and> ID_IsZero (mParentID mc) then False
         else if mTopic mc \<noteq> None \<and> \<not> ID_IsZero (mParentID mc) then False
         else True)"

definition Message_IsUnsignedPartValid :: "env \<Rightarrow> message \<Rightarrow> bool" where
  "Message_IsUnsignedPartValid env m = UnsignedMessage_isValid env (msg_unsigned m)"

definition Message_IsSigValid :: "env \<Rightarrow> message \<Rightarrow> pubkey \<Rightarrow> bool result" where
  "Message_IsSigValid env m pubKey =
     Verify (env_crypto env) pubKey (json_unsigned_message env (msg_unsigned m)) (msg_sig m)"

definition Message_IsValid :: "env \<Rightarrow> message \<Rightarrow> pubkey \<Rightarrow> bool result" where
  "Message_IsValid env m pubKey =
     (if \<not> Message_IsUnsignedPartValid env m then Ok False else Message_IsSigValid env m pubKey)"

definition IsReply :: "message \<Rightarrow> bool" where
  "IsReply m \<longleftrightarrow> \<not> ID_IsZero (mParentID (message_content_of m))"

definition Message_Copy :: "message \<Rightarrow> message" where
  "Message_Copy m =
     (if mTopic (message_content_of m) \<noteq> None
      then m\<lparr>msg_unsigned := (msg_unsigned m)
               \<lparr>um_content := (message_content_of m)
                  \<lparr>mTopic := Topic_Copy (mTopic (message_content_of m))\<rparr>\<rparr>\<rparr>
      else m)"

definition NewMessage ::
  "env \<Rightarrow> gostring \<Rightarrow> gostring \<Rightarrow> entity_id \<Rightarrow> entity_id \<Rightarrow> time \<Rightarrow> signature \<Rightarrow> topic \<Rightarrow> message result" where
  "NewMessage env subject txt authorID parentID dateWritten sig tpc =
     (let um = newUnsignedMessage env subject txt authorID parentID dateWritten tpc
      in if \<not> UnsignedMessage_isValid env um then Err WrongArguments
         else Ok \<lparr>msg_unsigned = um, msg_sig = sig\<rparr>)"

text \<open>
  \<open>EmergeMessage\<close> reads the clock three times: \<open>t1\<close> for the rate check, \<open>t2\<close> for the
  package variable \<open>lastMsgTimestamp\<close>, \<open>t3\<close> for the date of the message. The second
  component of the result is the new value of that variable.
\<close>

definition EmergeMessage ::
  "env \<Rightarrow> gostring \<Rightarrow> gostring \<Rightarrow> entity_id \<Rightarrow> entity_id \<Rightarrow> signer \<Rightarrow> topic
     \<Rightarrow> time \<times> time \<times> time \<Rightarrow> time \<Rightarrow> message result \<times> time" where
  "EmergeMessage env subject txt authorID parentID signer tpc clock lastMsgTimestamp =
     (let (t1, t2, t3) = clock
      in if time_sub t1 lastMsgTimestamp < MinMessagePostDelay
         then (Err MsgPostRateErr, lastMsgTimestamp)
         else let um = newUnsignedMessage env subject txt authorID parentID t3 tpc
              in if \<not> UnsignedMessage_isValid env um then (Err WrongArguments, t2)
                 else (bind_result
                         (or_fatal (Sign (env_crypto env) signer (json_unsigned_message env um)))
                         (\<lambda>sig. Ok \<lparr>msg_unsigned = um, msg_sig = sig\<rparr>), t2))"

section \<open>Operations\<close>

definition OperationTypeRemoveMessage :: int where "OperationTypeRemoveMessage = 0"
definition OperationTypeBanUser :: int where "OperationTypeBanUser = 1"
definition OperationReasonProtocolViolation :: int where "OperationReasonProtocolViolation = 0"
definition OperationReasonSpam :: int where "OperationReasonSpam = 1"
definition OperationReasonOfftopic :: int where "OperationReasonOfftopic = 2"
definition OperationReasonAbuse :: int where "OperationReasonAbuse = 3"
definition OperationReasonDuplicate :: int where "OperationReasonDuplicate = 4"
definition MaxOperationCommentLen :: nat where "MaxOperationCommentLen = 1024"
definition MinOperationPostDelay :: duration where "MinOperationPostDelay = 1 * Minute"

lemmas oper_type_defs = OperationTypeRemoveMessage_def OperationTypeBanUser_def
lemmas oper_reason_defs = OperationReasonProtocolViolation_def OperationReasonSpam_def
  OperationReasonOfftopic_def OperationReasonAbuse_def OperationReasonDuplicate_def

definition OperationType_String :: "int \<Rightarrow> gostring" where
  "OperationType_String ot =
     (if ot = OperationTypeRemoveMessage then ''RemoveMessage''
      else if ot = OperationTypeBanUser then ''BanUser''
      else ''unknown operation type'')"

definition OperationReason_String :: "int \<Rightarrow> gostring" where
  "OperationReason_String r =
     (if r = OperationReasonProtocolViolation then ''ProtocolViolation''
      else if r = OperationReasonSpam then ''SPAM''
      else if r = OperationReasonOfftopic then ''Offtopic''
      else if r = OperationReasonAbuse then ''Abuse''
      else if r = OperationReasonDuplicate then ''Duplicate''
      else ''unknown operation reason'')"

definition OperationReason_ParseString :: "gostring \<Rightarrow> int result" where
  "OperationReason_ParseString s =
     (if s = ''ProtocolViolation'' then Ok OperationReasonProtocolViolation
      else if s = ''SPAM'' then Ok OperationReasonSpam
      else if s = ''Offtopic'' then Ok OperationReasonOfftopic
      else if s = ''Abuse'' then Ok OperationReasonAbuse
      else if s = ''Duplicate'' then Ok OperationReasonDuplicate
      else Err Parsing)"

definition newOperationContent ::
  "int \<Rightarrow> int \<Rightarrow> gostring \<Rightarrow> entity_id \<Rightarrow> entity_id \<Rightarrow> time \<Rightarrow> operation_content" where
  "newOperationContent typ reason comment authorID objectID datePerformed =
     \<lparr>oType = typ, oReason = reason, oComment = comment, oAuthorID = authorID,
      oObjectID = objectID, oDatePerformed = datePerformed\<rparr>"

definition OperationContent_ToID :: "env \<Rightarrow> operation_content \<Rightarrow> entity_id" where
  "OperationContent_ToID env oc = NewID (env_crypto env) (json_operation_content env oc)"

definition newUnsignedOperation ::
  "env \<Rightarrow> int \<Rightarrow> int \<Rightarrow> gostring \<Rightarrow> entity_id \<Rightarrow> entity_id \<Rightarrow> time \<Rightarrow> unsigned_operation" where
  "newUnsignedOperation env typ reason comment authorID objectID datePerformed =
     (let oc = newOperationContent typ reason comment authorID objectID datePerformed
      in \<lparr>uo_desc = \<lparr>d_type = TypeOperation, d_id = OperationContent_ToID env oc\<rparr>, uo_content = oc\<rparr>)"

definition UnsignedOperation_isValid :: "env \<Rightarrow> unsigned_operation \<Rightarrow> bool" where
  "UnsignedOperation_isValid env uo =
     (let oc = uo_content uo; correctID = OperationContent_ToID env oc; t = oType oc;
          isReasonOK = oReason oc = OperationReasonSpam \<or> oReason oc = OperationReasonOfftopic \<or>
            oReason oc = OperationReasonAbuse \<or> oReason oc = OperationReasonDuplicate \<or>
            oReason oc = OperationReasonProtocolViolation
      in if d_id (uo_desc uo) \<noteq> correctID then False
         else if t \<noteq> OperationTypeRemoveMessage \<and> t \<noteq> OperationTypeBanUser then False
         else if \<not> isReasonOK then False
         else if ID_IsZero (oAuthorID oc) then False
         else if ID_IsZero (oObjectID oc) then False
         else True)"

definition Operation_IsUnsignedPartValid :: "env \<Rightarrow> operation \<Rightarrow> bool" where
  "Operation_IsUnsignedPartValid env oper = UnsignedOperation_isValid env (oper_unsigned oper)"

definition Operation_IsSigValid :: "env \<Rightarrow> operation \<Rightarrow> pubkey \<Rightarrow> bool result" where
  "Operation_IsSigValid env oper pubKey =
     Verify (env_crypto env) pubKey (json_unsigned_operation env (oper_unsigned oper)) (oper_sig oper)"

definition Operation_IsValid :: "env \<Rightarrow> operation \<Rightarrow> pubkey \<Rightarrow> bool result" where
  "Operation_IsValid env oper pubKey =
     (if \<not> Operation_IsUnsignedPartValid env oper then Ok False else Operation_IsSigValid env oper pubKey)"

definition NewOperation ::
  "env \<Rightarrow> int \<Rightarrow> int \<Rightarrow> gostring \<Rightarrow> entity_id \<Rightarrow> entity_id \<Rightarrow> time \<Rightarrow> signature \<Rightarrow> operation result" where
  "NewOperation env typ reason comment authorID objectID datePerformed sig =
     (let uo = newUnsignedOperation env typ reason comment authorID objectID datePerformed
      in if \<not> UnsignedOperation_isValid env uo then Err WrongArguments
         else Ok \<lparr>oper_unsigned = uo, oper_sig = sig\<rparr>)"

text \<open>The three clock readings and \<open>lastOperTimestamp\<close> are as for messages.\<close>

definition EmergeOperation ::
  "env \<Rightarrow> int \<Rightarrow> int \<Rightarrow> gostring \<Rightarrow> entity_id \<Rightarrow> entity_id \<Rightarrow> signer
     \<Rightarrow> time \<times> time \<times> time \<Rightarrow> time \<Rightarrow> operation result \<times> time" where
  "EmergeOperation env typ reason comment authorID objectID signer clock lastOperTimestamp =
     (let (t1, t2, t3) = clock
      in if time_sub t1 lastOperTimestamp < MinOperationPostDelay
         then (Err OperPostRateErr, lastOperTimestamp)
         else let uo = newUnsignedOperation env typ reason comment authorID objectID t3
              in if \<not> UnsignedOperation_isValid env uo then (Err WrongArguments, t2)
                 else (bind_result
                         (or_fatal (Sign (env_crypto env) signer (json_unsigned_operation env uo)))
                         (\<lambda>sig. Ok \<lparr>oper_unsigned = uo, oper_sig = sig\<rparr>), t2))"

section \<open>Lemmas\<close>

lemma IDLen_mod: "length i = IDLen \<Longrightarrow> length (ID_String i) = 44"
  by (simp add: ID_String_def length_std_encode IDLen_def)

lemma length_ZeroID [simp]: "length ZeroID = IDLen"
  by (simp add: ZeroID_def)

lemma ID_ParseString_String [simp]:
  assumes "length i = IDLen" "length j = IDLen"
  shows "ID_ParseString i (ID_String j) = Ok j"
  using assms by (simp add: ID_ParseString_def IDLen_mod) (simp add: ID_String_def)

lemma Topic_Copy_Some [simp]: "Topic_Copy (Some ts) = Some ts"
  by (simp add: Topic_Copy_def)

lemma newMessageContent_topic:
  "mTopic (newMessageContent s x a p d t) = t"
  by (cases t) (simp_all add: newMessageContent_def)

lemma newMessageContent_fields:
  "newMessageContent (mSubject mc) (mText mc) (mAuthorID mc) (mParentID mc) (mDateWritten mc) (mTopic mc) = mc"
  by (cases "mTopic mc") (simp_all add: newMessageContent_def)

lemma newOperationContent_fields:
  "newOperationContent (oType oc) (oReason oc) (oComment oc) (oAuthorID oc) (oObjectID oc)
     (oDatePerformed oc) = oc"
  by (cases oc) (simp add: newOperationContent_def)

lemma newUserContent_fields:
  "newUserContent (uNickname uc) (uInfo uc) (uPubKey uc) (uProof uc) (uRegDate uc) = uc"
  by (cases uc) (simp add: newUserContent_def)

lemma Message_Copy_id [simp]: "Message_Copy m = m"
  by (cases "mTopic (message_content_of m)") (simp_all add: Message_Copy_def)

text \<open>The three ways \<open>Emerge\<close> functions sign, and why the result verifies.\<close>

lemma sign_or_fatal_cases:
  assumes "good_signer cr s"
  shows "(\<exists>sig. or_fatal (Sign cr s data) = Ok sig \<and> Verify cr (s_public s) data sig = Ok True)
    \<or> or_fatal (Sign cr s data) = Inl Fatal"
  using good_signer_Sign_cases [OF assms, of data] good_signer_Verify [OF assms] by fastforce

text \<open>Reloading: a valid message is rebuilt exactly from the fields the database keeps.\<close>

lemma NewMessage_reload:
  assumes "UnsignedMessage_isValid env (msg_unsigned m)"
    and "d_type (um_desc (msg_unsigned m)) = TypeMessage"
  shows "NewMessage env (mSubject (message_content_of m)) (mText (message_content_of m))
    (mAuthorID (message_content_of m)) (mParentID (message_content_of m))
    (mDateWritten (message_content_of m)) (msg_sig m) (mTopic (message_content_of m)) = Ok m"
proof -
  have "um_desc (msg_unsigned m) =
    \<lparr>d_type = TypeMessage, d_id = MessageContent_ToID env (message_content_of m)\<rparr>"
    using assms by (auto simp: UnsignedMessage_isValid_def Let_def split: if_splits)
  then have "newUnsignedMessage env (mSubject (message_content_of m)) (mText (message_content_of m))
    (mAuthorID (message_content_of m)) (mParentID (message_content_of m))
    (mDateWritten (message_content_of m)) (mTopic (message_content_of m)) = msg_unsigned m"
    by (simp add: newUnsignedMessage_def newMessageContent_fields Let_def)
  with assms show ?thesis by (simp add: NewMessage_def)
qed

lemma NewOperation_reload:
  assumes "UnsignedOperation_isValid env (oper_unsigned oper)"
    and "d_type (uo_desc (oper_unsigned oper)) = TypeOperation"
  shows "NewOperation env (oType (operation_content_of oper)) (oReason (operation_content_of oper))
    (oComment (operation_content_of oper)) (oAuthorID (operation_content_of oper))
    (oObjectID (operation_content_of oper)) (oDatePerformed (operation_content_of oper))
    (oper_sig oper) = Ok oper"
proof -
  have "uo_desc (oper_unsigned oper) =
    \<lparr>d_type = TypeOperation, d_id = OperationContent_ToID env (operation_content_of oper)\<rparr>"
    using assms by (auto simp: UnsignedOperation_isValid_def Let_def split: if_splits)
  then have "newUnsignedOperation env (oType (operation_content_of oper)) (oReason (operation_content_of oper))
    (oComment (operation_content_of oper)) (oAuthorID (operation_content_of oper))
    (oObjectID (operation_content_of oper)) (oDatePerformed (operation_content_of oper)) = oper_unsigned oper"
    by (simp add: newUnsignedOperation_def newOperationContent_fields Let_def)
  with assms show ?thesis by (simp add: NewOperation_def)
qed

lemma NewUser_reload:
  assumes "UnsignedUser_isValid env (user_unsigned u)"
    and "d_type (uu_desc (user_unsigned u)) = TypeUser"
  shows "NewUser env (uNickname (user_content_of u)) (uInfo (user_content_of u))
    (uPubKey (user_content_of u)) (uProof (user_content_of u)) (uRegDate (user_content_of u))
    (user_sig u) = u"
proof -
  have "uu_desc (user_unsigned u) =
    \<lparr>d_type = TypeUser, d_id = UserContent_ToID env (user_content_of u)\<rparr>"
    using assms by (auto simp: UnsignedUser_isValid_def Let_def split: if_splits)
  then have "newUnsignedUser env (uNickname (user_content_of u)) (uInfo (user_content_of u))
    (uPubKey (user_content_of u)) (uProof (user_content_of u)) (uRegDate (user_content_of u)) = user_unsigned u"
    by (simp add: newUnsignedUser_def newUserContent_fields Let_def)
  then show ?thesis by (simp add: NewUser_def)
qed

section \<open>A concrete environment for the witnesses\<close>

definition toy_hash :: "bytes \<Rightarrow> bytes" where
  "toy_hash b = take 32 (b @ replicate 32 1)"

definition toy_env :: env where
  "toy_env = \<lparr>env_crypto = toy_crypto\<lparr>sha256 := toy_hash, ecdsa_verify := (\<lambda>pk d r t. r = pk_x pk)\<rparr>,
     json_unsigned_user = (\<lambda>_. [1]),
     json_message_content = (\<lambda>mc. map (word_of_nat \<circ> of_char) (mSubject mc)),
     json_unsigned_message = (\<lambda>um. d_id (um_desc um)),
     json_operation_content = (\<lambda>oc. oObjectID oc),
     json_unsigned_operation = (\<lambda>uo. d_id (uo_desc uo))\<rparr>"

definition emerge_signer :: signer where
  "emerge_signer = \<lparr>s_public = \<lparr>pk_bits = 224, pk_x = 7, pk_y = 0\<rparr>, s_sign = (\<lambda>d. Some (7, 9))\<rparr>"

lemma good_emerge_signer: "good_signer (env_crypto toy_env) emerge_signer"
  by (simp add: good_signer_def emerge_signer_def toy_env_def curveOrderByteLen_def)

text \<open>A user whose key signs everything with one valid signature.\<close>

definition toy_sig :: signature where
  "toy_sig = replicate 27 0 @ [7] @ replicate 27 0 @ [9]"

definition toy_user :: user where
  "toy_user = \<lparr>user_unsigned = newUnsignedUser toy_env ''nick_1'' [] (s_public emerge_signer) 1 Epoch, user_sig = toy_sig\<rparr>"

lemma toy_Sign: "Sign (env_crypto toy_env) emerge_signer d = Ok toy_sig"
  by (simp add: Sign_def emerge_signer_def put_right_def curveOrderByteLen_def toy_sig_def
      be_bytes.simps [of 7] be_bytes.simps [of 9] be_bytes.simps [of 0] go_copy_def)

lemma toy_Verify: "Verify (env_crypto toy_env) (s_public emerge_signer) d toy_sig = Ok True"
  using good_signer_Verify [OF good_emerge_signer toy_Sign] .

lemma toy_EmergeUser: "EmergeUser toy_env ''nick_1'' [] 1 emerge_signer Epoch = Ok toy_user"
proof -
  have nick: "IsNicknameValid ''nick_1''"
    by (simp add: IsNicknameValid_def nickname_chars_def MaxUsernameLen_def)
  have pow: "Validate (env_crypto toy_env) (NewPowFinder d) 1" for d
    using toy_Validate [of d 1] by (simp add: Validate_def toy_env_def toy_crypto_def)
  show ?thesis using nick pow
    by (simp add: EmergeUser_def Let_def toy_Sign toy_user_def UnsignedUser_isValid_def newUnsignedUser_def
        newUserContent_def UserContent_ToID_def)
qed

lemma toy_user_valid: "User_IsValid toy_env toy_user = Ok True"
proof -
  have nick: "IsNicknameValid ''nick_1''"
    by (simp add: IsNicknameValid_def nickname_chars_def MaxUsernameLen_def)
  have pow: "Validate (env_crypto toy_env) (NewPowFinder d) 1" for d
    using toy_Validate [of d 1] by (simp add: Validate_def toy_env_def toy_crypto_def)
  show ?thesis using nick pow toy_Verify
    by (simp add: User_IsValid_def Let_def toy_user_def UnsignedUser_isValid_def newUnsignedUser_def
        newUserContent_def UserContent_ToID_def)
qed

section \<open>Properties\<close>

text \<open>
  Identifiers survive their three external forms (base64 text, JSON string, database
  blob), whatever the identifier they are parsed into held before.
\<close>

theorem ID_forms_roundtrip:
  assumes "length i = IDLen" "length j = IDLen"
  shows "ID_ParseString i (ID_String j) = Ok j \<and>
    ID_UnmarshalJSON i (ID_MarshalJSON j) = Ok j \<and> ParseSlice i j = Ok j"
proof -
  have "trim_quotes (ID_MarshalJSON j) = ID_String j"
    by (simp add: ID_MarshalJSON_def ID_String_def trim_quotes_quoted std_no_quote)
  with assms show ?thesis
    by (simp add: ID_UnmarshalJSON_def ParseSlice_def)
qed

theorem ID_forms_roundtrip_witness:
  "ID_ParseString ZeroID (ID_String (replicate 32 5)) = Ok (replicate 32 5)"
  using ID_forms_roundtrip [of ZeroID "replicate 32 5"] by (simp add: IDLen_def)

lemma strip_newlines_append:
  "strip_newlines (xs @ ys) = strip_newlines xs @ strip_newlines ys"
  by (simp add: strip_newlines_def)

text \<open>
  The check of the text's length does not make \<open>ParseString\<close> read a whole identifier:
  the decoder skips line breaks, so the text of 30 bytes followed by four of them passes,
  and the identifier keeps its last two bytes from before.
\<close>

theorem ID_ParseString_partial:
  assumes "length i = IDLen" "length xs = 30"
  shows "ID_ParseString i (std_encode xs @ replicate 4 (CHR 0x0A)) = Ok (xs @ drop 30 i)"
proof -
  have "std_decode (std_encode xs @ replicate 4 (CHR 0x0A)) = std_decode (std_encode xs)"
    by (simp add: std_decode_def strip_newlines_append) (simp add: strip_newlines_def)
  moreover have "length (std_encode xs @ replicate 4 (CHR 0x0A)) = 44"
    using assms by (simp add: length_std_encode)
  ultimately show ?thesis
    using assms by (simp add: ID_ParseString_def IDLen_mod go_copy_def IDLen_def)
qed

theorem ID_ParseString_partial_witness:
  "ID_ParseString ZeroID (std_encode (replicate 30 1) @ replicate 4 (CHR 0x0A))
     = Ok (replicate 30 1 @ [0, 0])"
  using ID_ParseString_partial [of ZeroID "replicate 30 1"]
  by (simp add: IDLen_def ZeroID_def numeral_eq_Suc)

text \<open>
  \<open>NewMessage\<close> accepts exactly the messages with a subject of 1 to 128 bytes and a text
  of 1 to 1024 bytes that have a topic if and only if they have no parent; everything else
  is WrongArguments. The topic's tags themselves are not looked at.
\<close>

theorem NewMessage_accepts:
  "NewMessage env s x a p d sig t =
     (if 1 \<le> length s \<and> length s \<le> 128 \<and> 1 \<le> length x \<and> length x \<le> 1024 \<and> (t \<noteq> None \<longleftrightarrow> p = ZeroID)
      then Ok \<lparr>msg_unsigned = newUnsignedMessage env s x a p d t, msg_sig = sig\<rparr>
      else Err WrongArguments)"
proof -
  have "um_content (newUnsignedMessage env s x a p d t) = newMessageContent s x a p d t"
    "d_id (um_desc (newUnsignedMessage env s x a p d t)) = MessageContent_ToID env (newMessageContent s x a p d t)"
    by (simp_all add: newUnsignedMessage_def Let_def)
  moreover have "mSubject (newMessageContent s x a p d t) = s" "mText (newMessageContent s x a p d t) = x"
    "mParentID (newMessageContent s x a p d t) = p"
    by (simp_all add: newMessageContent_def)
  ultimately have "UnsignedMessage_isValid env (newUnsignedMessage env s x a p d t) \<longleftrightarrow>
    1 \<le> length s \<and> length s \<le> 128 \<and> 1 \<le> length x \<and> length x \<le> 1024 \<and> (t \<noteq> None \<longleftrightarrow> p = ZeroID)"
    by (auto simp: UnsignedMessage_isValid_def Let_def MaxMessageSubjectLen_def MaxMessageTextLen_def
        newMessageContent_topic ID_IsZero_def Suc_le_eq)
  then show ?thesis by (simp add: NewMessage_def)
qed

theorem NewMessage_accepts_witness:
  "NewMessage toy_env ''s'' ''t'' [1] ZeroID 5 [] (Some [''BAD TAG'']) =
     Ok \<lparr>msg_unsigned = newUnsignedMessage toy_env ''s'' ''t'' [1] ZeroID 5 (Some [''BAD TAG'']), msg_sig = []\<rparr>"
  using NewMessage_accepts [of toy_env "''s''" "''t''" "[1]" ZeroID 5 "[]" "Some [''BAD TAG'']"] by simp

text \<open>
  Authorship: with a signer whose signatures verify, \<open>EmergeMessage\<close> either fails with
  the rate, argument or fatal outcome, or returns a message that every peer holding the
  author's key finds valid, carrying the author, the parent and the date it was given.
\<close>

theorem EmergeMessage_valid:
  assumes "good_signer (env_crypto env) sg"
  shows "fst (EmergeMessage env s x a p sg t (t1, t2, t3) lastMsg) \<in> {Err MsgPostRateErr, Err WrongArguments, Inl Fatal}
    \<or> (\<exists>m. EmergeMessage env s x a p sg t (t1, t2, t3) lastMsg = (Ok m, t2) \<and>
         Message_IsValid env m (s_public sg) = Ok True \<and> type_of (EMessage m) = TypeMessage \<and>
         message_content_of m = newMessageContent s x a p t3 t \<and>
         id_of (EMessage m) = MessageContent_ToID env (message_content_of m))"
proof -
  let ?um = "newUnsignedMessage env s x a p t3 t"
  have um: "um_content ?um = newMessageContent s x a p t3 t" "d_type (um_desc ?um) = TypeMessage"
    "d_id (um_desc ?um) = MessageContent_ToID env (newMessageContent s x a p t3 t)"
    by (simp_all add: newUnsignedMessage_def Let_def)
  from sign_or_fatal_cases [OF assms, of "json_unsigned_message env ?um"] show ?thesis
    by (auto simp: EmergeMessage_def Let_def Message_IsValid_def Message_IsUnsignedPartValid_def
        Message_IsSigValid_def message_id_def um)
qed

theorem EmergeMessage_valid_witness:
  "\<exists>m. fst (EmergeMessage toy_env ''s'' ''t'' [1] ZeroID emerge_signer (Some [''tag'']) (Hour, Hour, Hour) 0) = Ok m \<and>
     Message_IsValid toy_env m (s_public emerge_signer) = Ok True"
proof -
  have "fst (EmergeMessage toy_env ''s'' ''t'' [1] ZeroID emerge_signer (Some [''tag'']) (Hour, Hour, Hour) 0)
    \<notin> {Err MsgPostRateErr, Err WrongArguments, Inl Fatal}"
    by (simp add: EmergeMessage_def time_sub_def duration_defs MinMessagePostDelay_def Let_def
        UnsignedMessage_isValid_def newUnsignedMessage_def newMessageContent_def ID_IsZero_def
        MaxMessageSubjectLen_def MaxMessageTextLen_def Sign_def emerge_signer_def put_right_def
        curveOrderByteLen_def be_bytes.simps [of 7] be_bytes.simps [of 9] be_bytes.simps [of 0])
  then show ?thesis using EmergeMessage_valid [OF good_emerge_signer] by fastforce
qed

text \<open>
  Registration: \<open>EmergeUser\<close> refuses with WrongNickname exactly when the nickname, the
  proof of work or the registration date is bad (whichever it was), and otherwise, with a
  signer whose signatures verify, returns a user that \<open>IsValid\<close> accepts, or ends the
  process when signing fails.
\<close>

theorem EmergeUser_valid:
  assumes "good_signer (env_crypto env) sg"
  shows "if IsNicknameValid nick \<and> Epoch \<le> now \<and>
        Validate (env_crypto env) (NewPowFinder (EncodeToDER (env_crypto env) (s_public sg))) proof
     then EmergeUser env nick info proof sg now = Inl Fatal \<or>
       (\<exists>u. EmergeUser env nick info proof sg now = Ok u \<and> User_IsValid env u = Ok True \<and>
         user_content_of u = newUserContent nick info (s_public sg) proof now \<and>
         id_of (EUser u) = NewID (env_crypto env) (EncodeToDER (env_crypto env) (s_public sg)))
     else EmergeUser env nick info proof sg now = Err WrongNickname"
proof -
  let ?uu = "newUnsignedUser env nick info (s_public sg) proof now"
  have uu: "uu_content ?uu = newUserContent nick info (s_public sg) proof now"
    "d_id (uu_desc ?uu) = NewID (env_crypto env) (EncodeToDER (env_crypto env) (s_public sg))"
    by (simp_all add: newUnsignedUser_def newUserContent_def UserContent_ToID_def Let_def)
  have valid: "UnsignedUser_isValid env ?uu \<longleftrightarrow> IsNicknameValid nick \<and> Epoch \<le> now \<and>
        Validate (env_crypto env) (NewPowFinder (EncodeToDER (env_crypto env) (s_public sg))) proof"
    by (auto simp: UnsignedUser_isValid_def Let_def uu UserContent_ToID_def newUserContent_def)
  have key: "uPubKey (newUserContent nick info (s_public sg) proof now) = s_public sg"
    by (simp add: newUserContent_def)
  from sign_or_fatal_cases [OF assms, of "json_unsigned_user env ?uu"] show ?thesis
    by (auto simp: EmergeUser_def Let_def User_IsValid_def user_id_def valid [symmetric] uu key)
qed

theorem EmergeUser_valid_witness:
  "EmergeUser toy_env ''bad nick!'' [] 1 emerge_signer Epoch = Err WrongNickname \<and>
   (\<exists>u. EmergeUser toy_env ''nick_1'' [] 1 emerge_signer Epoch = Ok u \<and> User_IsValid toy_env u = Ok True)"
proof
  show "EmergeUser toy_env ''bad nick!'' [] 1 emerge_signer Epoch = Err WrongNickname"
    using EmergeUser_valid [OF good_emerge_signer, of "''bad nick!''"]
    by (simp add: IsNicknameValid_def nickname_chars_def)
  have nick: "IsNicknameValid ''nick_1''"
    by (simp add: IsNicknameValid_def nickname_chars_def MaxUsernameLen_def)
  have pow: "Validate (env_crypto toy_env) (NewPowFinder d) 1" for d
    using toy_Validate [of d 1] by (simp add: Validate_def toy_env_def toy_crypto_def)
  have "EmergeUser toy_env ''nick_1'' [] 1 emerge_signer Epoch \<noteq> Inl Fatal"
    by (simp add: EmergeUser_def Let_def Sign_def emerge_signer_def put_right_def
        curveOrderByteLen_def be_bytes.simps [of 7] be_bytes.simps [of 9] be_bytes.simps [of 0])
  then show "\<exists>u. EmergeUser toy_env ''nick_1'' [] 1 emerge_signer Epoch = Ok u \<and> User_IsValid toy_env u = Ok True"
    using EmergeUser_valid [OF good_emerge_signer, of "''nick_1''" Epoch 1 "[]"] nick pow by auto
qed

text \<open>
  Rate of posting: two messages that one process emerges one after the other (the
  second with the timestamp variable the first left behind, the clock never running
  backwards) bear dates at least \<open>MinMessagePostDelay\<close> apart less the time that passed
  between the first one's last two clock readings. The bound is reached, so an honest
  author's messages may be a few nanoseconds closer than the delay receivers demand.
\<close>

theorem EmergeMessage_spacing:
  assumes "EmergeMessage env s x a p sg t (t1, t2, t3) l = (Ok m, l')"
    and "EmergeMessage env s' x' a' p' sg' t' (u1, u2, u3) l' = (Ok m', l'')"
    and "u1 \<le> u3"
  shows "MinMessagePostDelay - (t3 - t2)
    \<le> mDateWritten (message_content_of m') - mDateWritten (message_content_of m)"
proof -
  have date: "mDateWritten (message_content_of m) = t3 \<and> l' = t2 \<and> MinMessagePostDelay \<le> t1 - l"
    if "EmergeMessage env s x a p sg t (t1, t2, t3) l = (Ok m, l')" for s x a p sg t t1 t2 t3 l m l'
  proof -
    have "\<not> time_sub t1 l < MinMessagePostDelay"
      using that by (auto simp: EmergeMessage_def)
    then have "MinMessagePostDelay \<le> t1 - l"
      using time_sub_less_iff [of MinMessagePostDelay t1 l]
      by (simp add: MinMessagePostDelay_def duration_defs)
    then show ?thesis using that
      by (auto simp: EmergeMessage_def Let_def newUnsignedMessage_def newMessageContent_def
          bind_result_eq_Inr split: if_splits)
  qed
  from date [OF assms(1)] date [OF assms(2)] assms(3) show ?thesis by simp
qed

theorem EmergeMessage_spacing_witness:
  "\<exists>m m'. fst (EmergeMessage toy_env ''s'' ''t'' [1] ZeroID emerge_signer (Some [''tag'']) (Hour, Hour, Hour + 5) 0) = Ok m \<and>
     fst (EmergeMessage toy_env ''s'' ''t'' [1] ZeroID emerge_signer (Some [''tag'']) (Hour + Minute, Hour + Minute, Hour + Minute) Hour) = Ok m' \<and>
     mDateWritten (message_content_of m') - mDateWritten (message_content_of m) = Minute - 5 \<and>
     Minute - 5 \<le> mDateWritten (message_content_of m') - mDateWritten (message_content_of m)"
proof -
  note eval = EmergeMessage_def time_sub_def duration_defs MinMessagePostDelay_def Let_def
        UnsignedMessage_isValid_def newUnsignedMessage_def newMessageContent_def ID_IsZero_def
        MaxMessageSubjectLen_def MaxMessageTextLen_def Sign_def emerge_signer_def put_right_def
        curveOrderByteLen_def be_bytes.simps [of 7] be_bytes.simps [of 9] be_bytes.simps [of 0]
  obtain m where m: "EmergeMessage toy_env ''s'' ''t'' [1] ZeroID emerge_signer (Some [''tag'']) (Hour, Hour, Hour + 5) 0 = (Ok m, Hour)"
    "mDateWritten (message_content_of m) = Hour + 5"
    by (simp add: eval)
  obtain m' where m': "EmergeMessage toy_env ''s'' ''t'' [1] ZeroID emerge_signer (Some [''tag'']) (Hour + Minute, Hour + Minute, Hour + Minute) Hour = (Ok m', Hour + Minute)"
    "mDateWritten (message_content_of m') = Hour + Minute"
    by (simp add: eval)
  from EmergeMessage_spacing [OF m(1) m'(1)] m m' show ?thesis
    by (simp add: MinMessagePostDelay_def)
qed

end
