(* ===== verification/Thread.thy ===== *)
theory Thread
  imports Entity
begin

text \<open>
  Threads of messages (\<open>thread/\<close>): the tree of replies, the walk that shows it and the
  walk that rebuilds it for a moderator.

  A Go node points to its parent. Here a node is a tree without that pointer, and a
  node reached from the root comes with the chain of its ancestors (\<open>located\<close>). Handlers
  are functions that may change a state, because the program's handlers print or query.
\<close>

section \<open>Nodes\<close>

datatype node = Node (Msg: message) (Children: "node list")

datatype located = At (here: node) (Parent: "located option")

definition New :: "message \<Rightarrow> node" where
  "New m = Node m []"

text \<open>\<open>AddReply\<close> and \<open>AddChild\<close> return the changed receiver; the child's parent is the receiver.\<close>

definition AddChild :: "node \<Rightarrow> node \<Rightarrow> node" where
  "AddChild n child = Node (Msg n) (Children n @ [child])"

definition AddReply :: "node \<Rightarrow> message \<Rightarrow> node \<times> node" where
  "AddReply n m = (let child = New m in (AddChild n child, child))"

fun Depth_loop :: "located \<Rightarrow> nat \<Rightarrow> nat" where
  "Depth_loop (At n None) depth = depth"
| "Depth_loop (At n (Some p)) depth = Depth_loop p (depth + 1)"

definition Depth :: "located \<Rightarrow> nat" where
  "Depth l = Depth_loop l 0"

definition IsRoot :: "located \<Rightarrow> bool" where
  "IsRoot l \<longleftrightarrow> Depth l = 0"

section \<open>Visitors\<close>

type_synonym 's viewing_handler = "located \<Rightarrow> 's \<Rightarrow> bool \<times> 's"
type_synonym 's moderating_handler = "located \<Rightarrow> 's \<Rightarrow> message option result \<times> 's"

lemma size_children: "Suc (2 * size_list size (Children n)) < 2 * size n"
  by (cases n) simp

function ViewingVisit :: "'s viewing_handler \<Rightarrow> located option \<Rightarrow> 's \<Rightarrow> bool \<times> 's"
  and ViewingVisit_children :: "'s viewing_handler \<Rightarrow> located \<Rightarrow> node list \<Rightarrow> 's \<Rightarrow> bool \<times> 's" where
  "ViewingVisit h None s = (True, s)"
| "ViewingVisit h (Some l) s =
     (case h l s of (ok, s') \<Rightarrow>
        if \<not> ok then (False, s') else ViewingVisit_children h l (Children (here l)) s')"
| "ViewingVisit_children h l [] s = (True, s)"
| "ViewingVisit_children h l (c # cs) s =
     (case ViewingVisit h (Some (At c (Some l))) s of (ok, s') \<Rightarrow>
        if \<not> ok then (False, s') else ViewingVisit_children h l cs s')"
  by pat_completeness auto

termination
  by (relation "measure (case_sum
        (\<lambda>(h, n, s). case n of None \<Rightarrow> 0 | Some l \<Rightarrow> 2 * size (here l))
        (\<lambda>(h, l, cs, s). 2 * size_list size cs + 1))")
    (auto simp: size_children)

function ModeratingVisit :: "'s moderating_handler \<Rightarrow> located option \<Rightarrow> 's \<Rightarrow> node option result \<times> 's"
  and ModeratingVisit_children ::
    "'s moderating_handler \<Rightarrow> located \<Rightarrow> node list \<Rightarrow> node \<Rightarrow> 's \<Rightarrow> node option result \<times> 's" where
  "ModeratingVisit h None s = (Inl Fatal, s)"
| "ModeratingVisit h (Some l) s =
     (case h l s of
        (Inl err, s') \<Rightarrow> (Inl err, s')
      | (Inr None, s') \<Rightarrow> (Ok None, s')
      | (Inr (Some newMsg), s') \<Rightarrow>
          ModeratingVisit_children h l (Children (here l)) (New newMsg) s')"
| "ModeratingVisit_children h l [] newNode s = (Ok (Some newNode), s)"
| "ModeratingVisit_children h l (c # cs) newNode s =
     (case ModeratingVisit h (Some (At c (Some l))) s of
        (Inl err, s') \<Rightarrow> (Inl err, s')
      | (Inr None, s') \<Rightarrow> ModeratingVisit_children h l cs newNode s'
      | (Inr (Some rep), s') \<Rightarrow> ModeratingVisit_children h l cs (AddChild newNode rep) s')"
  by pat_completeness auto

termination
  by (relation "measure (case_sum
        (\<lambda>(h, n, s). case n of None \<Rightarrow> 0 | Some l \<Rightarrow> 2 * size (here l))
        (\<lambda>(h, l, cs, newNode, s). 2 * size_list size cs + 1))")
    (auto simp: size_children)

definition View :: "'s viewing_handler \<Rightarrow> located option \<Rightarrow> 's \<Rightarrow> 's" where
  "View h n s = snd (ViewingVisit h n s)"

definition Moderate :: "'s moderating_handler \<Rightarrow> located option \<Rightarrow> 's \<Rightarrow> node option result \<times> 's" where
  "Moderate h n s = ModeratingVisit h n s"

section \<open>Reference definitions\<close>

text \<open>The nodes of a tree from the root down, left to right, each with its ancestors.\<close>

fun preorder :: "located option \<Rightarrow> node \<Rightarrow> located list" where
  "preorder p (Node m cs) =
     At (Node m cs) p # concat (map (preorder (Some (At (Node m cs) p))) cs)"

fun run_until :: "'s viewing_handler \<Rightarrow> located list \<Rightarrow> 's \<Rightarrow> bool \<times> 's" where
  "run_until h [] s = (True, s)"
| "run_until h (l # ls) s =
     (case h l s of (ok, s') \<Rightarrow> if \<not> ok then (False, s') else run_until h ls s')"

text \<open>The messages from the root to each node, in preorder.\<close>

fun branches :: "node \<Rightarrow> message list list" where
  "branches (Node m cs) = [m] # map ((#) m) (concat (map branches cs))"

fun prune :: "(message \<Rightarrow> bool) \<Rightarrow> node \<Rightarrow> node option" where
  "prune keep (Node m cs) =
     (if keep m then Some (Node m (concat (map (\<lambda>c. case prune keep c of None \<Rightarrow> [] | Some c' \<Rightarrow> [c']) cs)))
      else None)"

definition branches_opt :: "node option \<Rightarrow> message list list" where
  "branches_opt n = (case n of None \<Rightarrow> [] | Some n \<Rightarrow> branches n)"

lemma branches_opt_simps [simp]: "branches_opt None = []" "branches_opt (Some n) = branches n"
  by (simp_all add: branches_opt_def)

lemma run_until_append:
  "run_until h (xs @ ys) s =
     (case run_until h xs s of (ok, s') \<Rightarrow> if \<not> ok then (False, s') else run_until h ys s')"
  by (induction xs arbitrary: s) (auto split: prod.splits)

lemma Visit_run_until:
  "ViewingVisit h n s =
     (case n of None \<Rightarrow> (True, s) | Some l \<Rightarrow> run_until h (preorder (Parent l) (here l)) s)"
  "ViewingVisit_children h l cs s = run_until h (concat (map (preorder (Some l)) cs)) s"
proof (induction h n s and h l cs s rule: ViewingVisit_ViewingVisit_children.induct)
  case (2 h l s)
  obtain m cs p where l: "l = At (Node m cs) p" by (metis located.exhaust node.exhaust)
  obtain ok s' where hs: "h l s = (ok, s')" by (cases "h l s")
  show ?case
    using 2 [OF hs [symmetric]] hs by (auto simp: l)
next
  case (4 h l c cs s)
  obtain ok s' where v: "run_until h (preorder (Some l) c) s = (ok, s')"
    by (cases "run_until h (preorder (Some l) c) s")
  with 4(1) have v': "ViewingVisit h (Some (At c (Some l))) s = (ok, s')" by simp
  show ?case using 4(2) [OF v' [symmetric]] v v' by (auto simp: run_until_append)
qed simp_all

lemma Depth_loop: "Depth_loop l d = d + Depth_loop l 0"
proof (induction l arbitrary: d)
  case (At n p)
  show ?case
  proof (cases p)
    case (Some q)
    with At [of q "d + 1"] At [of q 1] show ?thesis by simp
  qed simp
qed

lemma Depth_simps [simp]: "Depth (At n None) = 0" "Depth (At n (Some p)) = Depth p + 1"
  by (simp_all add: Depth_def) (subst Depth_loop, simp)

text \<open>
  A moderating handler that, while \<open>I\<close> holds of the state, keeps a message as it is or
  drops it, without an error.
\<close>

definition keeps :: "('s \<Rightarrow> bool) \<Rightarrow> (message \<Rightarrow> bool) \<Rightarrow> 's moderating_handler \<Rightarrow> bool" where
  "keeps I keep h \<longleftrightarrow> (\<forall>l s. I s \<longrightarrow>
     (\<exists>s'. h l s = (Ok (if keep (Msg (here l)) then Some (Msg (here l)) else None), s') \<and> I s'))"

lemma Visit_prune:
  "keeps I keep h \<Longrightarrow> I s \<Longrightarrow>
     (case n of None \<Rightarrow> True | Some l \<Rightarrow>
       \<exists>s'. ModeratingVisit h n s = (Ok (prune keep (here l)), s') \<and> I s')"
  "keeps I keep h \<Longrightarrow> I s \<Longrightarrow>
     \<exists>s'. ModeratingVisit_children h l cs newNode s =
       (Ok (Some (Node (Msg newNode) (Children newNode @
          concat (map (\<lambda>c. case prune keep c of None \<Rightarrow> [] | Some c' \<Rightarrow> [c']) cs)))), s') \<and> I s'"
proof (induction h n s and h l cs newNode s rule: ModeratingVisit_ModeratingVisit_children.induct)
  case (2 h l s)
  obtain m cs p where l: "l = At (Node m cs) p" by (metis located.exhaust node.exhaust)
  from 2(2,3) obtain s' where
    h: "h l s = (Ok (if keep m then Some m else None), s')" "I s'"
    unfolding keeps_def l by (metis located.sel(1) node.sel(1))
  show ?case
    using 2(1) [OF h(1) [symmetric], of "Some m"] 2(2) h by (auto simp: l New_def)
next
  case (3 h l newNode s)
  then show ?case by (cases newNode) simp
next
  case (4 h l c cs newNode s)
  from 4(1) [OF 4(4,5)] obtain s' where
    v: "ModeratingVisit h (Some (At c (Some l))) s = (Ok (prune keep c), s')" "I s'" by auto
  show ?case
    using 4(2,3) [OF v(1) [symmetric]] 4(4) v by (auto simp: AddChild_def split: option.splits)
qed simp_all

lemma ModeratingVisit_invariant:
  assumes h: "\<And>l s. I s \<Longrightarrow> I (snd (h l s))"
  shows "I s \<Longrightarrow> I (snd (ModeratingVisit h n s))" "I s \<Longrightarrow> I (snd (ModeratingVisit_children h l cs newNode s))"
  using h
proof (induction h n s and h l cs newNode s rule: ModeratingVisit_ModeratingVisit_children.induct)
  case (2 h l s)
  obtain r s' where r: "h l s = (r, s')" by fastforce
  with 2(2,3) have "I s'" by (metis snd_conv)
  with r 2 show ?case by (auto split: sum.split option.split)
next
  case (4 h l c cs newNode s)
  obtain r s' where r: "ModeratingVisit h (Some (At c (Some l))) s = (r, s')" by fastforce
  with 4(1,4,5) have "I s'" by (metis snd_conv)
  with r 4 show ?case by (auto split: sum.split option.split)
qed auto

lemma branches_prune:
  "branches_opt (prune keep n) = filter (list_all keep) (branches n)"
proof (induction n)
  case (Node m cs)
  let ?kept = "\<lambda>cs. concat (map (\<lambda>c. case prune keep c of None \<Rightarrow> [] | Some c' \<Rightarrow> [c']) cs)"
  have "concat (map branches (?kept cs)) = filter (list_all keep) (concat (map branches cs))"
    using Node
  proof (induction cs)
    case (Cons c cs)
    from Cons.prems [of c] have "branches_opt (prune keep c) = filter (list_all keep) (branches c)"
      by simp
    then have "concat (map branches (case prune keep c of None \<Rightarrow> [] | Some c' \<Rightarrow> [c']))
        = filter (list_all keep) (branches c)"
      by (cases "prune keep c") auto
    with Cons show ?case by simp
  qed simp
  then show ?case
    by (auto simp: filter_map comp_def)
qed

section \<open>Properties\<close>

text \<open>
  Showing a thread is a walk in preorder: \<open>Visit\<close> gives the handler each node once,
  parents before their replies and replies in order, each with its true ancestors, and
  stops at the first node the handler refuses.
\<close>

theorem ViewingVisit_preorder:
  "ViewingVisit h (Some l) s = run_until h (preorder (Parent l) (here l)) s"
  by (simp add: Visit_run_until)

text \<open>
  C40. Moderating a thread with a handler that keeps or drops messages never fails, and the
  chains of messages from the root to each node of the result are those of the original
  all of whose messages the handler keeps, in the same order: a dropped message takes all
  its replies with it and nothing else changes.
\<close>

theorem Moderate_branches:
  assumes "keeps I keep h" "I s"
  shows "\<exists>t s'. Moderate h (Some l) s = (Ok t, s') \<and> I s' \<and>
    branches_opt t = filter (list_all keep) (branches (here l))"
  using Visit_prune(1) [OF assms, of "Some l"] branches_prune by (auto simp: Moderate_def)

definition toy_message :: "gostring \<Rightarrow> entity_id \<Rightarrow> topic \<Rightarrow> message" where
  "toy_message s p t = \<lparr>msg_unsigned = newUnsignedMessage toy_env s ''text'' (replicate 32 1) p 0 t, msg_sig = []\<rparr>"

lemma toy_message_subject [simp]: "mSubject (message_content_of (toy_message s p t)) = s"
  by (simp add: toy_message_def newUnsignedMessage_def newMessageContent_def Let_def)

theorem Moderate_branches_witness:
  "\<exists>t s'. Moderate (\<lambda>l s. (Ok (if mSubject (message_content_of (Msg (here l))) \<noteq> ''bad''
        then Some (Msg (here l)) else None), s + 1))
     (Some (At (Node (toy_message ''a'' ZeroID None)
        [Node (toy_message ''bad'' [1] None) [Node (toy_message ''b'' [2] None) []],
         Node (toy_message ''c'' [1] None) []]) None)) (0::nat) = (Ok t, s') \<and>
     branches_opt t = [[toy_message ''a'' ZeroID None],
       [toy_message ''a'' ZeroID None, toy_message ''c'' [1] None]]"
proof -
  have "keeps (\<lambda>_. True) (\<lambda>m. mSubject (message_content_of m) \<noteq> ''bad'')
    (\<lambda>l (s::nat). (Ok (if mSubject (message_content_of (Msg (here l))) \<noteq> ''bad''
        then Some (Msg (here l)) else None), s + 1))"
    by (simp add: keeps_def)
  from Moderate_branches [OF this TrueI] show ?thesis by fastforce
qed
end
