(* ===== verification/EntityDB.thy ===== *)
theory EntityDB
  imports Thread "HOL-Library.Multiset"
begin

text \<open>
  The entity database (\<open>sqlite/entity_database.go\<close>).

  A table is the list of its rows in the order of insertion, with the constraints of the
  program's own \<open>CREATE TABLE\<close> statements (foreign keys are not enforced: SQLite leaves
  them off unless told otherwise). SQLite itself is the record \<open>engine\<close>: which statements
  it refuses in which state, the order in which it delivers groups and joins tags, and
  what its \<open>strftime\<close> answers. Every statement is followed by the code that handles its
  outcome.
\<close>

section \<open>Tables\<close>

record user_row =
  ur_id :: entity_id
  ur_key :: bytes
  ur_proof :: proof_of_work
  ur_nickname :: gostring
  ur_info :: gostring
  ur_time :: time
  ur_sig :: gostring
  ur_stored :: time

record message_row =
  mr_id :: entity_id
  mr_subject :: gostring
  mr_content :: gostring
  mr_time :: time
  mr_author :: entity_id
  mr_parent :: entity_id
  mr_sig :: gostring
  mr_stored :: time

record operation_row =
  or_id :: entity_id
  or_type :: int
  or_reason :: int
  or_comment :: gostring
  or_author :: entity_id
  or_time :: time
  or_sig :: gostring
  or_stored :: time

record entity_database =
  Users :: "user_row list"
  Messages :: "message_row list"
  Operations :: "operation_row list"
  Operations_on_Users :: "(entity_id \<times> entity_id) list"
  Operations_on_Messages :: "(entity_id \<times> entity_id) list"
  Tags :: "(nat \<times> gostring) list"
  Message_Tags :: "(nat \<times> entity_id) list"

definition empty_database :: entity_database where
  "empty_database = \<lparr>Users = [], Messages = [], Operations = [], Operations_on_Users = [],
     Operations_on_Messages = [], Tags = [], Message_Tags = []\<rparr>"

text \<open>The statements the program prepares, by the function they are in.\<close>

datatype statement =
    S_Open nat | S_Close | S_PutUser | S_GetUser | S_HasUser | S_PutMessage | S_GetMessage
  | S_GetRootMessages | S_GetTopicMessages | S_GetMessagesStoredAfter | S_GetReplies
  | S_HasMessage | S_GetNearMessageID | S_putTag | S_putMessageTag | S_putMessageOperation
  | S_putUserOperation | S_PutOperation | S_GetOperationsOnUser | S_GetOperationsOnMessage
  | S_GetOperation | S_GetOperationsStoredAfter | S_HasOperation

record engine =
  fails :: "entity_database \<Rightarrow> statement \<Rightarrow> bool"
  rank :: "entity_id \<Rightarrow> nat"
  concat_order :: "gostring list \<Rightarrow> gostring list"
  strftime_s :: "time \<Rightarrow> int"

text \<open>\<open>PRIMARY KEY ON CONFLICT IGNORE\<close>: a row whose key is there already is dropped.\<close>

definition insert_ignore :: "('r \<Rightarrow> 'k) \<Rightarrow> 'r \<Rightarrow> 'r list \<Rightarrow> 'r list" where
  "insert_ignore key r rows = (if key r \<in> key ` set rows then rows else rows @ [r])"

text \<open>\<open>LIMIT ? OFFSET ?\<close>: SQLite reads a negative limit as none and a negative offset as 0.\<close>

definition page :: "int \<Rightarrow> int \<Rightarrow> 'a list \<Rightarrow> 'a list" where
  "page offset limit xs =
     (let ys = drop (nat offset) xs in if limit < 0 then ys else take (nat limit) ys)"

definition InitStatements :: nat where "InitStatements = 11"

text \<open>
  Opening: \<open>file\<close> is what the file holds (\<open>None\<close>: it cannot be opened). Four pragmas and
  seven \<open>CREATE TABLE IF NOT EXISTS\<close> run one after the other, the first failure skipping
  the rest.
\<close>

definition OpenEntityDatabase :: "engine \<Rightarrow> entity_database option \<Rightarrow> entity_database result" where
  "OpenEntityDatabase eng file =
     (case file of
        None \<Rightarrow> Err CantOpenDB
      | Some d \<Rightarrow>
          let execErr = fold (\<lambda>req execErr. if execErr then execErr else fails eng d (S_Open req))
                [0..<InitStatements] False
          in if execErr then Err DBOperFailed else Ok d)"

definition Close :: "engine \<Rightarrow> entity_database \<Rightarrow> unit result" where
  "Close eng d = (if fails eng d S_Close then Err DBOperFailed else Ok ())"

section \<open>Users\<close>

definition user_row_of :: "env \<Rightarrow> user \<Rightarrow> time \<Rightarrow> user_row" where
  "user_row_of env u ts =
     \<lparr>ur_id = user_id u, ur_key = EncodeToDER (env_crypto env) (uPubKey (user_content_of u)),
      ur_proof = uProof (user_content_of u), ur_nickname = uNickname (user_content_of u),
      ur_info = uInfo (user_content_of u), ur_time = uRegDate (user_content_of u),
      ur_sig = Signature_Encode (user_sig u), ur_stored = ts\<rparr>"

text \<open>
  \<open>database/sql\<close> has no unsigned integers: a proof with its highest bit set is refused
  before the statement runs.
\<close>

definition PutUser ::
  "env \<Rightarrow> engine \<Rightarrow> user \<Rightarrow> time \<Rightarrow> entity_database \<Rightarrow> unit result \<times> entity_database" where
  "PutUser env eng u ts d =
     (if 2 ^ 63 \<le> uint (uProof (user_content_of u)) \<or> fails eng d S_PutUser
      then (Err DBOperFailed, d)
      else (Ok (), d\<lparr>Users := insert_ignore ur_id (user_row_of env u ts) (Users d)\<rparr>))"

definition GetUser :: "env \<Rightarrow> engine \<Rightarrow> entity_id \<Rightarrow> entity_database \<Rightarrow> user result" where
  "GetUser env eng eid d =
     (if fails eng d S_GetUser then Err DBOperFailed
      else case find (\<lambda>r. ur_id r = eid) (Users d) of
        None \<Rightarrow> Err NoSuchEntity
      | Some r \<Rightarrow>
          (case ParseSignature (ur_sig r) of
             Inl _ \<Rightarrow> Err Parsing
           | Inr sig \<Rightarrow>
               (case ParsePublicKeyFromDER (env_crypto env) (ur_key r) of
                  Inl Fatal \<Rightarrow> Inl Fatal
                | Inl _ \<Rightarrow> Err Parsing
                | Inr pubkey \<Rightarrow>
                    Ok (NewUser env (ur_nickname r) (ur_info r) pubkey (ur_proof r) (ur_time r) sig))))"

definition HasUser :: "engine \<Rightarrow> entity_id \<Rightarrow> entity_database \<Rightarrow> bool result" where
  "HasUser eng eid d =
     (if fails eng d S_HasUser then Err DBOperFailed
      else Ok (list_ex (\<lambda>r. ur_id r = eid) (Users d)))"

section \<open>Messages\<close>

definition putTag :: "engine \<Rightarrow> gostring \<Rightarrow> entity_database \<Rightarrow> unit result \<times> entity_database" where
  "putTag eng tag d =
     (if fails eng d S_putTag then (Err DBOperFailed, d)
      else (Ok (), d\<lparr>Tags := insert_ignore snd (length (Tags d) + 1, tag) (Tags d)\<rparr>))"

text \<open>
  \<open>UNIQUE (Tag_id, Message_id)\<close> and \<open>NOT NULL\<close> are enforced by refusing the statement.
\<close>

definition putMessageTag ::
  "engine \<Rightarrow> gostring \<Rightarrow> entity_id \<Rightarrow> entity_database \<Rightarrow> unit result \<times> entity_database" where
  "putMessageTag eng tag mid d =
     (if fails eng d S_putMessageTag then (Err DBOperFailed, d)
      else case find (\<lambda>t. snd t = tag) (Tags d) of
        None \<Rightarrow> (Err DBOperFailed, d)
      | Some t \<Rightarrow>
          if (fst t, mid) \<in> set (Message_Tags d) then (Err DBOperFailed, d)
          else (Ok (), d\<lparr>Message_Tags := Message_Tags d @ [(fst t, mid)]\<rparr>))"

fun putMesageTopic_loop ::
  "engine \<Rightarrow> entity_id \<Rightarrow> gostring list \<Rightarrow> entity_database \<Rightarrow> unit result \<times> entity_database" where
  "putMesageTopic_loop eng mid [] d = (Ok (), d)"
| "putMesageTopic_loop eng mid (tag # ts) d =
     (case putTag eng tag d of
        (Inl _, d') \<Rightarrow> (Err DBOperFailed, d')
      | (Inr _, d') \<Rightarrow>
          (case putMessageTag eng tag mid d' of
             (Inl _, d'') \<Rightarrow> (Err DBOperFailed, d'')
           | (Inr _, d'') \<Rightarrow> putMesageTopic_loop eng mid ts d''))"

definition putMesageTopic ::
  "engine \<Rightarrow> message \<Rightarrow> entity_database \<Rightarrow> unit result \<times> entity_database" where
  "putMesageTopic eng m d =
     (let t = mTopic (message_content_of m) in putMesageTopic_loop eng (message_id m) (tags t) d)"

definition message_row_of :: "message \<Rightarrow> time \<Rightarrow> message_row" where
  "message_row_of m ts =
     \<lparr>mr_id = message_id m, mr_subject = mSubject (message_content_of m),
      mr_content = mText (message_content_of m), mr_time = mDateWritten (message_content_of m),
      mr_author = mAuthorID (message_content_of m), mr_parent = mParentID (message_content_of m),
      mr_sig = Signature_Encode (msg_sig m), mr_stored = ts\<rparr>"

definition PutMessage ::
  "engine \<Rightarrow> message \<Rightarrow> time \<Rightarrow> entity_database \<Rightarrow> unit result \<times> entity_database" where
  "PutMessage eng msg ts d =
     (if fails eng d S_PutMessage then (Err DBOperFailed, d)
      else case putMesageTopic eng msg
             (d\<lparr>Messages := insert_ignore mr_id (message_row_of msg ts) (Messages d)\<rparr>) of
        (Inl _, d') \<Rightarrow> (Err DBOperFailed, d')
      | (Inr _, d') \<Rightarrow> (Ok (), d'))"

text \<open>
  The names joined to a message, and the value of \<open>GROUP_CONCAT\<close> over them: NULL (\<open>None\<close>)
  when there are none.
\<close>

definition message_tag_names :: "entity_database \<Rightarrow> entity_id \<Rightarrow> gostring list" where
  "message_tag_names d mid =
     map snd (concat (map (\<lambda>mt. filter (\<lambda>t. fst t = fst mt) (Tags d))
       (filter (\<lambda>mt. snd mt = mid) (Message_Tags d))))"

definition group_concat :: "engine \<Rightarrow> char \<Rightarrow> gostring list \<Rightarrow> gostring option" where
  "group_concat eng sep ns = (if ns = [] then None else Some (join sep (concat_order eng ns)))"

text \<open>The three identifiers a message row is read into are arrays of \<open>IDLen\<close> bytes.\<close>

definition topic_of_column :: "gostring option \<Rightarrow> topic result" where
  "topic_of_column topicStr =
     (case topicStr of
        None \<Rightarrow> Ok None
      | Some s \<Rightarrow> (case NewTopic s of Inl _ \<Rightarrow> Err InconsistentDB | Inr t \<Rightarrow> Ok t))"

definition message_of_columns ::
  "env \<Rightarrow> message_row \<Rightarrow> entity_id \<Rightarrow> entity_id \<Rightarrow> signature \<Rightarrow> gostring option \<Rightarrow> message result" where
  "message_of_columns env r authID parID sig topicStr =
     bind_result (topic_of_column topicStr) (\<lambda>t.
       case NewMessage env (mr_subject r) (mr_content r) authID parID (mr_time r) sig t of
         Inl _ \<Rightarrow> Err InconsistentDB
       | Inr m \<Rightarrow> Ok m)"

definition GetMessage :: "env \<Rightarrow> engine \<Rightarrow> entity_id \<Rightarrow> entity_database \<Rightarrow> message result" where
  "GetMessage env eng eid d =
     (if fails eng d S_GetMessage then Err DBOperFailed
      else case find (\<lambda>r. mr_id r = eid) (Messages d) of
        None \<Rightarrow> Err NoSuchEntity
      | Some r \<Rightarrow>
          bind_result (ParseSlice ZeroID (mr_author r)) (\<lambda>authID.
          bind_result (ParseSlice ZeroID (mr_parent r)) (\<lambda>parID.
            case ParseSignature (mr_sig r) of
              Inl _ \<Rightarrow> Err Parsing
            | Inr sig \<Rightarrow>
                message_of_columns env r authID parID sig
                  (group_concat eng comma (message_tag_names d eid)))))"

text \<open>A fetched row: the columns of the message and its tags column.\<close>

definition scanSingleMessageRow ::
  "env \<Rightarrow> message_row \<times> gostring option \<Rightarrow> (message \<times> time) result" where
  "scanSingleMessageRow env row =
     (let (r, topicStr) = row in
      case ParseSignature (mr_sig r) of
        Inl _ \<Rightarrow> Err Parsing
      | Inr sig \<Rightarrow>
          bind_result (ParseSlice ZeroID (mr_id r)) (\<lambda>_.
          bind_result (ParseSlice ZeroID (mr_author r)) (\<lambda>authID.
          bind_result (ParseSlice ZeroID (mr_parent r)) (\<lambda>parID.
          bind_result (message_of_columns env r authID parID sig topicStr) (\<lambda>m.
            Ok (m, mr_stored r))))))"

definition scanMessageRows :: "env \<Rightarrow> (message_row \<times> gostring option) list \<Rightarrow> message list result" where
  "scanMessageRows env rows =
     map_result (\<lambda>row. bind_result (scanSingleMessageRow env row) (\<lambda>mt. Ok (fst mt))) rows"

definition scanStoredMessageRows ::
  "env \<Rightarrow> (message_row \<times> gostring option) list \<Rightarrow> (message \<times> time) list result" where
  "scanStoredMessageRows env rows = map_result (scanSingleMessageRow env) rows"

text \<open>\<open>ORDER BY Messages.Timestamp ASC\<close>; the engine orders messages of the same date.\<close>

definition by_date :: "engine \<Rightarrow> message_row list \<Rightarrow> message_row list" where
  "by_date eng rows = sort_key mr_time (sort_key (rank eng \<circ> mr_id) rows)"

definition with_tags ::
  "engine \<Rightarrow> entity_database \<Rightarrow> message_row \<Rightarrow> message_row \<times> gostring option" where
  "with_tags eng d r = (r, group_concat eng comma (message_tag_names d (mr_id r)))"

definition GetRootMessages ::
  "env \<Rightarrow> engine \<Rightarrow> int \<Rightarrow> int \<Rightarrow> entity_database \<Rightarrow> message list result" where
  "GetRootMessages env eng offset limit d =
     (if fails eng d S_GetRootMessages then Err DBOperFailed
      else scanMessageRows env (map (with_tags eng d) (page offset limit (by_date eng
        (filter (\<lambda>r. mr_parent r = ZeroID \<and> message_tag_names d (mr_id r) \<noteq> []) (Messages d))))))"

definition GetTopicMessages ::
  "env \<Rightarrow> engine \<Rightarrow> topic \<Rightarrow> int \<Rightarrow> int \<Rightarrow> entity_database \<Rightarrow> message list result" where
  "GetTopicMessages env eng t offset limit d =
     (if fails eng d S_GetTopicMessages then Err DBOperFailed
      else scanMessageRows env (map (with_tags eng d) (page offset limit (by_date eng
        (filter (\<lambda>r. let found = filter (\<lambda>n. n \<in> set (tags t)) (message_tag_names d (mr_id r))
                     in found \<noteq> [] \<and> length (remdups found) = length (tags t)) (Messages d))))))"

definition GetMessagesStoredAfter ::
  "env \<Rightarrow> engine \<Rightarrow> time \<Rightarrow> int \<Rightarrow> entity_database \<Rightarrow> (message \<times> time) list result" where
  "GetMessagesStoredAfter env eng ts limit d =
     (if fails eng d S_GetMessagesStoredAfter then Err DBOperFailed
      else scanStoredMessageRows env (map (with_tags eng d) (page 0 limit (by_date eng
        (filter (\<lambda>r. ts \<le> mr_stored r) (Messages d))))))"

text \<open>The query for replies delivers the empty text in the place of the tags.\<close>

definition GetReplies :: "env \<Rightarrow> engine \<Rightarrow> entity_id \<Rightarrow> entity_database \<Rightarrow> message list result" where
  "GetReplies env eng eid d =
     (if fails eng d S_GetReplies then Err DBOperFailed
      else scanMessageRows env (map (\<lambda>r. (r, Some []))
        (by_date eng (filter (\<lambda>r. mr_parent r = eid) (Messages d)))))"

text \<open>
  The recursion of \<open>fillSubthreads\<close> follows stored data; \<open>fuel\<close> bounds its depth and
  \<open>None\<close> means that the bound was met.
\<close>

function (sequential) fillSubthreads ::
  "env \<Rightarrow> engine \<Rightarrow> entity_database \<Rightarrow> nat \<Rightarrow> node \<Rightarrow> node result option"
  and fillSubthreads_loop ::
  "env \<Rightarrow> engine \<Rightarrow> entity_database \<Rightarrow> nat \<Rightarrow> message list \<Rightarrow> node \<Rightarrow> node result option" where
  "fillSubthreads env eng d 0 t = None"
| "fillSubthreads env eng d (Suc fuel) t =
     (case GetReplies env eng (message_id (Msg t)) d of
        Inl err \<Rightarrow> Some (Inl err)
      | Inr replies \<Rightarrow> fillSubthreads_loop env eng d fuel replies t)"
| "fillSubthreads_loop env eng d fuel [] t = Some (Ok t)"
| "fillSubthreads_loop env eng d fuel (r # rs) t =
     (case fillSubthreads env eng d fuel (New r) of
        None \<Rightarrow> None
      | Some (Inl err) \<Rightarrow> Some (Inl err)
      | Some (Inr node) \<Rightarrow> fillSubthreads_loop env eng d fuel rs (AddChild t node))"
  by pat_completeness auto

termination
  by (relation "measures [case_sum (\<lambda>(_, _, _, fuel, _). fuel) (\<lambda>(_, _, _, fuel, _, _). fuel),
        case_sum (\<lambda>_. 0) (\<lambda>(_, _, _, _, rs, _). Suc (length rs))]") auto

definition GetThread ::
  "env \<Rightarrow> engine \<Rightarrow> nat \<Rightarrow> entity_id \<Rightarrow> entity_database \<Rightarrow> node result option" where
  "GetThread env eng fuel eid d =
     (case GetMessage env eng eid d of
        Inl err \<Rightarrow> Some (Inl err)
      | Inr root \<Rightarrow> fillSubthreads env eng d fuel (New root))"

definition HasMessage :: "engine \<Rightarrow> entity_id \<Rightarrow> entity_database \<Rightarrow> bool result" where
  "HasMessage eng eid d =
     (if fails eng d S_HasMessage then Err DBOperFailed
      else Ok (list_ex (\<lambda>r. mr_id r = eid) (Messages d)))"

text \<open>Whole seconds: the delay is divided by \<open>time.Second\<close>, the dates go through \<open>strftime\<close>.\<close>

definition GetNearMessageID ::
  "engine \<Rightarrow> message \<Rightarrow> duration \<Rightarrow> entity_database \<Rightarrow> entity_id option result" where
  "GetNearMessageID eng m diff d =
     (let diffInSec = sgn diff * (\<bar>diff\<bar> div Second) in
      if fails eng d S_GetNearMessageID then Err DBOperFailed
      else case find (\<lambda>r. mr_author r = mAuthorID (message_content_of m) \<and> mr_id r \<noteq> message_id m \<and>
                \<bar>strftime_s eng (mr_time r) - strftime_s eng (mDateWritten (message_content_of m))\<bar> < diffInSec)
             (sort_key (rank eng \<circ> mr_id) (Messages d)) of
        None \<Rightarrow> Ok None
      | Some r \<Rightarrow> bind_result (ParseSlice ZeroID (mr_id r)) (\<lambda>i. Ok (Some i)))"

section \<open>Operations\<close>

definition putMessageOperation ::
  "engine \<Rightarrow> entity_id \<Rightarrow> entity_id \<Rightarrow> entity_database \<Rightarrow> unit result \<times> entity_database" where
  "putMessageOperation eng operID msgID d =
     (if fails eng d S_putMessageOperation then (Err DBOperFailed, d)
      else (Ok (), d\<lparr>Operations_on_Messages := Operations_on_Messages d @ [(operID, msgID)]\<rparr>))"

definition putUserOperation ::
  "engine \<Rightarrow> entity_id \<Rightarrow> entity_id \<Rightarrow> entity_database \<Rightarrow> unit result \<times> entity_database" where
  "putUserOperation eng operID userID d =
     (if fails eng d S_putUserOperation then (Err DBOperFailed, d)
      else (Ok (), d\<lparr>Operations_on_Users := Operations_on_Users d @ [(operID, userID)]\<rparr>))"

definition putOperationObject ::
  "engine \<Rightarrow> operation \<Rightarrow> entity_database \<Rightarrow> unit result \<times> entity_database" where
  "putOperationObject eng oper d =
     (let typ = oType (operation_content_of oper); obj = oObjectID (operation_content_of oper) in
      if typ \<noteq> OperationTypeRemoveMessage \<and> typ \<noteq> OperationTypeBanUser then (Inl Fatal, d)
      else case (if typ = OperationTypeRemoveMessage then HasMessage eng obj d else HasUser eng obj d) of
        Inl err \<Rightarrow> (Inl err, d)
      | Inr has \<Rightarrow>
          if \<not> has then (Err NoSuchEntity, d)
          else (case (if typ = OperationTypeRemoveMessage
                      then putMessageOperation eng (operation_id oper) obj d
                      else putUserOperation eng (operation_id oper) obj d) of
                  (Inl _, d') \<Rightarrow> (Err DBOperFailed, d')
                | (Inr _, d') \<Rightarrow> (Ok (), d')))"

definition operation_row_of :: "operation \<Rightarrow> time \<Rightarrow> operation_row" where
  "operation_row_of oper ts =
     \<lparr>or_id = operation_id oper, or_type = oType (operation_content_of oper),
      or_reason = oReason (operation_content_of oper), or_comment = oComment (operation_content_of oper),
      or_author = oAuthorID (operation_content_of oper), or_time = oDatePerformed (operation_content_of oper),
      or_sig = Signature_Encode (oper_sig oper), or_stored = ts\<rparr>"

definition PutOperation ::
  "engine \<Rightarrow> operation \<Rightarrow> time \<Rightarrow> entity_database \<Rightarrow> unit result \<times> entity_database" where
  "PutOperation eng oper ts d =
     (if fails eng d S_PutOperation then (Err DBOperFailed, d)
      else case putOperationObject eng oper
             (d\<lparr>Operations := insert_ignore or_id (operation_row_of oper ts) (Operations d)\<rparr>) of
        (Inl (Error err), d') \<Rightarrow> (if err = NoSuchEntity then Err err else Err DBOperFailed, d')
      | (Inl f, d') \<Rightarrow> (Inl f, d')
      | (Inr _, d') \<Rightarrow> (Ok (), d'))"

text \<open>
  A fetched operation row with its two joined columns; a message's identifier goes before
  a user's. \<open>objID\<close> is the object the caller asked for, if it did.
\<close>

definition scanSingleOperationRow ::
  "env \<Rightarrow> entity_id option \<Rightarrow> operation_row \<times> entity_id option \<times> entity_id option
     \<Rightarrow> (operation \<times> time) result" where
  "scanSingleOperationRow env objID row =
     (let (r, rawMsgID, rawUserID) = row in
      bind_result (ParseSlice ZeroID (or_id r)) (\<lambda>_.
      bind_result (ParseSlice ZeroID (or_author r)) (\<lambda>authID.
      bind_result
        (case objID of
           Some i \<Rightarrow> Ok i
         | None \<Rightarrow>
             (case (rawMsgID, rawUserID) of
                (Some (b # bs), _) \<Rightarrow> ParseSlice ZeroID (b # bs)
              | (_, Some (b # bs)) \<Rightarrow> ParseSlice ZeroID (b # bs)
              | _ \<Rightarrow> Err InconsistentDB))
        (\<lambda>oID.
          case ParseSignature (or_sig r) of
            Inl _ \<Rightarrow> Err Parsing
          | Inr sig \<Rightarrow>
              (case NewOperation env (or_type r) (or_reason r) (or_comment r) authID oID (or_time r) sig of
                 Inl _ \<Rightarrow> Err InconsistentDB
               | Inr oper \<Rightarrow> Ok (oper, or_stored r))))))"

definition scanOperationRows ::
  "env \<Rightarrow> entity_id option \<Rightarrow> (operation_row \<times> entity_id option \<times> entity_id option) list
     \<Rightarrow> operation list result" where
  "scanOperationRows env objID rows =
     map_result (\<lambda>row. bind_result (scanSingleOperationRow env objID row) (\<lambda>ot. Ok (fst ot))) rows"

definition scanStoredOperationRows ::
  "env \<Rightarrow> entity_id option \<Rightarrow> (operation_row \<times> entity_id option \<times> entity_id option) list
     \<Rightarrow> (operation \<times> time) list result" where
  "scanStoredOperationRows env objID rows = map_result (scanSingleOperationRow env objID) rows"

definition by_rank :: "engine \<Rightarrow> operation_row list \<Rightarrow> operation_row list" where
  "by_rank eng rows = sort_key (rank eng \<circ> or_id) rows"

text \<open>The bare columns of a group come from one of its rows, here the first inserted.\<close>

definition with_objects ::
  "entity_database \<Rightarrow> operation_row \<Rightarrow> operation_row \<times> entity_id option \<times> entity_id option" where
  "with_objects d r =
     (r, map_option snd (find (\<lambda>a. fst a = or_id r) (Operations_on_Messages d)),
      map_option snd (find (\<lambda>a. fst a = or_id r) (Operations_on_Users d)))"

definition GetOperationsOnUser ::
  "env \<Rightarrow> engine \<Rightarrow> entity_id \<Rightarrow> entity_database \<Rightarrow> operation list result" where
  "GetOperationsOnUser env eng uid d =
     (if fails eng d S_GetOperationsOnUser then Err DBOperFailed
      else scanOperationRows env (Some uid) (map (\<lambda>r. (r, None, None)) (by_rank eng
        (filter (\<lambda>r. (or_id r, uid) \<in> set (Operations_on_Users d)) (Operations d)))))"

definition GetOperationsOnMessage ::
  "env \<Rightarrow> engine \<Rightarrow> entity_id \<Rightarrow> entity_database \<Rightarrow> operation list result" where
  "GetOperationsOnMessage env eng mid d =
     (if fails eng d S_GetOperationsOnMessage then Err DBOperFailed
      else scanOperationRows env (Some mid) (map (\<lambda>r. (r, None, None)) (by_rank eng
        (filter (\<lambda>r. (or_id r, mid) \<in> set (Operations_on_Messages d)) (Operations d)))))"

definition GetOperation :: "env \<Rightarrow> engine \<Rightarrow> entity_id \<Rightarrow> entity_database \<Rightarrow> operation result" where
  "GetOperation env eng oid d =
     (if fails eng d S_GetOperation then Err DBOperFailed
      else case scanOperationRows env None (map (with_objects d)
                  (by_rank eng (filter (\<lambda>r. or_id r = oid) (Operations d)))) of
        Inl _ \<Rightarrow> Err DBOperFailed
      | Inr [] \<Rightarrow> Err NoSuchEntity
      | Inr (oper # _) \<Rightarrow> Ok oper)"

definition GetOperationsStoredAfter ::
  "env \<Rightarrow> engine \<Rightarrow> time \<Rightarrow> int \<Rightarrow> entity_database \<Rightarrow> (operation \<times> time) list result" where
  "GetOperationsStoredAfter env eng ts limit d =
     (if fails eng d S_GetOperationsStoredAfter then Err DBOperFailed
      else scanStoredOperationRows env None (map (with_objects d) (page 0 limit (by_rank eng
        (filter (\<lambda>r. ts \<le> or_stored r) (Operations d))))))"

definition HasOperation :: "engine \<Rightarrow> entity_id \<Rightarrow> entity_database \<Rightarrow> bool result" where
  "HasOperation eng eid d =
     (if fails eng d S_HasOperation then Err DBOperFailed
      else Ok (list_ex (\<lambda>r. or_id r = eid) (Operations d)))"

section \<open>Tables keyed by identifier\<close>

locale row_store =
  fixes rid :: "'row \<Rightarrow> entity_id"
    and rows :: "entity_database \<Rightarrow> 'row list"
    and store :: "'row \<Rightarrow> entity_database \<Rightarrow> entity_database"
  assumes rows_store: "rows (store r d) = insert_ignore rid r (rows d)"
begin

lemma store_distinct: "distinct (map rid (rows d)) \<Longrightarrow> distinct (map rid (rows (store r d)))"
  by (auto simp: rows_store insert_ignore_def)

lemma store_ids: "rid ` set (rows (store r d)) = insert (rid r) (rid ` set (rows d))"
  by (auto simp: rows_store insert_ignore_def)

lemma store_find:
  "find (\<lambda>x. rid x = i) (rows (store r d)) =
     (case find (\<lambda>x. rid x = i) (rows d) of
        Some x \<Rightarrow> Some x | None \<Rightarrow> if rid r = i then Some r else None)"
proof -
  have app: "find P (xs @ [y]) = (case find P xs of Some x \<Rightarrow> Some x | None \<Rightarrow> if P y then Some y else None)"
    for P y and xs :: "'row list"
    by (induction xs) auto
  show ?thesis
    by (auto simp: rows_store insert_ignore_def app find_None_iff2 find_None_iff split: option.splits)
qed

lemma store_known: "rid r \<in> rid ` set (rows d) \<Longrightarrow> rows (store r d) = rows d"
  by (simp add: rows_store insert_ignore_def)

lemma store_prefix: "\<exists>ys. rows (store r d) = rows d @ ys"
  by (simp add: rows_store insert_ignore_def)

end

interpretation user_rows: row_store ur_id Users "\<lambda>r d. d\<lparr>Users := insert_ignore ur_id r (Users d)\<rparr>"
  by unfold_locales simp

interpretation message_rows: row_store mr_id Messages
  "\<lambda>r d. d\<lparr>Messages := insert_ignore mr_id r (Messages d)\<rparr>"
  by unfold_locales simp

interpretation operation_rows: row_store or_id Operations
  "\<lambda>r d. d\<lparr>Operations := insert_ignore or_id r (Operations d)\<rparr>"
  by unfold_locales simp

section \<open>Integrity of the tables\<close>

text \<open>
  Keys are unique, tags are numbered from 1, and every association refers to rows that are
  there, although SQLite does not check that.
\<close>

definition user_ids :: "entity_database \<Rightarrow> entity_id set" where
  "user_ids d = ur_id ` set (Users d)"
definition message_ids :: "entity_database \<Rightarrow> entity_id set" where
  "message_ids d = mr_id ` set (Messages d)"
definition operation_ids :: "entity_database \<Rightarrow> entity_id set" where
  "operation_ids d = or_id ` set (Operations d)"
definition tag_ids :: "entity_database \<Rightarrow> nat set" where
  "tag_ids d = fst ` set (Tags d)"

definition tags_wf :: "entity_database \<Rightarrow> bool" where
  "tags_wf d \<longleftrightarrow> distinct (map snd (Tags d)) \<and> map fst (Tags d) = [1..<Suc (length (Tags d))] \<and>
     distinct (Message_Tags d) \<and> (\<forall>(t, m) \<in> set (Message_Tags d). t \<in> tag_ids d \<and> m \<in> message_ids d)"

definition objects_wf :: "entity_database \<Rightarrow> bool" where
  "objects_wf d \<longleftrightarrow>
     (\<forall>(oi, mi) \<in> set (Operations_on_Messages d). oi \<in> operation_ids d \<and> mi \<in> message_ids d) \<and>
     (\<forall>(oi, ui) \<in> set (Operations_on_Users d). oi \<in> operation_ids d \<and> ui \<in> user_ids d)"

definition db_wf :: "entity_database \<Rightarrow> bool" where
  "db_wf d \<longleftrightarrow> distinct (map ur_id (Users d)) \<and> distinct (map mr_id (Messages d)) \<and>
     distinct (map or_id (Operations d)) \<and> tags_wf d \<and> objects_wf d"

lemmas id_set_defs = user_ids_def message_ids_def operation_ids_def tag_ids_def

lemma ids_unchanged [simp]:
  "user_ids (d\<lparr>Messages := ms\<rparr>) = user_ids d" "operation_ids (d\<lparr>Messages := ms\<rparr>) = operation_ids d"
  "tag_ids (d\<lparr>Messages := ms\<rparr>) = tag_ids d" "message_ids (d\<lparr>Users := us\<rparr>) = message_ids d"
  "operation_ids (d\<lparr>Users := us\<rparr>) = operation_ids d" "tag_ids (d\<lparr>Users := us\<rparr>) = tag_ids d"
  "user_ids (d\<lparr>Operations := ops\<rparr>) = user_ids d" "message_ids (d\<lparr>Operations := ops\<rparr>) = message_ids d"
  "tag_ids (d\<lparr>Operations := ops\<rparr>) = tag_ids d" "message_ids (d\<lparr>Tags := ts\<rparr>) = message_ids d"
  "message_ids (d\<lparr>Message_Tags := mts\<rparr>) = message_ids d" "tag_ids (d\<lparr>Message_Tags := mts\<rparr>) = tag_ids d"
  "user_ids (d\<lparr>Operations_on_Users := a\<rparr>) = user_ids d"
  "message_ids (d\<lparr>Operations_on_Users := a\<rparr>) = message_ids d"
  "operation_ids (d\<lparr>Operations_on_Users := a\<rparr>) = operation_ids d"
  "tag_ids (d\<lparr>Operations_on_Users := a\<rparr>) = tag_ids d"
  "user_ids (d\<lparr>Operations_on_Messages := a\<rparr>) = user_ids d"
  "message_ids (d\<lparr>Operations_on_Messages := a\<rparr>) = message_ids d"
  "operation_ids (d\<lparr>Operations_on_Messages := a\<rparr>) = operation_ids d"
  "tag_ids (d\<lparr>Operations_on_Messages := a\<rparr>) = tag_ids d"
  by (simp_all add: id_set_defs)

lemma ids_grow [simp]:
  "user_ids (d\<lparr>Users := insert_ignore ur_id u (Users d)\<rparr>) = insert (ur_id u) (user_ids d)"
  "message_ids (d\<lparr>Messages := insert_ignore mr_id m (Messages d)\<rparr>) = insert (mr_id m) (message_ids d)"
  "operation_ids (d\<lparr>Operations := insert_ignore or_id p (Operations d)\<rparr>) = insert (or_id p) (operation_ids d)"
  "tag_ids (d\<lparr>Tags := Tags d @ ts\<rparr>) = tag_ids d \<union> fst ` set ts"
  using user_rows.store_ids [of u d] message_rows.store_ids [of m d] operation_rows.store_ids [of p d]
  by (auto simp: id_set_defs)

lemma find_SomeD: "find P xs = Some x \<Longrightarrow> x \<in> set xs \<and> P x"
  by (metis find_Some_iff nth_mem)

lemma insert_ignore_tag:
  "insert_ignore snd (n, tag) ts = (if tag \<in> snd ` set ts then ts else ts @ [(n, tag)])"
  by (simp add: insert_ignore_def)

lemma putTag_state:
  "snd (putTag eng tag d) = d \<or>
   tag \<notin> snd ` set (Tags d) \<and> snd (putTag eng tag d) = d\<lparr>Tags := Tags d @ [(length (Tags d) + 1, tag)]\<rparr>"
  by (auto simp: putTag_def insert_ignore_tag)

lemma putTag_wf: "tags_wf d \<Longrightarrow> tags_wf (snd (putTag eng tag d))"
  using putTag_state [of eng tag d] by (auto simp: tags_wf_def)

lemma putMessageTag_state:
  "snd (putMessageTag eng tag mid d) = d \<or>
   (\<exists>i \<in> tag_ids d. (i, mid) \<notin> set (Message_Tags d) \<and>
     snd (putMessageTag eng tag mid d) = d\<lparr>Message_Tags := Message_Tags d @ [(i, mid)]\<rparr>)"
proof (cases "find (\<lambda>t. snd t = tag) (Tags d)")
  case (Some t)
  then have "fst t \<in> tag_ids d" by (simp add: tag_ids_def find_SomeD)
  with Some show ?thesis by (auto simp: putMessageTag_def)
qed (simp add: putMessageTag_def)

lemma putMessageTag_wf:
  "tags_wf d \<Longrightarrow> mid \<in> message_ids d \<Longrightarrow> tags_wf (snd (putMessageTag eng tag mid d))"
  using putMessageTag_state [of eng tag mid d] by (auto simp: tags_wf_def simp del: upt_Suc)

text \<open>What storing the tags of a message leaves alone.\<close>

definition same_but_tags :: "entity_database \<Rightarrow> entity_database \<Rightarrow> bool" where
  "same_but_tags d d' \<longleftrightarrow> Users d' = Users d \<and> Messages d' = Messages d \<and> Operations d' = Operations d \<and>
     Operations_on_Users d' = Operations_on_Users d \<and> Operations_on_Messages d' = Operations_on_Messages d"

lemma same_but_tags_refl [simp]: "same_but_tags d d"
  by (simp add: same_but_tags_def)

lemma same_but_tags_trans: "same_but_tags d d' \<Longrightarrow> same_but_tags d' d'' \<Longrightarrow> same_but_tags d d''"
  by (simp add: same_but_tags_def)

lemma same_but_tags_step:
  "same_but_tags d (snd (putTag eng tag d))" "same_but_tags d (snd (putMessageTag eng tag mid d))"
  using putTag_state [of eng tag d] putMessageTag_state [of eng tag mid d]
  by (auto simp: same_but_tags_def)

lemma topic_loop_state:
  "tags_wf d \<Longrightarrow> mid \<in> message_ids d \<Longrightarrow>
     tags_wf (snd (putMesageTopic_loop eng mid ts d)) \<and> same_but_tags d (snd (putMesageTopic_loop eng mid ts d))"
proof (induction ts arbitrary: d)
  case (Cons tag ts)
  obtain r1 d1 where 1: "putTag eng tag d = (r1, d1)" by fastforce
  obtain r2 d2 where 2: "putMessageTag eng tag mid d1 = (r2, d2)" by fastforce
  have s: "same_but_tags d d1" "same_but_tags d1 d2"
    using same_but_tags_step(1) [of d eng tag] same_but_tags_step(2) [of d1 eng tag mid] 1 2 by simp_all
  have w1: "tags_wf d1" using putTag_wf [OF Cons.prems(1), of eng tag] 1 by simp
  have m: "mid \<in> message_ids d1" "mid \<in> message_ids d2"
    using Cons.prems(2) s
    by (simp_all add: message_ids_def same_but_tags_def)
  have w2: "tags_wf d2" using putMessageTag_wf [OF w1 m(1), of eng tag] 2 by simp
  have IH: "tags_wf (snd (putMesageTopic_loop eng mid ts d2))"
    "same_but_tags d (snd (putMesageTopic_loop eng mid ts d2))"
    using Cons.IH [OF w2 m(2)] same_but_tags_trans [OF same_but_tags_trans [OF s]] by simp_all
  show ?case
  proof (cases r1)
    case (Inr u)
    then show ?thesis using 1 2 w2 IH same_but_tags_trans [OF s] by (cases r2) simp_all
  qed (simp add: 1 w1 s)
qed simp

lemma topic_loop_same: "same_but_tags d (snd (putMesageTopic_loop eng mid ts d))"
proof (induction ts arbitrary: d)
  case (Cons tag ts)
  obtain r1 d1 where 1: "putTag eng tag d = (r1, d1)" by fastforce
  obtain r2 d2 where 2: "putMessageTag eng tag mid d1 = (r2, d2)" by fastforce
  have s: "same_but_tags d d1" "same_but_tags d d2"
    using same_but_tags_step(1) [of d eng tag] same_but_tags_step(2) [of d1 eng tag mid] 1 2
    by (auto intro: same_but_tags_trans)
  then show ?case
    using 1 2 same_but_tags_trans [OF s(2) Cons.IH [of d2]] by (cases r1; cases r2) simp_all
qed simp

lemma PutMessage_state:
  "snd (PutMessage eng m ts d) = d \<or>
   snd (PutMessage eng m ts d) = snd (putMesageTopic eng m
     (d\<lparr>Messages := insert_ignore mr_id (message_row_of m ts) (Messages d)\<rparr>))"
  by (auto simp: PutMessage_def split: prod.splits sum.splits)

lemma PutUser_wf: "db_wf d \<Longrightarrow> db_wf (snd (PutUser env eng u ts d))"
  using user_rows.store_distinct [of d "user_row_of env u ts"]
  by (auto simp: PutUser_def db_wf_def tags_wf_def objects_wf_def simp del: upt_Suc)

lemma PutMessage_wf:
  assumes "db_wf d"
  shows "db_wf (snd (PutMessage eng m ts d))"
proof -
  let ?d = "d\<lparr>Messages := insert_ignore mr_id (message_row_of m ts) (Messages d)\<rparr>"
  have wf: "db_wf ?d"
    using assms message_rows.store_distinct [of d "message_row_of m ts"]
    by (auto simp: db_wf_def tags_wf_def objects_wf_def simp del: upt_Suc)
  have "message_id m \<in> message_ids ?d" by (simp add: message_row_of_def)
  with wf topic_loop_state [of ?d "message_id m" eng "tags (mTopic (message_content_of m))"]
    have "tags_wf (snd (putMesageTopic eng m ?d))" "same_but_tags ?d (snd (putMesageTopic eng m ?d))"
    by (simp_all add: db_wf_def putMesageTopic_def Let_def)
  with wf have "db_wf (snd (putMesageTopic eng m ?d))"
    by (simp add: db_wf_def objects_wf_def id_set_defs same_but_tags_def)
  with assms PutMessage_state [of eng m ts d] show ?thesis by auto
qed

lemma list_ex_id_iff: "list_ex (\<lambda>r. f r = i) rs \<longleftrightarrow> i \<in> f ` set rs"
  by (auto simp: list_ex_iff)

lemma putOperationObject_wf:
  assumes "db_wf d" "operation_id oper \<in> operation_ids d"
  shows "db_wf (snd (putOperationObject eng oper d))"
proof -
  let ?i = "operation_id oper" and ?obj = "oObjectID (operation_content_of oper)"
  have "snd (putOperationObject eng oper d) = d \<or>
    (?obj \<in> message_ids d \<and> snd (putOperationObject eng oper d) =
       d\<lparr>Operations_on_Messages := Operations_on_Messages d @ [(?i, ?obj)]\<rparr>) \<or>
    (?obj \<in> user_ids d \<and> snd (putOperationObject eng oper d) =
       d\<lparr>Operations_on_Users := Operations_on_Users d @ [(?i, ?obj)]\<rparr>)"
    by (simp add: putOperationObject_def Let_def HasMessage_def HasUser_def list_ex_id_iff
        putMessageOperation_def putUserOperation_def user_ids_def message_ids_def)
  with assms show ?thesis
    by (elim disjE conjE) (simp_all add: db_wf_def objects_wf_def tags_wf_def)
qed

lemma PutOperation_wf:
  assumes "db_wf d"
  shows "db_wf (snd (PutOperation eng oper ts d))"
proof -
  let ?d = "d\<lparr>Operations := insert_ignore or_id (operation_row_of oper ts) (Operations d)\<rparr>"
  have wf: "db_wf ?d"
    using assms operation_rows.store_distinct [of d "operation_row_of oper ts"]
    by (auto simp: db_wf_def tags_wf_def objects_wf_def simp del: upt_Suc)
  have "operation_id oper \<in> operation_ids ?d" by (simp add: operation_row_of_def)
  with wf have "db_wf (snd (putOperationObject eng oper ?d))" by (rule putOperationObject_wf)
  with assms show ?thesis
    by (auto simp: PutOperation_def split: prod.splits sum.splits fault.splits)
qed

end
