(* ===== verification/EntityStore.thy ===== *)
theory EntityStore
  imports EntityDB
begin

text \<open>
  What the entity database means: the tables represent a store of users, messages and
  operations in the order they were put, every put of a storable entity appends to that
  store, and every query answers from it. The engine is assumed to refuse no statement and
  to join tags in the order of insertion where a lemma says so; the integrity of the tables
  needs neither.
\<close>

section \<open>What a put makes readable\<close>

text \<open>An engine that refuses nothing and joins tags in the order they were inserted.\<close>

definition reliable :: "engine \<Rightarrow> bool" where
  "reliable eng \<longleftrightarrow> (\<forall>d st. \<not> fails eng d st)"

lemma reliableD [simp]: "reliable eng \<Longrightarrow> fails eng d st = False"
  by (simp add: reliable_def)

text \<open>Users.\<close>

definition storable_user :: "env \<Rightarrow> user \<Rightarrow> bool" where
  "storable_user env u \<longleftrightarrow> UnsignedUser_isValid env (user_unsigned u) \<and>
     d_type (uu_desc (user_unsigned u)) = TypeUser \<and> uint (uProof (user_content_of u)) < 2 ^ 63 \<and>
     ParsePublicKeyFromDER (env_crypto env) (EncodeToDER (env_crypto env) (uPubKey (user_content_of u)))
       = Ok (uPubKey (user_content_of u))"

lemma find_id_None: "find (\<lambda>r. f r = i) rs = None \<longleftrightarrow> i \<notin> f ` set rs"
  by (auto simp: find_None_iff)

lemma PutUser_GetUser:
  assumes "reliable eng" "storable_user env u" "user_id u \<notin> user_ids d"
  shows "fst (PutUser env eng u ts d) = Ok ()"
    and "GetUser env eng (user_id u) (snd (PutUser env eng u ts d)) = Ok u"
proof -
  let ?d = "d\<lparr>Users := insert_ignore ur_id (user_row_of env u ts) (Users d)\<rparr>"
  have put: "PutUser env eng u ts d = (Ok (), ?d)"
    using assms(1,2) by (simp add: PutUser_def storable_user_def not_le)
  have "find (\<lambda>r. ur_id r = user_id u) (Users d) = None"
    using assms(3) by (simp add: find_id_None user_ids_def)
  then have "find (\<lambda>r. ur_id r = user_id u) (Users ?d) = Some (user_row_of env u ts)"
    by (subst user_rows.store_find) (simp add: user_row_of_def)
  with assms(1,2) NewUser_reload [of env u]
  show "fst (PutUser env eng u ts d) = Ok ()"
    "GetUser env eng (user_id u) (snd (PutUser env eng u ts d)) = Ok u"
    unfolding put by (simp_all add: GetUser_def storable_user_def ParseSignature_Encode user_row_of_def)
qed

lemma PutUser_GetUser_other:
  assumes "i \<noteq> user_id u" "\<And>st. fails eng d st = fails eng (snd (PutUser env eng u ts d)) st"
  shows "GetUser env eng i (snd (PutUser env eng u ts d)) = GetUser env eng i d"
proof -
  have "find (\<lambda>r. ur_id r = i) (Users (snd (PutUser env eng u ts d))) = find (\<lambda>r. ur_id r = i) (Users d)"
    using user_rows.store_find [of i "user_row_of env u ts" d] assms(1)
    by (auto simp: PutUser_def user_row_of_def split: option.splits)
  with assms(2) show ?thesis by (simp add: GetUser_def)
qed

text \<open>Tags.\<close>

lemma Tags_unique:
  assumes "tags_wf d" "(i, n) \<in> set (Tags d)" "(j, m) \<in> set (Tags d)"
  shows "i = j \<longleftrightarrow> n = m"
proof -
  have "distinct (map fst (Tags d))" "distinct (map snd (Tags d))"
    using assms(1) by (simp_all add: tags_wf_def del: upt_Suc)
  with assms(2,3) show ?thesis
    by (metis distinct_map eq_fst_iff eq_snd_iff inj_on_def fst_conv snd_conv)
qed

lemma distinct_single: "distinct xs \<Longrightarrow> set xs = {x} \<Longrightarrow> xs = [x]"
  by (cases xs) (auto simp: subset_singleton_iff)

lemma filter_tag_id:
  assumes "tags_wf d" "(i, n) \<in> set (Tags d)"
  shows "filter (\<lambda>t. fst t = i) (Tags d) = [(i, n)]"
proof (rule distinct_single)
  show "distinct (filter (\<lambda>t. fst t = i) (Tags d))"
    using assms(1) by (auto simp: tags_wf_def distinct_map simp del: upt_Suc)
  have n: "m = n" if "(i, m) \<in> set (Tags d)" for m
    using Tags_unique [OF assms that] by simp
  show "set (filter (\<lambda>t. fst t = i) (Tags d)) = {(i, n)}"
  proof (rule subset_antisym)
    show "set (filter (\<lambda>t. fst t = i) (Tags d)) \<subseteq> {(i, n)}" by (auto intro: n)
    show "{(i, n)} \<subseteq> set (filter (\<lambda>t. fst t = i) (Tags d))" using assms(2) by simp
  qed
qed

lemma tag_id_bound: "tags_wf d \<Longrightarrow> i \<in> tag_ids d \<longleftrightarrow> 1 \<le> i \<and> i \<le> length (Tags d)"
proof -
  assume "tags_wf d"
  then have "set (map fst (Tags d)) = set [1..<Suc (length (Tags d))]"
    by (simp add: tags_wf_def del: upt_Suc set_map)
  then show ?thesis by (auto simp: tag_ids_def)
qed

lemma names_putTag:
  assumes "tags_wf d"
  shows "message_tag_names (snd (putTag eng tag d)) mid = message_tag_names d mid"
proof -
  have "length (Tags d) + 1 \<noteq> fst mt" if "mt \<in> set (Message_Tags d)" for mt
  proof -
    have "fst mt \<in> tag_ids d" using assms that by (auto simp: tags_wf_def)
    with tag_id_bound [OF assms] show ?thesis by auto
  qed
  then have "map (\<lambda>mt. filter (\<lambda>t. fst t = fst mt) (Tags d @ [(length (Tags d) + 1, tag)]))
      (filter (\<lambda>mt. snd mt = mid) (Message_Tags d)) =
    map (\<lambda>mt. filter (\<lambda>t. fst t = fst mt) (Tags d)) (filter (\<lambda>mt. snd mt = mid) (Message_Tags d))"
    by (intro map_cong) auto
  then have "message_tag_names (d\<lparr>Tags := Tags d @ [(length (Tags d) + 1, tag)]\<rparr>) mid = message_tag_names d mid"
    by (simp add: message_tag_names_def del: filter_append filter.simps map_eq_conv)
  then show ?thesis using putTag_state [of eng tag d] by auto
qed

lemma in_names_iff:
  assumes "tags_wf d" "(i, tag) \<in> set (Tags d)"
  shows "tag \<in> set (message_tag_names d mid) \<longleftrightarrow> (i, mid) \<in> set (Message_Tags d)"
proof -
  have "tag \<in> set (message_tag_names d mid) \<longleftrightarrow>
    (\<exists>j. (j, mid) \<in> set (Message_Tags d) \<and> (j, tag) \<in> set (Tags d))"
    by (force simp: message_tag_names_def)
  with Tags_unique [OF assms(1) assms(2)] assms(2) show ?thesis by blast
qed

lemma putTag_reliable:
  assumes "reliable eng" "tags_wf d"
  shows "fst (putTag eng tag d) = Ok () \<and> (\<exists>i. (i, tag) \<in> set (Tags (snd (putTag eng tag d))))"
  using assms by (auto simp: putTag_def insert_ignore_tag)

text \<open>Storing one tag of a message: refused exactly when the message has it already.\<close>

lemma putMessageTag_reliable:
  assumes "reliable eng" "tags_wf d" "(i, tag) \<in> set (Tags d)"
  shows "putMessageTag eng tag mid d =
    (if tag \<in> set (message_tag_names d mid) then (Err DBOperFailed, d)
     else (Ok (), d\<lparr>Message_Tags := Message_Tags d @ [(i, mid)]\<rparr>))"
proof -
  obtain t where t: "find (\<lambda>t. snd t = tag) (Tags d) = Some t"
    using assms(3) by (cases "find (\<lambda>t. snd t = tag) (Tags d)") (auto simp: find_None_iff)
  then have "t \<in> set (Tags d)" "snd t = tag" using find_SomeD [OF t] by auto
  then have "fst t = i" using Tags_unique [OF assms(2,3)] by (metis prod.collapse)
  with t in_names_iff [OF assms(2,3)] assms(1) show ?thesis by (simp add: putMessageTag_def)
qed

lemma names_append:
  assumes "tags_wf d" "(i, tag) \<in> set (Tags d)"
  shows "message_tag_names (d\<lparr>Message_Tags := Message_Tags d @ [(i, mid)]\<rparr>) m =
    message_tag_names d m @ (if m = mid then [tag] else [])"
  using filter_tag_id [OF assms] by (simp add: message_tag_names_def)

lemma topic_loop_reliable:
  assumes "reliable eng"
  shows "tags_wf d \<Longrightarrow> mid \<in> message_ids d \<Longrightarrow> distinct (message_tag_names d mid @ ts) \<Longrightarrow>
    fst (putMesageTopic_loop eng mid ts d) = Ok () \<and>
    message_tag_names (snd (putMesageTopic_loop eng mid ts d)) m =
      message_tag_names d m @ (if m = mid then ts else [])"
proof (induction ts arbitrary: d)
  case (Cons tag ts)
  obtain r1 d1 where 1: "putTag eng tag d = (r1, d1)" by fastforce
  with putTag_reliable [OF assms Cons.prems(1), of tag] obtain i where
    i: "r1 = Ok ()" "(i, tag) \<in> set (Tags d1)" by auto
  have w1: "tags_wf d1" using putTag_wf [OF Cons.prems(1), of eng tag] 1 by simp
  have n1: "message_tag_names d1 m = message_tag_names d m" for m
    using names_putTag [OF Cons.prems(1), of eng tag m] 1 by simp
  have m1: "mid \<in> message_ids d1"
    using same_but_tags_step(1) [of d eng tag] 1 Cons.prems(2) by (simp add: same_but_tags_def message_ids_def)
  let ?d = "d1\<lparr>Message_Tags := Message_Tags d1 @ [(i, mid)]\<rparr>"
  have 2: "putMessageTag eng tag mid d1 = (Ok (), ?d)"
    using putMessageTag_reliable [OF assms w1 i(2)] Cons.prems(3) by (simp add: n1)
  have w2: "tags_wf ?d" using putMessageTag_wf [OF w1 m1, of eng tag] 2 by simp
  have n2: "message_tag_names ?d m = message_tag_names d m @ (if m = mid then [tag] else [])" for m
    using names_append [OF w1 i(2)] by (simp add: n1)
  have "mid \<in> message_ids ?d" "distinct (message_tag_names ?d mid @ ts)"
    using m1 Cons.prems(3) by (simp_all add: n2)
  from Cons.IH [OF w2 this] show ?case using 1 2 i(1) n2 by simp
qed simp

lemma row_ids [simp]:
  "ur_id (user_row_of env u ts) = user_id u" "mr_id (message_row_of m ts) = message_id m"
  "or_id (operation_row_of oper ts) = operation_id oper"
  by (simp_all add: user_row_of_def message_row_of_def operation_row_of_def)

text \<open>Messages. Reading one back joins its tags in the engine's order.\<close>

definition storable_message :: "env \<Rightarrow> message \<Rightarrow> bool" where
  "storable_message env m \<longleftrightarrow> UnsignedMessage_isValid env (msg_unsigned m) \<and>
     d_type (um_desc (msg_unsigned m)) = TypeMessage \<and> Topic_IsValid (mTopic (message_content_of m)) \<and>
     length (message_id m) = IDLen \<and>
     length (mAuthorID (message_content_of m)) = IDLen \<and> length (mParentID (message_content_of m)) = IDLen"

definition concat_permutes :: "engine \<Rightarrow> bool" where
  "concat_permutes eng \<longleftrightarrow> (\<forall>ns. mset (concat_order eng ns) = mset ns)"

definition reordered :: "engine \<Rightarrow> env \<Rightarrow> message \<Rightarrow> message" where
  "reordered eng env m =
     (let c = message_content_of m in
      \<lparr>msg_unsigned = newUnsignedMessage env (mSubject c) (mText c) (mAuthorID c) (mParentID c)
         (mDateWritten c) (map_option (concat_order eng) (mTopic c)), msg_sig = msg_sig m\<rparr>)"

lemma ParseSlice_ok [simp]: "length i = IDLen \<Longrightarrow> ParseSlice ZeroID i = Ok i"
  by (simp add: ParseSlice_def)

lemma Topic_IsValid_mset:
  "mset xs = mset ys \<Longrightarrow> Topic_IsValid (Some xs) = Topic_IsValid (Some ys)"
  by (simp add: Topic_IsValid_iff)
    (metis mset_eq_imp_distinct_iff mset_eq_length mset_eq_setD size_mset length_0_conv)

lemma topic_of_group_concat:
  assumes "Topic_IsValid t" "concat_permutes eng"
  shows "topic_of_column (group_concat eng comma (tags t)) = Ok (map_option (concat_order eng) t)"
proof (cases t)
  case (Some ts)
  then have "ts \<noteq> []" using assms(1) by (auto simp: Topic_IsValid_iff)
  moreover have "Topic_IsValid (Some (concat_order eng ts))"
    using assms Topic_IsValid_mset [of "concat_order eng ts" ts] by (simp add: concat_permutes_def Some)
  then have "NewTopic (join comma (concat_order eng ts)) = Ok (Some (concat_order eng ts))"
    using NewTopic_String by (metis Topic_String_def tags_simps(2))
  ultimately show ?thesis by (simp add: topic_of_column_def group_concat_def Some)
qed (simp add: topic_of_column_def group_concat_def)

lemma NewMessage_reordered:
  assumes "storable_message env m"
  shows "NewMessage env (mSubject (message_content_of m)) (mText (message_content_of m))
    (mAuthorID (message_content_of m)) (mParentID (message_content_of m))
    (mDateWritten (message_content_of m)) (msg_sig m) (map_option f (mTopic (message_content_of m)))
    = Ok \<lparr>msg_unsigned = newUnsignedMessage env (mSubject (message_content_of m)) (mText (message_content_of m))
        (mAuthorID (message_content_of m)) (mParentID (message_content_of m))
        (mDateWritten (message_content_of m)) (map_option f (mTopic (message_content_of m))),
        msg_sig = msg_sig m\<rparr>"
proof -
  have "UnsignedMessage_isValid env (newUnsignedMessage env (mSubject (message_content_of m)) (mText (message_content_of m))
        (mAuthorID (message_content_of m)) (mParentID (message_content_of m))
        (mDateWritten (message_content_of m)) (map_option f (mTopic (message_content_of m))))"
    using assms by (auto simp: storable_message_def UnsignedMessage_isValid_def Let_def
        newUnsignedMessage_def newMessageContent_def split: if_splits)
  then show ?thesis by (simp add: NewMessage_def)
qed

lemma reordered_id:
  assumes "storable_message env m" "map_option (concat_order eng) (mTopic (message_content_of m)) = mTopic (message_content_of m)"
  shows "reordered eng env m = m"
proof -
  have "NewMessage env (mSubject (message_content_of m)) (mText (message_content_of m))
    (mAuthorID (message_content_of m)) (mParentID (message_content_of m))
    (mDateWritten (message_content_of m)) (msg_sig m) (mTopic (message_content_of m)) = Ok m"
    using assms(1) by (intro NewMessage_reload) (simp_all add: storable_message_def)
  with NewMessage_reordered [OF assms(1), of "concat_order eng"] show ?thesis
    by (simp add: reordered_def Let_def assms(2))
qed

lemma message_of_columns_storable:
  assumes "storable_message env m" "concat_permutes eng"
  shows "message_of_columns env (message_row_of m ts) (mAuthorID (message_content_of m))
    (mParentID (message_content_of m)) (msg_sig m)
    (group_concat eng comma (tags (mTopic (message_content_of m)))) = Ok (reordered eng env m)"
  using assms topic_of_group_concat [of "mTopic (message_content_of m)" eng]
    NewMessage_reordered [OF assms(1)]
  by (simp add: message_of_columns_def message_row_of_def reordered_def Let_def storable_message_def)

lemma PutMessage_fresh:
  assumes "reliable eng" "db_wf d" "storable_message env m" "message_id m \<notin> message_ids d"
  shows "\<exists>d'. PutMessage eng m ts d = (Ok (), d') \<and> db_wf d' \<and>
    find (\<lambda>r. mr_id r = message_id m) (Messages d') = Some (message_row_of m ts) \<and>
    message_tag_names d' (message_id m) = tags (mTopic (message_content_of m)) \<and>
    (\<forall>i. i \<noteq> message_id m \<longrightarrow> message_tag_names d' i = message_tag_names d i \<and>
       find (\<lambda>r. mr_id r = i) (Messages d') = find (\<lambda>r. mr_id r = i) (Messages d))"
proof -
  let ?d = "d\<lparr>Messages := insert_ignore mr_id (message_row_of m ts) (Messages d)\<rparr>"
  let ?d' = "snd (putMesageTopic eng m ?d)" and ?ts = "tags (mTopic (message_content_of m))"
  have "tags_wf d" using assms(2) by (simp add: db_wf_def)
  then have w: "tags_wf ?d" and none: "snd mt \<noteq> message_id m" if "mt \<in> set (Message_Tags d)" for mt
    using that assms(4) by (auto simp: tags_wf_def simp del: upt_Suc)
  have w: "tags_wf ?d" using \<open>tags_wf d\<close> by (auto simp: tags_wf_def simp del: upt_Suc)
  have same: "message_tag_names ?d i = message_tag_names d i" for i by (simp add: message_tag_names_def)
  have fresh: "message_tag_names d (message_id m) = []" by (auto simp: message_tag_names_def filter_empty_conv dest: none)
  have mid: "message_id m \<in> message_ids ?d" by simp
  have dist: "distinct (message_tag_names ?d (message_id m) @ ?ts)"
    using assms(3) Topic_IsValid_iff [of "mTopic (message_content_of m)"] by (simp add: same fresh storable_message_def)
  note loop = topic_loop_reliable [OF assms(1) w mid dist]
  have put: "PutMessage eng m ts d = (Ok (), ?d')"
    using assms(1) loop [of undefined] by (auto simp: PutMessage_def putMesageTopic_def Let_def split: prod.splits)
  have names: "message_tag_names ?d' i = message_tag_names d i @ (if i = message_id m then ?ts else [])" for i
    using loop [of i] by (simp add: putMesageTopic_def Let_def same)
  have ms: "Messages ?d' = Messages ?d"
    using topic_loop_state [OF w mid, of eng ?ts] by (simp add: putMesageTopic_def Let_def same_but_tags_def)
  have found: "find (\<lambda>r. mr_id r = i) (Messages ?d') = (case find (\<lambda>r. mr_id r = i) (Messages d) of
      Some x \<Rightarrow> Some x | None \<Rightarrow> if message_id m = i then Some (message_row_of m ts) else None)" for i
    unfolding ms by (subst message_rows.store_find) simp
  have "find (\<lambda>r. mr_id r = message_id m) (Messages d) = None"
    using assms(4) by (simp add: find_id_None message_ids_def)
  with found have "find (\<lambda>r. mr_id r = message_id m) (Messages ?d') = Some (message_row_of m ts)"
    "\<forall>i. i \<noteq> message_id m \<longrightarrow> find (\<lambda>r. mr_id r = i) (Messages ?d') = find (\<lambda>r. mr_id r = i) (Messages d)"
    by (simp_all split: option.splits)
  then show ?thesis
    using put names fresh PutMessage_wf [OF assms(2), of eng m ts] by simp
qed

lemma GetMessage_stored:
  assumes "reliable eng" "storable_message env m" "concat_permutes eng"
    and "find (\<lambda>r. mr_id r = message_id m) (Messages d) = Some (message_row_of m ts)"
    and "message_tag_names d (message_id m) = tags (mTopic (message_content_of m))"
  shows "GetMessage env eng (message_id m) d = Ok (reordered eng env m)"
  using assms message_of_columns_storable [OF assms(2,3), of ts]
  by (simp add: GetMessage_def) (simp add: message_row_of_def storable_message_def ParseSignature_Encode)

text \<open>Storing the same message again: fine for a reply, refused for a message with tags.\<close>

lemma PutMessage_again:
  assumes "reliable eng" "db_wf d" "message_id m \<in> message_ids d"
    and "set (tags (mTopic (message_content_of m))) \<subseteq> set (message_tag_names d (message_id m))"
  shows "PutMessage eng m ts d =
    (if tags (mTopic (message_content_of m)) = [] then Ok () else Err DBOperFailed, d)"
proof -
  have known: "insert_ignore mr_id (message_row_of m ts) (Messages d) = Messages d"
    using assms(3) by (simp add: insert_ignore_def message_ids_def)
  show ?thesis
  proof (cases "tags (mTopic (message_content_of m))")
    case (Cons tag rest)
    with assms(4) have tag: "tag \<in> set (message_tag_names d (message_id m))" by simp
    then obtain i where i: "(i, tag) \<in> set (Tags d)" by (auto simp: message_tag_names_def)
    then have "putTag eng tag d = (Ok (), d)"
      using assms(1) by (force simp: putTag_def insert_ignore_tag)
    moreover have "tags_wf d" using assms(2) by (simp add: db_wf_def)
    ultimately show ?thesis
      using assms(1) i tag putMessageTag_reliable [OF assms(1) _ i, of "message_id m"]
      by (simp add: PutMessage_def putMesageTopic_def known Cons Let_def)
  qed (use assms(1) known in \<open>simp add: PutMessage_def putMesageTopic_def Let_def\<close>)
qed

text \<open>Operations.\<close>

definition storable_operation :: "env \<Rightarrow> operation \<Rightarrow> bool" where
  "storable_operation env oper \<longleftrightarrow> UnsignedOperation_isValid env (oper_unsigned oper) \<and>
     d_type (uo_desc (oper_unsigned oper)) = TypeOperation \<and> length (operation_id oper) = IDLen \<and>
     length (oAuthorID (operation_content_of oper)) = IDLen \<and>
     length (oObjectID (operation_content_of oper)) = IDLen"

abbreviation removes :: "operation \<Rightarrow> bool" where
  "removes oper \<equiv> oType (operation_content_of oper) = OperationTypeRemoveMessage"
abbreviation bans :: "operation \<Rightarrow> bool" where
  "bans oper \<equiv> oType (operation_content_of oper) = OperationTypeBanUser"

lemma storable_operation_type: "storable_operation env oper \<Longrightarrow> removes oper \<noteq> bans oper"
  by (auto simp: storable_operation_def UnsignedOperation_isValid_def Let_def oper_type_defs split: if_splits)

section \<open>The database as a store of entities\<close>

text \<open>
  The abstract state: users, messages and operations in the order they were stored, each
  with the time. The tables represent it when each row is that of the entity, a message is
  joined to exactly its tags, and each operation to exactly its object.
\<close>

definition association :: "operation \<times> time \<Rightarrow> entity_id \<times> entity_id" where
  "association ot = (operation_id (fst ot), oObjectID (operation_content_of (fst ot)))"

definition represents ::
  "env \<Rightarrow> entity_database \<Rightarrow> (user \<times> time) list \<Rightarrow> (message \<times> time) list \<Rightarrow> (operation \<times> time) list \<Rightarrow> bool" where
  "represents env d us ms os \<longleftrightarrow> db_wf d \<and>
     Users d = map (\<lambda>(u, t). user_row_of env u t) us \<and> (\<forall>(u, t) \<in> set us. storable_user env u) \<and>
     Messages d = map (\<lambda>(m, t). message_row_of m t) ms \<and>
     (\<forall>(m, t) \<in> set ms. storable_message env m \<and>
        message_tag_names d (message_id m) = tags (mTopic (message_content_of m))) \<and>
     Operations d = map (\<lambda>(p, t). operation_row_of p t) os \<and>
     (\<forall>(p, t) \<in> set os. storable_operation env p) \<and>
     Operations_on_Messages d = map association (filter (\<lambda>ot. removes (fst ot)) os) \<and>
     Operations_on_Users d = map association (filter (\<lambda>ot. bans (fst ot)) os)"

lemma represents_empty: "represents env empty_database [] [] []"
  by (simp add: represents_def empty_database_def db_wf_def tags_wf_def objects_wf_def)

lemma represents_ids:
  assumes "represents env d us ms os"
  shows "user_ids d = (user_id \<circ> fst) ` set us" "message_ids d = (message_id \<circ> fst) ` set ms"
    "operation_ids d = (operation_id \<circ> fst) ` set os"
  using assms by (force simp: represents_def id_set_defs image_image split_def)+

lemma insert_ignore_fresh: "key r \<notin> key ` set rows \<Longrightarrow> insert_ignore key r rows = rows @ [r]"
  by (simp add: insert_ignore_def)

lemma PutUser_represents:
  assumes "reliable eng" "represents env d us ms os" "storable_user env u" "user_id u \<notin> user_ids d"
  shows "\<exists>d'. PutUser env eng u ts d = (Ok (), d') \<and> represents env d' (us @ [(u, ts)]) ms os"
proof -
  let ?d = "d\<lparr>Users := Users d @ [user_row_of env u ts]\<rparr>"
  have put: "PutUser env eng u ts d = (Ok (), ?d)"
    using assms(1,3,4) by (simp add: PutUser_def storable_user_def not_le insert_ignore_fresh user_ids_def)
  with assms(2) PutUser_wf [of d env eng u ts] have "db_wf ?d" by (simp add: represents_def)
  with put assms(2,3) show ?thesis by (simp add: represents_def message_tag_names_def)
qed

lemma PutMessage_represents:
  assumes "reliable eng" "represents env d us ms os" "storable_message env m" "message_id m \<notin> message_ids d"
  shows "\<exists>d'. PutMessage eng m ts d = (Ok (), d') \<and> represents env d' us (ms @ [(m, ts)]) os"
proof -
  from assms(2) have wf: "db_wf d" by (simp add: represents_def)
  from PutMessage_fresh [OF assms(1) wf assms(3,4), of ts] obtain d' where
    put: "PutMessage eng m ts d = (Ok (), d')" "db_wf d'"
    and names: "message_tag_names d' (message_id m) = tags (mTopic (message_content_of m))"
      "\<And>i. i \<noteq> message_id m \<Longrightarrow> message_tag_names d' i = message_tag_names d i" by blast
  let ?d = "d\<lparr>Messages := insert_ignore mr_id (message_row_of m ts) (Messages d)\<rparr>"
  have "tags_wf ?d" "message_id m \<in> message_ids ?d"
    using wf by (auto simp: db_wf_def tags_wf_def simp del: upt_Suc)
  from topic_loop_state [OF this] put(1) PutMessage_state [of eng m ts d] assms(1)
  have "same_but_tags ?d d'"
    by (auto simp: PutMessage_def putMesageTopic_def Let_def split: prod.splits sum.splits) (metis snd_conv)+
  moreover have "message_id n \<noteq> message_id m" if "(n, t) \<in> set ms" for n t
    using assms(4) that by (force simp: represents_ids(2) [OF assms(2)])
  moreover have "insert_ignore mr_id (message_row_of m ts) (Messages d) = Messages d @ [message_row_of m ts]"
    using assms(4) by (simp add: insert_ignore_fresh message_ids_def)
  ultimately show ?thesis
    using assms(2,3) put names by (auto simp: represents_def same_but_tags_def)
qed

lemma HasUser_reliable: "reliable eng \<Longrightarrow> HasUser eng i d = Ok (i \<in> user_ids d)"
  by (simp add: HasUser_def list_ex_id_iff user_ids_def)

lemma HasMessage_reliable: "reliable eng \<Longrightarrow> HasMessage eng i d = Ok (i \<in> message_ids d)"
  by (simp add: HasMessage_def list_ex_id_iff message_ids_def)

lemma HasOperation_reliable: "reliable eng \<Longrightarrow> HasOperation eng i d = Ok (i \<in> operation_ids d)"
  by (simp add: HasOperation_def list_ex_id_iff operation_ids_def)

lemma PutOperation_represents:
  assumes "reliable eng" "represents env d us ms os" "storable_operation env p" "operation_id p \<notin> operation_ids d"
    and "if removes p then oObjectID (operation_content_of p) \<in> message_ids d
         else oObjectID (operation_content_of p) \<in> user_ids d"
  shows "\<exists>d'. PutOperation eng p ts d = (Ok (), d') \<and> represents env d' us ms (os @ [(p, ts)])"
proof -
  let ?d = "d\<lparr>Operations := Operations d @ [operation_row_of p ts]\<rparr>"
  let ?a = "(operation_id p, oObjectID (operation_content_of p))"
  let ?d' = "if removes p then ?d\<lparr>Operations_on_Messages := Operations_on_Messages d @ [?a]\<rparr>
    else ?d\<lparr>Operations_on_Users := Operations_on_Users d @ [?a]\<rparr>"
  have ins: "insert_ignore or_id (operation_row_of p ts) (Operations d) = Operations d @ [operation_row_of p ts]"
    using assms(4) by (simp add: insert_ignore_fresh operation_ids_def)
  note kind = storable_operation_type [OF assms(3)]
  have put: "PutOperation eng p ts d = (Ok (), ?d')"
  proof (cases "removes p")
    case True
    then show ?thesis using assms(1,5)
      by (simp add: PutOperation_def ins putOperationObject_def Let_def HasMessage_reliable putMessageOperation_def)
  next
    case False
    then show ?thesis using assms(1,5) kind
      by (simp add: PutOperation_def ins putOperationObject_def Let_def HasUser_reliable putUserOperation_def)
  qed
  with assms(2) PutOperation_wf [of d eng p ts] have "db_wf ?d'" by (simp add: represents_def)
  with assms(2,3) kind have "represents env ?d' us ms (os @ [(p, ts)])"
    by (auto simp: represents_def message_tag_names_def association_def)
  with put show ?thesis by simp
qed

section \<open>Queries over the abstract store\<close>

definition faithful :: "engine \<Rightarrow> bool" where
  "faithful eng \<longleftrightarrow> reliable eng \<and> (\<forall>ns. concat_order eng ns = ns)"

lemma faithful_reliable [simp]: "faithful eng \<Longrightarrow> reliable eng"
  by (simp add: faithful_def)

lemma faithful_permutes [simp]: "faithful eng \<Longrightarrow> concat_permutes eng"
  by (simp add: faithful_def concat_permutes_def)

lemma faithful_reordered: "faithful eng \<Longrightarrow> storable_message env m \<Longrightarrow> reordered eng env m = m"
  by (rule reordered_id, assumption) (cases "mTopic (message_content_of m)"; simp add: faithful_def)

definition dated :: "engine \<Rightarrow> (message \<times> time) list \<Rightarrow> (message \<times> time) list" where
  "dated eng ms = sort_key (\<lambda>mt. mDateWritten (message_content_of (fst mt)))
     (sort_key (\<lambda>mt. rank eng (message_id (fst mt))) ms)"

definition ranked :: "engine \<Rightarrow> (operation \<times> time) list \<Rightarrow> (operation \<times> time) list" where
  "ranked eng os = sort_key (\<lambda>ot. rank eng (operation_id (fst ot))) os"

lemma insort_key_map: "insort_key f (g x) (map g xs) = map g (insort_key (f \<circ> g) x xs)"
  by (induction xs) auto

lemma sort_key_map: "sort_key f (map g xs) = map g (sort_key (f \<circ> g) xs)"
  by (induction xs) (simp_all add: insort_key_map comp_def)

lemma set_dated [simp]: "set (dated eng ms) = set ms"
  by (simp add: dated_def)

lemma set_ranked [simp]: "set (ranked eng os) = set os"
  by (simp add: ranked_def)

lemma set_page: "x \<in> set (page offset limit xs) \<Longrightarrow> x \<in> set xs"
  by (auto simp: page_def Let_def split: if_splits dest: in_set_takeD in_set_dropD)

lemma page_map: "page offset limit (map f xs) = map f (page offset limit xs)"
  by (simp add: page_def Let_def drop_map take_map)

lemma by_date_map:
  "by_date eng (map (\<lambda>(m, t). message_row_of m t) ms) = map (\<lambda>(m, t). message_row_of m t) (dated eng ms)"
proof -
  have "mr_time (message_row_of m t) = mDateWritten (message_content_of m)" for m t
    by (simp add: message_row_of_def)
  then show ?thesis
    by (simp add: by_date_def dated_def sort_key_map comp_def split_def)
qed

lemma by_rank_map:
  "by_rank eng (map (\<lambda>(p, t). operation_row_of p t) os) = map (\<lambda>(p, t). operation_row_of p t) (ranked eng os)"
  by (simp add: by_rank_def ranked_def sort_key_map comp_def split_def)

lemma scan_message_row:
  assumes "faithful eng" "storable_message env m"
  shows "scanSingleMessageRow env
    (message_row_of m t, group_concat eng comma (tags (mTopic (message_content_of m)))) = Ok (m, t)"
proof -
  have cols: "mr_sig (message_row_of m t) = Signature_Encode (msg_sig m)"
    "mr_author (message_row_of m t) = mAuthorID (message_content_of m)"
    "mr_parent (message_row_of m t) = mParentID (message_content_of m)" "mr_stored (message_row_of m t) = t"
    by (simp_all add: message_row_of_def)
  have ids: "length (message_id m) = IDLen" "length (mAuthorID (message_content_of m)) = IDLen"
    "length (mParentID (message_content_of m)) = IDLen"
    using assms(2) by (simp_all add: storable_message_def)
  show ?thesis
    using message_of_columns_storable [OF assms(2), of eng t] assms faithful_reordered [OF assms]
    by (simp add: scanSingleMessageRow_def cols ids ParseSignature_Encode)
qed

lemma storable_root_iff:
  assumes "storable_message env m"
  shows "mParentID (message_content_of m) = ZeroID \<longleftrightarrow> mTopic (message_content_of m) \<noteq> None"
    and "mTopic (message_content_of m) \<noteq> None \<longleftrightarrow> tags (mTopic (message_content_of m)) \<noteq> []"
  using assms
  by (auto simp: storable_message_def UnsignedMessage_isValid_def Let_def ID_IsZero_def Topic_IsValid_iff
      split: if_splits)

lemma scan_reply_row:
  assumes "storable_message env m" "mParentID (message_content_of m) \<noteq> ZeroID"
  shows "scanSingleMessageRow env (message_row_of m t, Some []) = Ok (m, t)"
proof -
  have topic: "mTopic (message_content_of m) = None" using storable_root_iff(1) [OF assms(1)] assms(2) by blast
  have "NewMessage env (mSubject (message_content_of m)) (mText (message_content_of m))
    (mAuthorID (message_content_of m)) (mParentID (message_content_of m))
    (mDateWritten (message_content_of m)) (msg_sig m) None = Ok m"
    using NewMessage_reload [of env m] assms(1) topic by (simp add: storable_message_def)
  with assms(1) show ?thesis
    by (simp add: scanSingleMessageRow_def message_of_columns_def topic_of_column_def NewTopic_def
        message_row_of_def storable_message_def ParseSignature_Encode)
qed

text \<open>Scanning the rows of any part of the represented messages.\<close>

lemma scan_with_tags:
  assumes "faithful eng" "represents env d us ms os" "set xs \<subseteq> set ms"
  shows "scanStoredMessageRows env (map (with_tags eng d) (map (\<lambda>(m, t). message_row_of m t) xs)) = Ok xs"
    and "scanMessageRows env (map (with_tags eng d) (map (\<lambda>(m, t). message_row_of m t) xs)) = Ok (map fst xs)"
proof -
  have row: "scanSingleMessageRow env (with_tags eng d (message_row_of m t)) = Ok (m, t)"
    if "(m, t) \<in> set xs" for m t
  proof -
    have "storable_message env m" "message_tag_names d (message_id m) = tags (mTopic (message_content_of m))"
      using that assms(2,3) by (auto simp: represents_def)
    then show ?thesis using scan_message_row [OF assms(1)] by (simp add: with_tags_def)
  qed
  then show "scanStoredMessageRows env (map (with_tags eng d) (map (\<lambda>(m, t). message_row_of m t) xs)) = Ok xs"
    "scanMessageRows env (map (with_tags eng d) (map (\<lambda>(m, t). message_row_of m t) xs)) = Ok (map fst xs)"
    by (auto simp: scanStoredMessageRows_def scanMessageRows_def map_result_Inr_iff)
qed

lemma GetRootMessages_represents:
  assumes "faithful eng" "represents env d us ms os"
  shows "GetRootMessages env eng offset limit d =
    Ok (map fst (page offset limit (dated eng (filter (\<lambda>(m, t). \<not> IsReply m) ms))))"
proof -
  have "filter (\<lambda>r. mr_parent r = ZeroID \<and> message_tag_names d (mr_id r) \<noteq> []) (Messages d)
    = map (\<lambda>(m, t). message_row_of m t) (filter (\<lambda>(m, t). \<not> IsReply m) ms)"
  proof -
    have kind: "(mr_parent (message_row_of m t) = ZeroID \<and> message_tag_names d (message_id m) \<noteq> []) = (\<not> IsReply m)"
      if "(m, t) \<in> set ms" for m t
    proof -
      have "storable_message env m" "message_tag_names d (message_id m) = tags (mTopic (message_content_of m))"
        using that assms(2) by (auto simp: represents_def)
      with storable_root_iff show ?thesis
        by (auto simp: message_row_of_def IsReply_def ID_IsZero_def)
    qed
    have "filter ((\<lambda>r. mr_parent r = ZeroID \<and> message_tag_names d (mr_id r) \<noteq> []) \<circ> (\<lambda>(m, t). message_row_of m t)) ms
      = filter (\<lambda>(m, t). \<not> IsReply m) ms"
    proof (rule filter_cong [OF refl])
      fix mt assume mem: "mt \<in> set ms"
      obtain m t where "mt = (m, t)" by fastforce
      with mem kind [of m t] show "((\<lambda>r. mr_parent r = ZeroID \<and> message_tag_names d (mr_id r) \<noteq> []) \<circ> (\<lambda>(m, t). message_row_of m t)) mt
        = (case mt of (m, t) \<Rightarrow> \<not> IsReply m)"
        by simp
    qed
    with assms(2) show ?thesis by (simp add: represents_def filter_map)
  qed
  moreover have "set (page offset limit (dated eng (filter (\<lambda>(m, t). \<not> IsReply m) ms))) \<subseteq> set ms"
    using set_page by fastforce
  ultimately show ?thesis
    using scan_with_tags(2) [OF assms] assms(1)
    by (simp add: GetRootMessages_def by_date_map page_map)
qed

lemma GetMessagesStoredAfter_represents:
  assumes "faithful eng" "represents env d us ms os"
  shows "GetMessagesStoredAfter env eng ts limit d =
    Ok (page 0 limit (dated eng (filter (\<lambda>(m, t). ts \<le> t) ms)))"
proof -
  have "mr_stored (message_row_of m t) = t" for m t by (simp add: message_row_of_def)
  then have "filter (\<lambda>r. ts \<le> mr_stored r) (Messages d)
    = map (\<lambda>(m, t). message_row_of m t) (filter (\<lambda>(m, t). ts \<le> t) ms)"
    using assms(2) by (simp add: represents_def filter_map comp_def split_def)
  moreover have "set (page 0 limit (dated eng (filter (\<lambda>(m, t). ts \<le> t) ms))) \<subseteq> set ms"
    using set_page by fastforce
  ultimately show ?thesis
    using scan_with_tags(1) [OF assms] assms(1)
    by (simp add: GetMessagesStoredAfter_def by_date_map page_map)
qed

lemma GetReplies_represents:
  assumes "reliable eng" "represents env d us ms os" "i \<noteq> ZeroID"
  shows "GetReplies env eng i d =
    Ok (map fst (dated eng (filter (\<lambda>(m, t). mParentID (message_content_of m) = i) ms)))"
proof -
  let ?xs = "dated eng (filter (\<lambda>(m, t). mParentID (message_content_of m) = i) ms)"
  have "mr_parent (message_row_of m t) = mParentID (message_content_of m)" for m t
    by (simp add: message_row_of_def)
  then have rows: "filter (\<lambda>r. mr_parent r = i) (Messages d)
    = map (\<lambda>(m, t). message_row_of m t) (filter (\<lambda>(m, t). mParentID (message_content_of m) = i) ms)"
    using assms(2) by (simp add: represents_def filter_map comp_def split_def)
  have "scanSingleMessageRow env (message_row_of m t, Some []) = Ok (m, t)" if "(m, t) \<in> set ?xs" for m t
    using that assms(2,3) by (intro scan_reply_row) (auto simp: represents_def)
  then have "scanMessageRows env (map (\<lambda>r. (r, Some [])) (map (\<lambda>(m, t). message_row_of m t) ?xs)) = Ok (map fst ?xs)"
    by (auto simp: scanMessageRows_def map_result_Inr_iff)
  then show ?thesis
    using assms(1) by (simp add: GetReplies_def rows by_date_map del: map_map)
qed

lemma GetMessage_represents:
  assumes "faithful eng" "represents env d us ms os"
  shows "GetMessage env eng i d =
    (case find (\<lambda>(m, t). message_id m = i) ms of None \<Rightarrow> Err NoSuchEntity | Some (m, t) \<Rightarrow> Ok m)"
proof -
  have f: "find (\<lambda>r. mr_id r = i) (map (\<lambda>(m, t). message_row_of m t) xs) =
    map_option (\<lambda>(m, t). message_row_of m t) (find (\<lambda>(m, t). message_id m = i) xs)" for xs
    by (induction xs) auto
  have rows: "Messages d = map (\<lambda>(m, t). message_row_of m t) ms" using assms(2) by (simp add: represents_def)
  show ?thesis
  proof (cases "find (\<lambda>(m, t). message_id m = i) ms")
    case None
    then show ?thesis using assms(1) f [of ms] by (simp add: GetMessage_def rows)
  next
    case (Some mt)
    obtain m t where mt: "mt = (m, t)" by fastforce
    with find_SomeD [OF Some] have m: "(m, t) \<in> set ms" "message_id m = i" by auto
    then have "storable_message env m" "message_tag_names d (message_id m) = tags (mTopic (message_content_of m))"
      using assms(2) by (auto simp: represents_def)
    with GetMessage_stored [of eng env m d t] assms(1) faithful_reordered [of eng env m] show ?thesis
      using f [of ms] Some m by (simp add: rows mt)
  qed
qed

lemma GetUser_represents:
  assumes "reliable eng" "represents env d us ms os"
  shows "GetUser env eng i d =
    (case find (\<lambda>(u, t). user_id u = i) us of None \<Rightarrow> Err NoSuchEntity | Some (u, t) \<Rightarrow> Ok u)"
proof -
  have f: "find (\<lambda>r. ur_id r = i) (map (\<lambda>(u, t). user_row_of env u t) xs) =
    map_option (\<lambda>(u, t). user_row_of env u t) (find (\<lambda>(u, t). user_id u = i) xs)" for xs
    by (induction xs) auto
  have rows: "Users d = map (\<lambda>(u, t). user_row_of env u t) us" using assms(2) by (simp add: represents_def)
  show ?thesis
  proof (cases "find (\<lambda>(u, t). user_id u = i) us")
    case None
    then show ?thesis using assms(1) f [of us] by (simp add: GetUser_def rows)
  next
    case (Some ut)
    obtain u t where ut: "ut = (u, t)" by fastforce
    with find_SomeD [OF Some] have "(u, t) \<in> set us" by auto
    then have "storable_user env u" using assms(2) by (auto simp: represents_def)
    then show ?thesis
      using f [of us] Some assms(1) NewUser_reload [of env u]
      by (simp add: GetUser_def rows ut user_row_of_def ParseSignature_Encode storable_user_def)
  qed
qed

lemma scan_operation_row:
  assumes "storable_operation env p"
    and "objID = Some (oObjectID (operation_content_of p)) \<or>
      objID = None \<and> (mo = Some (oObjectID (operation_content_of p)) \<or>
        mo = None \<and> uo = Some (oObjectID (operation_content_of p)))"
  shows "scanSingleOperationRow env objID (operation_row_of p t, mo, uo) = Ok (p, t)"
proof -
  obtain b bs where "oObjectID (operation_content_of p) = b # bs"
    using assms(1) by (cases "oObjectID (operation_content_of p)") (auto simp: storable_operation_def IDLen_def)
  moreover have "NewOperation env (oType (operation_content_of p)) (oReason (operation_content_of p))
    (oComment (operation_content_of p)) (oAuthorID (operation_content_of p))
    (oObjectID (operation_content_of p)) (oDatePerformed (operation_content_of p)) (oper_sig p) = Ok p"
    using assms(1) by (intro NewOperation_reload) (simp_all add: storable_operation_def)
  moreover have "ParseSlice ZeroID (oObjectID (operation_content_of p)) = Ok (oObjectID (operation_content_of p))"
    using assms(1) by (simp add: storable_operation_def)
  ultimately show ?thesis
    using assms by (auto simp: scanSingleOperationRow_def operation_row_of_def storable_operation_def
        ParseSignature_Encode)
qed

lemma represents_distinct:
  assumes "represents env d us ms os"
  shows "distinct (map (user_id \<circ> fst) us)" "distinct (map (message_id \<circ> fst) ms)"
    "distinct (map (operation_id \<circ> fst) os)"
proof -
  have "map ur_id (Users d) = map (user_id \<circ> fst) us" "map mr_id (Messages d) = map (message_id \<circ> fst) ms"
    "map or_id (Operations d) = map (operation_id \<circ> fst) os" "db_wf d"
    using assms by (auto simp: represents_def)
  then show "distinct (map (user_id \<circ> fst) us)" "distinct (map (message_id \<circ> fst) ms)"
    "distinct (map (operation_id \<circ> fst) os)"
    unfolding db_wf_def by simp_all
qed

lemma represents_operation_unique:
  assumes "represents env d us ms os" "(p, t) \<in> set os" "(q, t') \<in> set os" "operation_id p = operation_id q"
  shows "p = q"
proof -
  from represents_distinct(3) [OF assms(1)] assms(2-4) show ?thesis
    by (auto simp: distinct_map inj_on_def) (metis fst_conv)
qed

lemma associations:
  assumes "represents env d us ms os" "(p, t) \<in> set os"
  shows "(operation_id p, i) \<in> set (Operations_on_Messages d) \<longleftrightarrow> removes p \<and> oObjectID (operation_content_of p) = i"
    and "(operation_id p, i) \<in> set (Operations_on_Users d) \<longleftrightarrow> bans p \<and> oObjectID (operation_content_of p) = i"
proof -
  have q: "q = p" if "(q, t') \<in> set os" "operation_id q = operation_id p" for q t'
    using represents_operation_unique [OF assms(1) that(1) assms(2) that(2)] .
  have om: "Operations_on_Messages d = map association (filter (\<lambda>ot. removes (fst ot)) os)"
    and ou: "Operations_on_Users d = map association (filter (\<lambda>ot. bans (fst ot)) os)"
    using assms(1) by (simp_all add: represents_def)
  show "(operation_id p, i) \<in> set (Operations_on_Messages d) \<longleftrightarrow> removes p \<and> oObjectID (operation_content_of p) = i"
    unfolding om using assms(2) by (force simp: association_def dest: q)
  show "(operation_id p, i) \<in> set (Operations_on_Users d) \<longleftrightarrow> bans p \<and> oObjectID (operation_content_of p) = i"
    unfolding ou using assms(2) by (force simp: association_def dest: q)
qed

lemma filter_operation_rows:
  assumes "represents env d us ms os" "\<And>p t. (p, t) \<in> set os \<Longrightarrow> P (operation_row_of p t) = Q p t"
  shows "filter P (Operations d) = map (\<lambda>(p, t). operation_row_of p t) (filter (\<lambda>(p, t). Q p t) os)"
proof -
  have "filter (P \<circ> (\<lambda>(p, t). operation_row_of p t)) os = filter (\<lambda>(p, t). Q p t) os"
  proof (rule filter_cong [OF refl])
    fix x assume mem: "x \<in> set os"
    obtain p t where "x = (p, t)" by fastforce
    with mem assms(2) [of p t] show "(P \<circ> (\<lambda>(p, t). operation_row_of p t)) x = (case x of (p, t) \<Rightarrow> Q p t)"
      by simp
  qed
  with assms(1) show ?thesis by (simp add: represents_def filter_map)
qed

lemma scan_operation_rows:
  assumes "\<And>p t. (p, t) \<in> set xs \<Longrightarrow> scanSingleOperationRow env objID (f (operation_row_of p t)) = Ok (p, t)"
  shows "scanStoredOperationRows env objID (map f (map (\<lambda>(p, t). operation_row_of p t) xs)) = Ok xs"
    and "scanOperationRows env objID (map f (map (\<lambda>(p, t). operation_row_of p t) xs)) = Ok (map fst xs)"
  using assms by (auto simp: scanStoredOperationRows_def scanOperationRows_def map_result_Inr_iff)

lemma GetOperationsOnUser_represents:
  assumes "reliable eng" "represents env d us ms os"
  shows "GetOperationsOnUser env eng uid d =
    Ok (map fst (ranked eng (filter (\<lambda>(p, t). bans p \<and> oObjectID (operation_content_of p) = uid) os)))"
proof -
  have rows: "filter (\<lambda>r. (or_id r, uid) \<in> set (Operations_on_Users d)) (Operations d) =
    map (\<lambda>(p, t). operation_row_of p t) (filter (\<lambda>(p, t). bans p \<and> oObjectID (operation_content_of p) = uid) os)"
    using assms(2) associations(2) [OF assms(2)] by (intro filter_operation_rows) simp_all
  have "scanOperationRows env (Some uid) (map (\<lambda>r. (r, None, None)) (map (\<lambda>(p, t). operation_row_of p t)
    (ranked eng (filter (\<lambda>(p, t). bans p \<and> oObjectID (operation_content_of p) = uid) os)))) =
    Ok (map fst (ranked eng (filter (\<lambda>(p, t). bans p \<and> oObjectID (operation_content_of p) = uid) os)))"
    using assms(2) by (intro scan_operation_rows(2) scan_operation_row) (auto simp: represents_def)
  with assms(1) show ?thesis by (simp add: GetOperationsOnUser_def rows by_rank_map del: map_map)
qed

lemma GetOperationsOnMessage_represents:
  assumes "reliable eng" "represents env d us ms os"
  shows "GetOperationsOnMessage env eng mid d =
    Ok (map fst (ranked eng (filter (\<lambda>(p, t). removes p \<and> oObjectID (operation_content_of p) = mid) os)))"
proof -
  have rows: "filter (\<lambda>r. (or_id r, mid) \<in> set (Operations_on_Messages d)) (Operations d) =
    map (\<lambda>(p, t). operation_row_of p t) (filter (\<lambda>(p, t). removes p \<and> oObjectID (operation_content_of p) = mid) os)"
    using assms(2) associations(1) [OF assms(2)] by (intro filter_operation_rows) simp_all
  have "scanOperationRows env (Some mid) (map (\<lambda>r. (r, None, None)) (map (\<lambda>(p, t). operation_row_of p t)
    (ranked eng (filter (\<lambda>(p, t). removes p \<and> oObjectID (operation_content_of p) = mid) os)))) =
    Ok (map fst (ranked eng (filter (\<lambda>(p, t). removes p \<and> oObjectID (operation_content_of p) = mid) os)))"
    using assms(2) by (intro scan_operation_rows(2) scan_operation_row) (auto simp: represents_def)
  with assms(1) show ?thesis by (simp add: GetOperationsOnMessage_def rows by_rank_map del: map_map)
qed

lemma with_objects_row:
  assumes "represents env d us ms os" "(p, t) \<in> set os"
  shows "\<exists>mo uo. with_objects d (operation_row_of p t) = (operation_row_of p t, mo, uo) \<and>
    (mo = Some (oObjectID (operation_content_of p)) \<or> mo = None \<and> uo = Some (oObjectID (operation_content_of p)))"
proof -
  let ?i = "operation_id p"
  have kind: "removes p \<noteq> bans p"
    using assms storable_operation_type [of env p] by (auto simp: represents_def)
  have found: "find (\<lambda>a. fst a = ?i) as = Some (?i, j)" if "\<And>k. (?i, k) \<in> set as \<longleftrightarrow> k = j" for as and j :: entity_id
  proof (cases "find (\<lambda>a. fst a = ?i) as")
    case None
    then show ?thesis using that by (force simp: find_None_iff)
  next
    case (Some a)
    with find_SomeD [OF Some] that show ?thesis by (cases a) auto
  qed
  have none: "find (\<lambda>a. fst a = ?i) as = None" if "\<And>k. (?i, k) \<notin> set as" for as :: "(entity_id \<times> entity_id) list"
    using that by (auto simp: find_None_iff)
  show ?thesis
  proof (cases "removes p")
    case True
    then have "find (\<lambda>a. fst a = ?i) (Operations_on_Messages d) = Some (?i, oObjectID (operation_content_of p))"
      using associations(1) [OF assms] by (intro found) auto
    then show ?thesis by (simp add: with_objects_def)
  next
    case False
    then have "find (\<lambda>a. fst a = ?i) (Operations_on_Messages d) = None"
      "find (\<lambda>a. fst a = ?i) (Operations_on_Users d) = Some (?i, oObjectID (operation_content_of p))"
      using associations [OF assms] kind by (intro none found; auto)+
    then show ?thesis by (simp add: with_objects_def)
  qed
qed

lemma scan_with_objects:
  assumes "represents env d us ms os" "(p, t) \<in> set os"
  shows "scanSingleOperationRow env None (with_objects d (operation_row_of p t)) = Ok (p, t)"
proof -
  have "storable_operation env p" using assms by (auto simp: represents_def)
  with with_objects_row [OF assms] show ?thesis using scan_operation_row by fastforce
qed

lemma GetOperationsStoredAfter_represents:
  assumes "reliable eng" "represents env d us ms os"
  shows "GetOperationsStoredAfter env eng ts limit d =
    Ok (page 0 limit (ranked eng (filter (\<lambda>(p, t). ts \<le> t) os)))"
proof -
  have rows: "filter (\<lambda>r. ts \<le> or_stored r) (Operations d) =
    map (\<lambda>(p, t). operation_row_of p t) (filter (\<lambda>(p, t). ts \<le> t) os)"
    by (intro filter_operation_rows [OF assms(2)]) (simp add: operation_row_of_def)
  have "scanStoredOperationRows env None (map (with_objects d) (map (\<lambda>(p, t). operation_row_of p t)
    (page 0 limit (ranked eng (filter (\<lambda>(p, t). ts \<le> t) os))))) =
    Ok (page 0 limit (ranked eng (filter (\<lambda>(p, t). ts \<le> t) os)))"
    by (intro scan_operation_rows(1) scan_with_objects [OF assms(2)]) (auto dest!: set_page)
  with assms(1) show ?thesis
    by (simp add: GetOperationsStoredAfter_def rows by_rank_map page_map del: map_map)
qed

lemma GetOperation_represents:
  assumes "reliable eng" "represents env d us ms os"
  shows "GetOperation env eng i d =
    (case filter (\<lambda>(p, t). operation_id p = i) os of [] \<Rightarrow> Err NoSuchEntity | (p, t) # _ \<Rightarrow> Ok p)"
proof -
  let ?xs = "filter (\<lambda>(p, t). operation_id p = i) os"
  have rows: "filter (\<lambda>r. or_id r = i) (Operations d) = map (\<lambda>(p, t). operation_row_of p t) ?xs"
    by (intro filter_operation_rows [OF assms(2)]) simp
  have "scanOperationRows env None (map (with_objects d) (map (\<lambda>(p, t). operation_row_of p t) (ranked eng ?xs))) =
    Ok (map fst (ranked eng ?xs))"
    by (intro scan_operation_rows(2) scan_with_objects [OF assms(2)]) auto
  moreover from represents_distinct(3) [OF assms(2)] have "length ?xs \<le> 1"
    by (induction os) (force simp: filter_empty_conv le_Suc_eq)+
  then have "?xs = [] \<or> (\<exists>x. ?xs = [x])" by (cases ?xs; cases "tl ?xs") auto
  ultimately show ?thesis
    using assms(1) by (elim disjE exE) (simp_all add: GetOperation_def rows by_rank_def ranked_def split_def del: map_map)
qed
section \<open>Threads from the database\<close>

text \<open>A tree whose every node has the stored replies to its message as children, in order.\<close>

inductive thread_of :: "engine \<Rightarrow> (message \<times> time) list \<Rightarrow> node \<Rightarrow> bool"
  for eng :: engine and ms :: "(message \<times> time) list" where
  thread: "map Msg cs = map fst (dated eng (filter (\<lambda>(r, t). mParentID (message_content_of r) = message_id m) ms)) \<Longrightarrow>
    (\<forall>c \<in> set cs. thread_of eng ms c) \<Longrightarrow> thread_of eng ms (Node m cs)"

text \<open>
  No message is, through other messages, a reply to itself; in what order they were stored does
  not matter. The number of messages above another one grows from parent to reply.
\<close>

definition replies_to :: "(message \<times> time) list \<Rightarrow> (entity_id \<times> entity_id) set" where
  "replies_to ms = {(message_id p, message_id m) |p m. p \<in> fst ` set ms \<and> m \<in> fst ` set ms \<and>
     mParentID (message_content_of m) = message_id p}"

definition acyclic_replies :: "(message \<times> time) list \<Rightarrow> bool" where
  "acyclic_replies ms \<longleftrightarrow> acyclic (replies_to ms)"

definition height :: "(message \<times> time) list \<Rightarrow> entity_id \<Rightarrow> nat" where
  "height ms x = card {y. (y, x) \<in> (replies_to ms)\<^sup>+}"

lemma above_stored: "(y, x) \<in> (replies_to ms)\<^sup>+ \<Longrightarrow> y \<in> (message_id \<circ> fst) ` set ms"
  by (induction rule: trancl.induct) (auto simp: replies_to_def)

lemma finite_above: "finite {y. (y, x) \<in> (replies_to ms)\<^sup>+}"
  by (rule finite_subset [of _ "(message_id \<circ> fst) ` set ms"]) (use above_stored in blast)+

lemma height_bound:
  assumes "acyclic_replies ms" "m \<in> fst ` set ms"
  shows "height ms (message_id m) < length ms"
proof -
  let ?ids = "(message_id \<circ> fst) ` set ms"
  have "message_id m \<in> ?ids" using assms(2) by auto
  moreover have "(message_id m, message_id m) \<notin> (replies_to ms)\<^sup>+"
    using assms(1) by (simp add: acyclic_replies_def acyclic_def)
  ultimately have "{y. (y, message_id m) \<in> (replies_to ms)\<^sup>+} \<subset> ?ids"
    using above_stored [of _ "message_id m" ms] by blast
  then have "height ms (message_id m) < card ?ids" unfolding height_def by (intro psubset_card_mono) simp_all
  also have "\<dots> \<le> length ms" using card_image_le [of "set ms" "message_id \<circ> fst"] card_length [of ms] by simp
  finally show ?thesis .
qed

lemma height_less:
  assumes "acyclic_replies ms" "m \<in> fst ` set ms" "p \<in> fst ` set ms" "mParentID (message_content_of m) = message_id p"
  shows "height ms (message_id p) < height ms (message_id m)"
proof -
  have "(message_id p, message_id m) \<in> replies_to ms" using assms(2-4) unfolding replies_to_def by blast
  then have "{y. (y, message_id p) \<in> (replies_to ms)\<^sup>+} \<subset> {y. (y, message_id m) \<in> (replies_to ms)\<^sup>+}"
    using assms(1) by (auto simp: acyclic_replies_def acyclic_def)
  then show ?thesis unfolding height_def by (intro psubset_card_mono finite_above)
qed

lemma acyclic_single: "mParentID (message_content_of m) \<noteq> message_id m \<Longrightarrow> acyclic_replies [(m, t)]"
  by (simp add: acyclic_replies_def replies_to_def acyclic_def)

lemma fillSubthreads_loop_ok:
  assumes "\<And>r. r \<in> set rs \<Longrightarrow> \<exists>n. fillSubthreads env eng d fuel (New r) = Some (Ok n) \<and> Msg n = r \<and> P n"
  shows "\<exists>cs. fillSubthreads_loop env eng d fuel rs t = Some (Ok (Node (Msg t) (Children t @ cs))) \<and>
    map Msg cs = rs \<and> (\<forall>c \<in> set cs. P c)"
  using assms
proof (induction rs arbitrary: t)
  case Nil
  show ?case by (cases t) simp
next
  case (Cons r rs)
  from Cons.prems [of r] obtain n where n: "fillSubthreads env eng d fuel (New r) = Some (Ok n)" "Msg n = r" "P n"
    by auto
  from Cons.IH [of "AddChild t n"] Cons.prems obtain cs where
    cs: "fillSubthreads_loop env eng d fuel rs (AddChild t n) =
      Some (Ok (Node (Msg (AddChild t n)) (Children (AddChild t n) @ cs)))" "map Msg cs = rs" "\<forall>c \<in> set cs. P c"
    by auto
  with n show ?case by (intro exI [of _ "n # cs"]) (simp add: AddChild_def)
qed

lemma fillSubthreads_ok:
  assumes "reliable eng" "represents env d us ms os" "acyclic_replies ms" "\<forall>(m, t) \<in> set ms. message_id m \<noteq> ZeroID"
  shows "m \<in> fst ` set ms \<Longrightarrow> length ms - height ms (message_id m) \<le> fuel \<Longrightarrow>
    \<exists>n. fillSubthreads env eng d fuel (New m) = Some (Ok n) \<and> Msg n = m \<and> thread_of eng ms n"
proof (induction fuel arbitrary: m)
  case 0
  with height_bound [OF assms(3) 0(1)] show ?case by simp
next
  case (Suc fuel)
  let ?rs = "map fst (dated eng (filter (\<lambda>(r, t). mParentID (message_content_of r) = message_id m) ms))"
  have "message_id m \<noteq> ZeroID" using assms(4) Suc.prems(1) by auto
  then have replies: "GetReplies env eng (message_id m) d = Ok ?rs" by (rule GetReplies_represents [OF assms(1,2)])
  have "\<exists>n. fillSubthreads env eng d fuel (New r) = Some (Ok n) \<and> Msg n = r \<and> thread_of eng ms n"
    if "r \<in> set ?rs" for r
  proof -
    from that have r: "r \<in> fst ` set ms" "mParentID (message_content_of r) = message_id m" by force+
    with height_less [OF assms(3) r(1) Suc.prems(1)] height_bound [OF assms(3) r(1)] Suc.prems(2) Suc.IH [of r]
    show ?thesis by simp
  qed
  from fillSubthreads_loop_ok [where rs = ?rs and t = "New m" and P = "thread_of eng ms", OF this] obtain cs where
    "fillSubthreads_loop env eng d fuel ?rs (New m) = Some (Ok (Node m cs))" "map Msg cs = ?rs"
    "\<forall>c \<in> set cs. thread_of eng ms c"
    by (auto simp: New_def)
  with replies show ?case by (auto simp: New_def intro!: thread_of.thread)
qed

section \<open>Properties\<close>

text \<open>One call of a storing operation, whatever its outcome.\<close>

inductive db_step :: "env \<Rightarrow> engine \<Rightarrow> entity_database \<Rightarrow> entity_database \<Rightarrow> bool"
  for env :: env and eng :: engine where
  put_user: "db_step env eng d (snd (PutUser env eng u ts d))"
| put_message: "db_step env eng d (snd (PutMessage eng m ts d))"
| put_operation: "db_step env eng d (snd (PutOperation eng p ts d))"

inductive_cases db_stepE: "db_step env eng d d'"


definition toy_engine :: engine where
  "toy_engine = \<lparr>fails = (\<lambda>_ _. False), rank = length, concat_order = (\<lambda>ns. ns), strftime_s = (\<lambda>t. t div Second)\<rparr>"

lemma faithful_toy [simp]: "faithful toy_engine"
  by (simp add: faithful_def reliable_def toy_engine_def)


text \<open>
  C7. Refinement: the tables implement a store of entities. From tables that represent the
  users, messages and operations stored so far, putting a new storable entity (for an
  operation: on an object that is stored) succeeds and gives tables that represent the
  store with that entity, and its time, appended.
\<close>

theorem Put_refines:
  assumes "faithful eng" "represents env d us ms os"
  shows "(storable_user env u \<and> user_id u \<notin> (user_id \<circ> fst) ` set us \<longrightarrow>
      (\<exists>d'. PutUser env eng u ts d = (Ok (), d') \<and> represents env d' (us @ [(u, ts)]) ms os)) \<and>
    (storable_message env m \<and> message_id m \<notin> (message_id \<circ> fst) ` set ms \<longrightarrow>
      (\<exists>d'. PutMessage eng m ts d = (Ok (), d') \<and> represents env d' us (ms @ [(m, ts)]) os)) \<and>
    (storable_operation env p \<and> operation_id p \<notin> (operation_id \<circ> fst) ` set os \<and>
     oObjectID (operation_content_of p) \<in>
       (if removes p then (message_id \<circ> fst) ` set ms else (user_id \<circ> fst) ` set us) \<longrightarrow>
      (\<exists>d'. PutOperation eng p ts d = (Ok (), d') \<and> represents env d' us ms (os @ [(p, ts)])))"
  using PutUser_represents [OF _ assms(2)] PutMessage_represents [OF _ assms(2)]
    PutOperation_represents [OF _ assms(2)] assms(1)
  by (simp add: represents_ids [OF assms(2)])

lemma toy_message_parts:
  "mParentID (message_content_of (toy_message s p t)) = p" "mTopic (message_content_of (toy_message s p t)) = t"
  "mAuthorID (message_content_of (toy_message s p t)) = replicate 32 1"
  "message_id (toy_message s p t) = toy_hash (map (word_of_nat \<circ> of_char) s)"
  by (cases t; simp add: toy_message_def newUnsignedMessage_def newMessageContent_def Let_def message_id_def
      MessageContent_ToID_def NewID_def toy_env_def)+

lemma length_toy_hash [simp]: "length (toy_hash b) = 32"
  by (simp add: toy_hash_def)

lemma storable_toy:
  assumes "s \<noteq> []" "length s \<le> 128" "p = ZeroID \<longleftrightarrow> t \<noteq> None" "Topic_IsValid t" "length p = IDLen"
  shows "storable_message toy_env (toy_message s p t)"
proof -
  have "UnsignedMessage_isValid toy_env (msg_unsigned (toy_message s p t))"
    "d_type (um_desc (msg_unsigned (toy_message s p t))) = TypeMessage"
    using assms by (cases t; simp add: toy_message_def newUnsignedMessage_def newMessageContent_def Let_def
        UnsignedMessage_isValid_def MaxMessageSubjectLen_def MaxMessageTextLen_def ID_IsZero_def not_less)+
  with assms show ?thesis by (simp add: storable_message_def toy_message_parts IDLen_def)
qed

lemma toy_tag_valid: "Topic_IsValid (Some [''x''])"
  by (simp add: Topic_IsValid_iff MaxTopicCapacity_def isTagValid_def MaxTagLen_def tag_chars_def)

theorem Put_refines_witness:
  "\<exists>d'. PutMessage toy_engine (toy_message ''a'' ZeroID (Some [''x''])) 5 empty_database = (Ok (), d') \<and>
     represents toy_env d' [] [(toy_message ''a'' ZeroID (Some [''x'']), 5)] []"
  using Put_refines [OF faithful_toy represents_empty, where m = "toy_message ''a'' ZeroID (Some [''x''])"]
    storable_toy [of "''a''" ZeroID "Some [''x'']"] toy_tag_valid by simp


lemma represents_toy:
  "\<exists>d. represents toy_env d [] [(toy_message ''a'' ZeroID (Some [''x'']), 5)] []"
proof -
  have "storable_message toy_env (toy_message ''a'' ZeroID (Some [''x'']))"
    using toy_tag_valid by (intro storable_toy) simp_all
  then show ?thesis
    using PutMessage_represents [of toy_engine toy_env empty_database "[]" "[]" "[]"
        "toy_message ''a'' ZeroID (Some [''x''])" 5] represents_empty
    by (auto simp: message_ids_def empty_database_def)
qed


text \<open>
  The tags column does not fix the topic: for an engine that joins the tags of a group
  in some other order, a stored message comes back with its topic reordered and the
  identifier recomputed from that, and comes back unchanged when the order is kept.
\<close>

theorem GetMessage_reorders_topic:
  assumes "reliable eng" "concat_permutes eng" "represents env d us ms os" "(m, t) \<in> set ms"
  shows "\<exists>m'. GetMessage env eng (message_id m) d = Ok m' \<and>
    mTopic (message_content_of m') = map_option (concat_order eng) (mTopic (message_content_of m)) \<and>
    message_id m' = MessageContent_ToID env (message_content_of m') \<and>
    (mTopic (message_content_of m') = mTopic (message_content_of m) \<longrightarrow> m' = m)"
proof -
  have s: "storable_message env m" and n: "message_tag_names d (message_id m) = tags (mTopic (message_content_of m))"
    using assms(3,4) by (auto simp: represents_def)
  have rows: "Messages d = map (\<lambda>(m, t). message_row_of m t) ms" using assms(3) by (simp add: represents_def)
  have "find (\<lambda>r. mr_id r = message_id m) (Messages d) = Some (message_row_of m t)"
  proof -
    have "distinct (map mr_id (Messages d))" "message_row_of m t \<in> set (Messages d)"
      using assms(3,4) rows by (force simp: represents_def db_wf_def)+
    moreover have "find (\<lambda>r. mr_id r = mr_id x) xs = Some x"
      if "distinct (map mr_id xs)" "x \<in> set xs" for xs and x :: message_row
      using that by (induction xs) (auto simp: image_iff)
    ultimately show ?thesis by (metis row_ids(2))
  qed
  then have "GetMessage env eng (message_id m) d = Ok (reordered eng env m)"
    by (intro GetMessage_stored [OF assms(1) s assms(2)]) (use n in simp_all)
  moreover have "mTopic (message_content_of (reordered eng env m)) =
      map_option (concat_order eng) (mTopic (message_content_of m))"
    "message_id (reordered eng env m) = MessageContent_ToID env (message_content_of (reordered eng env m))"
    by (simp_all add: reordered_def Let_def newUnsignedMessage_def newMessageContent_topic message_id_def)
  ultimately show ?thesis using reordered_id [OF s] by auto
qed

definition reversing_engine :: engine where
  "reversing_engine = toy_engine\<lparr>concat_order := rev\<rparr>"

lemma toy_tags_valid: "Topic_IsValid (Some [''x'', ''y''])"
  by (simp add: Topic_IsValid_iff MaxTopicCapacity_def isTagValid_def MaxTagLen_def tag_chars_def)

theorem GetMessage_reorders_topic_witness:
  "\<exists>d m'. fst (PutMessage reversing_engine (toy_message ''a'' ZeroID (Some [''x'', ''y''])) 5 empty_database) = Ok () \<and>
     GetMessage toy_env reversing_engine (message_id (toy_message ''a'' ZeroID (Some [''x'', ''y'']))) d = Ok m' \<and>
     mTopic (message_content_of m') = Some [''y'', ''x'']"
proof -
  let ?m = "toy_message ''a'' ZeroID (Some [''x'', ''y''])"
  have e: "reliable reversing_engine" "concat_permutes reversing_engine"
    by (simp_all add: reliable_def concat_permutes_def reversing_engine_def toy_engine_def)
  have "storable_message toy_env ?m" using toy_tags_valid by (intro storable_toy) simp_all
  from PutMessage_represents [OF e(1) represents_empty this, of 5] obtain d where
    d: "PutMessage reversing_engine ?m 5 empty_database = (Ok (), d)" "represents toy_env d [] [(?m, 5)] []"
    by (auto simp: message_ids_def empty_database_def)
  from GetMessage_reorders_topic [OF e d(2), of ?m 5] obtain m' where
    "GetMessage toy_env reversing_engine (message_id ?m) d = Ok m'"
    "mTopic (message_content_of m') = map_option (concat_order reversing_engine) (mTopic (message_content_of ?m))"
    by auto
  then show ?thesis using d(1)
    by (intro exI [of _ d] exI [of _ m']) (simp add: toy_message_parts reversing_engine_def)
qed


text \<open>
  A message can be stored once only if it has a topic: putting a stored message again
  changes nothing, but it reports success for a reply and a failed database operation for a
  message with tags.
\<close>

theorem PutMessage_twice:
  assumes "reliable eng" "represents env d us ms os" "(m, t) \<in> set ms"
  shows "PutMessage eng m ts d = (if IsReply m then Ok () else Err DBOperFailed, d)"
proof -
  have s: "storable_message env m" and n: "message_tag_names d (message_id m) = tags (mTopic (message_content_of m))"
    and wf: "db_wf d" using assms(2,3) by (auto simp: represents_def)
  have "message_id m \<in> message_ids d" using assms(3) by (force simp: represents_ids(2) [OF assms(2)])
  from PutMessage_again [OF assms(1) wf this, of ts] n storable_root_iff [OF s] show ?thesis
    by (auto simp: IsReply_def ID_IsZero_def)
qed

theorem PutMessage_twice_witness:
  "\<exists>d. represents toy_env d [] [(toy_message ''a'' ZeroID (Some [''x'']), 5)] [] \<and>
     PutMessage toy_engine (toy_message ''a'' ZeroID (Some [''x''])) 6 d = (Err DBOperFailed, d)"
proof -
  from represents_toy obtain d where d: "represents toy_env d [] [(toy_message ''a'' ZeroID (Some [''x'']), 5)] []" ..
  have "reliable toy_engine" by (rule faithful_reliable [OF faithful_toy])
  from PutMessage_twice [OF this d, of "toy_message ''a'' ZeroID (Some [''x''])" 5 6] d show ?thesis
    by (auto simp: IsReply_def toy_message_parts ID_IsZero_def)
qed

text \<open>
  An operation on an object that is not stored is refused with NoSuchEntity, but its row
  stays behind; from then on the list of operations stored since any earlier time cannot be
  read any more (InconsistentDB), which is what synchronisation with peers reads.
\<close>

theorem PutOperation_orphan:
  assumes "reliable eng" "represents env d us ms os"
    and "storable_operation env p" "operation_id p \<notin> (operation_id \<circ> fst) ` set os"
    and "oObjectID (operation_content_of p) \<notin>
      (if removes p then (message_id \<circ> fst) ` set ms else (user_id \<circ> fst) ` set us)"
    and "since \<le> ts" "limit < 0 \<or> int (length os) < limit"
  shows "\<exists>d'. PutOperation eng p ts d = (Err NoSuchEntity, d') \<and> Operations d' = Operations d @ [operation_row_of p ts] \<and>
    GetOperationsStoredAfter env eng since limit d' = Err InconsistentDB"
proof -
  note ids = represents_ids [OF assms(2)]
  note kind = storable_operation_type [OF assms(3)]
  let ?d = "d\<lparr>Operations := Operations d @ [operation_row_of p ts]\<rparr>"
  have ins: "insert_ignore or_id (operation_row_of p ts) (Operations d) = Operations d @ [operation_row_of p ts]"
  proof (rule insert_ignore_fresh)
    show "or_id (operation_row_of p ts) \<notin> or_id ` set (Operations d)"
      using assms(4) ids(3) by (simp add: operation_ids_def)
  qed
  have frame: "user_ids ?d = user_ids d" "message_ids ?d = message_ids d" by simp_all
  have put: "PutOperation eng p ts d = (Err NoSuchEntity, ?d)"
  proof (cases "removes p")
    case True
    then show ?thesis using assms(1,5)
      by (simp add: PutOperation_def ins putOperationObject_def Let_def HasMessage_reliable ids(2))
  next
    case False
    then show ?thesis using assms(1,5) kind
      by (simp add: PutOperation_def ins putOperationObject_def Let_def HasUser_reliable ids(1))
  qed
  have rows: "Operations d = map (\<lambda>(p, t). operation_row_of p t) os" and wf: "objects_wf d"
    using assms(2) by (simp_all add: represents_def db_wf_def)
  let ?xs = "by_rank eng (filter (\<lambda>r. since \<le> or_stored r) (Operations ?d))"
  have all: "page 0 limit ?xs = ?xs"
  proof -
    have "length ?xs \<le> length (Operations ?d)" 
      unfolding by_rank_def length_sort by (rule length_filter_le)
    with assms(7) show ?thesis by (auto simp: page_def rows)
  qed
  have here: "operation_row_of p ts \<in> set ?xs" using assms(6) by (simp add: by_rank_def operation_row_of_def)
  have orphan: "scanSingleOperationRow env None (with_objects ?d (operation_row_of p ts)) = Err InconsistentDB"
  proof -
    have "operation_id p \<notin> operation_ids d" using assms(4) by (simp add: ids(3))
    then have "(operation_id p, i) \<notin> set (Operations_on_Messages d) \<and> (operation_id p, i) \<notin> set (Operations_on_Users d)" for i
      using wf by (auto simp: objects_wf_def)
    then have "find (\<lambda>a. fst a = operation_id p) (Operations_on_Messages d) = None"
      "find (\<lambda>a. fst a = operation_id p) (Operations_on_Users d) = None"
      by (auto simp: find_None_iff)
    moreover have "length (operation_id p) = IDLen" "length (oAuthorID (operation_content_of p)) = IDLen"
      using assms(3) by (simp_all add: storable_operation_def)
    ultimately show ?thesis
      by (simp add: with_objects_def scanSingleOperationRow_def operation_row_of_def)
  qed
  have "(\<exists>y. scanSingleOperationRow env None (with_objects ?d r) = Inr y) \<or>
      scanSingleOperationRow env None (with_objects ?d r) = Err InconsistentDB" if "r \<in> set ?xs" for r
  proof (cases "r = operation_row_of p ts")
    case False
    with that obtain q t where "r = operation_row_of q t" "(q, t) \<in> set os"
      by (auto simp: by_rank_def rows split: if_splits)
    with scan_with_objects [OF assms(2)] show ?thesis by (fastforce simp: with_objects_def)
  qed (use orphan in simp)
  from map_result_only_error [OF this, where x = "operation_row_of p ts"] here orphan
  have "map_result (\<lambda>r. scanSingleOperationRow env None (with_objects ?d r)) ?xs = Err InconsistentDB" by simp
  then have "GetOperationsStoredAfter env eng since limit ?d = Err InconsistentDB"
    unfolding GetOperationsStoredAfter_def scanStoredOperationRows_def all map_result_map
    by (simp only: reliableD [OF assms(1)] if_False)
  with put show ?thesis by simp
qed

lemma GetThread_ok:
  assumes "faithful eng" "represents env d us ms os" "acyclic_replies ms"
    and "\<forall>(m, t) \<in> set ms. message_id m \<noteq> ZeroID" "(m, t) \<in> set ms" "length ms \<le> fuel"
  shows "\<exists>n. GetThread env eng fuel (message_id m) d = Some (Ok n) \<and> Msg n = m \<and> thread_of eng ms n"
proof -
  have dist: "distinct (map (message_id \<circ> fst) ms)" by (rule represents_distinct(2) [OF assms(2)])
  have "find (\<lambda>(n, t). message_id n = message_id m) ms = Some (m, t)"
    using dist assms(5) by (induction ms) (auto simp: image_iff)
  then have "GetMessage env eng (message_id m) d = Ok m" by (simp add: GetMessage_represents [OF assms(1,2)])
  moreover have "m \<in> fst ` set ms" "length ms - height ms (message_id m) \<le> fuel" using assms(5,6) by force+
  then have "\<exists>n. fillSubthreads env eng d fuel (New m) = Some (Ok n) \<and> Msg n = m \<and> thread_of eng ms n"
    by (rule fillSubthreads_ok [OF faithful_reliable [OF assms(1)] assms(2-4)])
  ultimately show ?thesis by (simp add: GetThread_def)
qed



text \<open>
  The rate check against the database works in whole seconds: with a \<open>strftime\<close> that
  rounds down, it answers a message only if some other stored message of the same author is
  less than the delay away, and it is sure to answer one when another is at least a second
  less than the delay away. In between it may miss it.
\<close>

theorem GetNearMessageID_bounds:
  assumes "reliable eng" "\<forall>t. strftime_s eng t = t div Second" "diff = n * Second" "0 \<le> n"
    and "\<forall>r \<in> set (Messages d). length (mr_id r) = IDLen"
  shows "\<exists>found. GetNearMessageID eng m diff d = Ok found \<and>
    (found \<noteq> None \<longrightarrow> (\<exists>r \<in> set (Messages d). found = Some (mr_id r) \<and> mr_id r \<noteq> message_id m \<and>
        mr_author r = mAuthorID (message_content_of m) \<and> \<bar>mr_time r - mDateWritten (message_content_of m)\<bar> < diff)) \<and>
    ((\<exists>r \<in> set (Messages d). mr_id r \<noteq> message_id m \<and> mr_author r = mAuthorID (message_content_of m) \<and>
        \<bar>mr_time r - mDateWritten (message_content_of m)\<bar> \<le> diff - Second) \<longrightarrow> found \<noteq> None)"
proof -
  let ?t = "mDateWritten (message_content_of m)"
  let ?P = "\<lambda>r. mr_author r = mAuthorID (message_content_of m) \<and> mr_id r \<noteq> message_id m \<and>
      \<bar>mr_time r div Second - ?t div Second\<bar> < n"
  have secs: "sgn diff * (\<bar>diff\<bar> div Second) = n"
    using assms(3,4) by (simp add: Second_def sgn_if abs_mult)
  have near: "\<bar>a - b\<bar> < diff" if "\<bar>a div Second - b div Second\<bar> < n" for a b
    using that assms(3) by (simp add: Second_def)
  have far: "\<bar>a div Second - b div Second\<bar> < n" if "\<bar>a - b\<bar> \<le> diff - Second" for a b
    using that assms(3) by (simp add: Second_def)
  have get: "GetNearMessageID eng m diff d =
    (case find ?P (sort_key (rank eng \<circ> mr_id) (Messages d)) of None \<Rightarrow> Ok None
     | Some r \<Rightarrow> bind_result (ParseSlice ZeroID (mr_id r)) (\<lambda>i. Ok (Some i)))"
    using assms(1,2) secs by (simp add: GetNearMessageID_def Let_def)
  show ?thesis
  proof (cases "find ?P (sort_key (rank eng \<circ> mr_id) (Messages d))")
    case None
    then have "\<forall>r \<in> set (Messages d). \<not> ?P r" by (simp add: find_None_iff)
    with get None far show ?thesis by auto
  next
    case (Some r)
    with find_SomeD [OF Some] assms(5) have "r \<in> set (Messages d)" "?P r" "ParseSlice ZeroID (mr_id r) = Ok (mr_id r)"
      by simp_all
    with get Some near show ?thesis by auto
  qed
qed

theorem GetNearMessageID_bounds_witness:
  "\<exists>d. represents toy_env d [] [(toy_message ''a'' ZeroID (Some [''x'']), 5)] [] \<and>
     (\<exists>found. GetNearMessageID toy_engine (toy_message ''b'' ZeroID (Some [''x''])) MinMessagePostDelay d = Ok found \<and> found \<noteq> None)"
proof -
  let ?m = "toy_message ''a'' ZeroID (Some [''x''])" and ?n = "toy_message ''b'' ZeroID (Some [''x''])"
  from represents_toy obtain d where d: "represents toy_env d [] [(?m, 5)] []" ..
  then have rows: "Messages d = [message_row_of ?m 5]" by (simp add: represents_def)
  have e: "reliable toy_engine" "\<forall>t. strftime_s toy_engine t = t div Second" "MinMessagePostDelay = 60 * Second"
    by (simp_all add: reliable_def toy_engine_def MinMessagePostDelay_def duration_defs)
  have len: "\<forall>r \<in> set (Messages d). length (mr_id r) = IDLen"
    by (simp add: rows toy_message_parts IDLen_def)
  have "message_id ?m \<noteq> message_id ?n" by (simp add: toy_message_parts toy_hash_def numeral_eq_Suc)
  then have "\<exists>r \<in> set (Messages d). mr_id r \<noteq> message_id ?n \<and> mr_author r = mAuthorID (message_content_of ?n) \<and>
      \<bar>mr_time r - mDateWritten (message_content_of ?n)\<bar> \<le> MinMessagePostDelay - Second"
    by (simp add: rows) (simp add: message_row_of_def toy_message_parts toy_message_def newUnsignedMessage_def
        newMessageContent_def Let_def MinMessagePostDelay_def duration_defs)
  then show ?thesis using GetNearMessageID_bounds [OF e _ len, of ?n] d by auto
qed

definition toy_operation :: operation where
  "toy_operation = \<lparr>oper_unsigned = newUnsignedOperation toy_env OperationTypeBanUser OperationReasonSpam ''c''
     (replicate 32 1) (replicate 32 2) 0, oper_sig = []\<rparr>"

lemma storable_toy_operation: "storable_operation toy_env toy_operation"
  by (simp add: storable_operation_def toy_operation_def newUnsignedOperation_def newOperationContent_def Let_def
      UnsignedOperation_isValid_def oper_type_defs oper_reason_defs ID_IsZero_def ZeroID_def IDLen_def
      OperationContent_ToID_def NewID_def toy_env_def operation_id_def numeral_eq_Suc)

theorem PutOperation_orphan_witness:
  "\<exists>d'. PutOperation toy_engine toy_operation 9 empty_database = (Err NoSuchEntity, d') \<and>
     GetOperationsStoredAfter toy_env toy_engine 0 100 d' = Err InconsistentDB"
proof -
  have absent: "operation_id toy_operation \<notin> (operation_id \<circ> fst) ` set []"
    "oObjectID (operation_content_of toy_operation) \<notin>
      (if removes toy_operation then (message_id \<circ> fst) ` set [] else (user_id \<circ> fst) ` set [])"
    by simp_all
  have "reliable toy_engine" by (rule faithful_reliable [OF faithful_toy])
  from PutOperation_orphan [OF this represents_empty storable_toy_operation absent, of 0 9 100]
  show ?thesis by auto
qed

end
