(* ===== verification/ProfileDB.thy ===== *)
theory ProfileDB
  imports EntityDB
begin

text \<open>
  The profile database (\<open>sqlite/profile_database.go\<close>): moderators, the owner's
  subscriptions and the histories of peers. Tables are lists of rows in insertion order;
  here the program switches foreign keys on. SQLite's refusals and orders are the record
  \<open>profile_engine\<close>.
\<close>

record profile_database =
  Moderators :: "entity_id list"
  Subscriptions :: "gostring list"
  User_Histories :: "(entity_id \<times> time) list"
  User_Subscriptions :: "(entity_id \<times> gostring) list"

definition empty_profile_database :: profile_database where
  "empty_profile_database =
     \<lparr>Moderators = [], Subscriptions = [], User_Histories = [], User_Subscriptions = []\<rparr>"

datatype profile_statement =
    P_Open nat | P_Close | P_PutModerator | P_RemoveModerator | P_GetModerators
  | P_PutSubscription | P_RemoveSubscription | P_GetSubscriptions | P_PutUserHistory
  | P_putUserSubscription | P_GetUserHistory | P_GetFullHistory | P_RowsAffected

record profile_engine =
  pfails :: "profile_database \<Rightarrow> profile_statement \<Rightarrow> bool"
  id_rank :: "entity_id \<Rightarrow> nat"
  topic_rank :: "gostring \<Rightarrow> nat"
  pconcat_order :: "gostring list \<Rightarrow> gostring list"

definition ProfileInitStatements :: nat where "ProfileInitStatements = 9"

text \<open>Opening: five pragmas and four tables; the first failure skips the rest.\<close>

definition OpenProfileDatabase ::
  "profile_engine \<Rightarrow> profile_database option \<Rightarrow> profile_database result" where
  "OpenProfileDatabase pe file =
     (case file of
        None \<Rightarrow> Err CantOpenDB
      | Some pd \<Rightarrow>
          let execErr = fold (\<lambda>req execErr. if execErr then execErr else pfails pe pd (P_Open req))
                [0..<ProfileInitStatements] False
          in if execErr then Err DBOperFailed else Ok pd)"

definition ProfileDatabase_Close :: "profile_engine \<Rightarrow> profile_database \<Rightarrow> unit result" where
  "ProfileDatabase_Close pe pd = (if pfails pe pd P_Close then Err DBOperFailed else Ok ())"

section \<open>Moderators\<close>

definition PutModerator ::
  "profile_engine \<Rightarrow> entity_id \<Rightarrow> profile_database \<Rightarrow> unit result \<times> profile_database" where
  "PutModerator pe i pd =
     (if pfails pe pd P_PutModerator then (Err DBOperFailed, pd)
      else if i \<in> set (Moderators pd) then (Err AlreadyModerator, pd)
      else (Ok (), pd\<lparr>Moderators := Moderators pd @ [i]\<rparr>))"

text \<open>\<open>RowsAffected\<close> counts the deleted rows; its own error is passed on.\<close>

definition RemoveModerator ::
  "profile_engine \<Rightarrow> entity_id \<Rightarrow> profile_database \<Rightarrow> unit result \<times> profile_database" where
  "RemoveModerator pe i pd =
     (if pfails pe pd P_RemoveModerator then (Err DBOperFailed, pd)
      else let count = length (filter (\<lambda>x. x = i) (Moderators pd));
               pd' = pd\<lparr>Moderators := filter (\<lambda>x. x \<noteq> i) (Moderators pd)\<rparr>
           in if pfails pe pd' P_RowsAffected then (Err (Foreign ''RowsAffected''), pd')
              else if count \<noteq> 1 then (Err NoSuchModerator, pd')
              else (Ok (), pd'))"

definition GetModerators :: "profile_engine \<Rightarrow> profile_database \<Rightarrow> entity_id list result" where
  "GetModerators pe pd =
     (if pfails pe pd P_GetModerators then Err DBOperFailed
      else map_result (\<lambda>rawID. ParseSlice ZeroID rawID) (sort_key (id_rank pe) (Moderators pd)))"

section \<open>Subscriptions of the owner\<close>

definition PutSubscription ::
  "profile_engine \<Rightarrow> topic \<Rightarrow> profile_database \<Rightarrow> unit result \<times> profile_database" where
  "PutSubscription pe t pd =
     (if pfails pe pd P_PutSubscription then (Err DBOperFailed, pd)
      else if Topic_String t \<in> set (Subscriptions pd) then (Err AlreadySubscribed, pd)
      else (Ok (), pd\<lparr>Subscriptions := Subscriptions pd @ [Topic_String t]\<rparr>))"

definition RemoveSubscription ::
  "profile_engine \<Rightarrow> topic \<Rightarrow> profile_database \<Rightarrow> unit result \<times> profile_database" where
  "RemoveSubscription pe t pd =
     (if pfails pe pd P_RemoveSubscription then (Err DBOperFailed, pd)
      else let count = length (filter (\<lambda>x. x = Topic_String t) (Subscriptions pd));
               pd' = pd\<lparr>Subscriptions := filter (\<lambda>x. x \<noteq> Topic_String t) (Subscriptions pd)\<rparr>
           in if pfails pe pd' P_RowsAffected then (Err (Foreign ''RowsAffected''), pd')
              else if count \<noteq> 1 then (Err NotSubscribed, pd')
              else (Ok (), pd'))"

definition GetSubscriptions :: "profile_engine \<Rightarrow> profile_database \<Rightarrow> subscriptions result" where
  "GetSubscriptions pe pd =
     (if pfails pe pd P_GetSubscriptions then Err DBOperFailed
      else fold_result (\<lambda>tStr res. case NewTopic tStr of Inl _ \<Rightarrow> Err Parsing | Inr t \<Rightarrow> Ok (AddTopic res t))
             (sort_key (topic_rank pe) (Subscriptions pd)) [])"

section \<open>Histories of peers\<close>

definition putUserSubscription ::
  "profile_engine \<Rightarrow> entity_id \<Rightarrow> topic \<Rightarrow> profile_database \<Rightarrow> unit result \<times> profile_database" where
  "putUserSubscription pe i t pd =
     (if pfails pe pd P_putUserSubscription then (Err DBOperFailed, pd)
      else if i \<notin> fst ` set (User_Histories pd) then (Err DuplicationAttempt, pd)
      else (Ok (), pd\<lparr>User_Subscriptions := User_Subscriptions pd @ [(i, Topic_String t)]\<rparr>))"

fun PutUserHistory_loop ::
  "profile_engine \<Rightarrow> entity_id \<Rightarrow> subscriptions \<Rightarrow> profile_database \<Rightarrow> unit result \<times> profile_database" where
  "PutUserHistory_loop pe i [] pd = (Ok (), pd)"
| "PutUserHistory_loop pe i (t # ts) pd =
     (case putUserSubscription pe i t pd of
        (Inl err, pd') \<Rightarrow> (Inl err, pd')
      | (Inr _, pd') \<Rightarrow> PutUserHistory_loop pe i ts pd')"

text \<open>
  \<open>INSERT OR REPLACE\<close> deletes the row with the same key first, and with it, by
  \<open>ON DELETE CASCADE\<close>, the subscriptions that refer to it.
\<close>

definition replace_history :: "entity_id \<Rightarrow> time \<Rightarrow> profile_database \<Rightarrow> profile_database" where
  "replace_history i disconnected pd =
     pd\<lparr>User_Histories := filter (\<lambda>h. fst h \<noteq> i) (User_Histories pd) @ [(i, disconnected)],
        User_Subscriptions :=
          (if i \<in> fst ` set (User_Histories pd) then filter (\<lambda>s. fst s \<noteq> i) (User_Subscriptions pd)
           else User_Subscriptions pd)\<rparr>"

definition PutUserHistory ::
  "profile_engine \<Rightarrow> user_history \<Rightarrow> profile_database \<Rightarrow> unit result \<times> profile_database" where
  "PutUserHistory pe h pd =
     (if pfails pe pd P_PutUserHistory then (Err DBOperFailed, pd)
      else PutUserHistory_loop pe (h_id h) (h_subs h) (replace_history (h_id h) (h_disconnected h) pd))"

text \<open>The joined column is NULL (\<open>None\<close>), which does not scan into a string, without topics.\<close>

definition history_column :: "profile_engine \<Rightarrow> profile_database \<Rightarrow> entity_id \<Rightarrow> gostring option" where
  "history_column pe pd i =
     (let ts = map snd (filter (\<lambda>s. fst s = i) (User_Subscriptions pd))
      in if ts = [] then None else Some (join newline (pconcat_order pe ts)))"

definition GetUserHistory ::
  "profile_engine \<Rightarrow> entity_id \<Rightarrow> profile_database \<Rightarrow> user_history result" where
  "GetUserHistory pe i pd =
     (if pfails pe pd P_GetUserHistory then Err DBOperFailed
      else case find (\<lambda>h. fst h = i) (User_Histories pd) of
        None \<Rightarrow> Err NoUserHistory
      | Some (_, timeDisc) \<Rightarrow>
          (case history_column pe pd i of
             None \<Rightarrow> Err DBOperFailed
           | Some subsStr \<Rightarrow>
               (case ReadString subsStr of
                  Inl _ \<Rightarrow> Err InconsistentDB
                | Inr s \<Rightarrow> Ok \<lparr>h_id = i, h_disconnected = timeDisc, h_subs = s\<rparr>)))"

definition scanHistoryRow ::
  "entity_id \<times> time \<times> gostring option \<Rightarrow> user_history result" where
  "scanHistoryRow row =
     (case row of
        (_, _, None) \<Rightarrow> Err DBOperFailed
      | (rawID, timeDisc, Some subsStr) \<Rightarrow>
          bind_result (ParseSlice ZeroID rawID) (\<lambda>i.
            case ReadString subsStr of
              Inl _ \<Rightarrow> Err InconsistentDB
            | Inr s \<Rightarrow> Ok \<lparr>h_id = i, h_disconnected = timeDisc, h_subs = s\<rparr>))"

definition scanHistoryRows ::
  "(entity_id \<times> time \<times> gostring option) list \<Rightarrow> user_history list result" where
  "scanHistoryRows rows = map_result scanHistoryRow rows"

definition GetFullHistory :: "profile_engine \<Rightarrow> profile_database \<Rightarrow> user_history list result" where
  "GetFullHistory pe pd =
     (if pfails pe pd P_GetFullHistory then Err DBOperFailed
      else scanHistoryRows (map (\<lambda>(i, t). (i, t, history_column pe pd i))
             (sort_key (id_rank pe \<circ> fst) (User_Histories pd))))"

section \<open>Lemmas\<close>

text \<open>
  Keys are unique, and no subscription refers to a history that is not there: the foreign
  key, and what makes replacing a history remove all its old topics.
\<close>

definition pdb_wf :: "profile_database \<Rightarrow> bool" where
  "pdb_wf pd \<longleftrightarrow> distinct (Moderators pd) \<and> distinct (Subscriptions pd) \<and>
     distinct (map fst (User_Histories pd)) \<and>
     (\<forall>s \<in> set (User_Subscriptions pd). fst s \<in> fst ` set (User_Histories pd))"

lemma pdb_wf_empty: "pdb_wf empty_profile_database"
  by (simp add: pdb_wf_def empty_profile_database_def)

lemma PutModerator_wf: "pdb_wf pd \<Longrightarrow> pdb_wf (snd (PutModerator pe i pd))"
  by (auto simp: PutModerator_def pdb_wf_def)

lemma RemoveModerator_wf: "pdb_wf pd \<Longrightarrow> pdb_wf (snd (RemoveModerator pe i pd))"
  by (auto simp: RemoveModerator_def pdb_wf_def Let_def)

lemma PutSubscription_wf: "pdb_wf pd \<Longrightarrow> pdb_wf (snd (PutSubscription pe t pd))"
  by (auto simp: PutSubscription_def pdb_wf_def)

lemma RemoveSubscription_wf: "pdb_wf pd \<Longrightarrow> pdb_wf (snd (RemoveSubscription pe t pd))"
  by (auto simp: RemoveSubscription_def pdb_wf_def Let_def)

lemma replace_history_wf: "pdb_wf pd \<Longrightarrow> pdb_wf (replace_history i t pd)"
  unfolding pdb_wf_def replace_history_def
  by (auto simp: distinct_map_filter) (force simp: image_iff)+

lemma PutUserHistory_loop_wf: "pdb_wf pd \<Longrightarrow> pdb_wf (snd (PutUserHistory_loop pe i ts pd))"
proof (induction ts arbitrary: pd)
  case (Cons t ts)
  then have "pdb_wf (snd (putUserSubscription pe i t pd))"
    by (auto simp: putUserSubscription_def pdb_wf_def)
  with Cons show ?case by (auto split: prod.splits sum.splits)
qed simp

lemma PutUserHistory_wf: "pdb_wf pd \<Longrightarrow> pdb_wf (snd (PutUserHistory pe h pd))"
  by (simp add: PutUserHistory_def PutUserHistory_loop_wf replace_history_wf)

text \<open>An engine that refuses nothing and delivers groups in insertion order.\<close>

definition preliable :: "profile_engine \<Rightarrow> bool" where
  "preliable pe \<longleftrightarrow> (\<forall>pd st. \<not> pfails pe pd st) \<and> (\<forall>ts. pconcat_order pe ts = ts)"

lemma preliableD [simp]: "preliable pe \<Longrightarrow> \<not> pfails pe pd st" "preliable pe \<Longrightarrow> pconcat_order pe ts = ts"
  by (simp_all add: preliable_def)

lemma PutUserHistory_loop_reliable:
  assumes "preliable pe"
  shows "i \<in> fst ` set (User_Histories pd) \<Longrightarrow> PutUserHistory_loop pe i ts pd =
    (Ok (), pd\<lparr>User_Subscriptions := User_Subscriptions pd @ map (\<lambda>t. (i, Topic_String t)) ts\<rparr>)"
  using assms by (induction ts arbitrary: pd) (simp_all add: putUserSubscription_def)

text \<open>Topics joined by newlines read back, if the last line is not empty.\<close>

lemma scan_lines_join:
  assumes "\<forall>t \<in> set s. Topic_IsValid t" "s \<noteq> []" "Topic_String (last s) \<noteq> []"
  shows "scan_lines (join newline (map Topic_String s)) = (map Topic_String s, False)"
  using assms
proof (induction s)
  case (Cons t s)
  then have t: "Topic_IsValid t" by simp
  have cr: "dropCR (Topic_String t) = Topic_String t"
    using Topic_String_chars(2) [OF t] last_in_set by (fastforce simp: dropCR_def)
  have nl: "takeWhile (\<lambda>c. c \<noteq> newline) (Topic_String t) = Topic_String t"
    "dropWhile (\<lambda>c. c \<noteq> newline) (Topic_String t) = []"
    using Topic_String_chars(1) [OF t] by (auto simp: takeWhile_eq_all_conv dropWhile_eq_Nil_conv)
  show ?case
  proof (cases s)
    case Nil
    with Cons.prems Topic_String_short [OF t] show ?thesis
      by (subst scan_lines.simps) (simp add: Let_def nl cr)
  next
    case (Cons u us)
    with Cons.prems Cons.IH cr show ?thesis
      using scan_lines_Cons [OF Topic_String_chars(1) [OF t] Topic_String_short [OF t]] by simp
  qed
qed simp

lemma ReadString_join:
  assumes "\<forall>t \<in> set s. Topic_IsValid t" "distinct s" "s \<noteq> []" "last s \<noteq> None" "length s \<le> MaxSubscriptionLen"
  shows "ReadString (join newline (map Topic_String s)) = Ok s"
proof -
  obtain ts where ts: "last s = Some ts" using assms(4) by auto
  then have v: "Topic_IsValid (Some ts)" using assms(1,3) last_in_set by metis
  have "Topic_String (Some ts) \<noteq> []"
  proof
    assume "Topic_String (Some ts) = []"
    with v NewTopic_String [OF v] show False by (simp add: NewTopic_def)
  qed
  then have "scan_lines (join newline (map Topic_String s)) = (map Topic_String s, False)"
    using assms(1,3) ts by (intro scan_lines_join) simp_all
  moreover have "Read_loop (map Topic_String s) [] = Some s"
    using Read_loop_String [of "[]" s] assms(1,2,5) by simp
  ultimately show ?thesis by (simp add: ReadString_def)
qed

section \<open>Properties\<close>

text \<open>
  A peer's history survives a restart: for a database whose foreign keys hold, storing
  a history (distinct valid topics, at least one and at most the permitted number, the last
  not nil) and reading it back gives that history, whatever history the peer had before and
  however many topics that one had; other peers' histories are as they were.
\<close>

theorem UserHistory_roundtrip:
  assumes "preliable pe" "pdb_wf pd" "\<forall>t \<in> set (h_subs h). Topic_IsValid t" "distinct (h_subs h)"
    and "h_subs h \<noteq> []" "last (h_subs h) \<noteq> None" "length (h_subs h) \<le> MaxSubscriptionLen"
  shows "\<exists>pd'. PutUserHistory pe h pd = (Ok (), pd') \<and> pdb_wf pd' \<and>
    GetUserHistory pe (h_id h) pd' = Ok h \<and>
    (\<forall>i. i \<noteq> h_id h \<longrightarrow> GetUserHistory pe i pd' = GetUserHistory pe i pd)"
proof -
  let ?r = "replace_history (h_id h) (h_disconnected h) pd"
  let ?pd = "?r\<lparr>User_Subscriptions := User_Subscriptions ?r @ map (\<lambda>t. (h_id h, Topic_String t)) (h_subs h)\<rparr>"
  have "h_id h \<in> fst ` set (User_Histories ?r)" by (simp add: replace_history_def)
  then have put: "PutUserHistory pe h pd = (Ok (), ?pd)"
    using assms(1) by (simp add: PutUserHistory_def PutUserHistory_loop_reliable)
  have app: "find P (xs @ ys) = (case find P xs of Some x \<Rightarrow> Some x | None \<Rightarrow> find P ys)"
    for P and xs ys :: "(entity_id \<times> time) list"
    by (induction xs) auto
  have filt: "find (\<lambda>x. fst x = i) (filter (\<lambda>x. fst x \<noteq> j) xs) =
      (if i = j then None else find (\<lambda>x. fst x = i) xs)" for i j and xs :: "(entity_id \<times> time) list"
    by (induction xs) auto
  have clean: "filter (\<lambda>s. fst s = h_id h) (User_Subscriptions ?r) = []"
    using assms(2) by (force simp: replace_history_def pdb_wf_def filter_empty_conv)
  have other: "filter (\<lambda>s. fst s = i) (User_Subscriptions ?pd) = filter (\<lambda>s. fst s = i) (User_Subscriptions pd)"
    if "i \<noteq> h_id h" for i
    using that by (simp add: replace_history_def filter_empty_conv conj_commute cong: conj_cong)
  have found: "find (\<lambda>x. fst x = i) (User_Histories ?pd) =
    (if i = h_id h then Some (i, h_disconnected h) else find (\<lambda>x. fst x = i) (User_Histories pd))" for i
    by (simp add: replace_history_def app filt split: option.splits)
  have "history_column pe ?pd (h_id h) = Some (join newline (map Topic_String (h_subs h)))"
    using assms(1,5) clean by (simp add: history_column_def comp_def)
  with ReadString_join [OF assms(3-7)] found have "GetUserHistory pe (h_id h) ?pd = Ok h"
    using assms(1) by (simp add: GetUserHistory_def)
  moreover have "GetUserHistory pe i ?pd = GetUserHistory pe i pd" if "i \<noteq> h_id h" for i
  proof -
    have "history_column pe ?pd i = history_column pe pd i"
      by (simp only: history_column_def other [OF that])
    with assms(1) that found [of i] show ?thesis by (simp add: GetUserHistory_def split: option.split)
  qed
  moreover have "pdb_wf ?pd" using PutUserHistory_wf [OF assms(2), of pe h] put by simp
  ultimately show ?thesis using put by blast
qed

definition toy_profile_engine :: profile_engine where
  "toy_profile_engine = \<lparr>pfails = (\<lambda>_ _. False), id_rank = length, topic_rank = length, pconcat_order = (\<lambda>ts. ts)\<rparr>"

lemma preliable_toy [simp]: "preliable toy_profile_engine"
  by (simp add: preliable_def toy_profile_engine_def)

theorem UserHistory_roundtrip_witness:
  "\<exists>pd1 pd2. PutUserHistory toy_profile_engine \<lparr>h_id = [1], h_disconnected = 3, h_subs = [Some [''x'', ''y''], Some [''x'']]\<rparr>
       empty_profile_database = (Ok (), pd1) \<and>
     PutUserHistory toy_profile_engine \<lparr>h_id = [1], h_disconnected = 7, h_subs = [Some [''x'']]\<rparr> pd1 = (Ok (), pd2) \<and>
     GetUserHistory toy_profile_engine [1] pd2 = Ok \<lparr>h_id = [1], h_disconnected = 7, h_subs = [Some [''x'']]\<rparr>"
proof -
  let ?h1 = "\<lparr>h_id = [1], h_disconnected = 3, h_subs = [Some [''x'', ''y''], Some [''x'']]\<rparr>"
  let ?h2 = "\<lparr>h_id = [1], h_disconnected = 7, h_subs = [Some [''x'']]\<rparr>"
  have v: "Topic_IsValid (Some [''x'', ''y''])" "Topic_IsValid (Some [''x''])"
    by (simp_all add: Topic_IsValid_iff MaxTopicCapacity_def isTagValid_def MaxTagLen_def tag_chars_def)
  from UserHistory_roundtrip [OF preliable_toy pdb_wf_empty, of ?h1] v obtain pd1 where
    1: "PutUserHistory toy_profile_engine ?h1 empty_profile_database = (Ok (), pd1)" "pdb_wf pd1"
    by (auto simp: MaxSubscriptionLen_def)
  from UserHistory_roundtrip [OF preliable_toy 1(2), of ?h2] v obtain pd2 where
    "PutUserHistory toy_profile_engine ?h2 pd1 = (Ok (), pd2)" "GetUserHistory toy_profile_engine [1] pd2 = Ok ?h2"
    by (auto simp: MaxSubscriptionLen_def)
  with 1 show ?thesis by blast
qed

end
