(* ===== verification/Storage.thy ===== *)
theory Storage
  imports EntityStore
begin

text \<open>
  The storage (\<open>storage/storage.go\<close>): the entity database together with the channels of
  its observers. A channel is a number; its buffer and capacity are kept here, because the
  storage is the only writer. Sends never block: a full channel loses the entity.
\<close>

type_synonym channel = nat

record storage =
  st_db :: entity_database
  st_observers :: "channel list"
  st_buffer :: "channel \<Rightarrow> entity list"
  st_capacity :: "channel \<Rightarrow> nat"

definition AttachObserver :: "channel \<Rightarrow> storage \<Rightarrow> storage" where
  "AttachObserver c s = s\<lparr>st_observers := st_observers s @ [c]\<rparr>"

definition DetachObserver :: "channel \<Rightarrow> storage \<Rightarrow> storage" where
  "DetachObserver c s = s\<lparr>st_observers := remove1 c (st_observers s)\<rparr>"

text \<open>\<open>select \<dots> default\<close>: the send happens when the buffer has room.\<close>

definition try_send :: "channel \<Rightarrow> entity \<Rightarrow> storage \<Rightarrow> storage" where
  "try_send c e s =
     (if length (st_buffer s c) < st_capacity s c
      then s\<lparr>st_buffer := (st_buffer s)(c := st_buffer s c @ [e])\<rparr> else s)"

definition notifyObservers :: "entity \<Rightarrow> channel option \<Rightarrow> storage \<Rightarrow> storage" where
  "notifyObservers e sender s =
     fold (\<lambda>c s. if Some c = sender then s else try_send c e s) (st_observers s) s"

text \<open>
  The walks to the root of a thread follow stored messages and need not end, so they are
  partial: \<open>None\<close> is a walk that goes on for ever.
\<close>

partial_function (option) GetRoot ::
  "env \<Rightarrow> engine \<Rightarrow> entity_database \<Rightarrow> message \<Rightarrow> message result option" where
  "GetRoot env eng d m =
     (if IsReply m
      then case GetMessage env eng (mParentID (message_content_of m)) d of
             Inl err \<Rightarrow> Some (Inl err)
           | Inr p \<Rightarrow> GetRoot env eng d p
      else Some (Ok m))"

partial_function (option) GetMessageDepth_loop ::
  "env \<Rightarrow> engine \<Rightarrow> entity_database \<Rightarrow> message \<Rightarrow> nat \<Rightarrow> nat result option" where
  "GetMessageDepth_loop env eng d m depth =
     (if IsReply m
      then case GetMessage env eng (mParentID (message_content_of m)) d of
             Inl err \<Rightarrow> Some (Inl err)
           | Inr p \<Rightarrow> GetMessageDepth_loop env eng d p (depth + 1)
      else Some (Ok depth))"

definition GetMessageDepth ::
  "env \<Rightarrow> engine \<Rightarrow> entity_database \<Rightarrow> message \<Rightarrow> nat result option" where
  "GetMessageDepth env eng d m = GetMessageDepth_loop env eng d m 0"

definition HasEntity :: "engine \<Rightarrow> entity_id \<Rightarrow> entity_database \<Rightarrow> bool result" where
  "HasEntity eng eid d =
     bind_result (HasUser eng eid d) (\<lambda>h. if h then Ok True else
     bind_result (HasMessage eng eid d) (\<lambda>h. if h then Ok True else HasOperation eng eid d))"

text \<open>Each lookup goes on to the next table only when the error is NoSuchEntity.\<close>

definition GetEntity :: "env \<Rightarrow> engine \<Rightarrow> entity_id \<Rightarrow> entity_database \<Rightarrow> entity result" where
  "GetEntity env eng eid d =
     (case GetUser env eng eid d of
        Inr u \<Rightarrow> Ok (EUser u)
      | Inl err \<Rightarrow>
          if err \<noteq> Error NoSuchEntity then Inl err
          else (case GetMessage env eng eid d of
                  Inr m \<Rightarrow> Ok (EMessage m)
                | Inl err \<Rightarrow>
                    if err \<noteq> Error NoSuchEntity then Inl err
                    else (case GetOperation env eng eid d of
                            Inr p \<Rightarrow> Ok (EOperation p)
                          | Inl err \<Rightarrow> Inl err)))"

text \<open>\<open>now\<close> is what \<open>time.Now()\<close> returns in this call.\<close>

definition PutEntity ::
  "env \<Rightarrow> engine \<Rightarrow> entity \<Rightarrow> channel option \<Rightarrow> time \<Rightarrow> storage \<Rightarrow> unit result \<times> storage" where
  "PutEntity env eng ent sender now s =
     (case (case ent of
              EUser u \<Rightarrow> PutUser env eng u now (st_db s)
            | EMessage m \<Rightarrow> PutMessage eng m now (st_db s)
            | EOperation p \<Rightarrow> PutOperation eng p now (st_db s)) of
        (Inl err, d) \<Rightarrow> (Inl err, s\<lparr>st_db := d\<rparr>)
      | (Inr _, d) \<Rightarrow> (Ok (), notifyObservers ent sender (s\<lparr>st_db := d\<rparr>)))"

section \<open>Lemmas\<close>

lemma try_send_frame [simp]:
  "st_db (try_send c e s) = st_db s" "st_observers (try_send c e s) = st_observers s"
  "st_capacity (try_send c e s) = st_capacity s"
  by (simp_all add: try_send_def)

lemma notify_fold:
  assumes "distinct cs"
  shows "let s' = fold (\<lambda>c s. if Some c = sender then s else try_send c e s) cs s in
    st_db s' = st_db s \<and> st_observers s' = st_observers s \<and> st_capacity s' = st_capacity s \<and>
    (\<forall>c. st_buffer s' c = st_buffer s c @
      (if c \<in> set cs \<and> Some c \<noteq> sender \<and> length (st_buffer s c) < st_capacity s c then [e] else []))"
  using assms
proof (induction cs arbitrary: s)
  case (Cons c cs)
  then have c: "c \<notin> set cs" and d: "distinct cs" by simp_all
  let ?s = "if Some c = sender then s else try_send c e s"
  have "st_buffer ?s x = st_buffer s x @
      (if x = c \<and> Some c \<noteq> sender \<and> length (st_buffer s c) < st_capacity s c then [e] else [])" for x
    by (simp add: try_send_def)
  with Cons.IH [OF d, of ?s] c show ?case by (auto simp: Let_def)
qed simp

lemma notifyObservers_db [simp]:
  "st_db (notifyObservers e sender s) = st_db s"
proof -
  have "st_db (fold (\<lambda>c s. if Some c = sender then s else try_send c e s) cs s) = st_db s" for cs
    by (induction cs arbitrary: s) simp_all
  then show ?thesis by (simp add: notifyObservers_def)
qed

lemma GetRoot_unfold:
  "GetRoot env eng d m = (if IsReply m
      then case GetMessage env eng (mParentID (message_content_of m)) d of
             Inl err \<Rightarrow> Some (Inl err) | Inr p \<Rightarrow> GetRoot env eng d p
      else Some (Ok m))"
  by (rule GetRoot.simps)

text \<open>Storing an entity loses no row, and changes only the table of its kind.\<close>

lemma topic_keeps:
  "Messages (snd (putMesageTopic eng m d)) = Messages d" "Users (snd (putMesageTopic eng m d)) = Users d"
  "Operations (snd (putMesageTopic eng m d)) = Operations d"
  using topic_loop_same [of d eng "message_id m"] by (simp_all add: putMesageTopic_def Let_def same_but_tags_def)

lemma object_keeps:
  "Messages (snd (putOperationObject eng p d)) = Messages d" "Users (snd (putOperationObject eng p d)) = Users d"
  "Operations (snd (putOperationObject eng p d)) = Operations d"
  by (auto simp: putOperationObject_def putMessageOperation_def putUserOperation_def Let_def
      split: sum.splits prod.splits)

lemma PutOperation_state:
  "snd (PutOperation eng p ts d) = d \<or> snd (PutOperation eng p ts d) =
     snd (putOperationObject eng p (d\<lparr>Operations := insert_ignore or_id (operation_row_of p ts) (Operations d)\<rparr>))"
  by (auto simp: PutOperation_def split: prod.splits sum.splits fault.splits)

lemma put_keeps:
  "set (Users d) \<subseteq> set (Users (snd (PutUser env eng u ts d)))"
  "set (Messages d) \<subseteq> set (Messages (snd (PutMessage eng m ts d)))"
  "set (Operations d) \<subseteq> set (Operations (snd (PutOperation eng p ts d)))"
  "Messages (snd (PutUser env eng u ts d)) = Messages d" "Operations (snd (PutUser env eng u ts d)) = Operations d"
  "Users (snd (PutMessage eng m ts d)) = Users d" "Operations (snd (PutMessage eng m ts d)) = Operations d"
  "Users (snd (PutOperation eng p ts d)) = Users d" "Messages (snd (PutOperation eng p ts d)) = Messages d"
proof -
  show "set (Users d) \<subseteq> set (Users (snd (PutUser env eng u ts d)))"
    "Messages (snd (PutUser env eng u ts d)) = Messages d" "Operations (snd (PutUser env eng u ts d)) = Operations d"
    by (auto simp: PutUser_def insert_ignore_def)
  show "set (Messages d) \<subseteq> set (Messages (snd (PutMessage eng m ts d)))"
    "Users (snd (PutMessage eng m ts d)) = Users d" "Operations (snd (PutMessage eng m ts d)) = Operations d"
    using PutMessage_state [of eng m ts d] by (auto simp: topic_keeps insert_ignore_def)
  show "set (Operations d) \<subseteq> set (Operations (snd (PutOperation eng p ts d)))"
    "Users (snd (PutOperation eng p ts d)) = Users d" "Messages (snd (PutOperation eng p ts d)) = Messages d"
    using PutOperation_state [of eng p ts d] by (auto simp: object_keeps insert_ignore_def)
qed

text \<open>Every reply that is stored has its parent stored too.\<close>

definition parents_stored :: "(message \<times> time) list \<Rightarrow> bool" where
  "parents_stored ms \<longleftrightarrow> (\<forall>(m, t) \<in> set ms. IsReply m \<longrightarrow>
     mParentID (message_content_of m) \<in> (message_id \<circ> fst) ` set ms)"

lemma stored_parent:
  assumes "faithful eng" "represents env d us ms os" "acyclic_replies ms" "parents_stored ms"
    and "m \<in> fst ` set ms" "IsReply m"
  shows "\<exists>p \<in> fst ` set ms. GetMessage env eng (mParentID (message_content_of m)) d = Ok p \<and>
    height ms (message_id p) < height ms (message_id m)"
proof -
  let ?p = "mParentID (message_content_of m)"
  from assms(4-6) have "?p \<in> (message_id \<circ> fst) ` set ms" unfolding parents_stored_def by fastforce
  then obtain mt where mt: "mt \<in> set ms" "message_id (fst mt) = ?p" by auto
  have "find (\<lambda>(m, t). message_id m = message_id (fst mt)) xs = Some mt"
    if "distinct (map (message_id \<circ> fst) xs)" "mt \<in> set xs" for xs
    using that by (induction xs) (auto simp: image_iff)
  from this [OF represents_distinct(2) [OF assms(2)] mt(1)] mt(2)
  have "GetMessage env eng ?p d = Ok (fst mt)"
    by (simp add: GetMessage_represents [OF assms(1,2)] split: prod.split)
  moreover have p: "fst mt \<in> fst ` set ms" using mt(1) by simp
  ultimately show ?thesis using height_less [OF assms(3,5) p mt(2) [symmetric]] by blast
qed

lemma walk_to_root:
  assumes "faithful eng" "represents env d us ms os" "acyclic_replies ms" "parents_stored ms" "m \<in> fst ` set ms"
  shows "\<exists>r \<in> fst ` set ms. GetRoot env eng d m = Some (Ok r) \<and> \<not> IsReply r \<and>
    (\<exists>n \<le> height ms (message_id m). \<forall>a. GetMessageDepth_loop env eng d m a = Some (Ok (a + n)))"
  using assms(5)
proof (induction "height ms (message_id m)" arbitrary: m rule: less_induct)
  case less
  show ?case
  proof (cases "IsReply m")
    case True
    obtain p where p: "p \<in> fst ` set ms" "GetMessage env eng (mParentID (message_content_of m)) d = Ok p"
      "height ms (message_id p) < height ms (message_id m)"
      using stored_parent [OF assms(1-4) less.prems True] by auto
    from less.hyps [OF p(3,1)] obtain r n where
      r: "r \<in> fst ` set ms" "GetRoot env eng d p = Some (Ok r)" "\<not> IsReply r" "n \<le> height ms (message_id p)"
      "\<And>a. GetMessageDepth_loop env eng d p a = Some (Ok (a + n))" by auto
    have "GetMessageDepth_loop env eng d m a = Some (Ok (a + Suc n))" for a
      using True p(2) r(5) by (subst GetMessageDepth_loop.simps) simp
    moreover have "GetRoot env eng d m = Some (Ok r)"
      using True p(2) r(2) by (subst GetRoot.simps) simp
    moreover have "Suc n \<le> height ms (message_id m)" using r(4) p(3) by simp
    ultimately show ?thesis using r(1,3) by blast
  next
    case False
    with less.prems show ?thesis
      by (intro bexI [of _ m] conjI exI [of _ 0]) (simp_all add: GetRoot.simps GetMessageDepth_loop.simps)
  qed
qed

section \<open>Properties\<close>

text \<open>
  Observers: when \<open>PutEntity\<close> succeeds, every attached channel but the sender's that
  has room gets the entity once, at its end; the sender's channel, full channels and
  detached ones are as before. When it fails nobody is told.
\<close>

theorem PutEntity_notifies:
  assumes "distinct (st_observers s)"
  shows "case PutEntity env eng e sender now s of
      (Inr _, s') \<Rightarrow> (\<forall>c. st_buffer s' c = st_buffer s c @
         (if c \<in> set (st_observers s) \<and> Some c \<noteq> sender \<and> length (st_buffer s c) < st_capacity s c
          then [e] else []))
    | (Inl _, s') \<Rightarrow> st_buffer s' = st_buffer s"
  using notify_fold [OF assms, of sender e] by (auto simp: PutEntity_def notifyObservers_def Let_def split: prod.splits sum.splits)

theorem PutEntity_notifies_witness:
  "\<exists>s'. PutEntity toy_env toy_engine (EMessage (toy_message ''a'' ZeroID None)) (Some 1) 5
     \<lparr>st_db = empty_database, st_observers = [1, 2, 3], st_buffer = (\<lambda>c. []), st_capacity = (\<lambda>c. if c = 3 then 0 else 100)\<rparr>
     = (Ok (), s') \<and>
   st_buffer s' 1 = [] \<and> st_buffer s' 2 = [EMessage (toy_message ''a'' ZeroID None)] \<and> st_buffer s' 3 = []"
proof -
  let ?s = "\<lparr>st_db = empty_database, st_observers = [1, 2, 3], st_buffer = (\<lambda>c. []), st_capacity = (\<lambda>c. if c = 3 then 0 else 100)\<rparr>"
  have "fst (PutMessage toy_engine (toy_message ''a'' ZeroID None) 5 empty_database) = Ok ()"
    by (simp add: PutMessage_def toy_engine_def putMesageTopic_def toy_message_parts Let_def)
  then obtain d where "PutMessage toy_engine (toy_message ''a'' ZeroID None) 5 empty_database = (Ok (), d)"
    by (metis prod.collapse)
  then obtain s' where "PutEntity toy_env toy_engine (EMessage (toy_message ''a'' ZeroID None)) (Some 1) 5 ?s = (Ok (), s')"
    by (simp add: PutEntity_def)
  with PutEntity_notifies [where s = ?s and env = toy_env and eng = toy_engine and now = 5
      and e = "EMessage (toy_message ''a'' ZeroID None)" and sender = "Some 1"]
  show ?thesis by simp
qed

text \<open>
  C38. The walks over a thread end: in a store that has the parent of every reply and in which no
  message is, through others, a reply to itself, the root and the depth of every stored
  message are found, the root is no reply, and the depth is less than the number of stored
  messages.
\<close>

theorem GetRoot_and_depth_terminate:
  assumes "faithful eng" "represents env d us ms os" "acyclic_replies ms" "parents_stored ms" "(m, t) \<in> set ms"
  shows "\<exists>r n. GetRoot env eng d m = Some (Ok r) \<and> \<not> IsReply r \<and> r \<in> fst ` set ms \<and>
    GetMessageDepth env eng d m = Some (Ok n) \<and> n < length ms"
proof -
  have m: "m \<in> fst ` set ms" using assms(5) by force
  from walk_to_root [OF assms(1-4) m] obtain r n where
    "r \<in> fst ` set ms" "GetRoot env eng d m = Some (Ok r)" "\<not> IsReply r" "n \<le> height ms (message_id m)"
    "GetMessageDepth_loop env eng d m 0 = Some (Ok n)"
    by (metis add_0)
  with height_bound [OF assms(3) m] show ?thesis by (auto simp: GetMessageDepth_def)
qed

theorem GetRoot_and_depth_terminate_witness:
  "\<exists>d r n. represents toy_env d [] [(toy_message ''a'' ZeroID (Some [''x'']), 5)] [] \<and>
     GetRoot toy_env toy_engine d (toy_message ''a'' ZeroID (Some [''x''])) = Some (Ok r) \<and> \<not> IsReply r"
proof -
  let ?m = "toy_message ''a'' ZeroID (Some [''x''])"
  from represents_toy obtain d where d: "represents toy_env d [] [(?m, 5)] []" ..
  have "acyclic_replies [(?m, 5)]" "parents_stored [(?m, 5)]"
    by (rule acyclic_single, simp_all add: parents_stored_def IsReply_def toy_message_parts ID_IsZero_def
        toy_hash_def ZeroID_def IDLen_def numeral_eq_Suc)
  from GetRoot_and_depth_terminate [OF faithful_toy d this, of ?m 5] d show ?thesis by auto
qed

end
