(* ===== verification/Owner.thy ===== *)
theory Owner
  imports Storage ProfileDB
begin

text \<open>
  The owner's side (\<open>owner/profile.go\<close>, \<open>owner/view.go\<close>): the profile is a cache over the
  profile database, the view applies the operations of the owner's moderators to what the
  storage delivers. A cached list is nil in Go when it has to be read again; the program
  never caches an empty non-nil list of moderators, and an empty list of subscriptions is
  nil, so both caches are lists and the empty one is nil.
\<close>

record profile =
  pr_db :: profile_database
  pr_moderators :: "entity_id list"
  pr_subs :: subscriptions
  selfID :: entity_id

definition NewProfile :: "profile_database \<Rightarrow> entity_id \<Rightarrow> profile" where
  "NewProfile pd i = \<lparr>pr_db = pd, pr_moderators = [], pr_subs = [], selfID = i\<rparr>"

definition Profile_Close :: "profile_engine \<Rightarrow> profile \<Rightarrow> unit result" where
  "Profile_Close pe p = ProfileDatabase_Close pe (pr_db p)"

section \<open>Moderators\<close>

definition Profile_PutModerator ::
  "profile_engine \<Rightarrow> entity_id \<Rightarrow> profile \<Rightarrow> unit result \<times> profile" where
  "Profile_PutModerator pe i p =
     (if i = selfID p then (Err AlreadyModerator, p)
      else (case PutModerator pe i (pr_db p) of
              (r, pd) \<Rightarrow> (r, p\<lparr>pr_moderators := [], pr_db := pd\<rparr>)))"

definition Profile_RemoveModerator ::
  "profile_engine \<Rightarrow> entity_id \<Rightarrow> profile \<Rightarrow> unit result \<times> profile" where
  "Profile_RemoveModerator pe i p =
     (if i = selfID p then (Err ForbiddenOperation, p)
      else (case RemoveModerator pe i (pr_db p) of
              (r, pd) \<Rightarrow> (r, p\<lparr>pr_moderators := [], pr_db := pd\<rparr>)))"

definition Profile_GetModerators ::
  "profile_engine \<Rightarrow> profile \<Rightarrow> entity_id list result \<times> profile" where
  "Profile_GetModerators pe p =
     (if pr_moderators p = []
      then (case GetModerators pe (pr_db p) of
              Inl _ \<Rightarrow> (Inl Fatal, p)
            | Inr mm \<Rightarrow> (Ok (mm @ [selfID p]), p\<lparr>pr_moderators := mm @ [selfID p]\<rparr>))
      else (Ok (pr_moderators p), p))"

definition HasModerator ::
  "profile_engine \<Rightarrow> entity_id \<Rightarrow> profile \<Rightarrow> bool result \<times> profile" where
  "HasModerator pe i p =
     (if i = selfID p then (Ok True, p)
      else (case Profile_GetModerators pe p of
              (Inl err, p') \<Rightarrow> (Inl err, p')
            | (Inr mm, p') \<Rightarrow> (Ok (list_ex (\<lambda>m. m = i) mm), p')))"

section \<open>Subscriptions and histories\<close>

definition Profile_PutSubscription ::
  "profile_engine \<Rightarrow> topic \<Rightarrow> profile \<Rightarrow> unit result \<times> profile" where
  "Profile_PutSubscription pe t p =
     (case PutSubscription pe t (pr_db p) of (r, pd) \<Rightarrow> (r, p\<lparr>pr_subs := [], pr_db := pd\<rparr>))"

definition Profile_RemoveSubscription ::
  "profile_engine \<Rightarrow> topic \<Rightarrow> profile \<Rightarrow> unit result \<times> profile" where
  "Profile_RemoveSubscription pe t p =
     (case RemoveSubscription pe t (pr_db p) of (r, pd) \<Rightarrow> (r, p\<lparr>pr_subs := [], pr_db := pd\<rparr>))"

definition Profile_GetSubscriptions ::
  "profile_engine \<Rightarrow> profile \<Rightarrow> subscriptions result \<times> profile" where
  "Profile_GetSubscriptions pe p =
     (if pr_subs p = []
      then (case GetSubscriptions pe (pr_db p) of
              Inl _ \<Rightarrow> (Inl Fatal, p)
            | Inr s \<Rightarrow> (Ok (Subs_Copy s), p\<lparr>pr_subs := s\<rparr>))
      else (Ok (Subs_Copy (pr_subs p)), p))"

definition Profile_PutUserHistory ::
  "profile_engine \<Rightarrow> user_history \<Rightarrow> profile \<Rightarrow> unit result \<times> profile" where
  "Profile_PutUserHistory pe h p =
     (case PutUserHistory pe h (pr_db p) of (r, pd) \<Rightarrow> (r, p\<lparr>pr_db := pd\<rparr>))"

definition Profile_GetUserHistory ::
  "profile_engine \<Rightarrow> entity_id \<Rightarrow> profile \<Rightarrow> user_history result" where
  "Profile_GetUserHistory pe i p = GetUserHistory pe i (pr_db p)"

definition Profile_GetFullHistory :: "profile_engine \<Rightarrow> profile \<Rightarrow> user_history list result" where
  "Profile_GetFullHistory pe p = or_fatal (GetFullHistory pe (pr_db p))"

section \<open>The view\<close>

text \<open>The storage does not change while the view reads it; the profile's cache may.\<close>

fun IsUserBanned_loop ::
  "profile_engine \<Rightarrow> operation list \<Rightarrow> profile \<Rightarrow> bool result \<times> profile" where
  "IsUserBanned_loop pe [] p = (Ok False, p)"
| "IsUserBanned_loop pe (oper # ops) p =
     (case HasModerator pe (oAuthorID (operation_content_of oper)) p of
        (Inl err, p') \<Rightarrow> (Inl err, p')
      | (Inr isModer, p') \<Rightarrow>
          if isModer
          then if oType (operation_content_of oper) = OperationTypeBanUser then (Ok True, p')
               else (Inl Fatal, p')
          else IsUserBanned_loop pe ops p')"

definition IsUserBanned ::
  "env \<Rightarrow> engine \<Rightarrow> profile_engine \<Rightarrow> entity_database \<Rightarrow> entity_id \<Rightarrow> profile \<Rightarrow> bool result \<times> profile" where
  "IsUserBanned env eng pe d uid p =
     (case GetOperationsOnUser env eng uid d of
        Inl err \<Rightarrow> (Inl err, p)
      | Inr authOps \<Rightarrow> IsUserBanned_loop pe authOps p)"

definition applyOperationToMessage :: "message \<Rightarrow> operation \<Rightarrow> message option result" where
  "applyOperationToMessage m oper =
     (if oType (operation_content_of oper) = OperationTypeRemoveMessage then Ok None else Inl Fatal)"

fun ModerateMessage_loop ::
  "profile_engine \<Rightarrow> message \<Rightarrow> operation list \<Rightarrow> profile \<Rightarrow> message option result \<times> profile" where
  "ModerateMessage_loop pe m [] p = (Ok (Some m), p)"
| "ModerateMessage_loop pe m (oper # ops) p =
     (case HasModerator pe (oAuthorID (operation_content_of oper)) p of
        (Inl err, p') \<Rightarrow> (Inl err, p')
      | (Inr isModer, p') \<Rightarrow>
          if isModer
          then (case applyOperationToMessage m oper of
                  Inl err \<Rightarrow> (Inl err, p')
                | Inr None \<Rightarrow> (Ok None, p')
                | Inr (Some m') \<Rightarrow> ModerateMessage_loop pe m' ops p')
          else ModerateMessage_loop pe m ops p')"

definition ModerateMessage ::
  "env \<Rightarrow> engine \<Rightarrow> profile_engine \<Rightarrow> entity_database \<Rightarrow> message \<Rightarrow> profile \<Rightarrow> message option result \<times> profile" where
  "ModerateMessage env eng pe d m p =
     (case IsUserBanned env eng pe d (mAuthorID (message_content_of m)) p of
        (Inl err, p') \<Rightarrow> (Inl err, p')
      | (Inr isBanned, p') \<Rightarrow>
          if isBanned then (Ok None, p')
          else (case GetOperationsOnMessage env eng (message_id m) d of
                  Inl err \<Rightarrow> (Inl err, p')
                | Inr msgOps \<Rightarrow> ModerateMessage_loop pe m msgOps p'))"

fun ModerateMessages ::
  "env \<Rightarrow> engine \<Rightarrow> profile_engine \<Rightarrow> entity_database \<Rightarrow> message list \<Rightarrow> profile \<Rightarrow> message list result \<times> profile" where
  "ModerateMessages env eng pe d [] p = (Ok [], p)"
| "ModerateMessages env eng pe d (m # brd) p =
     (case ModerateMessage env eng pe d m p of
        (Inl err, p') \<Rightarrow> (Inl err, p')
      | (Inr mm, p') \<Rightarrow>
          (case ModerateMessages env eng pe d brd p' of
             (Inl err, p'') \<Rightarrow> (Inl err, p'')
           | (Inr res, p'') \<Rightarrow> (Ok (case mm of None \<Rightarrow> res | Some m' \<Rightarrow> m' # res), p'')))"

definition ThreadModerator_Handle ::
  "env \<Rightarrow> engine \<Rightarrow> profile_engine \<Rightarrow> entity_database \<Rightarrow> profile moderating_handler" where
  "ThreadModerator_Handle env eng pe d n p = ModerateMessage env eng pe d (Msg (here n)) p"

definition ModerateThread ::
  "env \<Rightarrow> engine \<Rightarrow> profile_engine \<Rightarrow> entity_database \<Rightarrow> node option \<Rightarrow> profile \<Rightarrow> node option result \<times> profile" where
  "ModerateThread env eng pe d t p =
     Moderate (ThreadModerator_Handle env eng pe d) (map_option (\<lambda>n. At n None) t) p"

section \<open>Caches\<close>

text \<open>
  The contract of a cached list of the profile: a nonempty cache is served as it is, an
  empty one is filled from the database, and a failure to read ends the process. Writers
  empty the cache; so as long as a nonempty cache agrees with the database, reading always
  delivers what the database holds, and keeps that agreement.
\<close>

locale cached =
  fixes fetch :: "profile \<Rightarrow> 'v list result"
    and cache :: "profile \<Rightarrow> 'v list"
    and out :: "'v list \<Rightarrow> 'v list"
    and get :: "profile \<Rightarrow> 'v list result \<times> profile"
  assumes get_hit: "cache p \<noteq> [] \<Longrightarrow> get p = (Ok (out (cache p)), p)"
    and get_miss: "cache p = [] \<Longrightarrow> fetch p = Ok v \<Longrightarrow>
      \<exists>p'. get p = (Ok (out v), p') \<and> cache p' = v \<and> pr_db p' = pr_db p \<and> selfID p' = selfID p"
    and get_fail: "cache p = [] \<Longrightarrow> fetch p = Inl e \<Longrightarrow> get p = (Inl Fatal, p)"
    and fetch_db: "pr_db p = pr_db q \<Longrightarrow> selfID p = selfID q \<Longrightarrow> fetch p = fetch q"
begin

lemma get_coherent:
  assumes "cache p = [] \<or> fetch p = Ok (cache p)" "fetch p = Ok v"
  shows "\<exists>p'. get p = (Ok (out v), p') \<and> (cache p' = [] \<or> fetch p' = Ok (cache p')) \<and>
    pr_db p' = pr_db p \<and> selfID p' = selfID p"
proof (cases "cache p = []")
  case True
  from get_miss [OF this assms(2)] obtain p' where
    p': "get p = (Ok (out v), p')" "cache p' = v" "pr_db p' = pr_db p" "selfID p' = selfID p" by blast
  with fetch_db [of p' p] assms(2) show ?thesis by auto
next
  case False
  with assms get_hit [of p] show ?thesis by auto
qed

lemma get_keeps: "get p = (r, p') \<Longrightarrow> pr_db p' = pr_db p \<and> selfID p' = selfID p"
proof (cases "cache p = []")
  case True
  show "get p = (r, p') \<Longrightarrow> ?thesis"
    using get_miss [OF True] get_fail [OF True] by (cases "fetch p") fastforce+
qed (use get_hit in auto)

lemma get_again:
  assumes "cache p = [] \<or> fetch p = Ok (cache p)" "get p = (Ok xs, p')"
  shows "fst (get p') = Ok xs"
proof (cases "fetch p")
  case (Inl e)
  with assms get_fail [of p e] show ?thesis by auto
next
  case (Inr v)
  from get_coherent [OF assms(1) Inr] assms(2) have
    p': "xs = out v" "cache p' = [] \<or> fetch p' = Ok (cache p')" "pr_db p' = pr_db p" "selfID p' = selfID p"
    by auto
  with Inr fetch_db [of p' p] have "fetch p' = Ok v" by simp
  from get_coherent [OF p'(2) this] p'(1) show ?thesis by auto
qed

end

definition fetch_moderators :: "profile_engine \<Rightarrow> profile \<Rightarrow> entity_id list result" where
  "fetch_moderators pe p = bind_result (GetModerators pe (pr_db p)) (\<lambda>mm. Ok (mm @ [selfID p]))"

interpretation moderators: cached "fetch_moderators pe" pr_moderators "\<lambda>x. x" "Profile_GetModerators pe"
  for pe
  by unfold_locales
    (auto simp: Profile_GetModerators_def fetch_moderators_def bind_result_def split: sum.splits)

interpretation subs: cached "\<lambda>p. GetSubscriptions pe (pr_db p)" pr_subs Subs_Copy "Profile_GetSubscriptions pe"
  for pe
  by unfold_locales (auto simp: Profile_GetSubscriptions_def)

section \<open>Lemmas\<close>

text \<open>Looking through the view fills caches, and changes nothing else of the profile.\<close>

definition same_profile :: "profile \<Rightarrow> profile \<Rightarrow> bool" where
  "same_profile p q \<longleftrightarrow> pr_db q = pr_db p \<and> selfID q = selfID p"

lemma same_profile_refl [simp]: "same_profile p p" by (simp add: same_profile_def)

lemma HasModerator_keeps: "HasModerator pe i p = (r, p') \<Longrightarrow> same_profile q p \<Longrightarrow> same_profile q p'"
  by (auto simp: HasModerator_def same_profile_def split: if_splits prod.splits sum.splits
      dest: moderators.get_keeps)

lemma IsUserBanned_loop_keeps:
  "IsUserBanned_loop pe ops p = (r, p') \<Longrightarrow> same_profile q p \<Longrightarrow> same_profile q p'"
  by (induction ops arbitrary: p) (auto split: if_splits prod.splits sum.splits dest: HasModerator_keeps)

lemma ModerateMessage_loop_keeps:
  "ModerateMessage_loop pe m ops p = (r, p') \<Longrightarrow> same_profile q p \<Longrightarrow> same_profile q p'"
  by (induction ops arbitrary: m p)
    (auto split: if_splits prod.splits sum.splits option.splits dest: HasModerator_keeps)

lemma ModerateMessage_keeps:
  "ModerateMessage env eng pe d m p = (r, p') \<Longrightarrow> same_profile q p \<Longrightarrow> same_profile q p'"
  by (auto simp: ModerateMessage_def IsUserBanned_def split: if_splits prod.splits sum.splits
      dest: IsUserBanned_loop_keeps ModerateMessage_loop_keeps)

lemma ModerateMessages_keeps:
  "ModerateMessages env eng pe d brd p = (r, p') \<Longrightarrow> same_profile q p \<Longrightarrow> same_profile q p'"
  by (induction brd arbitrary: p r) (auto split: prod.splits sum.splits dest: ModerateMessage_keeps)

lemma ModerateThread_keeps:
  assumes "ModerateThread env eng pe d t p = (r, p')" "same_profile q p"
  shows "same_profile q p'"
proof -
  have "same_profile q (snd (ThreadModerator_Handle env eng pe d l s))" if "same_profile q s" for l s
    using that ModerateMessage_keeps unfolding ThreadModerator_Handle_def by (metis prod.collapse)
  from ModeratingVisit_invariant(1) [where h = "ThreadModerator_Handle env eng pe d" and I = "same_profile q",
      OF this assms(2)]
  have "same_profile q (snd (ModerateThread env eng pe d t p))" by (simp add: ModerateThread_def Moderate_def)
  with assms(1) show ?thesis by simp
qed

text \<open>A profile whose caches agree with the database, with whole identifiers.\<close>

definition coherent :: "profile_engine \<Rightarrow> profile \<Rightarrow> bool" where
  "coherent pe p \<longleftrightarrow> (pr_moderators p = [] \<or> fetch_moderators pe p = Ok (pr_moderators p)) \<and>
     (pr_subs p = [] \<or> GetSubscriptions pe (pr_db p) = Ok (pr_subs p)) \<and>
     pdb_wf (pr_db p) \<and> (\<forall>i \<in> set (Moderators (pr_db p)). length i = IDLen)"

definition moderator_set :: "profile \<Rightarrow> entity_id set" where
  "moderator_set p = insert (selfID p) (set (Moderators (pr_db p)))"

lemma fetch_moderators_ok:
  assumes "preliable pe" "coherent pe p"
  shows "fetch_moderators pe p = Ok (sort_key (id_rank pe) (Moderators (pr_db p)) @ [selfID p])"
proof -
  have "map_result (\<lambda>rawID. ParseSlice ZeroID rawID) (sort_key (id_rank pe) (Moderators (pr_db p)))
    = Ok (map (\<lambda>i. i) (sort_key (id_rank pe) (Moderators (pr_db p))))"
    using assms(2) by (intro map_result_all_Inr) (simp add: coherent_def)
  with assms(1) show ?thesis by (simp add: fetch_moderators_def GetModerators_def)
qed

lemma Profile_GetModerators_ok:
  assumes "preliable pe" "coherent pe p"
  shows "\<exists>mm p'. Profile_GetModerators pe p = (Ok mm, p') \<and> set mm = moderator_set p \<and>
    coherent pe p' \<and> pr_db p' = pr_db p \<and> selfID p' = selfID p"
proof -
  have c: "pr_moderators p = [] \<or> fetch_moderators pe p = Ok (pr_moderators p)"
    using assms(2) by (simp add: coherent_def)
  from moderators.get_coherent [OF c fetch_moderators_ok [OF assms]] obtain p' where
    p': "Profile_GetModerators pe p = (Ok (sort_key (id_rank pe) (Moderators (pr_db p)) @ [selfID p]), p')"
    "pr_moderators p' = [] \<or> fetch_moderators pe p' = Ok (pr_moderators p')"
    "pr_db p' = pr_db p" "selfID p' = selfID p" by blast
  moreover have "pr_subs p' = pr_subs p"
    using p'(1) by (auto simp: Profile_GetModerators_def split: if_splits sum.splits)
  ultimately show ?thesis using assms(2) by (auto simp: coherent_def moderator_set_def)
qed

lemma HasModerator_ok:
  assumes "preliable pe" "coherent pe p"
  shows "\<exists>p'. HasModerator pe i p = (Ok (i \<in> moderator_set p), p') \<and> coherent pe p' \<and>
    pr_db p' = pr_db p \<and> selfID p' = selfID p"
proof (cases "i = selfID p")
  case True
  with assms(2) show ?thesis by (simp add: HasModerator_def moderator_set_def)
next
  case False
  from Profile_GetModerators_ok [OF assms] obtain mm p' where
    "Profile_GetModerators pe p = (Ok mm, p')" "set mm = moderator_set p" "coherent pe p'"
    "pr_db p' = pr_db p" "selfID p' = selfID p" by blast
  with False show ?thesis by (auto simp: HasModerator_def list_ex_iff)
qed

text \<open>Moderation, for a fixed set of moderators and a represented store.\<close>

definition stable :: "profile_engine \<Rightarrow> entity_id set \<Rightarrow> profile \<Rightarrow> bool" where
  "stable pe M p \<longleftrightarrow> coherent pe p \<and> moderator_set p = M"

lemma HasModerator_stable:
  assumes "preliable pe" "stable pe M p"
  shows "\<exists>p'. HasModerator pe i p = (Ok (i \<in> M), p') \<and> stable pe M p'"
proof -
  have c: "coherent pe p" and M: "M = moderator_set p" using assms(2) by (simp_all add: stable_def)
  from HasModerator_ok [OF assms(1) c, of i] M show ?thesis by (auto simp: stable_def moderator_set_def)
qed

lemma IsUserBanned_loop_ok:
  assumes "preliable pe" "\<forall>p \<in> set ops. bans p"
  shows "stable pe M pr \<Longrightarrow> \<exists>pr'. IsUserBanned_loop pe ops pr =
    (Ok (\<exists>p \<in> set ops. oAuthorID (operation_content_of p) \<in> M), pr') \<and> stable pe M pr'"
  using assms(2)
proof (induction ops arbitrary: pr)
  case (Cons p ops)
  from HasModerator_stable [OF assms(1) Cons.prems(1), of "oAuthorID (operation_content_of p)"] obtain pr1 where
    1: "HasModerator pe (oAuthorID (operation_content_of p)) pr = (Ok (oAuthorID (operation_content_of p) \<in> M), pr1)"
    "stable pe M pr1" by blast
  from Cons.IH [OF 1(2)] Cons.prems(2) 1 show ?case by auto
qed simp

lemma ModerateMessage_loop_ok:
  assumes "preliable pe" "\<forall>p \<in> set ops. removes p"
  shows "stable pe M pr \<Longrightarrow> \<exists>pr'. ModerateMessage_loop pe m ops pr =
    (Ok (if \<exists>p \<in> set ops. oAuthorID (operation_content_of p) \<in> M then None else Some m), pr') \<and> stable pe M pr'"
  using assms(2)
proof (induction ops arbitrary: pr)
  case (Cons p ops)
  from HasModerator_stable [OF assms(1) Cons.prems(1), of "oAuthorID (operation_content_of p)"] obtain pr1 where
    1: "HasModerator pe (oAuthorID (operation_content_of p)) pr = (Ok (oAuthorID (operation_content_of p) \<in> M), pr1)"
    "stable pe M pr1" by blast
  from Cons.IH [OF 1(2)] Cons.prems(2) 1 show ?case by (auto simp: applyOperationToMessage_def)
qed simp

definition banned_by :: "entity_id set \<Rightarrow> (operation \<times> time) list \<Rightarrow> entity_id \<Rightarrow> bool" where
  "banned_by M os uid \<longleftrightarrow> (\<exists>(p, t) \<in> set os. bans p \<and> oObjectID (operation_content_of p) = uid \<and>
     oAuthorID (operation_content_of p) \<in> M)"

definition visible :: "entity_id set \<Rightarrow> (operation \<times> time) list \<Rightarrow> message \<Rightarrow> bool" where
  "visible M os m \<longleftrightarrow> \<not> banned_by M os (mAuthorID (message_content_of m)) \<and>
     \<not> (\<exists>(p, t) \<in> set os. removes p \<and> oObjectID (operation_content_of p) = message_id m \<and>
         oAuthorID (operation_content_of p) \<in> M)"

lemma IsUserBanned_ok:
  assumes "reliable eng" "represents env d us ms os" "preliable pe" "stable pe M pr"
  shows "\<exists>pr'. IsUserBanned env eng pe d uid pr = (Ok (banned_by M os uid), pr') \<and> stable pe M pr'"
proof -
  let ?ops = "map fst (ranked eng (filter (\<lambda>(p, t). bans p \<and> oObjectID (operation_content_of p) = uid) os))"
  have "\<forall>p \<in> set ?ops. bans p" by auto
  from IsUserBanned_loop_ok [OF assms(3) this assms(4)] obtain pr' where
    "IsUserBanned_loop pe ?ops pr = (Ok (\<exists>p \<in> set ?ops. oAuthorID (operation_content_of p) \<in> M), pr')" "stable pe M pr'"
    by blast
  moreover have "(\<exists>p \<in> set ?ops. oAuthorID (operation_content_of p) \<in> M) = banned_by M os uid"
    by (force simp: banned_by_def)
  ultimately show ?thesis
    by (simp add: IsUserBanned_def GetOperationsOnUser_represents [OF assms(1,2)])
qed

lemma ModerateMessage_ok:
  assumes "reliable eng" "represents env d us ms os" "preliable pe" "stable pe M pr"
  shows "\<exists>pr'. ModerateMessage env eng pe d m pr =
    (Ok (if visible M os m then Some m else None), pr') \<and> stable pe M pr'"
proof -
  let ?ops = "map fst (ranked eng (filter (\<lambda>(p, t). removes p \<and> oObjectID (operation_content_of p) = message_id m) os))"
  from IsUserBanned_ok [OF assms, of "mAuthorID (message_content_of m)"] obtain pr1 where
    1: "IsUserBanned env eng pe d (mAuthorID (message_content_of m)) pr =
      (Ok (banned_by M os (mAuthorID (message_content_of m))), pr1)" "stable pe M pr1" by blast
  have "\<forall>p \<in> set ?ops. removes p" by auto
  from ModerateMessage_loop_ok [OF assms(3) this 1(2), of m] obtain pr2 where
    2: "ModerateMessage_loop pe m ?ops pr1 =
      (Ok (if \<exists>p \<in> set ?ops. oAuthorID (operation_content_of p) \<in> M then None else Some m), pr2)" "stable pe M pr2"
    by blast
  have "(\<exists>p \<in> set ?ops. oAuthorID (operation_content_of p) \<in> M) =
    (\<exists>(p, t) \<in> set os. removes p \<and> oObjectID (operation_content_of p) = message_id m \<and>
         oAuthorID (operation_content_of p) \<in> M)" by force
  with 1 2 show ?thesis
    by (auto simp: ModerateMessage_def GetOperationsOnMessage_represents [OF assms(1,2)] visible_def)
qed

lemma ModerateMessages_ok:
  assumes "reliable eng" "represents env d us ms os" "preliable pe"
  shows "stable pe M pr \<Longrightarrow> \<exists>pr'. ModerateMessages env eng pe d brd pr = (Ok (filter (visible M os) brd), pr') \<and>
    stable pe M pr'"
proof (induction brd arbitrary: pr)
  case (Cons m brd)
  from ModerateMessage_ok [OF assms Cons.prems, of m] obtain pr1 where
    1: "ModerateMessage env eng pe d m pr = (Ok (if visible M os m then Some m else None), pr1)" "stable pe M pr1"
    by blast
  from Cons.IH [OF 1(2)] 1 show ?case by auto
qed simp

lemma distinct_count: "distinct xs \<Longrightarrow> length (filter (\<lambda>x. x = i) xs) = (if i \<in> set xs then 1 else 0)"
  by (induction xs) auto

lemma PutModerator_ok:
  assumes "preliable pe" "coherent pe p" "length i = IDLen"
  shows "case Profile_PutModerator pe i p of (r, p') \<Rightarrow>
       r = (if i \<in> moderator_set p then Err AlreadyModerator else Ok ()) \<and>
       moderator_set p' = insert i (moderator_set p) \<and> coherent pe p'"
  using assms
  by (auto simp: Profile_PutModerator_def PutModerator_def moderator_set_def coherent_def pdb_wf_def
      GetSubscriptions_def)

lemma RemoveModerator_ok:
  assumes "preliable pe" "coherent pe p"
  shows "case Profile_RemoveModerator pe i p of (r, p') \<Rightarrow>
       r = (if i = selfID p then Err ForbiddenOperation
            else if i \<notin> moderator_set p then Err NoSuchModerator else Ok ()) \<and>
       moderator_set p' = moderator_set p - ({i} - {selfID p}) \<and> coherent pe p'"
proof -
  have wf: "pdb_wf (pr_db p)" and len: "\<forall>i \<in> set (Moderators (pr_db p)). length i = IDLen"
    using assms(2) by (simp_all add: coherent_def)
  have "distinct (Moderators (pr_db p))" using wf by (simp add: pdb_wf_def)
  then have count: "length (filter (\<lambda>x. x = i) (Moderators (pr_db p))) = (if i \<in> set (Moderators (pr_db p)) then 1 else 0)"
    by (rule distinct_count)
  show ?thesis
    using assms wf len
    by (auto simp: Profile_RemoveModerator_def RemoveModerator_def moderator_set_def coherent_def pdb_wf_def
        GetSubscriptions_def Let_def count)
qed

lemma ModerateThread_ok:
  assumes "reliable eng" "represents env d us ms os" "preliable pe" "coherent pe pr"
  shows "\<exists>t. fst (ModerateThread env eng pe d (Some n) pr) = Ok t \<and>
    branches_opt t = filter (list_all (visible (moderator_set pr) os)) (branches n)"
proof -
  have stable: "stable pe (moderator_set pr) pr" using assms(4) by (simp add: stable_def)
  have "keeps (stable pe (moderator_set pr)) (visible (moderator_set pr) os) (ThreadModerator_Handle env eng pe d)"
    using ModerateMessage_ok [OF assms(1-3)] by (fastforce simp: keeps_def ThreadModerator_Handle_def)
  from Visit_prune(1) [OF this stable, of "Some (At n None)"] branches_prune show ?thesis
    by (auto simp: ModerateThread_def Moderate_def)
qed

section \<open>Properties\<close>

text \<open>
  C11. The moderators behave as a set that always contains the owner, whatever is cached:
  membership is answered from it, adding fails exactly for members, removing fails for the
  owner and for non-members, and each change is seen by every later question.
\<close>

theorem moderators_are_a_set:
  assumes "preliable pe" "coherent pe p" "length i = IDLen"
  shows "fst (HasModerator pe i p) = Ok (i \<in> moderator_set p) \<and>
    (case Profile_PutModerator pe i p of (r, p') \<Rightarrow>
       r = (if i \<in> moderator_set p then Err AlreadyModerator else Ok ()) \<and>
       moderator_set p' = insert i (moderator_set p) \<and> coherent pe p') \<and>
    (case Profile_RemoveModerator pe i p of (r, p') \<Rightarrow>
       r = (if i = selfID p then Err ForbiddenOperation
            else if i \<notin> moderator_set p then Err NoSuchModerator else Ok ()) \<and>
       moderator_set p' = moderator_set p - ({i} - {selfID p}) \<and> coherent pe p')"
proof (intro conjI)
  show "fst (HasModerator pe i p) = Ok (i \<in> moderator_set p)"
    using HasModerator_ok [OF assms(1,2), of i] by auto
  show "case Profile_PutModerator pe i p of (r, p') \<Rightarrow>
       r = (if i \<in> moderator_set p then Err AlreadyModerator else Ok ()) \<and>
       moderator_set p' = insert i (moderator_set p) \<and> coherent pe p'"
    by (rule PutModerator_ok [OF assms])
  show "case Profile_RemoveModerator pe i p of (r, p') \<Rightarrow>
       r = (if i = selfID p then Err ForbiddenOperation
            else if i \<notin> moderator_set p then Err NoSuchModerator else Ok ()) \<and>
       moderator_set p' = moderator_set p - ({i} - {selfID p}) \<and> coherent pe p'"
    by (rule RemoveModerator_ok [OF assms(1,2)])
qed

text \<open>
  C10. Moderation shows exactly what it should: for a set of moderators and a represented
  store, a message is hidden if and only if one of the moderators banned its author or
  removed it. Lists keep the other messages in order; a thread keeps the chains of
  messages from the root none of which is hidden.
\<close>

theorem view_shows_visible:
  assumes "reliable eng" "represents env d us ms os" "preliable pe" "coherent pe pr"
  shows "fst (ModerateMessages env eng pe d brd pr) = Ok (filter (visible (moderator_set pr) os) brd) \<and>
    (\<exists>t. fst (ModerateThread env eng pe d (Some n) pr) = Ok t \<and>
       branches_opt t = filter (list_all (visible (moderator_set pr) os)) (branches n)) \<and>
    (\<forall>m. visible (moderator_set pr) os m \<longleftrightarrow> \<not> (\<exists>(p, t) \<in> set os. oAuthorID (operation_content_of p) \<in> moderator_set pr \<and>
       (bans p \<and> oObjectID (operation_content_of p) = mAuthorID (message_content_of m) \<or>
        removes p \<and> oObjectID (operation_content_of p) = message_id m)))"
proof (intro conjI)
  have stable: "stable pe (moderator_set pr) pr" using assms(4) by (simp add: stable_def)
  show "fst (ModerateMessages env eng pe d brd pr) = Ok (filter (visible (moderator_set pr) os) brd)"
    using ModerateMessages_ok [OF assms(1-3) stable, of brd] by auto
  show "\<exists>t. fst (ModerateThread env eng pe d (Some n) pr) = Ok t \<and>
       branches_opt t = filter (list_all (visible (moderator_set pr) os)) (branches n)"
    by (rule ModerateThread_ok [OF assms])
  show "\<forall>m. visible (moderator_set pr) os m \<longleftrightarrow> \<not> (\<exists>(p, t) \<in> set os. oAuthorID (operation_content_of p) \<in> moderator_set pr \<and>
       (bans p \<and> oObjectID (operation_content_of p) = mAuthorID (message_content_of m) \<or>
        removes p \<and> oObjectID (operation_content_of p) = message_id m))"
    by (auto simp: visible_def banned_by_def)
qed

definition toy_profile :: profile where
  "toy_profile = NewProfile empty_profile_database (replicate 32 1)"

lemma coherent_toy: "coherent toy_profile_engine toy_profile"
  by (simp add: coherent_def toy_profile_def NewProfile_def pdb_wf_empty) (simp add: empty_profile_database_def)

theorem moderators_are_a_set_witness:
  "\<exists>p'. Profile_PutModerator toy_profile_engine (replicate 32 2) toy_profile = (Ok (), p') \<and>
     moderator_set p' = {replicate 32 1, replicate 32 2} \<and>
     fst (Profile_RemoveModerator toy_profile_engine (replicate 32 1) p') = Err ForbiddenOperation"
proof -
  have M: "moderator_set toy_profile = {replicate 32 1}"
    by (simp add: moderator_set_def toy_profile_def NewProfile_def empty_profile_database_def)
  have ne: "replicate 32 2 \<noteq> (replicate 32 1 :: bytes)" by (simp add: numeral_eq_Suc)
  obtain r p' where p': "Profile_PutModerator toy_profile_engine (replicate 32 2) toy_profile = (r, p')" by fastforce
  from moderators_are_a_set [OF preliable_toy coherent_toy, of "replicate 32 2"] p' M ne
  have "r = Ok ()" "moderator_set p' = {replicate 32 1, replicate 32 2}" "coherent toy_profile_engine p'"
    by (auto simp: IDLen_def)
  moreover have "selfID p' = replicate 32 1"
    using p' ne by (auto simp: Profile_PutModerator_def toy_profile_def NewProfile_def split: prod.splits)
  ultimately show ?thesis
    using p' moderators_are_a_set [OF preliable_toy, of p' "replicate 32 1"] by (auto simp: IDLen_def split: prod.splits)
qed

theorem view_shows_visible_witness:
  "\<exists>d. represents toy_env d [] [(toy_message ''a'' ZeroID (Some [''x'']), 5)] [] \<and>
    fst (ModerateMessages toy_env toy_engine toy_profile_engine d [toy_message ''a'' ZeroID (Some [''x''])] toy_profile)
     = Ok [toy_message ''a'' ZeroID (Some [''x''])]"
proof -
  from represents_toy obtain d where d: "represents toy_env d [] [(toy_message ''a'' ZeroID (Some [''x'']), 5)] []" ..
  have "visible (moderator_set toy_profile) [] (toy_message ''a'' ZeroID (Some [''x'']))"
    by (simp add: visible_def banned_by_def)
  with view_shows_visible [OF faithful_reliable [OF faithful_toy] d preliable_toy coherent_toy,
      of "[toy_message ''a'' ZeroID (Some [''x''])]"] d
  show ?thesis by (intro exI [of _ d]) (simp del: ModerateMessages.simps)
qed

end
