(* ===== verification/Packet.thy ===== *)
theory Packet
  imports Entity
begin

text \<open>
  Packets (\<open>packet/packet.go\<close> and the payload files) and the connection that carries them
  (\<open>p2p/connection/\<close>).

  The JSON codec is a parameter: the record \<open>codec\<close> holds the encoders of a payload and of
  a body, and for each kind of payload the decoder into a fresh value. A decoder may end
  the process, because decoding a key that is not ECDSA does.
\<close>

datatype payload =
    PUser user | PMessage message | POperation operation
  | PHello int subscriptions | PAnnounce entity_id | PReq entity_id | PAck | PDone

text \<open>The payload itself stays raw JSON in the body until it is decoded.\<close>

record body =
  b_type :: gostring
  b_receiver :: entity_id
  b_date :: time
  b_payload :: bytes

record packet =
  p_body :: body
  p_sig :: signature

record codec =
  codec_env :: env
  json_payload :: "payload \<Rightarrow> bytes"
  json_body :: "body \<Rightarrow> bytes"
  parse_user :: "bytes \<Rightarrow> user result"
  parse_message :: "bytes \<Rightarrow> message result"
  parse_operation :: "bytes \<Rightarrow> operation result"
  parse_hello :: "bytes \<Rightarrow> (int \<times> subscriptions) result"
  parse_announce :: "bytes \<Rightarrow> entity_id result"
  parse_req :: "bytes \<Rightarrow> entity_id result"
  parse_ack :: "bytes \<Rightarrow> unit result"
  parse_done :: "bytes \<Rightarrow> unit result"

definition PacketTypeUser :: gostring where "PacketTypeUser = ''user''"
definition PacketTypeMessage :: gostring where "PacketTypeMessage = ''msg''"
definition PacketTypeOperation :: gostring where "PacketTypeOperation = ''oper''"
definition PacketTypeHello :: gostring where "PacketTypeHello = ''hello''"
definition PacketTypeAnnounce :: gostring where "PacketTypeAnnounce = ''ann''"
definition PacketTypeAck :: gostring where "PacketTypeAck = ''ack''"
definition PacketTypeReq :: gostring where "PacketTypeReq = ''req''"
definition PacketTypeDone :: gostring where "PacketTypeDone = ''done''"

lemmas packet_type_defs = PacketTypeUser_def PacketTypeMessage_def PacketTypeOperation_def
  PacketTypeHello_def PacketTypeAnnounce_def PacketTypeAck_def PacketTypeReq_def PacketTypeDone_def

definition MaxTimeDiscrepancy :: duration where "MaxTimeDiscrepancy = 3 * Minute"

definition NewPayloadAnnounce :: "entity_id \<Rightarrow> payload" where
  "NewPayloadAnnounce i = PAnnounce (go_copy ZeroID i)"

definition NewPayloadReq :: "entity_id \<Rightarrow> payload" where
  "NewPayloadReq i = PReq (go_copy ZeroID i)"

definition NewPayloadHello :: "int \<Rightarrow> subscriptions \<Rightarrow> payload" where
  "NewPayloadHello p s = PHello p s"

definition NewPayloadAck :: payload where "NewPayloadAck = PAck"
definition NewPayloadDone :: payload where "NewPayloadDone = PDone"

fun Hello_IsValid :: "int \<times> subscriptions \<Rightarrow> bool" where
  "Hello_IsValid (p, s) = Subs_IsValid s"

text \<open>\<open>New\<close> gives up when signing fails; \<open>now\<close> is the clock when the body is composed.\<close>

definition NewPacket ::
  "codec \<Rightarrow> gostring \<Rightarrow> entity_id \<Rightarrow> payload \<Rightarrow> signer \<Rightarrow> time \<Rightarrow> packet result" where
  "NewPacket c t rcv pld s now =
     (let b = \<lparr>b_type = t, b_receiver = go_copy ZeroID rcv, b_date = now, b_payload = json_payload c pld\<rparr>
      in bind_result (or_fatal (Sign (env_crypto (codec_env c)) s (json_body c b)))
           (\<lambda>sig. Ok \<lparr>p_body = b, p_sig = sig\<rparr>))"

text \<open>An error of the decoder becomes MalformedPayload; the end of the process stays that.\<close>

definition decode_as :: "('a \<Rightarrow> payload) \<Rightarrow> 'a result \<Rightarrow> payload result" where
  "decode_as f r =
     (case r of Inr x \<Rightarrow> Ok (f x) | Inl (Error _) \<Rightarrow> Err MalformedPayload | Inl e \<Rightarrow> Inl e)"

definition DecodePayload :: "codec \<Rightarrow> packet \<Rightarrow> payload result" where
  "DecodePayload c p =
     (let t = b_type (p_body p); raw = b_payload (p_body p) in
      if t = PacketTypeUser then decode_as PUser (parse_user c raw)
      else if t = PacketTypeMessage then decode_as PMessage (parse_message c raw)
      else if t = PacketTypeOperation then decode_as POperation (parse_operation c raw)
      else if t = PacketTypeHello then decode_as (\<lambda>(v, s). PHello v s) (parse_hello c raw)
      else if t = PacketTypeAnnounce then decode_as PAnnounce (parse_announce c raw)
      else if t = PacketTypeReq then decode_as PReq (parse_req c raw)
      else if t = PacketTypeAck then decode_as (\<lambda>_. PAck) (parse_ack c raw)
      else if t = PacketTypeDone then decode_as (\<lambda>_. PDone) (parse_done c raw)
      else Err WrongPacketType)"

definition VerifySig :: "codec \<Rightarrow> packet \<Rightarrow> pubkey \<Rightarrow> bool result" where
  "VerifySig c p pubKey = Verify (env_crypto (codec_env c)) pubKey (json_body c (p_body p)) (p_sig p)"

definition VerifyHeaderFull :: "packet \<Rightarrow> (gostring \<Rightarrow> bool) \<Rightarrow> entity_id \<Rightarrow> time \<Rightarrow> unit result" where
  "VerifyHeaderFull p f rcv now =
     (if \<not> f (b_type (p_body p)) then Err ProtocolViolation
      else if b_receiver (p_body p) \<noteq> rcv then Err ProtocolViolation
      else if MaxTimeDiscrepancy < time_sub now (b_date (p_body p)) then Err ProtocolViolation
      else Ok ())"

definition VerifyHeader :: "packet \<Rightarrow> gostring \<Rightarrow> entity_id \<Rightarrow> time \<Rightarrow> unit result" where
  "VerifyHeader p t rcv now = VerifyHeaderFull p (\<lambda>ft. ft = t) rcv now"

section \<open>Connections\<close>

definition MaxPacketSize :: int where "MaxPacketSize = 10 * 1024"

text \<open>
  \<open>limitReader\<close> and \<open>limitWriter\<close>: \<open>n\<close> bytes are left, the caller offers a buffer of \<open>len\<close>
  bytes, and \<open>io\<close> is what the underlying reader or writer would return. The result is what
  the caller gets and the bytes left.
\<close>

definition limited_io :: "int \<Rightarrow> nat \<Rightarrow> nat \<times> error option \<Rightarrow> (nat \<times> error option) \<times> int" where
  "limited_io n len io =
     (if n \<le> 0 \<or> n < int len then ((0, Some PacketSizeExceeded), n) else (io, n - int (fst io)))"

text \<open>What the network answers a read or a write with, after the JSON codec.\<close>

datatype net_error = OpError gostring | TimeoutError | OtherError error

definition fixErrClosedConnection :: "net_error \<Rightarrow> error" where
  "fixErrClosedConnection err =
     (case err of
        OpError e \<Rightarrow> if e = ''use of closed network connection'' then ClosedConnection else Foreign e
      | TimeoutError \<Rightarrow> Foreign ''i/o timeout''
      | OtherError e \<Rightarrow> e)"

record connection =
  c_remote :: gostring
  c_addresses :: "gostring list"
  c_incoming :: bool

definition NewConnection :: "gostring \<Rightarrow> bool \<Rightarrow> connection" where
  "NewConnection remote isIncoming =
     \<lparr>c_remote = remote, c_addresses = [remote], c_incoming = isIncoming\<rparr>"

definition Addresses :: "connection \<Rightarrow> gostring list" where
  "Addresses c = c_addresses c"

definition AddAddresses :: "gostring list \<Rightarrow> connection \<Rightarrow> connection" where
  "AddAddresses new c = c\<lparr>c_addresses := c_addresses c @ new\<rparr>"

definition ClearAddresses :: "connection \<Rightarrow> connection" where
  "ClearAddresses c = c\<lparr>c_addresses := []\<rparr>"

definition IsIncoming :: "connection \<Rightarrow> bool" where "IsIncoming c = c_incoming c"
definition IsActive :: "connection \<Rightarrow> bool" where "IsActive c \<longleftrightarrow> \<not> c_incoming c"

section \<open>Lemmas\<close>

lemma VerifyHeaderFull_ok:
  "VerifyHeaderFull p f rcv now = Ok () \<longleftrightarrow> f (b_type (p_body p)) \<and> b_receiver (p_body p) = rcv \<and>
     now - b_date (p_body p) \<le> MaxTimeDiscrepancy"
  using time_sub_gt_iff [of MaxTimeDiscrepancy now "b_date (p_body p)"]
  by (auto simp: VerifyHeaderFull_def MaxTimeDiscrepancy_def duration_defs)

lemma VerifyHeaderFull_cases:
  "VerifyHeaderFull p f rcv now = Ok () \<or> VerifyHeaderFull p f rcv now = Err ProtocolViolation"
  by (simp add: VerifyHeaderFull_def)

text \<open>A run of limited reads: each element is the buffer offered and the underlying answer.\<close>

fun limited_run :: "int \<Rightarrow> (nat \<times> nat \<times> error option) list \<Rightarrow> nat" where
  "limited_run n [] = 0"
| "limited_run n ((len, io) # rest) =
     (case limited_io n len io of ((k, e), n') \<Rightarrow> k + limited_run n' rest)"

lemma limited_run_bound:
  "0 \<le> n \<Longrightarrow> \<forall>(len, k, e) \<in> set ios. k \<le> len \<Longrightarrow> int (limited_run n ios) \<le> n"
proof (induction ios arbitrary: n)
  case (Cons x ios)
  obtain len k e where x: "x = (len, k, e)" by (cases x) auto
  show ?case
  proof (cases "n \<le> 0 \<or> n < int len")
    case True
    with Cons show ?thesis by (simp add: limited_io_def x)
  next
    case False
    have "k \<le> len" using Cons.prems(2) by (simp add: x)
    with False have "0 \<le> n - int k" by simp
    from Cons.IH [OF this] Cons.prems(2) False show ?thesis by (simp add: limited_io_def x)
  qed
qed simp

text \<open>The decoder of a payload's type gives back what the encoder was given.\<close>

fun good_codec :: "codec \<Rightarrow> payload \<Rightarrow> bool" where
  "good_codec c (PUser u) \<longleftrightarrow> parse_user c (json_payload c (PUser u)) = Ok u"
| "good_codec c (PMessage m) \<longleftrightarrow> parse_message c (json_payload c (PMessage m)) = Ok m"
| "good_codec c (POperation p) \<longleftrightarrow> parse_operation c (json_payload c (POperation p)) = Ok p"
| "good_codec c (PHello v s) \<longleftrightarrow> parse_hello c (json_payload c (PHello v s)) = Ok (v, s)"
| "good_codec c (PAnnounce i) \<longleftrightarrow> parse_announce c (json_payload c (PAnnounce i)) = Ok i"
| "good_codec c (PReq i) \<longleftrightarrow> parse_req c (json_payload c (PReq i)) = Ok i"
| "good_codec c PAck \<longleftrightarrow> parse_ack c (json_payload c PAck) = Ok ()"
| "good_codec c PDone \<longleftrightarrow> parse_done c (json_payload c PDone) = Ok ()"

fun type_of_payload :: "payload \<Rightarrow> gostring" where
  "type_of_payload (PUser u) = PacketTypeUser"
| "type_of_payload (PMessage m) = PacketTypeMessage"
| "type_of_payload (POperation p) = PacketTypeOperation"
| "type_of_payload (PHello v s) = PacketTypeHello"
| "type_of_payload (PAnnounce i) = PacketTypeAnnounce"
| "type_of_payload (PReq i) = PacketTypeReq"
| "type_of_payload PAck = PacketTypeAck"
| "type_of_payload PDone = PacketTypeDone"

lemma DecodePayload_json:
  assumes "good_codec c pld" "b_type (p_body p) = type_of_payload pld" "b_payload (p_body p) = json_payload c pld"
  shows "DecodePayload c p = Ok pld"
  using assms by (cases pld) (simp_all add: DecodePayload_def decode_as_def packet_type_defs)

lemma NewPacket_delivered:
  assumes "good_signer (env_crypto (codec_env c)) s" "good_codec c pld" "length rcv = IDLen"
    and "NewPacket c (type_of_payload pld) rcv pld s sent = Ok p"
  shows "b_type (p_body p) = type_of_payload pld \<and> b_receiver (p_body p) = rcv \<and> b_date (p_body p) = sent \<and>
    VerifySig c p (s_public s) = Ok True \<and> DecodePayload c p = Ok pld"
proof -
  define b where "b = \<lparr>b_type = type_of_payload pld, b_receiver = go_copy ZeroID rcv, b_date = sent,
      b_payload = json_payload c pld\<rparr>"
  from assms(4) obtain sig where
    sig: "Sign (env_crypto (codec_env c)) s (json_body c b) = Inr sig" "p = \<lparr>p_body = b, p_sig = sig\<rparr>"
    by (auto simp: NewPacket_def Let_def bind_result_eq_Inr b_def)
  have "VerifySig c p (s_public s) = Ok True"
    using good_signer_Verify [OF assms(1) sig(1)] by (simp add: VerifySig_def sig(2))
  moreover have "DecodePayload c p = Ok pld"
    by (rule DecodePayload_json [OF assms(2)]) (simp_all add: sig(2) b_def)
  ultimately show ?thesis using assms(3) by (simp add: sig(2) b_def)
qed

section \<open>Properties\<close>

text \<open>
  A packet one node composes is accepted by the node it is for: with a signer whose
  signatures verify and a codec that decodes what it encoded, the signature verifies under
  the sender's key, the header passes for the packet's type and the receiver's identifier
  up to three minutes later, and the payload decodes to what was sent.
\<close>

theorem NewPacket_accepted:
  assumes "good_signer (env_crypto (codec_env c)) s" "good_codec c pld" "length rcv = IDLen"
    and "NewPacket c (type_of_payload pld) rcv pld s sent = Ok p"
  shows "VerifySig c p (s_public s) = Ok True \<and> DecodePayload c p = Ok pld \<and>
    (VerifyHeader p (type_of_payload pld) rcv now = Ok () \<longleftrightarrow> now - sent \<le> 3 * Minute)"
  using NewPacket_delivered [OF assms]
  by (simp add: VerifyHeader_def VerifyHeaderFull_ok MaxTimeDiscrepancy_def)

definition toy_codec :: codec where
  "toy_codec = \<lparr>codec_env = toy_env, json_payload = (\<lambda>_. []), json_body = (\<lambda>b. b_payload b),
     parse_user = (\<lambda>_. Err Parsing), parse_message = (\<lambda>_. Err Parsing), parse_operation = (\<lambda>_. Err Parsing),
     parse_hello = (\<lambda>_. Err Parsing), parse_announce = (\<lambda>_. Err Parsing), parse_req = (\<lambda>_. Err Parsing),
     parse_ack = (\<lambda>_. Ok ()), parse_done = (\<lambda>_. Ok ())\<rparr>"

theorem NewPacket_accepted_witness:
  "\<exists>p. NewPacket toy_codec PacketTypeAck ZeroID PAck emerge_signer 0 = Ok p \<and>
     VerifySig toy_codec p (s_public emerge_signer) = Ok True \<and> VerifyHeader p PacketTypeAck ZeroID Minute = Ok ()"
proof -
  have g: "good_signer (env_crypto (codec_env toy_codec)) emerge_signer"
    using good_emerge_signer by (simp add: toy_codec_def)
  have c: "good_codec toy_codec PAck" "length ZeroID = IDLen" by (simp_all add: toy_codec_def)
  obtain p where p: "NewPacket toy_codec (type_of_payload PAck) ZeroID PAck emerge_signer 0 = Ok p"
    by (simp add: NewPacket_def Let_def Sign_def emerge_signer_def put_right_def curveOrderByteLen_def
        be_bytes.simps [of 7] be_bytes.simps [of 9] be_bytes.simps [of 0])
  from NewPacket_accepted [OF g c p, of Minute] p show ?thesis by (simp add: duration_defs)
qed

text \<open>
  What the header check lets through: exactly the packets of an expected type, for this
  receiver, composed at most three minutes before the clock's time. There is no bound on
  the other side: a packet dated in the future passes, and passes again at every later
  time up to three minutes past its date.
\<close>

theorem VerifyHeader_window:
  "(VerifyHeaderFull p f rcv now = Ok () \<longleftrightarrow> f (b_type (p_body p)) \<and> b_receiver (p_body p) = rcv \<and>
      now \<le> b_date (p_body p) + 3 * Minute) \<and>
   (VerifyHeaderFull p f rcv now = Ok () \<longrightarrow> later \<le> b_date (p_body p) + 3 * Minute \<longrightarrow>
      VerifyHeaderFull p f rcv later = Ok ())"
  by (auto simp: VerifyHeaderFull_ok MaxTimeDiscrepancy_def)

theorem VerifyHeader_window_witness:
  "VerifyHeaderFull \<lparr>p_body = \<lparr>b_type = ''ack'', b_receiver = ZeroID, b_date = 9 * Hour, b_payload = []\<rparr>, p_sig = []\<rparr>
     (\<lambda>t. t = ''ack'') ZeroID 0 = Ok () \<and>
   VerifyHeaderFull \<lparr>p_body = \<lparr>b_type = ''ack'', b_receiver = ZeroID, b_date = 9 * Hour, b_payload = []\<rparr>, p_sig = []\<rparr>
     (\<lambda>t. t = ''ack'') ZeroID (9 * Hour) = Ok ()"
  using VerifyHeader_window [of "\<lparr>p_body = \<lparr>b_type = ''ack'', b_receiver = ZeroID, b_date = 9 * Hour, b_payload = []\<rparr>, p_sig = []\<rparr>"
      "\<lambda>t. t = ''ack''" ZeroID 0 "9 * Hour"]
  by (simp add: duration_defs)

text \<open>
  Whatever the network delivers, no packet is read from, or written to, the connection
  beyond the size limit: over any sequence of reads the total handed to the decoder is at
  most \<open>MaxPacketSize\<close> bytes.
\<close>

theorem limited_total:
  assumes "\<forall>(len, k, e) \<in> set ios. k \<le> len"
  shows "int (limited_run MaxPacketSize ios) \<le> MaxPacketSize"
  by (rule limited_run_bound [OF _ assms]) (simp add: MaxPacketSize_def)

theorem limited_total_witness:
  "limited_run MaxPacketSize [(8000, 8000, None), (2000, 2000, None), (500, 500, None)] = 10000 \<and>
   int (limited_run MaxPacketSize [(8000, 8000, None), (2000, 2000, None), (500, 500, None)]) \<le> MaxPacketSize"
  using limited_total [of "[(8000, 8000, None), (2000, 2000, None), (500, 500, None)]"]
  by (simp add: limited_io_def MaxPacketSize_def)

end
