(* ===== verification/Wire.thy ===== *)
theory Wire
  imports Packet
begin

text \<open>
  Packets as bytes on a connection (\<open>ReadFull\<close> and \<open>WriteFull\<close> of \<open>p2p/connection/connection.go\<close> over
  \<open>limitReader\<close> and \<open>limitWriter\<close>). A packet is written as its JSON text and a newline in one call. It
  is read by a decoder made for this packet, whose buffer grows as that of \<open>json.Decoder\<close>
  does; the text itself is a parameter.
\<close>

section \<open>The decoder's buffer\<close>

text \<open>
  \<open>Decoder.refill\<close>: when fewer than 512 bytes are free, the capacity is doubled and 512 more are
  added; the whole free part is then offered to \<open>Read\<close>.
\<close>

definition grown_cap :: "nat \<Rightarrow> nat \<Rightarrow> nat" where
  "grown_cap len cap = (if cap - len < 512 then 2 * cap + 512 else cap)"

text \<open>
  \<open>Decoder.readValue\<close> for a value whose last byte is the \<open>L\<close>-th of the stream. \<open>t\<close> bytes arrive before the
  deadline; each element of the list is a call of \<open>Read\<close>, which fails or returns some of the bytes that are
  there. The buffer has \<open>len\<close> bytes and the capacity \<open>cap\<close>, and \<open>n\<close> bytes of the limit are left. The
  result is the number of bytes taken from the stream.
\<close>

fun readValue :: "nat \<Rightarrow> nat \<Rightarrow> (net_error + nat) list \<Rightarrow> nat \<Rightarrow> nat \<Rightarrow> int \<Rightarrow> nat result" where
  "readValue L t [] len cap n = (if L \<le> len then Ok len else Err (fixErrClosedConnection TimeoutError))"
| "readValue L t (r # rs) len cap n =
     (if L \<le> len then Ok len
      else let cap' = grown_cap len cap; room = cap' - len in
        case limited_io n room
               (case r of
                  Inl e \<Rightarrow> (0, Some (fixErrClosedConnection e))
                | Inr k \<Rightarrow> if t \<le> len then (0, Some (fixErrClosedConnection TimeoutError))
                          else (min (max 1 k) (min room (t - len)), None)) of
          ((k, Some e), n') \<Rightarrow> Err e
        | ((k, None), n') \<Rightarrow> readValue L t rs (len + k) cap' n')"

section \<open>Packets\<close>

text \<open>The JSON text of a packet, its decoder, and where the first value of a stream ends.\<close>

record wire_codec =
  wc_json :: "packet \<Rightarrow> bytes"
  wc_parse :: "bytes \<Rightarrow> packet result"
  wc_scan :: "bytes \<Rightarrow> nat option"

text \<open>What the decoder has in its buffer beyond the value is lost with it.\<close>

definition ReadFull :: "wire_codec \<Rightarrow> (net_error + nat) list \<Rightarrow> bytes \<Rightarrow> packet result \<times> bytes" where
  "ReadFull wc rs stream =
     (let L = (case wc_scan wc stream of None \<Rightarrow> Suc (length stream) | Some l \<Rightarrow> l) in
      case readValue L (length stream) rs 0 0 MaxPacketSize of
        Inl f \<Rightarrow> (Inl f, stream)
      | Inr len \<Rightarrow> (wc_parse wc (take L stream), drop len stream))"

text \<open>The result of the write, and what is on the wire then.\<close>

definition WriteFull :: "wire_codec \<Rightarrow> packet \<Rightarrow> net_error option \<Rightarrow> unit result \<times> bytes" where
  "WriteFull wc p err =
     (let out = wc_json wc p @ [10] in
      case limited_io MaxPacketSize (length out) (length out, map_option fixErrClosedConnection err) of
        ((k, Some e), n) \<Rightarrow> (Err e, [])
      | ((k, None), n) \<Rightarrow> (Ok (), out))"

text \<open>
  The documented behaviour of the codec: the text of a packet ends where its closing brace is, blanks
  before it are skipped, and it decodes to the packet.
\<close>

definition good_wire :: "wire_codec \<Rightarrow> packet \<Rightarrow> bool" where
  "good_wire wc p \<longleftrightarrow> (\<forall>ws rest. set ws \<subseteq> {10} \<longrightarrow>
     wc_scan wc (ws @ wc_json wc p @ rest) = Some (length ws + length (wc_json wc p)) \<and>
     wc_parse wc (ws @ wc_json wc p) = Ok p)"

section \<open>The buffer and the limit\<close>

definition buffered :: "nat \<Rightarrow> nat \<Rightarrow> int \<Rightarrow> bool" where
  "buffered len cap n \<longleftrightarrow> len \<le> cap \<and> cap \<in> {0, 512, 1536, 3584, 7680} \<and> n = MaxPacketSize - int len"

lemma grown_buffered:
  assumes "buffered len cap n" "grown_cap len cap \<le> 7680"
  shows "limited_io n (grown_cap len cap - len) (k, None) = ((k, None), n - int k)"
    "k \<le> grown_cap len cap - len \<Longrightarrow> buffered (len + k) (grown_cap len cap) (n - int k)"
    "len < grown_cap len cap"
  using assms by (auto simp: buffered_def grown_cap_def limited_io_def MaxPacketSize_def split: if_splits)

lemma grown_too_far:
  assumes "buffered len cap n" "\<not> grown_cap len cap \<le> 7680"
  shows "limited_io n (grown_cap len cap - len) io = ((0, Some PacketSizeExceeded), n)" "7168 < len"
  using assms by (auto simp: buffered_def grown_cap_def limited_io_def MaxPacketSize_def split: if_splits)

lemma readValue_Cons:
  assumes "buffered len cap n" "\<not> L \<le> len"
  shows "readValue L t (r # rs) len cap n =
    (if \<not> grown_cap len cap \<le> 7680 then Err PacketSizeExceeded
     else case r of
       Inl e \<Rightarrow> Err (fixErrClosedConnection e)
     | Inr k \<Rightarrow>
         if t \<le> len then Err (fixErrClosedConnection TimeoutError)
         else let j = min (max 1 k) (min (grown_cap len cap - len) (t - len))
              in readValue L t rs (len + j) (grown_cap len cap) (n - int j))"
proof (cases "grown_cap len cap \<le> 7680")
  case True
  with assms(1) have "\<not> n \<le> 0" "\<not> n < int (grown_cap len cap - len)"
    by (auto simp: buffered_def grown_cap_def MaxPacketSize_def split: if_splits)
  with assms(2) True show ?thesis by (simp add: Let_def limited_io_def split: sum.split)
qed (use assms in \<open>simp add: grown_too_far Let_def\<close>)

text \<open>What is read never exceeds the last capacity within the limit.\<close>

lemma readValue_bound:
  assumes "buffered len cap n" "readValue L t rs len cap n = Ok m"
  shows "L \<le> m \<and> m \<le> 7680"
  using assms
proof (induction rs arbitrary: len cap n)
  case Nil
  then show ?case by (auto simp: buffered_def split: if_splits)
next
  case (Cons r rs)
  show ?case
  proof (cases "L \<le> len")
    case True
    with Cons.prems show ?thesis by (auto simp: buffered_def)
  next
    case False
    let ?c = "grown_cap len cap"
    from Cons.prems(2) False obtain k where k: "?c \<le> 7680" "k \<le> ?c - len" "readValue L t rs (len + k) ?c (n - int k) = Ok m"
      unfolding readValue_Cons [OF Cons.prems(1) False] Let_def
      by (auto split: if_splits sum.splits) (metis min.cobounded1 min.cobounded2 min.assoc min.commute)
    from Cons.IH [OF grown_buffered(2) [OF Cons.prems(1) k(1,2)] k(3)] show ?thesis .
  qed
qed

text \<open>A value that ends within the first 7169 bytes is read, however the network cuts it.\<close>

lemma readValue_reads:
  assumes "buffered len cap n" "L \<le> 7169" "L \<le> t" "len \<le> t" "L \<le> len + length ks"
  shows "\<exists>m. readValue L t (map Inr ks) len cap n = Ok m \<and> m \<le> t"
  using assms
proof (induction ks arbitrary: len cap n)
  case (Cons k ks)
  show ?case
  proof (cases "L \<le> len")
    case False
    let ?c = "grown_cap len cap"
    define j where "j = min (max 1 k) (min (?c - len) (t - len))"
    have c: "?c \<le> 7680" using grown_too_far(2) [OF Cons.prems(1)] False Cons.prems(2) by fastforce
    have j: "1 \<le> j" "j \<le> ?c - len" "len + j \<le> t"
      using grown_buffered(3) [OF Cons.prems(1) c] False Cons.prems(3) by (auto simp: j_def)
    have "L \<le> len + j + length ks" using j(1) Cons.prems(5) by simp
    from Cons.IH [OF grown_buffered(2) [OF Cons.prems(1) c j(2)] Cons.prems(2,3) j(3) this]
    obtain m where "readValue L t (map Inr ks) (len + j) ?c (n - int j) = Ok m" "m \<le> t" by blast
    with c False Cons.prems(3) show ?thesis by (simp add: readValue_Cons [OF Cons.prems(1)] Let_def j_def del: readValue.simps)
  qed (use Cons.prems in simp)
qed simp

lemma buffered_start: "buffered 0 0 MaxPacketSize"
  by (simp add: buffered_def)

section \<open>Properties\<close>

text \<open>
  C32. The size of packets: a packet is written exactly if its text and the newline fit into the limit
  of 10240 bytes. It is read, however the network cuts it into pieces and with nothing but a newline
  left over, if its text has at most 7168 bytes and the next packet is not there yet. But a
  packet of more than 7680 bytes is never read: the reader refuses a buffer that is larger than what
  is left of the limit instead of filling a part of it.
\<close>

theorem Packets_over_the_wire:
  assumes "good_wire wc p"
  shows "(fst (WriteFull wc p None) = Ok () \<longleftrightarrow> length (wc_json wc p) < 10240) \<and>
    (length (wc_json wc p) \<le> 7168 \<longrightarrow> ws \<in> {[], [10]} \<longrightarrow> length (wc_json wc p) < length ks \<longrightarrow>
       (\<exists>rest. ReadFull wc (map Inr ks) (ws @ snd (WriteFull wc p None)) = (Ok p, rest) \<and> rest \<in> {[], [10]})) \<and>
    (7680 < length (wc_json wc p) \<longrightarrow> set ws \<subseteq> {10} \<longrightarrow>
       (\<forall>rs later q. fst (ReadFull wc rs (ws @ wc_json wc p @ later)) \<noteq> Ok q))"
proof (intro conjI impI allI)
  let ?js = "wc_json wc p"
  have written: "WriteFull wc p None = (if length ?js < 10240 then (Ok (), ?js @ [10]) else (Err PacketSizeExceeded, []))"
    by (simp add: WriteFull_def limited_io_def MaxPacketSize_def Let_def)
  show "fst (WriteFull wc p None) = Ok () \<longleftrightarrow> length ?js < 10240" by (simp add: written)
  have scan: "wc_scan wc (ws @ ?js @ later) = Some (length ws + length ?js)" "wc_parse wc (ws @ ?js) = Ok p"
    if "set ws \<subseteq> {10}" for later using assms that by (simp_all add: good_wire_def)
  have reads: "\<exists>rest. ReadFull wc (map Inr ks) (ws @ snd (WriteFull wc p None)) = (Ok p, rest) \<and> rest \<in> {[], [10]}"
    if small: "length ?js \<le> 7168" "ws \<in> {[], [10]}" "length ?js < length ks"
  proof -
    let ?L = "length ws + length ?js"
    have ws: "length ws \<le> 1" "set ws \<subseteq> {10}" using small(2) by auto
    have out: "snd (WriteFull wc p None) = ?js @ [10]" using small(1) by (simp add: written)
    from small ws obtain m where m: "readValue ?L (length (ws @ ?js @ [10])) (map Inr ks) 0 0 MaxPacketSize = Ok m"
      "m \<le> length (ws @ ?js @ [10])"
      using readValue_reads [OF buffered_start, of ?L "length (ws @ ?js @ [10])" ks] by auto
    from readValue_bound [OF buffered_start m(1)] have "?L \<le> m" by simp
    with m(2) consider "m = ?L" | "m = Suc ?L" by fastforce
    then have "drop m (ws @ ?js @ [10]) \<in> {[], [10]}" by cases simp_all
    moreover have "ReadFull wc (map Inr ks) (ws @ ?js @ [10]) = (Ok p, drop m (ws @ ?js @ [10]))"
      using m(1) scan [OF ws(2)] by (simp add: ReadFull_def)
    ultimately show ?thesis unfolding out by blast
  qed
  then show "length ?js \<le> 7168 \<Longrightarrow> ws \<in> {[], [10]} \<Longrightarrow> length ?js < length ks \<Longrightarrow>
    \<exists>rest. ReadFull wc (map Inr ks) (ws @ snd (WriteFull wc p None)) = (Ok p, rest) \<and> rest \<in> {[], [10]}" .
  show "fst (ReadFull wc rs (ws @ ?js @ later)) \<noteq> Ok q" if large: "7680 < length ?js" "set ws \<subseteq> {10}" for rs later q
  proof -
    have "readValue (length ws + length ?js) t rs 0 0 MaxPacketSize \<noteq> Ok m" for t m
      using readValue_bound [OF buffered_start, of "length ws + length ?js" t rs m] large(1) by auto
    then show ?thesis using scan(1) [OF large(2)] by (auto simp: ReadFull_def Let_def split: sum.split)
  qed
qed

text \<open>Two packets that arrive together: the decoder takes both and the second one is lost with it.\<close>

theorem Second_packet_lost:
  assumes "good_wire wc p" "length (wc_json wc p) + length (wc_json wc q) \<le> 510" "length (wc_json wc p) \<noteq> 0"
  shows "ReadFull wc [Inr 512] (wc_json wc p @ [10] @ wc_json wc q @ [10]) = (Ok p, [])"
proof -
  let ?s = "wc_json wc p @ [10] @ wc_json wc q @ [10]"
  have "wc_scan wc ?s = Some (length (wc_json wc p))" "wc_parse wc (wc_json wc p) = Ok p"
    using assms(1) [unfolded good_wire_def, rule_format, of "[]" "[10] @ wc_json wc q @ [10]"] by simp_all
  moreover have "readValue (length (wc_json wc p)) (length ?s) [Inr 512] 0 0 MaxPacketSize = Ok (length ?s)"
    using assms(2,3) by (simp add: grown_cap_def limited_io_def MaxPacketSize_def Let_def)
  ultimately show ?thesis by (simp add: ReadFull_def)
qed

section \<open>Witness\<close>

text \<open>Texts of a given length for one packet.\<close>

definition toy_packet :: packet where
  "toy_packet = \<lparr>p_body = \<lparr>b_type = PacketTypeAck, b_receiver = ZeroID, b_date = 0, b_payload = []\<rparr>, p_sig = []\<rparr>"

definition toy_wire :: "nat \<Rightarrow> wire_codec" where
  "toy_wire n = \<lparr>wc_json = (\<lambda>_. replicate n 7), wc_parse = (\<lambda>_. Ok toy_packet),
     wc_scan = (\<lambda>s. Some (length (takeWhile (\<lambda>b. b = 10) s) + n))\<rparr>"

lemma good_toy_wire:
  assumes "0 < n"
  shows "good_wire (toy_wire n) toy_packet"
proof -
  have "takeWhile (\<lambda>b. b = 10) (ws @ replicate n 7 @ rest) = ws" if "set ws \<subseteq> {10}" for ws rest :: bytes
    using that assms by (cases n) (auto simp: takeWhile_append subset_iff)
  then show ?thesis by (simp add: good_wire_def toy_wire_def)
qed

theorem Packets_over_the_wire_witness:
  "(\<exists>rest. ReadFull (toy_wire 2) (map Inr [1, 1, 1]) (snd (WriteFull (toy_wire 2) toy_packet None)) = (Ok toy_packet, rest)) \<and>
   fst (WriteFull (toy_wire 8000) toy_packet None) = Ok () \<and>
   (\<forall>rs q. fst (ReadFull (toy_wire 8000) rs (wc_json (toy_wire 8000) toy_packet)) \<noteq> Ok q)"
proof -
  have len: "length (wc_json (toy_wire n) toy_packet) = n" for n by (simp add: toy_wire_def)
  note small = Packets_over_the_wire [OF good_toy_wire [of 2], of "[]" "[1, 1, 1]", unfolded len]
    and big = Packets_over_the_wire [OF good_toy_wire [of 8000], of "[]", unfolded len]
  have "\<exists>rest. ReadFull (toy_wire 2) (map Inr [1, 1, 1]) (snd (WriteFull (toy_wire 2) toy_packet None)) = (Ok toy_packet, rest)"
    using small by auto
  moreover have "fst (ReadFull (toy_wire 8000) rs (wc_json (toy_wire 8000) toy_packet)) \<noteq> Ok q" for rs q
  proof -
    have "\<forall>rs later q. fst (ReadFull (toy_wire 8000) rs (wc_json (toy_wire 8000) toy_packet @ later)) \<noteq> Ok q"
      using big by simp
    from this [rule_format, of rs "[]" q] show ?thesis by simp
  qed
  ultimately show ?thesis using big by simp
qed

end
