(* ===== verification/Peer.thy ===== *)
theory Peer
  imports Owner Packet
begin

text \<open>
  A peer: the state machine that talks to one other node (\<open>p2p/peer/\<close>).

  An action takes the world, that is the owner's storage and profile, the clock, and what
  the network will deliver on this peer's connection, and gives its result and the new
  world. What the other node and the network do is data: \<open>w_inbox\<close> holds the outcomes of
  the coming reads (after the last one the connection is closed), \<open>w_writes\<close> those of the
  coming writes (after the last one they succeed), and the clock is any sequence of
  instants, one for each reading.
\<close>

section \<open>The world and its actions\<close>

record world =
  w_storage :: storage
  w_profile :: profile
  w_clock :: "nat \<Rightarrow> time"
  w_ticks :: nat
  w_lastOper :: time
  w_inbox :: "(net_error + packet) list"
  w_outbox :: "packet list"
  w_writes :: "net_error option list"
  w_user :: "user option"
  w_subs :: subscriptions
  w_hist :: "user_history option"

type_synonym 'a act = "world \<Rightarrow> 'a result \<times> world"

text \<open>What does not change while the peer lives; \<open>ss_validate\<close> is the pool's \<open>ValidatePeer\<close>.\<close>

record session =
  ss_codec :: codec
  ss_engine :: engine
  ss_profile_engine :: profile_engine
  ss_owner :: user
  ss_signer :: signer
  ss_chan :: channel
  ss_active :: bool
  ss_validate :: "world \<Rightarrow> bool \<times> world"

abbreviation ss_env :: "session \<Rightarrow> env" where "ss_env ss \<equiv> codec_env (ss_codec ss)"
abbreviation w_db :: "world \<Rightarrow> entity_database" where "w_db w \<equiv> st_db (w_storage w)"

definition ret :: "'a \<Rightarrow> 'a act" where "ret x = (\<lambda>w. (Ok x, w))"
definition fail :: "error \<Rightarrow> 'a act" where "fail e = (\<lambda>w. (Err e, w))"
definition stop :: "fault \<Rightarrow> 'a act" where "stop f = (\<lambda>w. (Inl f, w))"
definition lift :: "'a result \<Rightarrow> 'a act" where "lift r = (\<lambda>w. (r, w))"

definition chain :: "'a act \<Rightarrow> ('a \<Rightarrow> 'b act) \<Rightarrow> 'b act" where
  "chain m f = (\<lambda>w. case m w of (Inl e, w') \<Rightarrow> (Inl e, w') | (Inr x, w') \<Rightarrow> f x w')"

definition fatal :: "'a act \<Rightarrow> 'a act" where
  "fatal m = (\<lambda>w. case m w of (r, w') \<Rightarrow> (or_fatal r, w'))"

text \<open>\<open>if err != nil { return errors.ProtocolViolation }\<close>\<close>

definition violation :: "'a result \<Rightarrow> 'a result" where
  "violation r = (case r of Inl (Error _) \<Rightarrow> Err ProtocolViolation | Inl f \<Rightarrow> Inl f | Inr x \<Rightarrow> Inr x)"

definition read_clock :: "time act" where
  "read_clock = (\<lambda>w. (Ok (w_clock w (w_ticks w)), w\<lparr>w_ticks := w_ticks w + 1\<rparr>))"

definition on_db :: "(entity_database \<Rightarrow> 'a result) \<Rightarrow> 'a act" where
  "on_db f = (\<lambda>w. (f (w_db w), w))"

definition on_profile :: "(profile \<Rightarrow> 'a result \<times> profile) \<Rightarrow> 'a act" where
  "on_profile f = (\<lambda>w. case f (w_profile w) of (r, p) \<Rightarrow> (r, w\<lparr>w_profile := p\<rparr>))"

definition put_entity :: "session \<Rightarrow> entity \<Rightarrow> channel option \<Rightarrow> unit act" where
  "put_entity ss e sender = chain read_clock (\<lambda>now w.
     case PutEntity (ss_env ss) (ss_engine ss) e sender now (w_storage w) of
       (r, s) \<Rightarrow> (r, w\<lparr>w_storage := s\<rparr>))"

text \<open>\<open>p.User\<close> is a pointer: using it before the handshake is done would panic.\<close>

definition the_user :: "user act" where
  "the_user = (\<lambda>w. case w_user w of None \<Rightarrow> (Inl Panic, w) | Some u \<Rightarrow> (Ok u, w))"

definition Read :: "packet act" where
  "Read = (\<lambda>w. case w_inbox w of
       [] \<Rightarrow> (Err ClosedConnection, w)
     | Inl e # rest \<Rightarrow> (Err (fixErrClosedConnection e), w\<lparr>w_inbox := rest\<rparr>)
     | Inr p # rest \<Rightarrow> (Ok p, w\<lparr>w_inbox := rest\<rparr>))"

definition Write :: "packet \<Rightarrow> unit act" where
  "Write p = (\<lambda>w. case w_writes w of
       [] \<Rightarrow> (Ok (), w\<lparr>w_outbox := w_outbox w @ [p]\<rparr>)
     | None # rest \<Rightarrow> (Ok (), w\<lparr>w_outbox := w_outbox w @ [p], w_writes := rest\<rparr>)
     | Some e # rest \<Rightarrow> (Err (fixErrClosedConnection e), w\<lparr>w_writes := rest\<rparr>))"

definition send :: "session \<Rightarrow> gostring \<Rightarrow> entity_id \<Rightarrow> payload \<Rightarrow> unit act" where
  "send ss t rcv pld = chain read_clock (\<lambda>now.
     chain (lift (NewPacket (ss_codec ss) t rcv pld (ss_signer ss) now)) Write)"

text \<open>To the peer's user.\<close>

definition send_to_user :: "session \<Rightarrow> gostring \<Rightarrow> payload \<Rightarrow> unit act" where
  "send_to_user ss t pld = chain the_user (\<lambda>u. send ss t (user_id u) pld)"

text \<open>The signature check every state makes of a packet it read, with the user's key.\<close>

definition check_sig :: "session \<Rightarrow> packet \<Rightarrow> pubkey \<Rightarrow> unit act" where
  "check_sig ss pkt key = chain (lift (VerifySig (ss_codec ss) pkt key)) (\<lambda>ok.
     if \<not> ok then fail ProtocolViolation else ret ())"

definition check_header :: "session \<Rightarrow> packet \<Rightarrow> (gostring \<Rightarrow> bool) \<Rightarrow> entity_id \<Rightarrow> unit act" where
  "check_header ss pkt f rcv = chain read_clock (\<lambda>now. lift (VerifyHeaderFull pkt f rcv now))"

section \<open>What a peer is interested in\<close>

definition get_root :: "session \<Rightarrow> message \<Rightarrow> message act" where
  "get_root ss m = (\<lambda>w. (case GetRoot (ss_env ss) (ss_engine ss) (w_db w) m of
       None \<Rightarrow> Inl Hang | Some r \<Rightarrow> r, w))"

definition isInterestedInMessage :: "session \<Rightarrow> subscriptions \<Rightarrow> message \<Rightarrow> bool act" where
  "isInterestedInMessage ss s m =
     chain (if IsReply m then fatal (get_root ss m) else ret m)
       (\<lambda>r. ret (Covers s (mTopic (message_content_of r))))"

definition interesting_subs :: "time \<Rightarrow> world \<Rightarrow> subscriptions" where
  "interesting_subs stored w =
     (case w_hist w of
        Some h \<Rightarrow> if stored < h_disconnected h then Subs_Diff (w_subs w) (h_subs h) else w_subs w
      | None \<Rightarrow> w_subs w)"

definition isInterestedInEntity :: "session \<Rightarrow> entity \<Rightarrow> time \<Rightarrow> bool act" where
  "isInterestedInEntity ss ent stored = (\<lambda>w.
     let s = interesting_subs stored w in
     if s = [] then (Ok False, w)
     else case ent of
       EMessage m \<Rightarrow> isInterestedInMessage ss s m w
     | EOperation p \<Rightarrow>
         if oType (operation_content_of p) = OperationTypeBanUser then (Ok True, w)
         else chain (fatal (on_db (GetMessage (ss_env ss) (ss_engine ss) (oObjectID (operation_content_of p)))))
                (isInterestedInMessage ss s) w
     | EUser u \<Rightarrow> (Ok False, w))"

section \<open>States\<close>

text \<open>
  \<open>messagesToSync\<close> and \<open>operationsToSync\<close> are \<open>None\<close> when nil. The fields of
  \<open>StateReceiving\<close> that change while it performs are arguments of its loop.
\<close>

datatype state =
    Handshaking
  | Idle
  | Sending entity time state
  | Receiving packet state
  | ActiveSyncing "(message \<times> time) list option" "(operation \<times> time) list option" time
  | PassiveSyncing

datatype state_id =
    StateIDHandshaking | StateIDIdle | StateIDSending | StateIDReceiving
  | StateIDActiveSyncing | StateIDPassiveSyncing

fun State_ID :: "state \<Rightarrow> state_id" where
  "State_ID Handshaking = StateIDHandshaking"
| "State_ID Idle = StateIDIdle"
| "State_ID (Sending e t n) = StateIDSending"
| "State_ID (Receiving p n) = StateIDReceiving"
| "State_ID (ActiveSyncing ms os t) = StateIDActiveSyncing"
| "State_ID PassiveSyncing = StateIDPassiveSyncing"

definition newStateActiveSyncing :: state where
  "newStateActiveSyncing = ActiveSyncing None None zero_time"

section \<open>Handshaking\<close>

definition ProtocolVersion :: int where "ProtocolVersion = 1"

definition sendUser :: "session \<Rightarrow> unit act" where
  "sendUser ss = send ss PacketTypeUser ZeroID (PUser (ss_owner ss))"

definition readAndProcessUser :: "session \<Rightarrow> user act" where
  "readAndProcessUser ss =
     chain Read (\<lambda>pkt.
     chain (check_header ss pkt (\<lambda>t. t = PacketTypeUser) ZeroID) (\<lambda>_.
     chain (lift (violation (DecodePayload (ss_codec ss) pkt))) (\<lambda>i.
       case i of
         PUser u \<Rightarrow>
           chain (lift (User_IsValid (ss_env ss) u)) (\<lambda>valid.
           if \<not> valid then fail ProtocolViolation
           else chain (check_sig ss pkt (uPubKey (user_content_of u))) (\<lambda>_.
           chain (\<lambda>w. fatal (on_profile (IsUserBanned (ss_env ss) (ss_engine ss) (ss_profile_engine ss)
                        (w_db w) (user_id u))) w) (\<lambda>isBanned.
           if isBanned then fail UserBanned else ret u)))
       | _ \<Rightarrow> stop Fatal)))"

definition sendHello :: "session \<Rightarrow> user \<Rightarrow> unit act" where
  "sendHello ss u =
     chain (on_profile (Profile_GetSubscriptions (ss_profile_engine ss))) (\<lambda>s.
       send ss PacketTypeHello (user_id u) (NewPayloadHello ProtocolVersion s))"

definition readAndProcessHello :: "session \<Rightarrow> user \<Rightarrow> subscriptions act" where
  "readAndProcessHello ss u =
     chain Read (\<lambda>pkt.
     chain (check_sig ss pkt (uPubKey (user_content_of u))) (\<lambda>_.
     chain (check_header ss pkt (\<lambda>t. t = PacketTypeHello) (user_id (ss_owner ss))) (\<lambda>_.
     chain (lift (violation (DecodePayload (ss_codec ss) pkt))) (\<lambda>i.
       case i of
         PHello proto s \<Rightarrow>
           if \<not> Hello_IsValid (proto, s) then fail ProtocolViolation
           else if proto \<noteq> ProtocolVersion then fail UnsupportedProtocol
           else ret s
       | _ \<Rightarrow> stop Fatal))))"

definition get_history :: "session \<Rightarrow> entity_id \<Rightarrow> user_history option act" where
  "get_history ss i = (\<lambda>w.
     (case Profile_GetUserHistory (ss_profile_engine ss) i (w_profile w) of
        Inr h \<Rightarrow> Ok (Some h)
      | Inl (Error NoUserHistory) \<Rightarrow> Ok None
      | Inl f \<Rightarrow> or_fatal (Inl f), w))"

definition finalize :: "session \<Rightarrow> user \<Rightarrow> subscriptions \<Rightarrow> unit act" where
  "finalize ss u s =
     chain (fatal (on_db (HasUser (ss_engine ss) (user_id u)))) (\<lambda>has.
     chain (if has then ret () else fatal (put_entity ss (EUser u) (Some (ss_chan ss)))) (\<lambda>_.
     chain (\<lambda>w. (Ok (), w\<lparr>w_user := Some u, w_subs := s\<rparr>)) (\<lambda>_.
     chain (\<lambda>w. case ss_validate ss w of (ok, w') \<Rightarrow> (Ok ok, w')) (\<lambda>ok.
     if \<not> ok then fail InvalidPeer
     else chain (get_history ss (user_id u)) (\<lambda>h w. (Ok (), w\<lparr>w_hist := h\<rparr>))))))"

definition perform_Handshaking :: "session \<Rightarrow> state act" where
  "perform_Handshaking ss =
     (if ss_active ss
      then chain (sendUser ss) (\<lambda>_. chain (readAndProcessUser ss) (\<lambda>u.
           chain (sendHello ss u) (\<lambda>_. chain (readAndProcessHello ss u) (\<lambda>s.
           chain (finalize ss u s) (\<lambda>_. ret newStateActiveSyncing)))))
      else chain (readAndProcessUser ss) (\<lambda>u. chain (sendUser ss) (\<lambda>_.
           chain (readAndProcessHello ss u) (\<lambda>s. chain (sendHello ss u) (\<lambda>_.
           chain (finalize ss u s) (\<lambda>_. ret PassiveSyncing))))))"

section \<open>Idle\<close>

text \<open>
  One round of the loop: the loop has no state of its own, so a round without a packet and
  without an entity is a step from \<open>Idle\<close> to \<open>Idle\<close>. The channel is never closed.
\<close>

definition is_timeout :: "error \<Rightarrow> bool" where
  "is_timeout e \<longleftrightarrow> e = fixErrClosedConnection TimeoutError"

definition take_outEntity :: "session \<Rightarrow> entity option act" where
  "take_outEntity ss = (\<lambda>w.
     case st_buffer (w_storage w) (ss_chan ss) of
       [] \<Rightarrow> (Ok None, w)
     | e # rest \<Rightarrow> (Ok (Some e), w\<lparr>w_storage := (w_storage w)
         \<lparr>st_buffer := (st_buffer (w_storage w))(ss_chan ss := rest)\<rparr>\<rparr>))"

definition perform_Idle :: "session \<Rightarrow> state act" where
  "perform_Idle ss = (\<lambda>w.
     case Read w of
       (Inr pckt, w') \<Rightarrow> (Ok (Receiving pckt Idle), w')
     | (Inl err, w') \<Rightarrow>
         if (case err of Error e \<Rightarrow> is_timeout e | _ \<Rightarrow> False)
         then chain (take_outEntity ss) (\<lambda>out.
                case out of
                  Some e \<Rightarrow> chain read_clock (\<lambda>now. ret (Sending e now Idle))
                | None \<Rightarrow> ret Idle) w'
         else (Inl err, w'))"

section \<open>Sending\<close>

definition sendAnnounce :: "session \<Rightarrow> entity_id \<Rightarrow> unit act" where
  "sendAnnounce ss i = send_to_user ss PacketTypeAnnounce (NewPayloadAnnounce i)"

definition payload_of :: "entity \<Rightarrow> payload" where
  "payload_of e = (case e of EUser u \<Rightarrow> PUser u | EMessage m \<Rightarrow> PMessage m | EOperation p \<Rightarrow> POperation p)"

definition sendEntity :: "session \<Rightarrow> entity \<Rightarrow> unit act" where
  "sendEntity ss e =
     (if type_of e = TypeMessage then send_to_user ss PacketTypeMessage (payload_of e)
      else if type_of e = TypeOperation then send_to_user ss PacketTypeOperation (payload_of e)
      else if type_of e = TypeUser then send_to_user ss PacketTypeUser (payload_of e)
      else stop Fatal)"

definition processReq :: "session \<Rightarrow> entity \<Rightarrow> packet \<Rightarrow> unit act" where
  "processReq ss outgoing pkt =
     chain (lift (violation (DecodePayload (ss_codec ss) pkt))) (\<lambda>i.
       case i of
         PReq rid \<Rightarrow>
           chain (if rid \<noteq> id_of outgoing
                  then on_db (GetEntity (ss_env ss) (ss_engine ss) rid) else ret outgoing)
             (sendEntity ss)
       | _ \<Rightarrow> stop Fatal)"

text \<open>The first argument is the inbox the loop starts with: each round reads one element.\<close>

fun Sending_loop :: "(net_error + packet) list \<Rightarrow> session \<Rightarrow> entity \<Rightarrow> state \<Rightarrow> state act" where
  "Sending_loop [] ss e next = chain Read (\<lambda>pkt. fail ClosedConnection)"
| "Sending_loop (_ # inbox) ss e next =
     chain Read (\<lambda>pkt.
     chain the_user (\<lambda>u.
     chain (check_sig ss pkt (uPubKey (user_content_of u))) (\<lambda>_.
     chain (check_header ss pkt (\<lambda>t. t = PacketTypeAck \<or> t = PacketTypeReq \<or> t = PacketTypeAnnounce)
              (user_id (ss_owner ss))) (\<lambda>_.
       if b_type (p_body pkt) = PacketTypeAnnounce then ret next
       else if b_type (p_body pkt) = PacketTypeAck then ret next
       else if b_type (p_body pkt) = PacketTypeReq
            then chain (processReq ss e pkt) (\<lambda>_. Sending_loop inbox ss e next)
       else stop Fatal))))"

definition perform_Sending :: "session \<Rightarrow> entity \<Rightarrow> time \<Rightarrow> state \<Rightarrow> state act" where
  "perform_Sending ss e stored next =
     chain (isInterestedInEntity ss e stored) (\<lambda>interested.
       if \<not> interested then ret next
       else chain (sendAnnounce ss (id_of e)) (\<lambda>_ w. Sending_loop (w_inbox w) ss e next w))"

section \<open>Receiving\<close>

definition MaxPendingEntitiesNum :: nat where
  "MaxPendingEntitiesNum = (MaxMessageDepth + 2) * 2"

text \<open>The error types of \<open>peer/errors.go\<close>; no error is \<open>None\<close>.\<close>

datatype check_error =
    NeedID entity_id | BanSender gostring | BanID entity_id gostring | Banned | Skip

definition getPendingEntity :: "entity list \<Rightarrow> entity_id \<Rightarrow> entity option" where
  "getPendingEntity pending i = find (\<lambda>e. id_of e = i) pending"

definition getPendingUser :: "entity list \<Rightarrow> entity_id \<Rightarrow> user option" where
  "getPendingUser pending i =
     (case getPendingEntity pending i of Some (EUser u) \<Rightarrow> Some u | _ \<Rightarrow> None)"

definition getPendingMessage :: "entity list \<Rightarrow> entity_id \<Rightarrow> message option" where
  "getPendingMessage pending i =
     (case getPendingEntity pending i of Some (EMessage m) \<Rightarrow> Some m | _ \<Rightarrow> None)"

fun getNearPendingMessageID :: "entity list \<Rightarrow> message \<Rightarrow> duration \<Rightarrow> entity_id option" where
  "getNearPendingMessageID [] m diff = None"
| "getNearPendingMessageID (EMessage e # es) m diff =
     (if message_id e = message_id m then getNearPendingMessageID es m diff
      else if mAuthorID (message_content_of e) \<noteq> mAuthorID (message_content_of m)
           then getNearPendingMessageID es m diff
      else if (if mDateWritten (message_content_of m) < mDateWritten (message_content_of e)
               then time_sub (mDateWritten (message_content_of e)) (mDateWritten (message_content_of m)) < diff
               else time_sub (mDateWritten (message_content_of m)) (mDateWritten (message_content_of e)) < diff)
           then Some (message_id e)
      else getNearPendingMessageID es m diff)"
| "getNearPendingMessageID (EUser u # es) m diff = getNearPendingMessageID es m diff"
| "getNearPendingMessageID (EOperation p # es) m diff = getNearPendingMessageID es m diff"

fun getEntityAuthor :: "entity \<Rightarrow> entity_id result" where
  "getEntityAuthor (EMessage m) = Ok (mAuthorID (message_content_of m))"
| "getEntityAuthor (EOperation p) = Ok (oAuthorID (operation_content_of p))"
| "getEntityAuthor (EUser u) = Inl Fatal"

definition is_banned :: "session \<Rightarrow> entity_id \<Rightarrow> bool act" where
  "is_banned ss i = (\<lambda>w. fatal (on_profile (IsUserBanned (ss_env ss) (ss_engine ss) (ss_profile_engine ss)
     (w_db w) i)) w)"

text \<open>The user of that identifier among the pending entities, or else in the storage.\<close>

definition find_author :: "session \<Rightarrow> entity list \<Rightarrow> entity_id \<Rightarrow> user option act" where
  "find_author ss pending i =
     (case getPendingUser pending i of
        Some u \<Rightarrow> ret (Some u)
      | None \<Rightarrow> (\<lambda>w. (case GetUser (ss_env ss) (ss_engine ss) i (w_db w) of
            Inr u \<Rightarrow> Ok (Some u)
          | Inl (Error NoSuchEntity) \<Rightarrow> Ok None
          | Inl f \<Rightarrow> or_fatal (Inl f), w)))"

definition checkUser :: "session \<Rightarrow> user \<Rightarrow> check_error option act" where
  "checkUser ss u =
     chain (lift (User_IsValid (ss_env ss) u)) (\<lambda>valid.
     if \<not> valid then ret (Some (BanSender (''peer sent malformed user '' @ Shorten (user_id u))))
     else chain (is_banned ss (user_id u)) (\<lambda>isBanned.
     ret (if isBanned then Some Banned else None)))"

text \<open>The part of \<open>checkMessage\<close> that follows the signature check.\<close>

definition checkMessage_placed :: "session \<Rightarrow> entity list \<Rightarrow> message \<Rightarrow> check_error option act" where
  "checkMessage_placed ss pending m =
     (if ID_IsZero (mParentID (message_content_of m))
      then chain (on_profile (Profile_GetSubscriptions (ss_profile_engine ss))) (\<lambda>s.
             ret (if \<not> Covers s (mTopic (message_content_of m))
                  then Some (BanSender (''peer sent unsolicited message '' @ Shorten (message_id m)))
                  else None))
      else chain (fatal (on_db (HasMessage (ss_engine ss) (mParentID (message_content_of m))))) (\<lambda>has.
             ret (if \<not> has \<and> getPendingMessage pending (mParentID (message_content_of m)) = None
                  then Some (NeedID (mParentID (message_content_of m))) else None)))"

definition checkMessage_rate :: "session \<Rightarrow> entity list \<Rightarrow> message \<Rightarrow> check_error option act" where
  "checkMessage_rate ss pending m =
     chain (fatal (on_db (GetNearMessageID (ss_engine ss) m MinMessagePostDelay))) (\<lambda>near.
       let nearID = (case near of None \<Rightarrow> getNearPendingMessageID pending m MinMessagePostDelay
                                | Some i \<Rightarrow> Some i)
       in case nearID of
            Some i \<Rightarrow> ret (Some (BanID (mAuthorID (message_content_of m))
              (ID_String (message_id m) @ '' and '' @ ID_String i @ '' violate the limit of the message post rate'')))
          | None \<Rightarrow> checkMessage_placed ss pending m)"

definition checkMessage :: "session \<Rightarrow> entity list \<Rightarrow> message \<Rightarrow> check_error option act" where
  "checkMessage ss pending m =
     (if \<not> Message_IsUnsignedPartValid (ss_env ss) m
      then ret (Some (BanSender (''peer sent malformed message '' @ Shorten (message_id m))))
      else chain (is_banned ss (mAuthorID (message_content_of m))) (\<lambda>isBanned.
        if isBanned then ret (Some Banned)
        else chain (find_author ss pending (mAuthorID (message_content_of m))) (\<lambda>author.
          case author of
            None \<Rightarrow> ret (Some (NeedID (mAuthorID (message_content_of m))))
          | Some u \<Rightarrow>
              chain (lift (Message_IsSigValid (ss_env ss) m (uPubKey (user_content_of u)))) (\<lambda>ok.
              if \<not> ok then ret (Some (BanSender
                (''peer sent message '' @ Shorten (message_id m) @ '' with invalid signature'')))
              else if mDateWritten (message_content_of m) < uRegDate (user_content_of u)
              then ret (Some (BanID (user_id u) (''RegDate is less than timestamp of '' @ ID_String (message_id m))))
              else checkMessage_rate ss pending m))))"

definition checkOperation_object :: "session \<Rightarrow> entity list \<Rightarrow> operation \<Rightarrow> check_error option act" where
  "checkOperation_object ss pending p =
     (if getPendingEntity pending (oObjectID (operation_content_of p)) = None
      then chain (fatal (on_db (HasEntity (ss_engine ss) (oObjectID (operation_content_of p))))) (\<lambda>has.
             ret (if has then None
                  else if oType (operation_content_of p) = OperationTypeBanUser then Some Skip
                  else Some (NeedID (oObjectID (operation_content_of p)))))
      else ret None)"

definition checkOperation :: "session \<Rightarrow> entity list \<Rightarrow> operation \<Rightarrow> check_error option act" where
  "checkOperation ss pending p =
     (if \<not> Operation_IsUnsignedPartValid (ss_env ss) p
      then ret (Some (BanSender (''peer sent malformed operation '' @ Shorten (operation_id p))))
      else chain (is_banned ss (oAuthorID (operation_content_of p))) (\<lambda>isBanned.
        if isBanned then ret (Some Banned)
        else chain (find_author ss pending (oAuthorID (operation_content_of p))) (\<lambda>author.
          case author of
            None \<Rightarrow> ret (Some (NeedID (oAuthorID (operation_content_of p))))
          | Some u \<Rightarrow>
              chain (lift (Operation_IsSigValid (ss_env ss) p (uPubKey (user_content_of u)))) (\<lambda>ok.
              if \<not> ok then ret (Some (BanSender
                (''peer sent operation '' @ Shorten (operation_id p) @ '' with invalid signature'')))
              else checkOperation_object ss pending p))))"

definition check_one :: "session \<Rightarrow> entity list \<Rightarrow> entity \<Rightarrow> check_error option act" where
  "check_one ss pending ent =
     (case ent of
        EUser u \<Rightarrow> checkUser ss u
      | EMessage m \<Rightarrow> checkMessage ss pending m
      | EOperation p \<Rightarrow> checkOperation ss pending p)"

fun check_all :: "session \<Rightarrow> entity list \<Rightarrow> entity list \<Rightarrow> check_error option act" where
  "check_all ss pending [] = ret None"
| "check_all ss pending (ent # ents) =
     chain (check_one ss pending ent) (\<lambda>err.
       if err \<noteq> None then ret err else check_all ss pending ents)"

definition checkPendingEntities :: "session \<Rightarrow> entity list \<Rightarrow> check_error option act" where
  "checkPendingEntities ss pending =
     (case pending of
        [] \<Rightarrow> stop Panic
      | EUser u # _ \<Rightarrow> ret (Some (BanSender (''peer advertised a user entity '' @ Shorten (user_id u))))
      | _ \<Rightarrow> check_all ss pending pending)"

text \<open>
  \<open>banUser\<close> gives up on the rate limit, ends the process on any other failure to emerge
  the operation, and ignores an error of the storage.
\<close>

definition emerge_ban :: "session \<Rightarrow> entity_id \<Rightarrow> gostring \<Rightarrow> operation act" where
  "emerge_ban ss i comment =
     chain read_clock (\<lambda>t1. chain read_clock (\<lambda>t2. chain read_clock (\<lambda>t3 w.
       case EmergeOperation (ss_env ss) OperationTypeBanUser OperationReasonProtocolViolation comment
              (user_id (ss_owner ss)) i (ss_signer ss) (t1, t2, t3) (w_lastOper w) of
         (r, lastOper) \<Rightarrow> (r, w\<lparr>w_lastOper := lastOper\<rparr>))))"

definition ignore_error :: "unit act \<Rightarrow> unit act" where
  "ignore_error m = (\<lambda>w. case m w of (Inl (Error _), w') \<Rightarrow> (Ok (), w') | (r, w') \<Rightarrow> (r, w'))"

definition banUser :: "session \<Rightarrow> entity_id \<Rightarrow> gostring \<Rightarrow> unit act" where
  "banUser ss i comment = (\<lambda>w.
     case emerge_ban ss i comment w of
       (Inl (Error OperPostRateErr), w') \<Rightarrow> (Ok (), w')
     | (Inl f, w') \<Rightarrow> (or_fatal (Inl f), w')
     | (Inr p, w') \<Rightarrow> ignore_error (put_entity ss (EOperation p) None) w')"

definition sendReq :: "session \<Rightarrow> entity_id \<Rightarrow> unit act" where
  "sendReq ss i = send_to_user ss PacketTypeReq (NewPayloadReq i)"

definition sendAck :: "session \<Rightarrow> unit act" where
  "sendAck ss = send_to_user ss PacketTypeAck NewPayloadAck"

definition processAnnounce :: "session \<Rightarrow> packet \<Rightarrow> entity_id act" where
  "processAnnounce ss pkt =
     chain the_user (\<lambda>u.
     chain (check_sig ss pkt (uPubKey (user_content_of u))) (\<lambda>_.
     chain (check_header ss pkt (\<lambda>t. t = PacketTypeAnnounce) (user_id (ss_owner ss))) (\<lambda>_.
     chain (lift (violation (DecodePayload (ss_codec ss) pkt))) (\<lambda>i.
       case i of PAnnounce a \<Rightarrow> ret a | _ \<Rightarrow> stop Fatal))))"

definition readEntity :: "session \<Rightarrow> entity_id \<Rightarrow> entity act" where
  "readEntity ss requested =
     chain Read (\<lambda>pkt.
     chain the_user (\<lambda>u.
     chain (check_sig ss pkt (uPubKey (user_content_of u))) (\<lambda>_.
     chain (check_header ss pkt (\<lambda>t. t = PacketTypeUser \<or> t = PacketTypeMessage \<or> t = PacketTypeOperation)
              (user_id (ss_owner ss))) (\<lambda>_.
     chain (lift (violation (DecodePayload (ss_codec ss) pkt))) (\<lambda>i.
     chain (case i of
              PUser x \<Rightarrow> ret (EUser x) | PMessage m \<Rightarrow> ret (EMessage m) | POperation p \<Rightarrow> ret (EOperation p)
            | _ \<Rightarrow> stop Fatal) (\<lambda>e.
       if id_of e \<noteq> requested then fail ProtocolViolation else ret e))))))"

fun store_pending :: "session \<Rightarrow> entity list \<Rightarrow> unit act" where
  "store_pending ss [] = ret ()"
| "store_pending ss (e # es) =
     chain (fatal (put_entity ss e (Some (ss_chan ss)))) (\<lambda>_. store_pending ss es)"

text \<open>The error \<open>perform\<close> returns when it bans the sender.\<close>

definition ban_sender_error :: error where
  "ban_sender_error = Foreign ''ban sender of the entity''"

definition too_deep :: "session \<Rightarrow> entity list \<Rightarrow> unit act" where
  "too_deep ss pending =
     chain (lift (getEntityAuthor (hd pending))) (\<lambda>authID.
     chain (banUser ss authID ''user exceeded max depth of thread'') (\<lambda>_.
     chain the_user (\<lambda>u.
     chain (banUser ss (user_id u) (''peer sent entity '' @ ID_String (id_of (hd pending)) @
              '' exceeding max depth of thread'')) (\<lambda>_. fail ban_sender_error))))"

text \<open>
  The loop, from the request for \<open>neededID\<close> on: it goes round again only while fewer than
  \<open>MaxPendingEntitiesNum\<close> entities are pending, and each round adds one.
\<close>

function receive_loop :: "session \<Rightarrow> entity list \<Rightarrow> entity_id \<Rightarrow> unit act" where
  "receive_loop ss pending neededID =
     chain (sendReq ss neededID) (\<lambda>_.
     chain (readEntity ss neededID) (\<lambda>e.
     chain (checkPendingEntities ss (pending @ [e])) (\<lambda>err.
       case err of
         None \<Rightarrow> store_pending ss (pending @ [e])
       | Some (NeedID i) \<Rightarrow>
           if length (pending @ [e]) < MaxPendingEntitiesNum then receive_loop ss (pending @ [e]) i
           else too_deep ss (pending @ [e])
       | Some (BanSender comment) \<Rightarrow>
           chain the_user (\<lambda>u. chain (banUser ss (user_id u) comment) (\<lambda>_. fail ban_sender_error))
       | Some (BanID i comment) \<Rightarrow> banUser ss i comment
       | Some Banned \<Rightarrow> ret ()
       | Some Skip \<Rightarrow> ret ())))"
  by pat_completeness auto
termination
  by (relation "measure (\<lambda>(ss, pending, i). MaxPendingEntitiesNum - length pending)") auto

declare receive_loop.simps [simp del]

definition perform_Receiving :: "session \<Rightarrow> packet \<Rightarrow> state \<Rightarrow> state act" where
  "perform_Receiving ss pckt next =
     chain (processAnnounce ss pckt) (\<lambda>a.
     chain (fatal (on_db (HasEntity (ss_engine ss) a))) (\<lambda>has.
     chain (if has then ret () else receive_loop ss [] a) (\<lambda>_.
     chain (sendAck ss) (\<lambda>_. ret next))))"

section \<open>Synchronising\<close>

definition MaxSyncDuration :: duration where "MaxSyncDuration = Hour * 24 * 30"
definition MaxSyncNumberOfMessages :: int where "MaxSyncNumberOfMessages = 1000"
definition MaxSyncNumberOfOperations :: int where "MaxSyncNumberOfOperations = 1000"

definition getStartTime :: "time act" where
  "getStartTime = (\<lambda>w.
     case w_hist w of
       None \<Rightarrow> chain read_clock (\<lambda>now. ret (now - MaxSyncDuration)) w
     | Some h \<Rightarrow> (Ok (if Subs_Diff (w_subs w) (h_subs h) \<noteq> [] then h_disconnected h - MaxSyncDuration
                   else h_disconnected h), w))"

text \<open>A list fetched from the storage is nil when it is empty.\<close>

definition nil_if_empty :: "'a list \<Rightarrow> 'a list option" where
  "nil_if_empty xs = (if xs = [] then None else Some xs)"

definition messagesSynced ::
  "session \<Rightarrow> time \<Rightarrow> (message \<times> time) list option \<Rightarrow> (message \<times> time) list option act" where
  "messagesSynced ss start toSync =
     (case toSync of
        Some ms \<Rightarrow> ret (Some ms)
      | None \<Rightarrow> chain (on_db (GetMessagesStoredAfter (ss_env ss) (ss_engine ss) start MaxSyncNumberOfMessages))
                 (\<lambda>mm. ret (nil_if_empty mm)))"

definition operationsSynced ::
  "session \<Rightarrow> time \<Rightarrow> (operation \<times> time) list option \<Rightarrow> (operation \<times> time) list option act" where
  "operationsSynced ss start toSync =
     (case toSync of
        Some os \<Rightarrow> ret (Some os)
      | None \<Rightarrow> chain (on_db (GetOperationsStoredAfter (ss_env ss) (ss_engine ss) start MaxSyncNumberOfOperations))
                 (\<lambda>oo. ret (nil_if_empty oo)))"

definition sendDone :: "session \<Rightarrow> unit act" where
  "sendDone ss = send_to_user ss PacketTypeDone NewPayloadDone"

definition perform_ActiveSyncing ::
  "session \<Rightarrow> (message \<times> time) list option \<Rightarrow> (operation \<times> time) list option \<Rightarrow> time \<Rightarrow> state act" where
  "perform_ActiveSyncing ss messagesToSync operationsToSync startTime =
     chain (if startTime = zero_time then getStartTime else ret startTime) (\<lambda>start.
     chain (messagesSynced ss start messagesToSync) (\<lambda>ms.
       case ms of
         Some ((m, stored) # ms') \<Rightarrow>
           ret (Sending (EMessage m) stored (ActiveSyncing (Some ms') operationsToSync start))
       | _ \<Rightarrow>
           chain (operationsSynced ss start operationsToSync) (\<lambda>os.
             case os of
               Some ((p, stored) # os') \<Rightarrow>
                 ret (Sending (EOperation p) stored (ActiveSyncing ms (Some os') start))
             | _ \<Rightarrow> chain (sendDone ss) (\<lambda>_. ret (if ss_active ss then PassiveSyncing else Idle)))))"

definition perform_PassiveSyncing :: "session \<Rightarrow> state act" where
  "perform_PassiveSyncing ss =
     chain Read (\<lambda>pkt.
     chain the_user (\<lambda>u.
     chain (check_sig ss pkt (uPubKey (user_content_of u))) (\<lambda>_.
     chain read_clock (\<lambda>now.
       case VerifyHeader pkt PacketTypeDone (user_id (ss_owner ss)) now of
         Inl _ \<Rightarrow> ret (Receiving pkt PassiveSyncing)
       | Inr _ \<Rightarrow> ret (if ss_active ss then Idle else newStateActiveSyncing)))))"

section \<open>The peer\<close>

fun perform :: "session \<Rightarrow> state \<Rightarrow> state act" where
  "perform ss Handshaking = perform_Handshaking ss"
| "perform ss Idle = perform_Idle ss"
| "perform ss (Sending e stored next) = perform_Sending ss e stored next"
| "perform ss (Receiving pckt next) = perform_Receiving ss pckt next"
| "perform ss (ActiveSyncing ms os start) = perform_ActiveSyncing ss ms os start"
| "perform ss PassiveSyncing = perform_PassiveSyncing ss"

text \<open>
  \<open>run\<close> is a loop over \<open>perform\<close>. It leaves the loop on an error, and sets \<open>goneFlag\<close> if
  that is not a closed connection; the end of the process is the end of everything.
\<close>

datatype peer_status = Running state | Left_run state bool | Crashed fault

definition run_step :: "session \<Rightarrow> state \<Rightarrow> world \<Rightarrow> peer_status \<times> world" where
  "run_step ss st w =
     (case perform ss st w of
        (Inr st', w') \<Rightarrow> (Running st', w')
      | (Inl (Error err), w') \<Rightarrow> (Left_run st (err \<noteq> ClosedConnection), w')
      | (Inl f, w') \<Rightarrow> (Crashed f, w'))"

inductive run_reach :: "session \<Rightarrow> state \<times> world \<Rightarrow> peer_status \<times> world \<Rightarrow> bool"
  for ss :: session and start :: "state \<times> world" where
  run_start: "run_reach ss start (Running (fst start), snd start)"
| run_perform: "run_reach ss start (Running st, w) \<Longrightarrow> run_reach ss start (run_step ss st w)"

definition NewPeer :: "session \<Rightarrow> world \<Rightarrow> state \<times> world" where
  "NewPeer ss w = (Handshaking, w\<lparr>w_storage := AttachObserver (ss_chan ss) (w_storage w),
     w_user := None, w_subs := [], w_hist := None\<rparr>)"

text \<open>
  \<open>Close\<close>, called with the state the peer is in; the errors of \<open>PutUserHistory\<close> are not
  looked at. It ends by closing the connection and waiting for \<open>run\<close>.
\<close>

definition Close_Peer :: "session \<Rightarrow> state \<Rightarrow> unit act" where
  "Close_Peer ss st =
     chain (if State_ID st \<notin> {StateIDHandshaking, StateIDActiveSyncing, StateIDPassiveSyncing}
            then chain the_user (\<lambda>u. chain read_clock (\<lambda>now w.
              ignore_error (on_profile (Profile_PutUserHistory (ss_profile_engine ss)
                \<lparr>h_id = user_id u, h_disconnected = now, h_subs = w_subs w\<rparr>)) w))
            else ret ()) (\<lambda>_ w.
       (Ok (), w\<lparr>w_storage := DetachObserver (ss_chan ss) (w_storage w)\<rparr>))"

end
