(* ===== verification/PeerSafety.thy ===== *)
theory PeerSafety
  imports Peer
begin

text \<open>
  What the peer's state machine guarantees: what an action leaves alone (one contract,
  instantiated for the user, the database and the packets sent), what a completed handshake
  and a completed reception have checked, and how much a reception can request.
\<close>

named_theorems frames \<open>what single actions leave alone\<close>

section \<open>Actions\<close>

lemma chain_Inr:
  "chain m f w = (Inr y, w'') \<longleftrightarrow> (\<exists>x w'. m w = (Inr x, w') \<and> f x w' = (Inr y, w''))"
  by (auto simp: chain_def split: prod.splits sum.splits)

lemma act_simps [simp]:
  "ret x w = (Ok x, w)" "fail e w = (Err e, w)" "stop ft w = (Inl ft, w)" "lift r w = (r, w)"
  by (simp_all add: ret_def fail_def stop_def lift_def)

lemma fatal_Inr: "fatal m w = (Inr x, w') \<longleftrightarrow> m w = (Inr x, w')"
  by (auto simp: fatal_def split: prod.splits)

lemma violation_Inr [simp]: "violation r = Inr x \<longleftrightarrow> r = Inr x"
  by (auto simp: violation_def split: sum.splits fault.splits)

text \<open>
  The contract of a frame: a reflexive and transitive relation between the worlds before
  and after. An action respects it when it relates every world to the one it leaves, and
  the combinators carry that over from their parts.
\<close>

locale frame =
  fixes R :: "world \<Rightarrow> world \<Rightarrow> bool"
  assumes R_refl: "R w w" and R_trans: "R u v \<Longrightarrow> R v w \<Longrightarrow> R u w"
begin

lemma chain_frame:
  assumes "\<And>w. R w (snd (m w))" "\<And>x w. R w (snd (f x w))"
  shows "R w (snd (chain m f w))"
proof -
  obtain r w' where m: "m w = (r, w')" by fastforce
  with assms(1) [of w] have "R w w'" by simp
  with m assms(2) R_trans show ?thesis by (cases r) (auto simp: chain_def)
qed

lemma fatal_frame: "(\<And>w. R w (snd (m w))) \<Longrightarrow> R w (snd (fatal m w))"
  by (simp add: fatal_def split_beta)

lemma ignore_frame: "(\<And>w. R w (snd (m w))) \<Longrightarrow> R w (snd (ignore_error m w))"
  using R_refl by (auto simp: ignore_error_def split: prod.splits sum.splits fault.splits) (metis snd_conv)+

lemma pure_frame: "R w (snd (ret x w))" "R w (snd (fail e w))" "R w (snd (stop ft w))" "R w (snd (lift r w))"
  by (simp_all add: R_refl)

lemma if_frame:
  "(P \<Longrightarrow> R w (snd (a w))) \<Longrightarrow> (\<not> P \<Longrightarrow> R w (snd (b w))) \<Longrightarrow> R w (snd ((if P then a else b) w))"
  by simp

lemma option_frame:
  "R w (snd (a w)) \<Longrightarrow> (\<And>y. x = Some y \<Longrightarrow> R w (snd (f y w))) \<Longrightarrow>
     R w (snd ((case x of None \<Rightarrow> a | Some y \<Rightarrow> f y) w))"
  by (cases x) simp_all

lemma list_frame:
  "R w (snd (a w)) \<Longrightarrow> (\<And>y ys. R w (snd (f y ys w))) \<Longrightarrow>
     R w (snd ((case xs of [] \<Rightarrow> a | y # ys \<Rightarrow> f y ys) w))"
  by (cases xs) simp_all

lemma result_frame:
  "(\<And>e. R w (snd (a e w))) \<Longrightarrow> (\<And>y. R w (snd (f y w))) \<Longrightarrow>
     R w (snd ((case r of Inl e \<Rightarrow> a e | Inr y \<Rightarrow> f y) w))"
  by (cases r) simp_all

lemma entity_frame:
  "(\<And>u. R w (snd (a u w))) \<Longrightarrow> (\<And>m. R w (snd (b m w))) \<Longrightarrow> (\<And>p. R w (snd (c p w))) \<Longrightarrow>
     R w (snd ((case e of EUser u \<Rightarrow> a u | EMessage m \<Rightarrow> b m | EOperation p \<Rightarrow> c p) w))"
  by (cases e) simp_all

lemma payload_frame:
  "(\<And>u. R w (snd (a1 u w))) \<Longrightarrow> (\<And>m. R w (snd (a2 m w))) \<Longrightarrow> (\<And>p. R w (snd (a3 p w))) \<Longrightarrow>
   (\<And>v s. R w (snd (a4 v s w))) \<Longrightarrow> (\<And>i. R w (snd (a5 i w))) \<Longrightarrow> (\<And>i. R w (snd (a6 i w))) \<Longrightarrow>
   R w (snd (a7 w)) \<Longrightarrow> R w (snd (a8 w)) \<Longrightarrow> R w (snd (case_payload a1 a2 a3 a4 a5 a6 a7 a8 x w))"
  by (cases x) simp_all

lemma check_error_frame:
  "(\<And>i. R w (snd (a1 i w))) \<Longrightarrow> (\<And>c. R w (snd (a2 c w))) \<Longrightarrow> (\<And>i c. R w (snd (a3 i c w))) \<Longrightarrow>
   R w (snd (a4 w)) \<Longrightarrow> R w (snd (a5 w)) \<Longrightarrow> R w (snd (case_check_error a1 a2 a3 a4 a5 x w))"
  by (cases x) simp_all

end

text \<open>The three frames: the peer's user, subscriptions and history; the database; the packets sent.\<close>

definition same_peer :: "world \<Rightarrow> world \<Rightarrow> bool" where
  "same_peer w w' \<longleftrightarrow> w_user w' = w_user w \<and> w_subs w' = w_subs w \<and> w_hist w' = w_hist w"

definition same_db :: "world \<Rightarrow> world \<Rightarrow> bool" where
  "same_db w w' \<longleftrightarrow> w_db w' = w_db w"

definition same_outbox :: "world \<Rightarrow> world \<Rightarrow> bool" where
  "same_outbox w w' \<longleftrightarrow> w_outbox w' = w_outbox w"

text \<open>Each of them is a frame.\<close>

interpretation peer_frame: frame same_peer
  by unfold_locales (simp_all add: same_peer_def)

interpretation db_frame: frame same_db
  by unfold_locales (simp_all add: same_db_def)

interpretation outbox_frame: frame same_outbox
  by unfold_locales (simp_all add: same_outbox_def)

lemmas frame_intros =
  peer_frame.chain_frame peer_frame.fatal_frame peer_frame.ignore_frame peer_frame.pure_frame peer_frame.if_frame peer_frame.option_frame peer_frame.list_frame peer_frame.result_frame peer_frame.entity_frame peer_frame.payload_frame peer_frame.check_error_frame
  db_frame.chain_frame db_frame.fatal_frame db_frame.ignore_frame db_frame.pure_frame db_frame.if_frame db_frame.option_frame db_frame.list_frame db_frame.result_frame db_frame.entity_frame db_frame.payload_frame db_frame.check_error_frame
  outbox_frame.chain_frame outbox_frame.fatal_frame outbox_frame.ignore_frame outbox_frame.pure_frame outbox_frame.if_frame outbox_frame.option_frame outbox_frame.list_frame outbox_frame.result_frame outbox_frame.entity_frame outbox_frame.payload_frame outbox_frame.check_error_frame

lemmas same_defs = same_peer_def same_db_def same_outbox_def

lemma basic_frames [frames]:
  "same_peer w (snd (read_clock w))" "same_db w (snd (read_clock w))" "same_outbox w (snd (read_clock w))"
  "same_peer w (snd (on_db f w))" "same_db w (snd (on_db f w))" "same_outbox w (snd (on_db f w))"
  "same_peer w (snd (on_profile g w))" "same_db w (snd (on_profile g w))" "same_outbox w (snd (on_profile g w))"
  "same_peer w (snd (the_user w))" "same_db w (snd (the_user w))" "same_outbox w (snd (the_user w))"
  "same_peer w (snd (Read w))" "same_db w (snd (Read w))" "same_outbox w (snd (Read w))"
  "same_peer w (snd (Write p w))" "same_db w (snd (Write p w))"
  "same_peer w (snd (get_root ss m w))" "same_db w (snd (get_root ss m w))" "same_outbox w (snd (get_root ss m w))"
  by (auto simp: same_defs read_clock_def on_db_def on_profile_def the_user_def Read_def Write_def get_root_def
      split: prod.splits sum.splits list.splits option.splits)

lemma put_entity_frames [frames]:
  "same_peer w (snd (put_entity ss e c w))" "same_outbox w (snd (put_entity ss e c w))"
  unfolding put_entity_def
  by (intro frame_intros frames; auto simp: same_defs split: prod.splits)+

lemma send_frames [frames]:
  "same_peer w (snd (send ss t i pld w))" "same_db w (snd (send ss t i pld w))"
  "same_peer w (snd (send_to_user ss t pld w))" "same_db w (snd (send_to_user ss t pld w))"
  unfolding send_to_user_def send_def by (intro frame_intros frames)+

lemma check_frames [frames]:
  "same_peer w (snd (check_sig ss pkt key w))" "same_db w (snd (check_sig ss pkt key w))"
  "same_outbox w (snd (check_sig ss pkt key w))"
  "same_peer w (snd (check_header ss pkt f i w))" "same_db w (snd (check_header ss pkt f i w))"
  "same_outbox w (snd (check_header ss pkt f i w))"
  unfolding check_sig_def check_header_def by (intro frame_intros frames; auto simp: same_defs)+

lemma is_banned_frames [frames]:
  "same_peer w (snd (is_banned ss i w))" "same_db w (snd (is_banned ss i w))" "same_outbox w (snd (is_banned ss i w))"
  by (simp_all add: is_banned_def frame_intros frames)

lemma find_author_frames [frames]:
  "same_peer w (snd (find_author ss pend i w))" "same_db w (snd (find_author ss pend i w))"
  "same_outbox w (snd (find_author ss pend i w))"
  by (auto simp: find_author_def same_defs split: option.splits)

lemma checkUser_frames [frames]:
  "same_peer w (snd (checkUser ss u w))" "same_db w (snd (checkUser ss u w))" "same_outbox w (snd (checkUser ss u w))"
  unfolding checkUser_def Let_def by (intro frame_intros frames)+

lemma checkMessage_placed_frames [frames]:
  "same_peer w (snd (checkMessage_placed ss pend m w))" "same_db w (snd (checkMessage_placed ss pend m w))"
  "same_outbox w (snd (checkMessage_placed ss pend m w))"
  unfolding checkMessage_placed_def Let_def by (intro frame_intros frames)+

lemma checkMessage_rate_frames [frames]:
  "same_peer w (snd (checkMessage_rate ss pend m w))" "same_db w (snd (checkMessage_rate ss pend m w))"
  "same_outbox w (snd (checkMessage_rate ss pend m w))"
  unfolding checkMessage_rate_def Let_def by (intro frame_intros frames)+

lemma checkMessage_frames [frames]:
  "same_peer w (snd (checkMessage ss pend m w))" "same_db w (snd (checkMessage ss pend m w))"
  "same_outbox w (snd (checkMessage ss pend m w))"
  unfolding checkMessage_def Let_def by (intro frame_intros frames)+

lemma checkOperation_object_frames [frames]:
  "same_peer w (snd (checkOperation_object ss pend p w))" "same_db w (snd (checkOperation_object ss pend p w))"
  "same_outbox w (snd (checkOperation_object ss pend p w))"
  unfolding checkOperation_object_def Let_def by (intro frame_intros frames)+

lemma checkOperation_frames [frames]:
  "same_peer w (snd (checkOperation ss pend p w))" "same_db w (snd (checkOperation ss pend p w))"
  "same_outbox w (snd (checkOperation ss pend p w))"
  unfolding checkOperation_def by (intro frame_intros frames)+

lemma check_one_frames [frames]:
  "same_peer w (snd (check_one ss pend e w))" "same_db w (snd (check_one ss pend e w))"
  "same_outbox w (snd (check_one ss pend e w))"
  unfolding check_one_def by (intro frame_intros frames)+

text \<open>The loops over the pending entities respect any frame that their bodies respect.\<close>

context frame
begin

lemma check_all_frame:
  assumes "\<And>e w. R w (snd (check_one ss pend e w))"
  shows "R w (snd (check_all ss pend es w))"
proof (induction es arbitrary: w)
  case (Cons e es)
  show ?case unfolding check_all.simps by (intro chain_frame if_frame pure_frame assms Cons.IH)
qed (simp add: R_refl)

lemma store_pending_frame:
  assumes "\<And>e w. R w (snd (put_entity ss e (Some (ss_chan ss)) w))"
  shows "R w (snd (store_pending ss es w))"
proof (induction es arbitrary: w)
  case (Cons e es)
  show ?case unfolding store_pending.simps by (intro chain_frame fatal_frame assms Cons.IH)
qed (simp add: R_refl)

end

lemma check_all_frames [frames]:
  "same_peer w (snd (check_all ss pend es w))" "same_db w (snd (check_all ss pend es w))"
  "same_outbox w (snd (check_all ss pend es w))"
  by (intro peer_frame.check_all_frame db_frame.check_all_frame outbox_frame.check_all_frame frames)+

lemma checkPendingEntities_frames [frames]:
  "same_peer w (snd (checkPendingEntities ss pend w))" "same_db w (snd (checkPendingEntities ss pend w))"
  "same_outbox w (snd (checkPendingEntities ss pend w))"
  unfolding checkPendingEntities_def by (intro frame_intros frames)+

lemma emerge_ban_frames [frames]:
  "same_peer w (snd (emerge_ban ss i c w))" "same_db w (snd (emerge_ban ss i c w))"
  "same_outbox w (snd (emerge_ban ss i c w))"
  unfolding emerge_ban_def by (intro frame_intros frames; simp add: same_defs split_beta)+

lemma banUser_frames [frames]:
  "same_peer w (snd (banUser ss i c w))" "same_outbox w (snd (banUser ss i c w))"
proof -
  obtain r w1 where e: "emerge_ban ss i c w = (r, w1)" by fastforce
  then have 1: "same_peer w w1" "same_outbox w w1" using emerge_ban_frames [of w ss i c] by simp_all
  have 2: "same_peer w1 (snd (ignore_error (put_entity ss (EOperation p) None) w1))"
    "same_outbox w1 (snd (ignore_error (put_entity ss (EOperation p) None) w1))" for p
    by (intro frame_intros frames)+
  from 1 2 peer_frame.R_trans outbox_frame.R_trans
  show "same_peer w (snd (banUser ss i c w))" "same_outbox w (snd (banUser ss i c w))"
    by (auto simp: banUser_def e split: sum.split fault.split error.split)
qed

lemma readEntity_frames [frames]:
  "same_peer w (snd (readEntity ss i w))" "same_db w (snd (readEntity ss i w))"
  "same_outbox w (snd (readEntity ss i w))"
  unfolding readEntity_def
  by (intro frame_intros frames)+

lemma processAnnounce_frames [frames]:
  "same_peer w (snd (processAnnounce ss pkt w))" "same_db w (snd (processAnnounce ss pkt w))"
  "same_outbox w (snd (processAnnounce ss pkt w))"
  unfolding processAnnounce_def
  by (intro frame_intros frames)+

lemma store_pending_frames [frames]:
  "same_peer w (snd (store_pending ss es w))" "same_outbox w (snd (store_pending ss es w))"
  by (intro peer_frame.store_pending_frame outbox_frame.store_pending_frame frames)+

lemma too_deep_frames [frames]:
  "same_peer w (snd (too_deep ss pend w))" "same_outbox w (snd (too_deep ss pend w))"
  unfolding too_deep_def by (intro frame_intros frames)+

lemma sendReq_frames [frames]:
  "same_peer w (snd (sendReq ss i w))" "same_db w (snd (sendReq ss i w))"
  "same_peer w (snd (sendAck ss w))" "same_db w (snd (sendAck ss w))"
  unfolding sendReq_def sendAck_def by (intro frames)+

section \<open>What a checked list of pending entities satisfies\<close>

definition known_author :: "session \<Rightarrow> entity_database \<Rightarrow> entity list \<Rightarrow> entity_id \<Rightarrow> user \<Rightarrow> bool" where
  "known_author ss d pend i u \<longleftrightarrow> (EUser u \<in> set pend \<and> user_id u = i) \<or>
     GetUser (ss_env ss) (ss_engine ss) i d = Ok u"

definition authentic :: "session \<Rightarrow> entity_database \<Rightarrow> entity list \<Rightarrow> entity \<Rightarrow> bool" where
  "authentic ss d pend e =
     (case e of
        EUser u \<Rightarrow> User_IsValid (ss_env ss) u = Ok True
      | EMessage m \<Rightarrow> Message_IsUnsignedPartValid (ss_env ss) m \<and>
          (\<exists>u. known_author ss d pend (mAuthorID (message_content_of m)) u \<and>
             Message_IsSigValid (ss_env ss) m (uPubKey (user_content_of u)) = Ok True \<and>
             uRegDate (user_content_of u) \<le> mDateWritten (message_content_of m))
      | EOperation p \<Rightarrow> Operation_IsUnsignedPartValid (ss_env ss) p \<and>
          (\<exists>u. known_author ss d pend (oAuthorID (operation_content_of p)) u \<and>
             Operation_IsSigValid (ss_env ss) p (uPubKey (user_content_of u)) = Ok True))"

lemma getPendingUser_Some: "getPendingUser pend i = Some u \<Longrightarrow> EUser u \<in> set pend \<and> user_id u = i"
  by (auto simp: getPendingUser_def getPendingEntity_def split: option.splits entity.splits dest: find_SomeD)

lemma find_author_Some:
  "find_author ss pend i w = (Inr (Some u), w') \<Longrightarrow> known_author ss (w_db w) pend i u"
  by (auto simp: find_author_def known_author_def dest: getPendingUser_Some
      split: option.splits sum.splits fault.splits error.splits)

lemma checkUser_None: "checkUser ss u w = (Inr None, w') \<Longrightarrow> User_IsValid (ss_env ss) u = Ok True"
  by (auto simp: checkUser_def chain_Inr split: if_splits)

lemma checkMessage_None:
  assumes "checkMessage ss pend m w = (Inr None, w')"
  shows "authentic ss (w_db w) pend (EMessage m)"
proof -
  from assms have v: "Message_IsUnsignedPartValid (ss_env ss) m"
    by (auto simp: checkMessage_def split: if_splits)
  from assms v obtain w1 w2 u where
    b: "is_banned ss (mAuthorID (message_content_of m)) w = (Inr False, w1)"
    and f: "find_author ss pend (mAuthorID (message_content_of m)) w1 = (Inr (Some u), w2)"
    and sig: "Message_IsSigValid (ss_env ss) m (uPubKey (user_content_of u)) = Ok True"
    and reg: "\<not> mDateWritten (message_content_of m) < uRegDate (user_content_of u)"
    by (fastforce simp: checkMessage_def chain_Inr split: if_splits option.splits)
  have "w_db w1 = w_db w"
    using is_banned_frames(2) [of w ss "mAuthorID (message_content_of m)"] by (simp add: b same_db_def)
  with find_author_Some [OF f] v sig reg show ?thesis by (auto simp: authentic_def)
qed

lemma checkOperation_None:
  assumes "checkOperation ss pend p w = (Inr None, w')"
  shows "authentic ss (w_db w) pend (EOperation p)"
proof -
  from assms have v: "Operation_IsUnsignedPartValid (ss_env ss) p"
    by (auto simp: checkOperation_def split: if_splits)
  from assms v obtain w1 w2 u where
    b: "is_banned ss (oAuthorID (operation_content_of p)) w = (Inr False, w1)"
    and f: "find_author ss pend (oAuthorID (operation_content_of p)) w1 = (Inr (Some u), w2)"
    and sig: "Operation_IsSigValid (ss_env ss) p (uPubKey (user_content_of u)) = Ok True"
    by (fastforce simp: checkOperation_def chain_Inr split: if_splits option.splits)
  have "w_db w1 = w_db w"
    using is_banned_frames(2) [of w ss "oAuthorID (operation_content_of p)"] by (simp add: b same_db_def)
  with find_author_Some [OF f] v sig show ?thesis by (auto simp: authentic_def)
qed

lemma check_one_None:
  "check_one ss pend e w = (Inr None, w') \<Longrightarrow> authentic ss (w_db w) pend e"
  using checkUser_None checkMessage_None checkOperation_None
  by (cases e) (force simp: check_one_def authentic_def)+

lemma check_all_None:
  "check_all ss pend es w = (Inr None, w') \<Longrightarrow> \<forall>e \<in> set es. authentic ss (w_db w) pend e"
proof (induction es arbitrary: w)
  case (Cons e es)
  then obtain w1 where 1: "check_one ss pend e w = (Inr None, w1)" "check_all ss pend es w1 = (Inr None, w')"
    by (auto simp: chain_Inr split: if_splits)
  have "w_db w1 = w_db w" using check_one_frames(2) [of w ss pend e] 1(1) by (simp add: same_db_def)
  with Cons.IH [OF 1(2)] check_one_None [OF 1(1)] show ?case by simp
qed simp

lemma checkPendingEntities_None:
  assumes "checkPendingEntities ss pend w = (Inr None, w')"
  shows "\<forall>e \<in> set pend. authentic ss (w_db w) pend e"
  using assms check_all_None [of ss pend pend w w']
  by (auto simp: checkPendingEntities_def split: list.splits entity.splits)

text \<open>Where the rows that \<open>d'\<close> has and \<open>d\<close> has not come from.\<close>

definition rows_from :: "entity_database \<Rightarrow> entity_database \<Rightarrow> env \<Rightarrow> entity set \<Rightarrow> bool" where
  "rows_from d d' env E \<longleftrightarrow>
     (\<forall>r \<in> set (Messages d'). r \<in> set (Messages d) \<or> (\<exists>m t. EMessage m \<in> E \<and> r = message_row_of m t)) \<and>
     (\<forall>r \<in> set (Users d'). r \<in> set (Users d) \<or> (\<exists>u t. EUser u \<in> E \<and> r = user_row_of env u t)) \<and>
     (\<forall>r \<in> set (Operations d'). r \<in> set (Operations d) \<or> (\<exists>p t. EOperation p \<in> E \<and> r = operation_row_of p t))"

lemma rows_from_refl: "rows_from d d env E"
  by (simp add: rows_from_def)

lemma rows_from_trans: "rows_from d d' env E \<Longrightarrow> rows_from d' d'' env F \<Longrightarrow> E \<union> F \<subseteq> G \<Longrightarrow> rows_from d d'' env G"
  unfolding rows_from_def by blast

lemma rows_from_mono: "rows_from d d' env E \<Longrightarrow> E \<subseteq> G \<Longrightarrow> rows_from d d' env G"
  unfolding rows_from_def by blast

lemma put_rows:
  "rows_from d (snd (PutUser env eng u ts d)) env {EUser u}"
  "rows_from d (snd (PutMessage eng m ts d)) env {EMessage m}"
  "rows_from d (snd (PutOperation eng p ts d)) env {EOperation p}"
proof -
  show "rows_from d (snd (PutUser env eng u ts d)) env {EUser u}"
    by (auto simp: rows_from_def PutUser_def insert_ignore_def)
  show "rows_from d (snd (PutMessage eng m ts d)) env {EMessage m}"
    using PutMessage_state [of eng m ts d]
    by (auto simp: rows_from_def insert_ignore_def topic_keeps split: if_splits)
  show "rows_from d (snd (PutOperation eng p ts d)) env {EOperation p}"
    using PutOperation_state [of eng p ts d]
    by (elim disjE) (auto simp: rows_from_def insert_ignore_def object_keeps split: if_splits)
qed

lemma put_entity_rows: "rows_from (w_db w) (w_db (snd (put_entity ss e c w))) (ss_env ss) {e}"
proof -
  let ?w = "snd (read_clock w)" and ?now = "w_clock w (w_ticks w)"
  have "w_storage ?w = w_storage w" by (simp add: read_clock_def)
  moreover have "w_db (snd (put_entity ss e c w)) =
      st_db (snd (PutEntity (ss_env ss) (ss_engine ss) e c ?now (w_storage w)))"
    by (simp add: put_entity_def chain_def read_clock_def split_beta)
  moreover have "rows_from (st_db s) (st_db (snd (PutEntity env eng e c now s))) env {e}" for s env eng now
    using put_rows(1) [of "st_db s" env eng _ now] put_rows(2) [of "st_db s" eng _ now env]
      put_rows(3) [of "st_db s" eng _ now env]
    by (cases e) (auto simp: PutEntity_def split: prod.splits sum.splits, (metis snd_conv)+)
  ultimately show ?thesis by simp
qed

lemma store_pending_rows: "rows_from (w_db w) (w_db (snd (store_pending ss es w))) (ss_env ss) (set es)"
proof (induction es arbitrary: w)
  case (Cons e es)
  obtain r w1 where 1: "put_entity ss e (Some (ss_chan ss)) w = (r, w1)" by fastforce
  have a: "rows_from (w_db w) (w_db w1) (ss_env ss) {e}"
    using put_entity_rows [of w ss e "Some (ss_chan ss)"] 1 by simp
  show ?case
  proof (cases "or_fatal r")
    case (Inl f)
    then have "snd (store_pending ss (e # es) w) = w1" by (simp add: chain_def fatal_def 1)
    with rows_from_trans [OF a rows_from_refl [where E = "{}"], of "set (e # es)"] show ?thesis by simp
  next
    case (Inr x)
    then have "snd (store_pending ss (e # es) w) = snd (store_pending ss es w1)"
      by (simp add: chain_def fatal_def 1)
    with rows_from_trans [OF a Cons.IH, of "set (e # es)"] show ?thesis by simp
  qed
qed (simp add: rows_from_refl)

text \<open>The bans that the node itself issues.\<close>

definition own_bans :: "session \<Rightarrow> entity set" where
  "own_bans ss = {EOperation p |p. oType (operation_content_of p) = OperationTypeBanUser \<and>
     oAuthorID (operation_content_of p) = user_id (ss_owner ss)}"

lemma emerge_ban_own:
  assumes "emerge_ban ss i c w = (Inr p, w')"
  shows "EOperation p \<in> own_bans ss"
  using assms
  by (auto simp: emerge_ban_def chain_def read_clock_def own_bans_def EmergeOperation_def Let_def
      newUnsignedOperation_def newOperationContent_def bind_result_def
      split: if_splits prod.splits sum.splits)

lemma banUser_rows: "rows_from (w_db w) (w_db (snd (banUser ss i c w))) (ss_env ss) (own_bans ss)"
proof -
  obtain r w1 where e: "emerge_ban ss i c w = (r, w1)" by fastforce
  then have 1: "w_db w1 = w_db w" using emerge_ban_frames(2) [of w ss i c] by (simp add: same_db_def)
  have "rows_from (w_db w1) (w_db (snd (ignore_error (put_entity ss (EOperation p) None) w1))) (ss_env ss) (own_bans ss)"
    if "r = Inr p" for p
  proof -
    have "snd (ignore_error (put_entity ss (EOperation p) None) w1) = snd (put_entity ss (EOperation p) None w1)"
      by (auto simp: ignore_error_def split: prod.splits sum.splits fault.splits)
    moreover have "{EOperation p} \<subseteq> own_bans ss" using emerge_ban_own e that by blast
    ultimately show ?thesis
      using rows_from_mono [OF put_entity_rows] by simp
  qed
  with 1 rows_from_refl show ?thesis
    by (auto simp: banUser_def e split: sum.split fault.split error.split)
qed

end
