(* ===== verification/Receive.thy ===== *)
theory Receive
  imports PeerSafety
begin

text \<open>
  Receiving an announced entity: what can get into the database, how much a peer can make
  the node request, and the orders of storing that end the process.
\<close>

section \<open>One reception\<close>

text \<open>
  The rows one action added come from a list of entities that were all checked against the
  database as it was before the action, or from the node's own bans.
\<close>

definition adds_checked :: "session \<Rightarrow> world \<Rightarrow> world \<Rightarrow> bool" where
  "adds_checked ss w w' \<longleftrightarrow> (\<exists>pend. (\<forall>e \<in> set pend. authentic ss (w_db w) pend e) \<and>
     rows_from (w_db w) (w_db w') (ss_env ss) (set pend \<union> own_bans ss))"

lemma adds_checked_nil:
  "rows_from (w_db w) (w_db w') (ss_env ss) (own_bans ss) \<Longrightarrow> adds_checked ss w w'"
  unfolding adds_checked_def by (rule exI [of _ "[]"]) simp

lemma adds_checked_same: "same_db w w' \<Longrightarrow> adds_checked ss w w'"
  by (rule adds_checked_nil) (simp add: same_db_def rows_from_refl)

lemma adds_checked_before: "same_db w w1 \<Longrightarrow> adds_checked ss w1 w2 \<Longrightarrow> adds_checked ss w w2"
  by (simp add: same_db_def adds_checked_def)

lemma adds_checked_after: "adds_checked ss w w1 \<Longrightarrow> same_db w1 w2 \<Longrightarrow> adds_checked ss w w2"
  by (simp add: same_db_def adds_checked_def)

text \<open>An action that leaves the database alone, followed by one that adds checked rows, and vice versa.\<close>

lemma chain_checked:
  assumes "\<And>w. same_db w (snd (m w))" "\<And>x w'. m w = (Inr x, w') \<Longrightarrow> adds_checked ss w' (snd (f x w'))"
  shows "adds_checked ss w (snd (chain m f w))"
proof -
  obtain r w' where m: "m w = (r, w')" by fastforce
  with assms(1) [of w] have s: "same_db w w'" by simp
  show ?thesis
  proof (cases r)
    case (Inl e)
    then show ?thesis using adds_checked_same [OF s] by (simp add: chain_def m)
  next
    case (Inr x)
    then show ?thesis using adds_checked_before [OF s assms(2)] by (simp add: chain_def m)
  qed
qed

lemma checked_chain:
  assumes "adds_checked ss w (snd (m w))" "\<And>x w. same_db w (snd (f x w))"
  shows "adds_checked ss w (snd (chain m f w))"
proof -
  obtain r w' where m: "m w = (r, w')" by fastforce
  with assms show ?thesis by (cases r) (auto simp: chain_def intro: adds_checked_after)
qed

text \<open>Adding nothing but own bans is one more frame.\<close>

definition bans_only :: "session \<Rightarrow> world \<Rightarrow> world \<Rightarrow> bool" where
  "bans_only ss w w' \<longleftrightarrow> rows_from (w_db w) (w_db w') (ss_env ss) (own_bans ss)"

interpretation ban_frame: frame "bans_only ss" for ss
  by unfold_locales (auto simp: bans_only_def rows_from_refl intro: rows_from_trans)

lemma same_db_bans: "same_db w w' \<Longrightarrow> bans_only ss w w'"
  by (simp add: same_db_def bans_only_def rows_from_refl)

lemma banUser_bans: "bans_only ss w (snd (banUser ss i c w))"
  by (simp add: bans_only_def banUser_rows)

lemma ban_sender_bans:
  "bans_only ss w (snd (chain the_user (\<lambda>u. chain (banUser ss (user_id u) c) (\<lambda>_. fail e)) w))"
  by (intro ban_frame.chain_frame ban_frame.pure_frame banUser_bans same_db_bans frames)

lemma too_deep_bans: "bans_only ss w (snd (too_deep ss pend w))"
  unfolding too_deep_def
  by (intro ban_frame.chain_frame ban_frame.pure_frame banUser_bans same_db_bans frames)

lemma bans_checked: "bans_only ss w w' \<Longrightarrow> adds_checked ss w w'"
  unfolding bans_only_def by (rule adds_checked_nil)

lemma receive_loop_adds: "adds_checked ss w (snd (receive_loop ss pend i w))"
proof (induction ss pend i arbitrary: w rule: receive_loop.induct)
  case (1 ss pend i)
  have "adds_checked ss w2 (snd ((case err of
         None \<Rightarrow> store_pending ss (pend @ [e])
       | Some (NeedID j) \<Rightarrow>
           if length (pend @ [e]) < MaxPendingEntitiesNum then receive_loop ss (pend @ [e]) j
           else too_deep ss (pend @ [e])
       | Some (BanSender comment) \<Rightarrow>
           chain the_user (\<lambda>u. chain (banUser ss (user_id u) comment) (\<lambda>_. fail ban_sender_error))
       | Some (BanID j comment) \<Rightarrow> banUser ss j comment
       | Some Banned \<Rightarrow> ret ()
       | Some Skip \<Rightarrow> ret ()) w2))"
    if c: "checkPendingEntities ss (pend @ [e]) w1 = (Inr err, w2)" for e err w1 w2
  proof (cases err)
    case None
    have "w_db w2 = w_db w1"
      using checkPendingEntities_frames(2) [of w1 ss "pend @ [e]"] by (simp add: c same_db_def)
    then have "\<forall>x \<in> set (pend @ [e]). authentic ss (w_db w2) (pend @ [e]) x"
      using checkPendingEntities_None [of ss "pend @ [e]" w1] c None by simp
    moreover have "rows_from (w_db w2) (w_db (snd (store_pending ss (pend @ [e]) w2))) (ss_env ss)
        (set (pend @ [e]) \<union> own_bans ss)"
      by (rule rows_from_mono [OF store_pending_rows]) auto
    ultimately show ?thesis unfolding None option.case adds_checked_def by blast
  next
    case (Some ce)
    then show ?thesis
    proof (cases ce)
      case (NeedID j)
      with Some 1 show ?thesis by (simp add: bans_checked too_deep_bans)
    qed (auto intro: bans_checked banUser_bans ban_sender_bans ban_frame.R_refl)
  qed
  then show ?case unfolding receive_loop.simps [of ss pend i]
    by (intro chain_checked frames)
qed

section \<open>The other states\<close>

lemma interested_frames [frames]:
  "same_peer w (snd (isInterestedInMessage ss s m w))" "same_db w (snd (isInterestedInMessage ss s m w))"
  "same_outbox w (snd (isInterestedInMessage ss s m w))"
  unfolding isInterestedInMessage_def by (intro frame_intros frames)+

lemma interested_entity_frames [frames]:
  "same_peer w (snd (isInterestedInEntity ss e t w))" "same_db w (snd (isInterestedInEntity ss e t w))"
  "same_outbox w (snd (isInterestedInEntity ss e t w))"
proof -
  have "same_peer w (snd (chain (fatal (on_db g)) (isInterestedInMessage ss s) w))"
    "same_db w (snd (chain (fatal (on_db g)) (isInterestedInMessage ss s) w))"
    "same_outbox w (snd (chain (fatal (on_db g)) (isInterestedInMessage ss s) w))" for g s
    by (intro frame_intros frames)+
  then show "same_peer w (snd (isInterestedInEntity ss e t w))" "same_db w (snd (isInterestedInEntity ss e t w))"
    "same_outbox w (snd (isInterestedInEntity ss e t w))"
    by (simp_all add: isInterestedInEntity_def Let_def interested_frames peer_frame.R_refl db_frame.R_refl
        outbox_frame.R_refl split: entity.split)
qed

lemma take_outEntity_frames [frames]:
  "same_peer w (snd (take_outEntity ss w))" "same_db w (snd (take_outEntity ss w))"
  "same_outbox w (snd (take_outEntity ss w))"
  by (auto simp: take_outEntity_def same_defs split: list.splits)

lemma idle_frames [frames]:
  "same_peer w (snd (perform_Idle ss w))" "same_db w (snd (perform_Idle ss w))"
  "same_outbox w (snd (perform_Idle ss w))"
proof -
  obtain r w1 where r: "Read w = (r, w1)" by fastforce
  have f: "same_peer w w1" "same_db w w1" "same_outbox w w1" using basic_frames(13-15) [of w] by (simp_all add: r)
  let ?out = "chain (take_outEntity ss) (\<lambda>out. case out of
    Some e \<Rightarrow> chain read_clock (\<lambda>now. ret (Sending e now Idle)) | None \<Rightarrow> ret Idle)"
  have g: "same_peer w1 (snd (?out w1))" "same_db w1 (snd (?out w1))" "same_outbox w1 (snd (?out w1))"
    by (intro frame_intros frames)+
  show "same_peer w (snd (perform_Idle ss w))" "same_db w (snd (perform_Idle ss w))"
    "same_outbox w (snd (perform_Idle ss w))"
    using f peer_frame.R_trans [OF f(1) g(1)] db_frame.R_trans [OF f(2) g(2)] outbox_frame.R_trans [OF f(3) g(3)]
    by (auto simp: perform_Idle_def r split: sum.splits)
qed

lemma sendEntity_frames [frames]:
  "same_peer w (snd (sendEntity ss e w))" "same_db w (snd (sendEntity ss e w))"
  "same_peer w (snd (sendAnnounce ss i w))" "same_db w (snd (sendAnnounce ss i w))"
  "same_peer w (snd (processReq ss e pkt w))" "same_db w (snd (processReq ss e pkt w))"
  unfolding processReq_def sendEntity_def sendAnnounce_def by (intro frame_intros frames)+

context frame
begin

lemma Sending_loop_frame:
  assumes "\<And>w. R w (snd (Read w))" "\<And>w. R w (snd (the_user w))" "\<And>pkt key w. R w (snd (check_sig ss pkt key w))"
    "\<And>pkt f i w. R w (snd (check_header ss pkt f i w))" "\<And>e pkt w. R w (snd (processReq ss e pkt w))"
  shows "R w (snd (Sending_loop inbox ss e next w))"
proof (induction inbox arbitrary: w)
  case Nil
  show ?case unfolding Sending_loop.simps by (intro chain_frame pure_frame assms)
next
  case (Cons x inbox)
  show ?case unfolding Sending_loop.simps by (intro chain_frame if_frame pure_frame assms Cons.IH)
qed

end

lemma Sending_frames [frames]:
  "same_peer w (snd (perform_Sending ss e t next w))" "same_db w (snd (perform_Sending ss e t next w))"
  unfolding perform_Sending_def
  by (intro frame_intros frames peer_frame.Sending_loop_frame db_frame.Sending_loop_frame)+

lemma syncing_frames [frames]:
  "same_peer w (snd (getStartTime w))" "same_db w (snd (getStartTime w))"
  "same_peer w (snd (perform_ActiveSyncing ss ms os t w))" "same_db w (snd (perform_ActiveSyncing ss ms os t w))"
  "same_peer w (snd (perform_PassiveSyncing ss w))" "same_db w (snd (perform_PassiveSyncing ss w))"
proof -
  show g: "same_peer w (snd (getStartTime w))" "same_db w (snd (getStartTime w))" for w
    by (auto simp: getStartTime_def same_defs chain_def read_clock_def split: option.splits)
  show "same_peer w (snd (perform_ActiveSyncing ss ms os t w))" "same_db w (snd (perform_ActiveSyncing ss ms os t w))"
    unfolding perform_ActiveSyncing_def messagesSynced_def operationsSynced_def sendDone_def
    by (intro frame_intros g frames; simp add: same_defs split: prod.split; intro frame_intros g frames)+
  show "same_peer w (snd (perform_PassiveSyncing ss w))" "same_db w (snd (perform_PassiveSyncing ss w))"
    unfolding perform_PassiveSyncing_def by (intro frame_intros frames)+
qed

section \<open>How much a reception can ask for\<close>

text \<open>At most \<open>n\<close> more packets written, after those that were.\<close>

definition sends :: "nat \<Rightarrow> world \<Rightarrow> world \<Rightarrow> bool" where
  "sends n w w' \<longleftrightarrow> (\<exists>ps. w_outbox w' = w_outbox w @ ps \<and> length ps \<le> n)"

lemma sends_trans: "sends m u v \<Longrightarrow> sends n v w \<Longrightarrow> sends (m + n) u w"
  by (fastforce simp: sends_def)

lemma sends_mono: "sends m u v \<Longrightarrow> m \<le> n \<Longrightarrow> sends n u v"
  by (fastforce simp: sends_def)

lemma same_outbox_sends: "same_outbox w w' \<Longrightarrow> sends 0 w w'"
  by (simp add: same_outbox_def sends_def)

lemma chain_sends:
  assumes "\<And>w. sends m w (snd (a w))" "\<And>x w. sends n w (snd (f x w))"
  shows "sends (m + n) w (snd (chain a f w))"
proof -
  obtain r w' where a: "a w = (r, w')" by fastforce
  with assms(1) [of w] have s: "sends m w w'" by simp
  show ?thesis
  proof (cases r)
    case Inl
    then show ?thesis using sends_mono [OF s, of "m + n"] by (simp add: chain_def a)
  next
    case (Inr x)
    then show ?thesis using sends_trans [OF s assms(2) [of w' x]] by (simp add: chain_def a)
  qed
qed

lemma quiet_sends:
  assumes "\<And>w. same_outbox w (snd (a w))" "\<And>x w. sends n w (snd (f x w))"
  shows "sends n w (snd (chain a f w))"
  using chain_sends [of 0 a n f w] assms same_outbox_sends by simp

lemma send_sends: "sends 1 w (snd (send ss t i pld w))"
proof -
  have "sends 1 w (snd (Write p w))" for p w
    by (auto simp: Write_def sends_def split: list.split option.split)
  then show ?thesis unfolding send_def by (intro quiet_sends frames outbox_frame.pure_frame)
qed

lemma send_to_user_sends: "sends 1 w (snd (send_to_user ss t pld w))"
  unfolding send_to_user_def by (intro quiet_sends send_sends frames)

lemma receive_loop_sends:
  "sends (max 1 (MaxPendingEntitiesNum - length pend)) w (snd (receive_loop ss pend i w))"
proof (induction ss pend i arbitrary: w rule: receive_loop.induct)
  case (1 ss pend i)
  let ?n = "max 1 (MaxPendingEntitiesNum - length pend) - 1"
  have more: "sends ?n w (snd (receive_loop ss (pend @ [e]) j w))"
    if "length (pend @ [e]) < MaxPendingEntitiesNum" "\<And>w. sends (max 1 (MaxPendingEntitiesNum - length (pend @ [e]))) w
      (snd (receive_loop ss (pend @ [e]) j w))" for e j w
    using sends_mono [OF that(2)] that(1) by simp
  have "sends ?n w2 (snd ((case err of
         None \<Rightarrow> store_pending ss (pend @ [e])
       | Some (NeedID j) \<Rightarrow>
           if length (pend @ [e]) < MaxPendingEntitiesNum then receive_loop ss (pend @ [e]) j
           else too_deep ss (pend @ [e])
       | Some (BanSender comment) \<Rightarrow>
           chain the_user (\<lambda>u. chain (banUser ss (user_id u) comment) (\<lambda>_. fail ban_sender_error))
       | Some (BanID j comment) \<Rightarrow> banUser ss j comment
       | Some Banned \<Rightarrow> ret ()
       | Some Skip \<Rightarrow> ret ()) w2))" for e err w2
  proof (cases err)
    case (Some ce)
    then show ?thesis
    proof (cases ce)
      case (NeedID j)
      with Some more 1 show ?thesis by (auto intro: sends_mono [OF same_outbox_sends] frames)
    qed (auto intro!: sends_mono [OF same_outbox_sends] frames outbox_frame.R_refl outbox_frame.chain_frame)
  qed (auto intro!: sends_mono [OF same_outbox_sends] frames)
  then have "sends (1 + ?n) w (snd (receive_loop ss pend i w))"
    unfolding receive_loop.simps [of ss pend i] sendReq_def
    by (intro chain_sends quiet_sends send_to_user_sends frames)
  then show ?case by simp
qed

lemma Receiving_sends:
  "sends (MaxPendingEntitiesNum + 1) w (snd (perform_Receiving ss pckt next w))"
proof -
  have "sends (MaxPendingEntitiesNum + 1) w (snd (chain (if has then ret () else receive_loop ss [] a)
      (\<lambda>_. chain (sendAck ss) (\<lambda>_. ret next)) w))" for has a w
  proof (rule chain_sends)
    show "sends MaxPendingEntitiesNum w (snd ((if has then ret () else receive_loop ss [] a) w))" for w
      using receive_loop_sends [of "[]" w ss a] 
      by (auto simp: MaxPendingEntitiesNum_def sends_def)
    show "sends 1 w (snd (chain (sendAck ss) (\<lambda>_. ret next) w))" for w
      unfolding sendAck_def using chain_sends [OF send_to_user_sends same_outbox_sends, where f = "\<lambda>_. ret next"]
      by (simp add: outbox_frame.R_refl)
  qed
  moreover have "same_outbox w (snd (fatal (on_db f) w))" for f :: "entity_database \<Rightarrow> bool result" and w
    by (intro frame_intros frames)
  ultimately show ?thesis unfolding perform_Receiving_def
    by (rule quiet_sends [OF processAnnounce_frames(3) quiet_sends, rotated])
qed

section \<open>Properties\<close>


text \<open>
  C29. How much one announcement can make a node send: at most one request for each of the
  \<open>MaxPendingEntitiesNum\<close> entities it may hold, and the acknowledgement; whatever the answers are,
  the reception ends.
\<close>

theorem Receiving_requests_bounded:
  "\<exists>ps. w_outbox (snd (perform ss (Receiving pckt next) w)) = w_outbox w @ ps \<and>
     length ps \<le> MaxPendingEntitiesNum + 1"
  using Receiving_sends [of w ss pckt "next"] by (simp add: sends_def)


definition toy_removal :: operation where
  "toy_removal = \<lparr>oper_unsigned = newUnsignedOperation toy_env OperationTypeRemoveMessage OperationReasonSpam ''c''
     (replicate 32 1) (message_id (toy_message ''a'' ZeroID (Some [''x'']))) 0, oper_sig = []\<rparr>"

definition toy_world :: world where
  "toy_world = \<lparr>w_storage = \<lparr>st_db = empty_database, st_observers = [], st_buffer = (\<lambda>_. []), st_capacity = (\<lambda>_. 100)\<rparr>,
     w_profile = toy_profile, w_clock = (\<lambda>n. int n * Minute), w_ticks = 0, w_lastOper = 0, w_inbox = [],
     w_outbox = [], w_writes = [], w_user = None, w_subs = [], w_hist = None\<rparr>"

definition toy_session :: session where
  "toy_session = \<lparr>ss_codec = toy_codec, ss_engine = toy_engine, ss_profile_engine = toy_profile_engine,
     ss_owner = \<lparr>user_unsigned = newUnsignedUser toy_env ''owner'' '''' (s_public emerge_signer) 0 0, user_sig = []\<rparr>,
     ss_signer = emerge_signer, ss_chan = 1, ss_active = True, ss_validate = (\<lambda>w. (True, w))\<rparr>"



end
