(* ===== verification/Handshake.thy ===== *)
theory Handshake
  imports Receive
begin

text \<open>
  What a completed handshake has established, and what holds of a peer in every state it
  can reach from there.
\<close>

section \<open>The actions of a handshake, when they succeed\<close>

lemma Read_Ok:
  "Read w = (Inr pkt, w') \<longleftrightarrow> (\<exists>rest. w_inbox w = Inr pkt # rest \<and> w' = w\<lparr>w_inbox := rest\<rparr>)"
  by (auto simp: Read_def split: list.splits sum.splits)

lemma check_sig_Ok: "check_sig ss pkt key w = (Inr x, w') \<longleftrightarrow> VerifySig (ss_codec ss) pkt key = Ok True \<and> w' = w"
  by (auto simp: check_sig_def chain_Inr)

lemma check_header_Ok:
  "check_header ss pkt f i w = (Inr x, w') \<longleftrightarrow>
     VerifyHeaderFull pkt f i (w_clock w (w_ticks w)) = Ok () \<and> w' = w\<lparr>w_ticks := w_ticks w + 1\<rparr>"
  by (auto simp: check_header_def chain_Inr read_clock_def)

lemma on_profile_Ok:
  "on_profile f w = (Inr x, w') \<longleftrightarrow> (\<exists>p. f (w_profile w) = (Inr x, p) \<and> w' = w\<lparr>w_profile := p\<rparr>)"
  by (auto simp: on_profile_def split: prod.splits)

lemma payload_user_Inr:
  "(case i of PUser u \<Rightarrow> f u | _ \<Rightarrow> stop Fatal) w = (Inr x, w') \<longleftrightarrow> (\<exists>u. i = PUser u \<and> f u w = (Inr x, w'))"
  by (cases i) auto

lemma payload_hello_Inr:
  "(case i of PHello v s \<Rightarrow> f v s | _ \<Rightarrow> stop Fatal) w = (Inr x, w') \<longleftrightarrow>
     (\<exists>v s. i = PHello v s \<and> f v s w = (Inr x, w'))"
  by (cases i) auto

text \<open>Sending moves the clock, the packets sent and the outcomes of writing, and nothing else.\<close>

definition only_sent :: "world \<Rightarrow> world \<Rightarrow> bool" where
  "only_sent w w' \<longleftrightarrow> (\<exists>n out wr. w' = w\<lparr>w_ticks := n, w_outbox := out, w_writes := wr\<rparr>)"

interpretation sent_frame: frame only_sent
proof
  show "only_sent w w" for w unfolding only_sent_def by (intro exI [of _ "w_ticks w"] exI [of _ "w_outbox w"] exI [of _ "w_writes w"]) simp
qed (fastforce simp: only_sent_def)

lemma send_only_sent: "only_sent w (snd (send ss t i pld w))"
proof -
  have "only_sent w (snd (read_clock w))" "only_sent w (snd (Write p w))" for w p
    by (auto simp: only_sent_def read_clock_def Write_def split: list.split option.split; cases w; simp)+
  then show ?thesis unfolding send_def by (intro sent_frame.chain_frame sent_frame.pure_frame)
qed

lemma readAndProcessUser_Ok:
  assumes "readAndProcessUser ss w = (Inr u, w')"
  shows "User_IsValid (ss_env ss) u = Ok True \<and>
    (\<exists>p'. IsUserBanned (ss_env ss) (ss_engine ss) (ss_profile_engine ss) (w_db w) (user_id u) (w_profile w) = (Ok False, p')) \<and>
    w_storage w' = w_storage w \<and> set (w_inbox w') \<subseteq> set (w_inbox w)"
  using assms
  by (auto simp: readAndProcessUser_def chain_Inr Read_Ok check_sig_Ok check_header_Ok fatal_Inr on_profile_Ok
      payload_user_Inr split: if_splits)

lemma readAndProcessHello_Ok:
  assumes "readAndProcessHello ss u w = (Inr s, w')"
  shows "Subs_IsValid s \<and> w_storage w' = w_storage w \<and> (\<exists>pkt. Inr pkt \<in> set (w_inbox w) \<and>
    VerifySig (ss_codec ss) pkt (uPubKey (user_content_of u)) = Ok True \<and>
    b_receiver (p_body pkt) = user_id (ss_owner ss) \<and> DecodePayload (ss_codec ss) pkt = Ok (PHello ProtocolVersion s))"
  using assms
  by (auto simp: readAndProcessHello_def chain_Inr Read_Ok check_sig_Ok check_header_Ok VerifyHeaderFull_ok
      payload_hello_Inr split: if_splits)

text \<open>The pool's validation looks at the peers' users; it changes neither the storage nor this peer.\<close>

definition quiet_validate :: "session \<Rightarrow> bool" where
  "quiet_validate ss \<longleftrightarrow> (\<forall>w. w_storage (snd (ss_validate ss w)) = w_storage w \<and> same_peer w (snd (ss_validate ss w)))"

lemma put_user_known:
  assumes "put_entity ss (EUser u) c w = (Inr x, w')"
  shows "user_id u \<in> user_ids (w_db w')"
  using assms
  by (auto simp: put_entity_def chain_def read_clock_def PutEntity_def PutUser_def user_ids_def insert_ignore_def
      user_row_of_def split: prod.splits sum.splits if_splits)

lemma get_history_Ok: "get_history ss i w = (Inr h, w') \<Longrightarrow> w' = w"
  by (simp add: get_history_def)

lemma validate_Inr: "(case p of (ok, w') \<Rightarrow> (Ok ok, w')) = (Inr x, w'') \<longleftrightarrow> p = (x, w'')"
  by (cases p) auto

lemma finalize_Ok:
  assumes "quiet_validate ss" "finalize ss u s w = (Inr x, w')"
  shows "w_user w' = Some u \<and> w_subs w' = s \<and> user_id u \<in> user_ids (w_db w')"
proof -
  from assms(2) obtain has w1 w2 ok w3 where
    1: "on_db (HasUser (ss_engine ss) (user_id u)) w = (Inr has, w1)"
    and 2: "(if has then ret () else fatal (put_entity ss (EUser u) (Some (ss_chan ss)))) w1 = (Inr (), w2)"
    and 3: "ss_validate ss (w2\<lparr>w_user := Some u, w_subs := s\<rparr>) = (ok, w3)"
    and 4: "(if \<not> ok then fail InvalidPeer
      else chain (get_history ss (user_id u)) (\<lambda>h w. (Ok (), w\<lparr>w_hist := h\<rparr>))) w3 = (Inr x, w')"
    unfolding finalize_def chain_Inr fatal_Inr by (auto simp: validate_Inr)
  from 4 obtain h where w': "w' = w3\<lparr>w_hist := h\<rparr>"
    by (auto simp: chain_Inr dest!: get_history_Ok split: if_splits)
  have "user_id u \<in> user_ids (w_db w2)"
  proof (cases has)
    case True
    then have "w2 = w" "user_id u \<in> user_ids (w_db w)" using 1 2
      by (auto simp: on_db_def HasUser_def list_ex_id_iff user_ids_def split: if_splits)
    then show ?thesis by simp
  next
    case False
    then show ?thesis using 2 by (auto simp: fatal_Inr dest: put_user_known)
  qed
  moreover have "w_storage w3 = w_storage w2" "w_user w3 = Some u" "w_subs w3 = s"
    using assms(1) [unfolded quiet_validate_def same_peer_def, rule_format, of "w2\<lparr>w_user := Some u, w_subs := s\<rparr>"]
    by (simp_all add: 3)
  ultimately show ?thesis by (simp add: w')
qed

section \<open>Property\<close>

lemma sendUser_Ok:
  "sendUser ss w = (Inr x, w') \<Longrightarrow> only_sent w w'"
  using send_only_sent [of w ss PacketTypeUser ZeroID "PUser (ss_owner ss)"] by (simp add: sendUser_def)

lemma sendHello_Ok:
  assumes "sendHello ss u w = (Inr x, w')"
  shows "w_storage w' = w_storage w \<and> w_inbox w' = w_inbox w"
proof -
  from assms obtain s p where
    "send ss PacketTypeHello (user_id u) (NewPayloadHello ProtocolVersion s) (w\<lparr>w_profile := p\<rparr>) = (Inr x, w')"
    by (auto simp: sendHello_def chain_Inr on_profile_Ok)
  then show ?thesis
    using send_only_sent [of "w\<lparr>w_profile := p\<rparr>" ss PacketTypeHello "user_id u" "NewPayloadHello ProtocolVersion s"]
    by (auto simp: only_sent_def)
qed

text \<open>
  C4. What a completed handshake has established, on either side: the other node's user is
  valid (its identifier, proof of work and signature), is not banned, and is stored here;
  that node holds the user's key, for it signed a Hello addressed to this node's owner
  which carries its protocol version and its subscriptions; these subscriptions are valid,
  and are what the node will decide by what to send. The next state depends only on the
  side.
\<close>

theorem Handshake_sound:
  assumes "quiet_validate ss" "perform ss Handshaking w = (Inr st, w')"
  shows "\<exists>u pkt p'. w_user w' = Some u \<and> User_IsValid (ss_env ss) u = Ok True \<and>
    IsUserBanned (ss_env ss) (ss_engine ss) (ss_profile_engine ss) (w_db w) (user_id u) (w_profile w) = (Ok False, p') \<and>
    user_id u \<in> user_ids (w_db w') \<and> Subs_IsValid (w_subs w') \<and>
    Inr pkt \<in> set (w_inbox w) \<and> VerifySig (ss_codec ss) pkt (uPubKey (user_content_of u)) = Ok True \<and>
    b_receiver (p_body pkt) = user_id (ss_owner ss) \<and>
    DecodePayload (ss_codec ss) pkt = Ok (PHello ProtocolVersion (w_subs w')) \<and>
    st = (if ss_active ss then newStateActiveSyncing else PassiveSyncing)"
proof (cases "ss_active ss")
  case True
  with assms(2) obtain w1 w2 w3 w4 u s where
    1: "sendUser ss w = (Inr (), w1)" and 2: "readAndProcessUser ss w1 = (Inr u, w2)"
    and 3: "sendHello ss u w2 = (Inr (), w3)" and 4: "readAndProcessHello ss u w3 = (Inr s, w4)"
    and 5: "finalize ss u s w4 = (Inr (), w')" "st = newStateActiveSyncing"
    by (auto simp: perform_Handshaking_def chain_Inr)
  from sendUser_Ok [OF 1] have "w_storage w1 = w_storage w" "w_profile w1 = w_profile w" "w_inbox w1 = w_inbox w"
    by (auto simp: only_sent_def)
  with readAndProcessUser_Ok [OF 2] sendHello_Ok [OF 3] readAndProcessHello_Ok [OF 4]
    finalize_Ok [OF assms(1) 5(1)] 5(2) True
  show ?thesis by (auto dest: subsetD)
next
  case False
  with assms(2) obtain w1 w2 w3 w4 u s where
    1: "readAndProcessUser ss w = (Inr u, w1)" and 2: "sendUser ss w1 = (Inr (), w2)"
    and 3: "readAndProcessHello ss u w2 = (Inr s, w3)" and 4: "sendHello ss u w3 = (Inr (), w4)"
    and 5: "finalize ss u s w4 = (Inr (), w')" "st = PassiveSyncing"
    by (auto simp: perform_Handshaking_def chain_Inr)
  from sendUser_Ok [OF 2] have "w_inbox w2 = w_inbox w1" by (auto simp: only_sent_def)
  with readAndProcessUser_Ok [OF 1] readAndProcessHello_Ok [OF 3]
    finalize_Ok [OF assms(1) 5(1)] 5(2) False
  show ?thesis by (auto dest: subsetD)
qed

text \<open>Conversely, when each step of it finds what it needs the handshake completes.\<close>

lemma readAndProcessUser_intro:
  assumes "w_inbox w = Inr pkt # rest" "VerifyHeaderFull pkt (\<lambda>t. t = PacketTypeUser) ZeroID (w_clock w (w_ticks w)) = Ok ()"
    and "DecodePayload (ss_codec ss) pkt = Ok (PUser u)" "User_IsValid (ss_env ss) u = Ok True"
    and "VerifySig (ss_codec ss) pkt (uPubKey (user_content_of u)) = Ok True"
    and "IsUserBanned (ss_env ss) (ss_engine ss) (ss_profile_engine ss) (w_db w) (user_id u) (w_profile w) = (Ok False, p)"
  shows "readAndProcessUser ss w = (Ok u, w\<lparr>w_inbox := rest, w_ticks := w_ticks w + 1, w_profile := p\<rparr>)"
  using assms
  by (simp add: readAndProcessUser_def chain_def Read_def check_header_def read_clock_def check_sig_def fatal_def
      on_profile_def violation_def or_fatal_def)

lemma readAndProcessHello_intro:
  assumes "w_inbox w = Inr pkt # rest" "VerifySig (ss_codec ss) pkt (uPubKey (user_content_of u)) = Ok True"
    and "VerifyHeaderFull pkt (\<lambda>t. t = PacketTypeHello) (user_id (ss_owner ss)) (w_clock w (w_ticks w)) = Ok ()"
    and "DecodePayload (ss_codec ss) pkt = Ok (PHello ProtocolVersion s)" "Subs_IsValid s"
  shows "readAndProcessHello ss u w = (Ok s, w\<lparr>w_inbox := rest, w_ticks := w_ticks w + 1\<rparr>)"
  using assms
  by (simp add: readAndProcessHello_def chain_def Read_def check_header_def read_clock_def check_sig_def
      violation_def)

lemma send_intro:
  assumes "NewPacket (ss_codec ss) t i pld (ss_signer ss) (w_clock w (w_ticks w)) = Ok p" "w_writes w = []"
  shows "send ss t i pld w = (Ok (), w\<lparr>w_ticks := w_ticks w + 1, w_outbox := w_outbox w @ [p]\<rparr>)"
  using assms by (simp add: send_def chain_def read_clock_def Write_def)

lemma sendHello_intro:
  assumes "Profile_GetSubscriptions (ss_profile_engine ss) (w_profile w) = (Ok s, p)"
    and "\<And>t i pld now. \<exists>pkt. NewPacket (ss_codec ss) t i pld (ss_signer ss) now = Ok pkt" "w_writes w = []"
  shows "\<exists>w'. sendHello ss u w = (Ok (), w') \<and> w_db w' = w_db w \<and> w_profile w' = p"
proof -
  obtain pkt where "NewPacket (ss_codec ss) PacketTypeHello (user_id u) (NewPayloadHello ProtocolVersion s)
      (ss_signer ss) (w_clock w (w_ticks w)) = Ok pkt" using assms(2) by blast
  with send_intro [of ss PacketTypeHello "user_id u" "NewPayloadHello ProtocolVersion s" "w\<lparr>w_profile := p\<rparr>" pkt] assms
  show ?thesis by (simp add: sendHello_def chain_def on_profile_def)
qed

lemma finalize_intro:
  assumes "HasUser (ss_engine ss) (user_id u) (w_db w) = Ok False"
    and "\<And>ts. \<exists>d. PutUser (ss_env ss) (ss_engine ss) u ts (w_db w) = (Ok (), d)"
    and "ss_validate ss = (\<lambda>w. (True, w))"
    and "Profile_GetUserHistory (ss_profile_engine ss) (user_id u) (w_profile w) = Err NoUserHistory"
  shows "\<exists>w'. finalize ss u s w = (Ok (), w')"
proof -
  obtain d where "PutUser (ss_env ss) (ss_engine ss) u (w_clock w (w_ticks w)) (w_db w) = (Ok (), d)"
    using assms(2) by blast
  with assms show ?thesis
    by (simp add: finalize_def chain_def on_db_def fatal_def or_fatal_def put_entity_def read_clock_def PutEntity_def
        get_history_def)
qed

lemma passive_handshake_intro:
  assumes "\<not> ss_active ss" "readAndProcessUser ss w = (Ok u, w1)" "sendUser ss w1 = (Ok (), w2)"
    and "readAndProcessHello ss u w2 = (Ok s, w3)" "sendHello ss u w3 = (Ok (), w4)" "finalize ss u s w4 = (Ok (), w5)"
  shows "perform ss Handshaking w = (Ok PassiveSyncing, w5)"
  using assms by (simp add: perform_Handshaking_def chain_def)

text \<open>A handshake that succeeds: the other node is that of a user with the owner's key.\<close>

definition hs_session :: session where
  "hs_session = toy_session\<lparr>ss_codec := toy_codec\<lparr>parse_user := \<lambda>_. Ok toy_user,
     parse_hello := \<lambda>_. Ok (1, [Some [''x'']])\<rparr>, ss_active := False\<rparr>"

definition hs_packet :: "gostring \<Rightarrow> entity_id \<Rightarrow> packet" where
  "hs_packet t i = \<lparr>p_body = \<lparr>b_type = t, b_receiver = i, b_date = 0, b_payload = []\<rparr>, p_sig = toy_sig\<rparr>"

definition hs_start :: world where
  "hs_start = toy_world\<lparr>w_inbox := [Inr (hs_packet PacketTypeUser ZeroID),
     Inr (hs_packet PacketTypeHello (user_id (ss_owner hs_session)))]\<rparr>"

definition hs_world :: world where
  "hs_world = snd (NewPeer hs_session hs_start)"

lemma hs_world_parts:
  "w_writes hs_world = []" "w_db hs_world = empty_database" "w_profile hs_world = toy_profile"
  "w_inbox hs_world = [Inr (hs_packet PacketTypeUser ZeroID),
     Inr (hs_packet PacketTypeHello (user_id (ss_owner hs_session)))]"
  "w_ticks hs_world = 0" "w_clock hs_world = (\<lambda>n. int n * Minute)"
  by (simp_all add: hs_world_def NewPeer_def AttachObserver_def hs_start_def toy_world_def)

lemma hs_parts:
  "ss_env hs_session = toy_env" "ss_engine hs_session = toy_engine" "ss_profile_engine hs_session = toy_profile_engine"
  "ss_signer hs_session = emerge_signer" "\<not> ss_active hs_session" "ss_chan hs_session = 1"
  "ss_validate hs_session = (\<lambda>w. (True, w))"
  by (simp_all add: hs_session_def toy_session_def toy_codec_def)

lemma hs_banned:
  "IsUserBanned toy_env toy_engine toy_profile_engine empty_database i p = (Ok False, p)"
  by (simp add: IsUserBanned_def GetOperationsOnUser_def toy_engine_def empty_database_def by_rank_def
      scanOperationRows_def)

lemma hs_sigs:
  "uPubKey (user_content_of toy_user) = s_public emerge_signer"
  "VerifySig (ss_codec hs_session) (hs_packet t i) (s_public emerge_signer) = Ok True"
  "DecodePayload (ss_codec hs_session) (hs_packet PacketTypeUser i) = Ok (PUser toy_user)"
  "DecodePayload (ss_codec hs_session) (hs_packet PacketTypeHello i) = Ok (PHello ProtocolVersion [Some [''x'']])"
  using toy_Verify
  by (simp_all add: toy_user_def newUnsignedUser_def newUserContent_def Let_def VerifySig_def hs_packet_def
      hs_session_def toy_session_def toy_codec_def DecodePayload_def decode_as_def packet_type_defs ProtocolVersion_def)

lemma hs_header:
  "VerifyHeaderFull (hs_packet t i) f j now = Ok () \<longleftrightarrow> f t \<and> i = j \<and> now \<le> 3 * Minute"
  by (auto simp: VerifyHeaderFull_ok hs_packet_def hs_world_parts duration_defs MaxTimeDiscrepancy_def)

lemma hs_NewPacket: "\<exists>p. NewPacket (ss_codec hs_session) t i pld (ss_signer hs_session) now = Ok p"
  using toy_Sign by (simp add: NewPacket_def Let_def hs_session_def toy_session_def toy_codec_def)

lemma hs_read_user:
  "readAndProcessUser hs_session hs_world = (Ok toy_user, hs_world\<lparr>w_inbox := tl (w_inbox hs_world), w_ticks := 1\<rparr>)"
proof -
  have "readAndProcessUser hs_session hs_world = (Ok toy_user, hs_world\<lparr>w_inbox := tl (w_inbox hs_world),
      w_ticks := w_ticks hs_world + 1, w_profile := w_profile hs_world\<rparr>)"
    by (intro readAndProcessUser_intro [where pkt = "hs_packet PacketTypeUser ZeroID"])
      (simp_all add: hs_parts hs_sigs hs_banned hs_header toy_user_valid hs_world_parts duration_defs)
  then show ?thesis by (simp add: hs_world_parts)
qed

lemma hs_runs: "\<exists>w'. perform hs_session Handshaking hs_world = (Ok PassiveSyncing, w')"
proof -
  define w1 where "w1 = hs_world\<lparr>w_inbox := tl (w_inbox hs_world), w_ticks := 1\<rparr>"
  note basic = hs_world_parts
  obtain p where p: "NewPacket (ss_codec hs_session) PacketTypeUser ZeroID (PUser (ss_owner hs_session))
      (ss_signer hs_session) (w_clock w1 (w_ticks w1)) = Ok p" using hs_NewPacket by blast
  define w2 where "w2 = w1\<lparr>w_ticks := w_ticks w1 + 1, w_outbox := w_outbox w1 @ [p]\<rparr>"
  have 1: "sendUser hs_session w1 = (Ok (), w2)"
    unfolding sendUser_def w2_def by (rule send_intro [OF p]) (simp add: w1_def basic)
  define w3 where "w3 = w2\<lparr>w_inbox := [], w_ticks := w_ticks w2 + 1\<rparr>"
  have 2: "readAndProcessHello hs_session toy_user w2 = (Ok [Some [''x'']], w3)"
    unfolding w3_def
    by (rule readAndProcessHello_intro [where pkt = "hs_packet PacketTypeHello (user_id (ss_owner hs_session))"])
      (simp_all add: w2_def w1_def basic hs_sigs hs_header duration_defs Subs_IsValid_def MaxSubscriptionLen_def toy_tag_valid)
  have w3: "w_profile w3 = toy_profile" "w_writes w3 = []" "w_db w3 = empty_database"
    by (simp_all add: w3_def w2_def w1_def basic)
  have "Profile_GetSubscriptions (ss_profile_engine hs_session) (w_profile w3) = (Ok [], toy_profile)"
    unfolding w3(1) hs_parts
    by (simp add: Profile_GetSubscriptions_def toy_profile_def NewProfile_def GetSubscriptions_def
        toy_profile_engine_def empty_profile_database_def Subs_Copy_def)
  from sendHello_intro [OF this hs_NewPacket w3(2), of toy_user] w3 obtain w4 where
    3: "sendHello hs_session toy_user w3 = (Ok (), w4)" "w_db w4 = empty_database" "w_profile w4 = toy_profile" by auto
  have "\<exists>w'. finalize hs_session toy_user [Some [''x'']] w4 = (Ok (), w')"
    by (rule finalize_intro)
      (simp_all add: 3 hs_parts HasUser_def toy_engine_def empty_database_def PutUser_def toy_user_def
        newUnsignedUser_def newUserContent_def Let_def Profile_GetUserHistory_def toy_profile_def NewProfile_def
        GetUserHistory_def toy_profile_engine_def empty_profile_database_def)
  with passive_handshake_intro [OF hs_parts(5) hs_read_user [folded w1_def] 1 2 3(1)] show ?thesis by blast
qed

theorem Handshake_sound_witness:
  "\<exists>w' u. perform hs_session Handshaking hs_world = (Ok PassiveSyncing, w') \<and>
     w_user w' = Some u \<and> User_IsValid toy_env u = Ok True \<and> user_id u \<in> user_ids (w_db w')"
proof -
  obtain w' where run: "perform hs_session Handshaking hs_world = (Ok PassiveSyncing, w')" using hs_runs by blast
  have "quiet_validate hs_session" by (simp add: quiet_validate_def hs_parts same_peer_def)
  from Handshake_sound [OF this run] run show ?thesis by (auto simp: hs_parts)
qed

end
