(* ===== verification/PeerRun.thy ===== *)
theory PeerRun
  imports Handshake
begin

text \<open>
  The runs of a peer: what they do to the database, and what holds in every state they reach.
\<close>

section \<open>What a whole run does to the database\<close>

text \<open>
  A frame that ignores everything but the database and that every \<open>put_entity\<close> respects is
  respected by every action of a peer.
\<close>

locale db_relation = frame +
  fixes ss :: session
  assumes same_db_R: "same_db w w' \<Longrightarrow> R w w'"
    and put_R: "R w (snd (put_entity ss e c w))"
begin

lemma banUser_R: "R w (snd (banUser ss i c w))"
proof -
  obtain r w1 where e: "emerge_ban ss i c w = (r, w1)" by fastforce
  then have 1: "R w w1" using emerge_ban_frames(2) [of w ss i c] by (simp add: same_db_R)
  moreover have "R w1 (snd (ignore_error (put_entity ss (EOperation p) None) w1))" for p
    by (intro ignore_frame put_R)
  ultimately show ?thesis using R_trans
    by (auto simp: banUser_def e split: sum.split fault.split error.split)
qed

lemma store_R: "R w (snd (store_pending ss es w))"
  by (rule store_pending_frame) (rule put_R)

lemma too_deep_R: "R w (snd (too_deep ss pend w))"
  unfolding too_deep_def by (intro chain_frame pure_frame banUser_R same_db_R frames)

lemma receive_loop_R: "R w (snd (receive_loop ss pend i w))"
proof (induction "MaxPendingEntitiesNum - length pend" arbitrary: pend i w rule: less_induct)
  case less
  have again: "R w (snd (receive_loop ss (pend @ [e]) j w))"
    if "length (pend @ [e]) < MaxPendingEntitiesNum" for e j w
    using that by (intro less) simp
  show ?case unfolding receive_loop.simps [of ss pend i]
    by (intro chain_frame option_frame check_error_frame if_frame pure_frame store_R too_deep_R banUser_R again)
      (assumption | intro same_db_R frames)+
qed

lemma Receiving_R: "R w (snd (perform_Receiving ss pckt next w))"
  unfolding perform_Receiving_def
  by (intro chain_frame if_frame pure_frame fatal_frame receive_loop_R) (intro same_db_R frames)+

lemma readAndProcess_db:
  "same_db w (snd (readAndProcessUser ss w))" "same_db w (snd (readAndProcessHello ss u w))"
  "same_db w (snd (sendUser ss w))" "same_db w (snd (sendHello ss u w))" "same_db w (snd (get_history ss i w))"
proof -
  have "same_db w1 (snd (fatal (on_profile (g (w_db w1))) w1))" for w1 and g :: "entity_database \<Rightarrow> profile \<Rightarrow> bool result \<times> profile"
    by (intro frame_intros frames)
  then show "same_db w (snd (readAndProcessUser ss w))"
    unfolding readAndProcessUser_def by (intro frame_intros frames)
  show "same_db w (snd (readAndProcessHello ss u w))"
    unfolding readAndProcessHello_def by (intro frame_intros frames)
  show "same_db w (snd (sendUser ss w))" "same_db w (snd (sendHello ss u w))"
    unfolding sendUser_def sendHello_def by (intro frame_intros frames)+
  show "same_db w (snd (get_history ss i w))" by (simp add: get_history_def same_db_def)
qed

lemma finalize_R:
  assumes "quiet_validate ss"
  shows "R w (snd (finalize ss u s w))"
proof -
  have v: "R w (snd (case ss_validate ss w of (ok, w') \<Rightarrow> (Ok ok, w')))" for w
    using assms same_db_R [of w "snd (ss_validate ss w)"]
    by (cases "ss_validate ss w") (simp add: quiet_validate_def same_db_def, metis snd_conv)
  show ?thesis
    unfolding finalize_def
    by (intro chain_frame if_frame pure_frame fatal_frame put_R v) (intro same_db_R frames readAndProcess_db; simp add: same_db_def)+
qed

lemma perform_R: "quiet_validate ss \<Longrightarrow> R w (snd (perform ss st w))"
proof (cases st)
  case Handshaking
  assume "quiet_validate ss"
  then show ?thesis unfolding Handshaking perform.simps perform_Handshaking_def
    by (intro if_frame chain_frame pure_frame finalize_R) (assumption | intro same_db_R readAndProcess_db)+
next
  case (Receiving pckt st')
  then show ?thesis by (simp add: Receiving_R)
qed (auto intro!: same_db_R frames)

lemma run_step_R: "quiet_validate ss \<Longrightarrow> R w (snd (run_step ss st w))"
  using perform_R [of w st] by (auto simp: run_step_def split: prod.split sum.split fault.split)

lemma run_reach_R:
  assumes "quiet_validate ss" "run_reach ss start s"
  shows "R (snd start) (snd s)"
  using assms(2)
proof induction
  case run_start
  show ?case by (simp add: R_refl)
next
  case (run_perform st w)
  then show ?case using R_trans run_step_R [OF assms(1)] by fastforce
qed

end

text \<open>Two relations of that kind: no row is lost, and the invariant of the tables is kept.\<close>

definition grows :: "world \<Rightarrow> world \<Rightarrow> bool" where
  "grows w w' \<longleftrightarrow> set (Users (w_db w)) \<subseteq> set (Users (w_db w')) \<and>
     set (Messages (w_db w)) \<subseteq> set (Messages (w_db w')) \<and> set (Operations (w_db w)) \<subseteq> set (Operations (w_db w'))"

definition keeps_wf :: "world \<Rightarrow> world \<Rightarrow> bool" where
  "keeps_wf w w' \<longleftrightarrow> (db_wf (w_db w) \<longrightarrow> db_wf (w_db w'))"

lemma put_entity_db:
  "\<exists>ts. w_db (snd (put_entity ss e c w)) = snd (case e of
     EUser u \<Rightarrow> PutUser (ss_env ss) (ss_engine ss) u ts (w_db w)
   | EMessage m \<Rightarrow> PutMessage (ss_engine ss) m ts (w_db w)
   | EOperation p \<Rightarrow> PutOperation (ss_engine ss) p ts (w_db w))"
  by (rule exI [of _ "w_clock w (w_ticks w)"])
    (cases e; auto simp: put_entity_def chain_def read_clock_def PutEntity_def split: prod.split sum.split)

interpretation growing: db_relation grows ss for ss
proof
  show "grows w (snd (put_entity ss e c w))" for w e c
    using put_entity_db [of ss e c w] by (cases e) (auto simp: grows_def put_keeps intro: put_keeps(1-3) [THEN subsetD])
qed (auto simp: grows_def same_db_def)

interpretation wf_keeping: db_relation keeps_wf ss for ss
proof
  show "keeps_wf w (snd (put_entity ss e c w))" for w e c
    using put_entity_db [of ss e c w] PutUser_wf PutMessage_wf PutOperation_wf
    by (cases e) (auto simp: keeps_wf_def)
qed (auto simp: keeps_wf_def same_db_def)

section \<open>States that can be reached\<close>

text \<open>Only an idle or synchronising state is ever waiting to be gone back to.\<close>

fun well_nested :: "state \<Rightarrow> bool" where
  "well_nested (Sending e t next) \<longleftrightarrow> State_ID next \<in> {StateIDIdle, StateIDActiveSyncing, StateIDPassiveSyncing}"
| "well_nested (Receiving p next) \<longleftrightarrow> State_ID next \<in> {StateIDIdle, StateIDActiveSyncing, StateIDPassiveSyncing}"
| "well_nested st \<longleftrightarrow> True"

lemma Sending_loop_next: "Sending_loop inbox ss e next w = (Inr st, w') \<Longrightarrow> st = next"
  by (induction inbox arbitrary: w) (auto simp: chain_Inr split: if_splits)

lemma settled:
  "State_ID n \<in> {StateIDIdle, StateIDActiveSyncing, StateIDPassiveSyncing} \<Longrightarrow>
     well_nested n \<and> State_ID n \<noteq> StateIDHandshaking"
  by (cases n) simp_all

text \<open>A condition on what an action results in when it succeeds.\<close>

definition yields :: "('a \<Rightarrow> bool) \<Rightarrow> 'a act \<Rightarrow> bool" where
  "yields P m \<longleftrightarrow> (\<forall>w x w'. m w = (Inr x, w') \<longrightarrow> P x)"

lemma yields_intros:
  "(\<And>x. yields P (f x)) \<Longrightarrow> yields P (chain m f)"
  "P y \<Longrightarrow> yields P (ret y)" "yields P (fail e)" "yields P (stop ft)"
  "yields P a \<Longrightarrow> yields P b \<Longrightarrow> yields P (if c then a else b)"
  "yields P a \<Longrightarrow> (\<And>z. yields P (g z)) \<Longrightarrow> yields P (case q of None \<Rightarrow> a | Some z \<Rightarrow> g z)"
  "yields P a \<Longrightarrow> (\<And>z zs. yields P (h z zs)) \<Longrightarrow> yields P (case l of [] \<Rightarrow> a | z # zs \<Rightarrow> h z zs)"
  "(\<And>x y. yields P (k x y)) \<Longrightarrow> yields P (case r of (x, y) \<Rightarrow> k x y)"
  "(\<And>x. yields P (i x)) \<Longrightarrow> (\<And>x. yields P (j x)) \<Longrightarrow> yields P (case s of Inl x \<Rightarrow> i x | Inr x \<Rightarrow> j x)"
  by (auto simp: yields_def chain_Inr split: option.splits list.splits prod.splits sum.splits)

lemma Sending_loop_yields: "yields (\<lambda>st. st = next) (Sending_loop inbox ss e next)"
  by (induction inbox) (simp only: Sending_loop.simps, intro yields_intros refl; assumption?)+

lemma Sending_yields: "yields (\<lambda>st. st = next) (perform_Sending ss e t next)"
proof -
  have "yields (\<lambda>st. st = next) (\<lambda>w. Sending_loop (w_inbox w) ss e next w)"
    using Sending_loop_yields by (auto simp: yields_def)
  then show ?thesis unfolding perform_Sending_def by (intro yields_intros refl)
qed

lemma Idle_yields:
  assumes "perform_Idle ss w = (Inr st, w')"
  shows "well_nested st \<and> State_ID st \<noteq> StateIDHandshaking"
proof -
  let ?P = "\<lambda>st. well_nested st \<and> State_ID st \<noteq> StateIDHandshaking"
  have "yields ?P (chain (take_outEntity ss) (\<lambda>out. case out of
    Some e \<Rightarrow> chain read_clock (\<lambda>now. ret (Sending e now Idle)) | None \<Rightarrow> ret Idle))"
    by (intro yields_intros) simp_all
  with assms show ?thesis
    by (auto simp: perform_Idle_def yields_def split: prod.splits sum.splits if_splits)
qed

lemma syncing_yields:
  "yields (\<lambda>st. well_nested st \<and> State_ID st \<noteq> StateIDHandshaking) (perform_ActiveSyncing ss ms os t)"
  "yields (\<lambda>st. well_nested st \<and> State_ID st \<noteq> StateIDHandshaking) (perform_PassiveSyncing ss)"
  "yields (\<lambda>st. well_nested st \<and> State_ID st \<noteq> StateIDHandshaking) (perform_Handshaking ss)"
  unfolding perform_ActiveSyncing_def perform_PassiveSyncing_def perform_Handshaking_def newStateActiveSyncing_def
  by (intro yields_intros; simp)+

lemma Receiving_yields: "yields (\<lambda>st. st = next) (perform_Receiving ss p next)"
  unfolding perform_Receiving_def by (intro yields_intros) simp_all

lemma yieldsD: "yields P m \<Longrightarrow> m w = (Inr x, w') \<Longrightarrow> P x"
  by (auto simp: yields_def)

lemma perform_yields:
  assumes "perform ss st w = (Inr st', w')" "well_nested st"
  shows "well_nested st' \<and> State_ID st' \<noteq> StateIDHandshaking"
proof (cases st)
  case (Sending e t n)
  then have "st' = n" using assms(1) yieldsD [OF Sending_yields] by simp
  with Sending assms(2) settled show ?thesis by simp
next
  case (Receiving p n)
  then have "st' = n" using assms(1) yieldsD [OF Receiving_yields] by simp
  with Receiving assms(2) settled show ?thesis by simp
next
  case Handshaking
  with assms(1) show ?thesis using yieldsD [OF syncing_yields(3)] by simp
next
  case (ActiveSyncing ms os t)
  with assms(1) show ?thesis using yieldsD [OF syncing_yields(1)] by simp
next
  case PassiveSyncing
  with assms(1) show ?thesis using yieldsD [OF syncing_yields(2)] by simp
qed (use assms(1) Idle_yields in simp)

section \<open>Properties\<close>

lemma Receiving_peer: "same_peer w (snd (perform_Receiving ss pckt next w))"
proof -
  have loop: "same_peer w (snd (receive_loop ss pend i w))" for pend i w
  proof (induction "MaxPendingEntitiesNum - length pend" arbitrary: pend i w rule: less_induct)
    case less
    have again: "same_peer w (snd (receive_loop ss (pend @ [e]) j w))"
      if "length (pend @ [e]) < MaxPendingEntitiesNum" for e j w
      using that by (intro less) simp
    show ?case unfolding receive_loop.simps [of ss pend i]
      by (intro peer_frame.chain_frame peer_frame.option_frame peer_frame.check_error_frame peer_frame.if_frame
          peer_frame.pure_frame again frames) assumption
  qed
  show ?thesis unfolding perform_Receiving_def
    by (intro peer_frame.chain_frame peer_frame.if_frame peer_frame.fatal_frame peer_frame.pure_frame loop frames)
qed

lemma perform_peer: "State_ID st \<noteq> StateIDHandshaking \<Longrightarrow> same_peer w (snd (perform ss st w))"
  by (cases st) (auto intro: Receiving_peer frames)

text \<open>What every state but the first can rely on.\<close>

definition introduced :: "session \<Rightarrow> world \<Rightarrow> bool" where
  "introduced ss w \<longleftrightarrow> (\<exists>u. w_user w = Some u \<and> User_IsValid (ss_env ss) u = Ok True \<and>
     Subs_IsValid (w_subs w) \<and> user_id u \<in> user_ids (w_db w))"

lemma introduced_step:
  assumes "quiet_validate ss" "perform ss st w = (Inr st', w')" "well_nested st"
    and "State_ID st \<noteq> StateIDHandshaking \<Longrightarrow> introduced ss w"
  shows "introduced ss w'"
proof (cases "State_ID st = StateIDHandshaking")
  case True
  then have "st = Handshaking" by (cases st) simp_all
  with assms(1,2) obtain u s w0 where "finalize ss u s w0 = (Inr (), w')" "User_IsValid (ss_env ss) u = Ok True"
    "Subs_IsValid s"
    by (auto simp: perform_Handshaking_def chain_Inr split: if_splits
        dest!: readAndProcessUser_Ok readAndProcessHello_Ok)
  with finalize_Ok [OF assms(1)] show ?thesis by (auto simp: introduced_def)
next
  case False
  with assms(4) obtain u where u: "w_user w = Some u" "User_IsValid (ss_env ss) u = Ok True" "Subs_IsValid (w_subs w)"
    "user_id u \<in> user_ids (w_db w)" by (auto simp: introduced_def)
  have "same_peer w w'" using perform_peer [OF False, of w ss] assms(2) by simp
  moreover have "user_ids (w_db w) \<subseteq> user_ids (w_db w')"
    using growing.perform_R [OF assms(1), of w st] assms(2) by (auto simp: grows_def user_ids_def)
  ultimately show ?thesis using u by (auto simp: same_peer_def introduced_def)
qed

lemma run_reach_introduced:
  assumes "quiet_validate ss" "run_reach ss start s" "fst start = Handshaking" "fst s = Running st"
  shows "well_nested st \<and> (State_ID st \<noteq> StateIDHandshaking \<longrightarrow> introduced ss (snd s))"
  using assms(2,4)
proof (induction arbitrary: st)
  case run_start
  with assms(3) show ?case by simp
next
  case (run_perform st0 w)
  then obtain w' where p: "perform ss st0 w = (Inr st, w')" "snd (run_step ss st0 w) = w'"
    by (auto simp: run_step_def split: prod.splits sum.splits fault.splits)
  have "well_nested st0" "State_ID st0 \<noteq> StateIDHandshaking \<Longrightarrow> introduced ss w"
    using run_perform.IH [of st0] by simp_all
  with introduced_step [OF assms(1) p(1)] perform_yields [OF p(1)] p(2) show ?case by simp
qed

text \<open>
  C5. The peer's state machine: in every state that a run reaches after the handshake the
  peer has a user who is valid and stored, and valid subscriptions, so that no state uses
  the user or the subscriptions before they are there; and the state that a sending or a
  receiving state goes back to is an idle or a synchronising one, never another transfer
  or the handshake.
\<close>

theorem Peer_states_are_introduced:
  assumes "quiet_validate ss" "run_reach ss (NewPeer ss w0) (Running st, w)"
  shows "well_nested st \<and> (State_ID st = StateIDHandshaking \<or>
    (\<exists>u. w_user w = Some u \<and> User_IsValid (ss_env ss) u = Ok True \<and> Subs_IsValid (w_subs w) \<and>
       user_id u \<in> user_ids (w_db w)))"
  using run_reach_introduced [OF assms, of st] by (auto simp: NewPeer_def introduced_def)

theorem Peer_states_are_introduced_witness:
  "\<exists>w. run_reach hs_session (NewPeer hs_session hs_start) (Running PassiveSyncing, w) \<and>
     (\<exists>u. w_user w = Some u \<and> User_IsValid toy_env u = Ok True)"
proof -
  from hs_runs obtain w where p: "perform hs_session Handshaking hs_world = (Ok PassiveSyncing, w)" by blast
  have "run_reach hs_session (NewPeer hs_session hs_start) (Running Handshaking, hs_world)"
    using run_start [of hs_session "NewPeer hs_session hs_start"] by (simp add: NewPeer_def hs_world_def)
  from run_perform [OF this] p have r: "run_reach hs_session (NewPeer hs_session hs_start) (Running PassiveSyncing, w)"
    by (simp add: run_step_def)
  have "quiet_validate hs_session" by (simp add: quiet_validate_def hs_parts same_peer_def)
  from Peer_states_are_introduced [OF this r] r show ?thesis by (auto simp: hs_parts)
qed



end
