(* ===== verification/Account.thy ===== *)
theory Account
  imports Owner
begin

text \<open>
  The owner of a node on disk (\<open>owner/owner.go\<close>): registration creates a directory with a
  private key, an entity database and a profile database; logging in opens them again. The
  disk maps the paths of such directories to what they hold. What the operating system, the
  key generator and the proof-of-work finder answer is the record \<open>host\<close>.
\<close>

section \<open>Paths\<close>

text \<open>\<open>filepath.Clean\<close>: dots and empty elements go, \<open>..\<close> takes back the element before it.\<close>

fun clean_elems :: "bool \<Rightarrow> gostring list \<Rightarrow> gostring list \<Rightarrow> gostring list" where
  "clean_elems rooted [] out = rev out"
| "clean_elems rooted (e # es) out =
     (if e = '''' \<or> e = ''.'' then clean_elems rooted es out
      else if e = ''..'' then
        (case out of
           [] \<Rightarrow> if rooted then clean_elems rooted es [] else clean_elems rooted es [''..'']
         | o1 # os \<Rightarrow> if o1 = ''..'' then clean_elems rooted es (''..'' # out) else clean_elems rooted es os)
      else clean_elems rooted es (e # out))"

definition Clean :: "gostring \<Rightarrow> gostring" where
  "Clean path =
     (if path = '''' then ''.''
      else let rooted = (hd path = CHR ''/'');
               out = clean_elems rooted (split_on CHR ''/'' path) []
           in if rooted then CHR ''/'' # join CHR ''/'' out
              else if out = [] then ''.'' else join CHR ''/'' out)"

definition Join :: "gostring \<Rightarrow> gostring \<Rightarrow> gostring" where
  "Join a b =
     (if a = '''' then (if b = '''' then '''' else Clean b)
      else if b = '''' then Clean a else Clean (a @ CHR ''/'' # b))"

section \<open>The disk and the host\<close>

record user_dir =
  ud_privkey :: "bytes option"
  ud_entity :: "entity_database option"
  ud_profile :: "profile_database option"

type_synonym disk = "gostring \<rightharpoonup> user_dir"

definition empty_dir :: user_dir where
  "empty_dir = \<lparr>ud_privkey = None, ud_entity = None, ud_profile = None\<rparr>"

text \<open>
  \<open>h_Mkdir_fails\<close> is a failure other than that the directory exists; \<open>h_Find\<close> is \<open>None\<close> when the
  search for a proof of work does not return.
\<close>

record host =
  h_Mkdir_fails :: bool
  h_NewPrivateKey :: "signer option"
  h_EncodeToPEM :: "signer \<Rightarrow> bytes"
  h_ParsePrivateKeyFromPEM :: "bytes \<Rightarrow> signer result"
  h_WriteFile_fails :: bool
  h_ReadFile_fails :: bool
  h_Find :: "proof_of_work option"
  h_can_open_entity :: bool
  h_can_open_profile :: bool
  h_emerge_time :: time
  h_put_time :: time

text \<open>SQLite creates a database file that is not there.\<close>

definition entity_file :: "host \<Rightarrow> user_dir \<Rightarrow> entity_database option" where
  "entity_file h ud = (if \<not> h_can_open_entity h then None
     else Some (case ud_entity ud of None \<Rightarrow> empty_database | Some d \<Rightarrow> d))"

definition profile_file :: "host \<Rightarrow> user_dir \<Rightarrow> profile_database option" where
  "profile_file h ud = (if \<not> h_can_open_profile h then None
     else Some (case ud_profile ud of None \<Rightarrow> empty_profile_database | Some pd \<Rightarrow> pd))"

text \<open>\<open>if err != nil { return e }\<close>\<close>

definition returns :: "error \<Rightarrow> 'a result \<Rightarrow> 'a result" where
  "returns e r = (case r of Inl (Error _) \<Rightarrow> Err e | _ \<Rightarrow> r)"

definition NewStorage :: "entity_database \<Rightarrow> storage" where
  "NewStorage d = \<lparr>st_db = d, st_observers = [], st_buffer = (\<lambda>_. []), st_capacity = (\<lambda>_. 0)\<rparr>"

section \<open>Registration\<close>

fun put_subscriptions ::
  "profile_engine \<Rightarrow> topic list \<Rightarrow> profile \<Rightarrow> unit result \<times> profile" where
  "put_subscriptions pe [] p = (Ok (), p)"
| "put_subscriptions pe (t # ts) p =
     (case Profile_PutSubscription pe t p of
        (Inl err, p') \<Rightarrow> (Inl err, p')
      | (Inr _, p') \<Rightarrow> put_subscriptions pe ts p')"

text \<open>The part after the databases: each change reaches the file even when a later step fails.\<close>

definition Register_profile ::
  "host \<Rightarrow> profile_engine \<Rightarrow> subscriptions \<Rightarrow> user \<Rightarrow> user_dir \<Rightarrow> unit result \<times> user_dir" where
  "Register_profile h pe s u ud =
     (case returns Database (OpenProfileDatabase pe (profile_file h ud)) of
        Inl err \<Rightarrow> (Inl err, ud)
      | Inr pd \<Rightarrow>
          (case put_subscriptions pe s (NewProfile pd (user_id u)) of
             (r, prf) \<Rightarrow> (r, ud\<lparr>ud_profile := Some (pr_db prf)\<rparr>)))"

definition Register_entities ::
  "host \<Rightarrow> env \<Rightarrow> engine \<Rightarrow> profile_engine \<Rightarrow> subscriptions \<Rightarrow> user \<Rightarrow> user_dir \<Rightarrow> unit result \<times> user_dir" where
  "Register_entities h env eng pe s u ud =
     (case returns Database (OpenEntityDatabase eng (entity_file h ud)) of
        Inl err \<Rightarrow> (Inl err, ud)
      | Inr d \<Rightarrow>
          (case PutEntity env eng (EUser u) None (h_put_time h) (NewStorage d) of
             (Inl err, st) \<Rightarrow> (returns Database (Inl err), ud\<lparr>ud_entity := Some (st_db st)\<rparr>)
           | (Inr _, st) \<Rightarrow> Register_profile h pe s u (ud\<lparr>ud_entity := Some (st_db st)\<rparr>)))"

definition Register_keys ::
  "host \<Rightarrow> env \<Rightarrow> engine \<Rightarrow> profile_engine \<Rightarrow> gostring \<Rightarrow> gostring \<Rightarrow> subscriptions \<Rightarrow> user_dir
     \<Rightarrow> unit result \<times> user_dir" where
  "Register_keys h env eng pe nickname info s ud =
     (case h_NewPrivateKey h of
        None \<Rightarrow> (Err Internal, ud)
      | Some privKey \<Rightarrow>
          if h_WriteFile_fails h then (Err Filesystem, ud)
          else let ud' = ud\<lparr>ud_privkey := Some (h_EncodeToPEM h privKey)\<rparr>
               in (case h_Find h of
                     None \<Rightarrow> (Inl Hang, ud')
                   | Some proof \<Rightarrow>
                       (case EmergeUser env nickname info proof privKey (h_emerge_time h) of
                          Inl err \<Rightarrow> (Inl err, ud')
                        | Inr u \<Rightarrow> Register_entities h env eng pe s u ud')))"

definition Register ::
  "host \<Rightarrow> env \<Rightarrow> engine \<Rightarrow> profile_engine \<Rightarrow> gostring \<Rightarrow> gostring \<Rightarrow> gostring \<Rightarrow> subscriptions \<Rightarrow> disk
     \<Rightarrow> unit result \<times> disk" where
  "Register h env eng pe dir nickname info s dk =
     (if nickname = '''' then (Err WrongNickname, dk)
      else let userDir = Join dir nickname
           in if dk userDir \<noteq> None then (Err AlreadyRegistered, dk)
              else if h_Mkdir_fails h then (Err Filesystem, dk)
              else (case Register_keys h env eng pe nickname info s empty_dir of
                      (r, ud) \<Rightarrow> (r, dk(userDir \<mapsto> ud))))"

section \<open>Opening and closing\<close>

record owner =
  ow_User :: user
  ow_Storage :: storage
  ow_Profile :: profile
  ow_Signer :: signer

definition OwnerNew ::
  "host \<Rightarrow> env \<Rightarrow> engine \<Rightarrow> profile_engine \<Rightarrow> gostring \<Rightarrow> gostring \<Rightarrow> disk \<Rightarrow> owner result" where
  "OwnerNew h env eng pe dir nickname dk =
     (case dk (Join dir nickname) of
        None \<Rightarrow> Err NoSuchUser
      | Some ud \<Rightarrow>
          (case (if h_ReadFile_fails h then None else ud_privkey ud) of
             None \<Rightarrow> Err Filesystem
           | Some pem \<Rightarrow>
               bind_result (h_ParsePrivateKeyFromPEM h pem) (\<lambda>privKey.
               bind_result (returns Database (OpenEntityDatabase eng (entity_file h ud))) (\<lambda>sDB.
               bind_result (GetUser env eng
                   (NewID (env_crypto env) (EncodeToDER (env_crypto env) (s_public privKey))) sDB) (\<lambda>u.
               bind_result (returns Database (OpenProfileDatabase pe (profile_file h ud))) (\<lambda>pDB.
               Ok \<lparr>ow_User = u, ow_Storage = NewStorage sDB, ow_Profile = NewProfile pDB (user_id u),
                   ow_Signer = privKey\<rparr>))))))"

text \<open>
  While an owner is open its databases are written through it alone; closing leaves them in
  the directory. Errors of closing are only logged.
\<close>

definition OwnerClose :: "gostring \<Rightarrow> owner \<Rightarrow> disk \<Rightarrow> disk" where
  "OwnerClose userDir ow dk =
     (case dk userDir of
        None \<Rightarrow> dk
      | Some ud \<Rightarrow> dk(userDir \<mapsto> ud\<lparr>ud_entity := Some (st_db (ow_Storage ow)),
                                ud_profile := Some (pr_db (ow_Profile ow))\<rparr>))"

section \<open>Lemmas\<close>

lemma returns_simps [simp]:
  "returns e (Inr x) = Inr x" "returns e r = Inr x \<longleftrightarrow> r = Inr x"
  by (auto simp: returns_def split: sum.splits fault.splits)

lemma OpenEntityDatabase_reliable: "reliable eng \<Longrightarrow> OpenEntityDatabase eng (Some d) = Ok d"
proof -
  assume r: "reliable eng"
  have "fold (\<lambda>req e. if e then e else fails eng d (S_Open req)) xs False = False" for xs
    using r by (induction xs) simp_all
  then show ?thesis by (simp add: OpenEntityDatabase_def)
qed

lemma OpenProfileDatabase_reliable: "preliable pe \<Longrightarrow> OpenProfileDatabase pe (Some pd) = Ok pd"
proof -
  assume r: "preliable pe"
  have "fold (\<lambda>req e. if e then e else pfails pe pd (P_Open req)) xs False = False" for xs
    using r by (induction xs) simp_all
  then show ?thesis by (simp add: OpenProfileDatabase_def)
qed

lemma OpenEntityDatabase_None: "OpenEntityDatabase eng None = Err CantOpenDB"
  by (simp add: OpenEntityDatabase_def)

lemma OpenProfileDatabase_None: "OpenProfileDatabase pe None = Err CantOpenDB"
  by (simp add: OpenProfileDatabase_def)

lemma put_subscriptions_ok:
  "put_subscriptions pe ts p = (Ok (), p') \<Longrightarrow>
     Subscriptions (pr_db p') = Subscriptions (pr_db p) @ map Topic_String ts \<and> selfID p' = selfID p \<and>
     Moderators (pr_db p') = Moderators (pr_db p)"
proof (induction ts arbitrary: p)
  case (Cons t ts)
  from Cons.prems obtain p1 where p1: "Profile_PutSubscription pe t p = (Ok (), p1)"
    "put_subscriptions pe ts p1 = (Ok (), p')" by (auto split: prod.splits sum.splits)
  then have "Subscriptions (pr_db p1) = Subscriptions (pr_db p) @ [Topic_String t]" "selfID p1 = selfID p"
    "Moderators (pr_db p1) = Moderators (pr_db p)"
    by (auto simp: Profile_PutSubscription_def PutSubscription_def split: prod.splits if_splits)
  with Cons.IH [OF p1(2)] show ?case by simp
qed simp

lemma EmergeUser_Ok:
  assumes "EmergeUser env nick info proof sg now = Ok u" "good_signer (env_crypto env) sg"
  shows "UnsignedUser_isValid env (user_unsigned u)" "d_type (uu_desc (user_unsigned u)) = TypeUser"
    "uPubKey (user_content_of u) = s_public sg" "uNickname (user_content_of u) = nick"
    "uProof (user_content_of u) = proof" "User_IsValid env u = Ok True"
    "user_id u = NewID (env_crypto env) (EncodeToDER (env_crypto env) (s_public sg))"
proof -
  have v: "UnsignedUser_isValid env (user_unsigned u)"
    "user_unsigned u = newUnsignedUser env nick info (s_public sg) proof now"
    using assms(1) by (auto simp: EmergeUser_def Let_def bind_result_eq_Inr split: if_splits)
  then show "UnsignedUser_isValid env (user_unsigned u)" "d_type (uu_desc (user_unsigned u)) = TypeUser"
    "uPubKey (user_content_of u) = s_public sg" "uNickname (user_content_of u) = nick"
    "uProof (user_content_of u) = proof"
    "user_id u = NewID (env_crypto env) (EncodeToDER (env_crypto env) (s_public sg))"
    by (simp_all add: newUnsignedUser_def newUserContent_def UserContent_ToID_def user_id_def Let_def)
  have "Sign (env_crypto env) sg (json_unsigned_user env (user_unsigned u)) = Ok (user_sig u)"
    using assms(1) v by (auto simp: EmergeUser_def Let_def bind_result_eq_Inr split: if_splits)
  from good_signer_Verify [OF assms(2) this] v(1) \<open>uPubKey (user_content_of u) = s_public sg\<close>
  show "User_IsValid env u = Ok True" by (simp add: User_IsValid_def Let_def)
qed

text \<open>What a successful registration leaves in the directory.\<close>

lemma Register_Ok:
  assumes "Register h env eng pe dir nick info s dk = (Ok (), dk')" "reliable eng" "preliable pe"
  obtains sg pf u ud where "h_NewPrivateKey h = Some sg" "h_Find h = Some pf"
    "EmergeUser env nick info pf sg (h_emerge_time h) = Ok u"
    "dk' = dk(Join dir nick \<mapsto> ud)" "ud_privkey ud = Some (h_EncodeToPEM h sg)"
    "ud_entity ud = Some (snd (PutUser env eng u (h_put_time h) empty_database))"
    "fst (PutUser env eng u (h_put_time h) empty_database) = Ok ()"
    "\<exists>pd. ud_profile ud = Some pd \<and> Subscriptions pd = map Topic_String s \<and> Moderators pd = []"
proof -
  from assms(1) obtain ud where keys: "Register_keys h env eng pe nick info s empty_dir = (Ok (), ud)"
    "dk' = dk(Join dir nick \<mapsto> ud)"
    by (auto simp: Register_def Let_def split: if_splits prod.splits)
  then obtain sg pf u where sg: "h_NewPrivateKey h = Some sg" "h_Find h = Some pf"
    "EmergeUser env nick info pf sg (h_emerge_time h) = Ok u"
    "Register_entities h env eng pe s u (empty_dir\<lparr>ud_privkey := Some (h_EncodeToPEM h sg)\<rparr>) = (Ok (), ud)"
    by (auto simp: Register_keys_def Let_def split: option.splits if_splits sum.splits)
  let ?put = "PutUser env eng u (h_put_time h) empty_database"
  from sg(4) assms(2) have put: "fst ?put = Ok ()"
    "Register_profile h pe s u (empty_dir\<lparr>ud_privkey := Some (h_EncodeToPEM h sg), ud_entity := Some (snd ?put)\<rparr>) = (Ok (), ud)"
    by (auto simp: Register_entities_def PutEntity_def NewStorage_def entity_file_def empty_dir_def
        OpenEntityDatabase_reliable OpenEntityDatabase_None returns_def
        split: sum.splits if_splits prod.splits fault.splits)
  then obtain pr where pr: "put_subscriptions pe s (NewProfile empty_profile_database (user_id u)) = (Ok (), pr)"
    "ud = empty_dir\<lparr>ud_privkey := Some (h_EncodeToPEM h sg), ud_entity := Some (snd ?put), ud_profile := Some (pr_db pr)\<rparr>"
    using assms(3)
    by (auto simp: Register_profile_def profile_file_def empty_dir_def OpenProfileDatabase_reliable
        OpenProfileDatabase_None returns_def split: sum.splits if_splits prod.splits)
  with put_subscriptions_ok [OF pr(1)] put(1) sg keys(2) that show ?thesis
    by (simp add: NewProfile_def empty_profile_database_def)
qed

section \<open>Properties\<close>

text \<open>A host on which files can be read.\<close>

definition good_host :: "host \<Rightarrow> bool" where
  "good_host h \<longleftrightarrow> \<not> h_ReadFile_fails h \<and> h_can_open_entity h \<and> h_can_open_profile h"

lemma Register_opens:
  assumes "Register h env eng pe dir nick info s dk = (Ok (), dk')" "h_NewPrivateKey h = Some sg"
    "good_host h'" "h_ParsePrivateKeyFromPEM h' (h_EncodeToPEM h sg) = Ok sg"
    "good_signer (env_crypto env) sg" "reliable eng" "preliable pe"
    "ParsePublicKeyFromDER (env_crypto env) (EncodeToDER (env_crypto env) (s_public sg)) = Ok (s_public sg)"
  shows "\<exists>ow. OwnerNew h' env eng pe dir nick dk' = Ok ow \<and> ow_Signer ow = sg \<and>
    User_IsValid env (ow_User ow) = Ok True \<and> uNickname (user_content_of (ow_User ow)) = nick \<and>
    uPubKey (user_content_of (ow_User ow)) = s_public sg \<and>
    moderator_set (ow_Profile ow) = {user_id (ow_User ow)} \<and>
    Subscriptions (pr_db (ow_Profile ow)) = map Topic_String s"
proof -
  obtain sg' pf u ud where *: "h_NewPrivateKey h = Some sg'" "h_Find h = Some pf"
    "EmergeUser env nick info pf sg' (h_emerge_time h) = Ok u"
    "dk' = dk(Join dir nick \<mapsto> ud)" "ud_privkey ud = Some (h_EncodeToPEM h sg')"
    "ud_entity ud = Some (snd (PutUser env eng u (h_put_time h) empty_database))"
    "fst (PutUser env eng u (h_put_time h) empty_database) = Ok ()"
    "\<exists>pd. ud_profile ud = Some pd \<and> Subscriptions pd = map Topic_String s \<and> Moderators pd = []"
    by (rule Register_Ok [OF assms(1,6,7)])
  have "sg' = sg" using *(1) assms(2) by simp
  with * obtain pd where
    u: "EmergeUser env nick info pf sg (h_emerge_time h) = Ok u" and
    ud: "dk' = dk(Join dir nick \<mapsto> ud)" "ud_privkey ud = Some (h_EncodeToPEM h sg)"
    "ud_entity ud = Some (snd (PutUser env eng u (h_put_time h) empty_database))"
    "fst (PutUser env eng u (h_put_time h) empty_database) = Ok ()"
    "ud_profile ud = Some pd" "Subscriptions pd = map Topic_String s" "Moderators pd = []"
    by blast
  note u_facts = EmergeUser_Ok [OF u assms(5)]
  have "storable_user env u"
    using u_facts assms(8) ud(4) by (simp add: storable_user_def PutUser_def not_le split: if_splits)
  moreover have "user_id u \<notin> user_ids empty_database" by (simp add: user_ids_def empty_database_def)
  ultimately have get: "GetUser env eng (user_id u) (snd (PutUser env eng u (h_put_time h) empty_database)) = Ok u"
    by (rule PutUser_GetUser(2) [OF assms(6)])
  have "OwnerNew h' env eng pe dir nick dk' =
      Ok \<lparr>ow_User = u, ow_Storage = NewStorage (snd (PutUser env eng u (h_put_time h) empty_database)),
          ow_Profile = NewProfile pd (user_id u), ow_Signer = sg\<rparr>"
    using assms(3,4) ud(1,2,3,5) get
    by (simp add: OwnerNew_def good_host_def entity_file_def profile_file_def
        OpenEntityDatabase_reliable [OF assms(6)] OpenProfileDatabase_reliable [OF assms(7)] flip: u_facts(7))
  with u_facts ud show ?thesis by (simp add: moderator_set_def NewProfile_def)
qed

text \<open>A registration on a host where everything works, with one subscription.\<close>

definition toy_host :: host where
  "toy_host = \<lparr>h_Mkdir_fails = False, h_NewPrivateKey = Some emerge_signer, h_EncodeToPEM = (\<lambda>_. [1]),
     h_ParsePrivateKeyFromPEM = (\<lambda>_. Ok emerge_signer), h_WriteFile_fails = False, h_ReadFile_fails = False,
     h_Find = Some 1, h_can_open_entity = True, h_can_open_profile = True,
     h_emerge_time = Epoch, h_put_time = Epoch\<rparr>"

lemma toy_put_user:
  "\<exists>d. PutUser toy_env toy_engine toy_user Epoch empty_database = (Ok (), d)"
proof -
  have "uint (uProof (user_content_of toy_user)) = 1"
    by (simp add: toy_user_def newUnsignedUser_def newUserContent_def Let_def)
  then show ?thesis by (simp add: PutUser_def toy_engine_def)
qed

lemma toy_key_parses:
  "ParsePublicKeyFromDER (env_crypto toy_env) (EncodeToDER (env_crypto toy_env) (s_public emerge_signer))
     = Ok (s_public emerge_signer)"
  by (simp add: ParsePublicKeyFromDER_def EncodeToDER_def toy_env_def toy_crypto_def emerge_signer_def
      be_bytes.simps [of 7] be_bytes.simps [of 0] be_value_def)

lemma storable_toy_user: "storable_user toy_env toy_user"
  using EmergeUser_Ok [OF toy_EmergeUser good_emerge_signer] toy_key_parses
  by (simp add: storable_user_def)

lemma toy_register:
  "\<exists>dk'. Register toy_host toy_env toy_engine toy_profile_engine ''home'' ''nick_1'' [] [Some [''x'']] Map.empty = (Ok (), dk')"
proof -
  from toy_put_user obtain d where "PutUser toy_env toy_engine toy_user Epoch empty_database = (Ok (), d)" by blast
  moreover have "reliable toy_engine" using faithful_toy by (simp add: faithful_def)
  ultimately show ?thesis
    by (simp add: Register_def Register_keys_def Register_entities_def Register_profile_def toy_host_def
        toy_EmergeUser entity_file_def profile_file_def empty_dir_def OpenEntityDatabase_reliable
        OpenProfileDatabase_reliable PutEntity_def NewStorage_def NewProfile_def empty_profile_database_def
        Profile_PutSubscription_def PutSubscription_def Let_def)
qed

text \<open>
  A registration is tried once: the directory is created before the nickname is validated and
  is not removed when a later step fails. So whatever a first attempt gave, a second one for
  the same nickname ends with AlreadyRegistered.
\<close>

theorem Register_once:
  "nick = '''' \<or> h_Mkdir_fails h \<or>
     Register h2 env2 eng2 pe2 dir nick info2 s2 (snd (Register h env eng pe dir nick info s dk)) =
       (Err AlreadyRegistered, snd (Register h env eng pe dir nick info s dk))"
  by (auto simp: Register_def Let_def split: prod.splits)

end
