(* ===== verification/Address.thy ===== *)
theory Address
  imports Subs
begin

text \<open>
  Addresses of nodes (\<open>address/address.go\<close>) and the two providers of addresses:
  the list in a file (\<open>p2p/address_list.go\<close>) and the crawler of the distributed hash table
  (\<open>p2p/dht_crawler.go\<close>), as far as they are not calls of the DHT library.
\<close>

section \<open>Regular expressions\<close>

text \<open>The part of Go's syntax the program uses; a character class is the list of its members.\<close>

datatype regex =
    Empty | Eps | Class "char list" | Cat regex regex | Alt regex regex | Rep regex

fun nullable :: "regex \<Rightarrow> bool" where
  "nullable Empty = False"
| "nullable Eps = True"
| "nullable (Class cs) = False"
| "nullable (Cat r s) = (nullable r \<and> nullable s)"
| "nullable (Alt r s) = (nullable r \<or> nullable s)"
| "nullable (Rep r) = True"

fun deriv :: "char \<Rightarrow> regex \<Rightarrow> regex" where
  "deriv c Empty = Empty"
| "deriv c Eps = Empty"
| "deriv c (Class cs) = (if c \<in> set cs then Eps else Empty)"
| "deriv c (Cat r s) =
     (if nullable r then Alt (Cat (deriv c r) s) (deriv c s) else Cat (deriv c r) s)"
| "deriv c (Alt r s) = Alt (deriv c r) (deriv c s)"
| "deriv c (Rep r) = Cat (deriv c r) (Rep r)"

text \<open>\<open>MatchString\<close> of a pattern between \<open>^\<close> and \<open>$\<close>.\<close>

definition MatchString :: "regex \<Rightarrow> gostring \<Rightarrow> bool" where
  "MatchString r s = nullable (foldl (\<lambda>r c. deriv c r) r s)"

abbreviation Lit :: "char \<Rightarrow> regex" where "Lit c \<equiv> Class [c]"
abbreviation Opt_alt :: "regex list \<Rightarrow> regex" where "Opt_alt rs \<equiv> foldr Alt rs Empty"

section \<open>Addresses\<close>

definition digits :: "char list" where "digits = ''0123456789''"
definition alnum :: "char list" where
  "alnum = ''abcdefghijklmnopqrstuvwxyzABCDEFGHIJKLMNOPQRSTUVWXYZ0123456789''"

definition LabelRegex :: regex where
  "LabelRegex = Alt (Class alnum) (Cat (Class alnum) (Cat (Rep (Class (CHR ''-'' # alnum))) (Class alnum)))"

definition PortRegex :: regex where
  "PortRegex = Cat (Lit CHR '':'') (Cat (Class digits) (Rep (Class digits)))"

definition DomainPortRegex :: regex where
  "DomainPortRegex = Cat (Rep (Cat LabelRegex (Lit CHR ''.''))) (Cat LabelRegex PortRegex)"

definition OctetRegex :: regex where
  "OctetRegex = Opt_alt [Class digits, Cat (Class ''123456789'') (Class digits),
     Cat (Lit CHR ''1'') (Cat (Class digits) (Class digits)),
     Cat (Lit CHR ''2'') (Cat (Class ''01234'') (Class digits)),
     Cat (Lit CHR ''2'') (Cat (Lit CHR ''5'') (Class ''012345''))]"

definition IPPortRegex :: regex where
  "IPPortRegex = (let o1 = Cat OctetRegex (Lit CHR ''.'') in
     Cat (Cat o1 (Cat o1 o1)) (Cat OctetRegex PortRegex))"

definition Address_IsValid :: "gostring \<Rightarrow> bool" where
  "Address_IsValid a \<longleftrightarrow> MatchString DomainPortRegex a \<or> MatchString IPPortRegex a"

text \<open>\<open>strconv.Atoi\<close>: an optional sign, decimal digits, and the range of a 64-bit integer.\<close>

definition digit_value :: "char \<Rightarrow> nat" where
  "digit_value c = of_char c - 48"

definition decimal :: "gostring \<Rightarrow> nat" where
  "decimal s = foldl (\<lambda>n c. 10 * n + digit_value c) 0 s"

definition Atoi :: "gostring \<Rightarrow> int option" where
  "Atoi s =
     (let neg = (case s of c # _ \<Rightarrow> c = CHR ''-'' | [] \<Rightarrow> False);
          ds = (case s of c # cs \<Rightarrow> if c = CHR ''-'' \<or> c = CHR ''+'' then cs else s | [] \<Rightarrow> []);
          v = (if neg then - int (decimal ds) else int (decimal ds))
      in if ds = [] \<or> \<not> set ds \<subseteq> set digits then None
         else if v < - (2 ^ 63) \<or> 2 ^ 63 \<le> v then None else Some v)"

text \<open>\<open>strings.LastIndex\<close>; slicing at -1 is a panic.\<close>

definition LastIndex :: "gostring \<Rightarrow> char \<Rightarrow> nat option" where
  "LastIndex s c = (if c \<in> set s then Some (length s - Suc (length (takeWhile (\<lambda>x. x \<noteq> c) (rev s)))) else None)"

definition Address_Parse :: "gostring \<Rightarrow> (gostring \<times> int) result" where
  "Address_Parse a =
     (case LastIndex a CHR '':'' of
        None \<Rightarrow> Inl Panic
      | Some idx \<Rightarrow>
          (case Atoi (drop (Suc idx) a) of
             None \<Rightarrow> Err (Foreign ''strconv.Atoi'')
           | Some port \<Rightarrow> Ok (take idx a, port)))"

section \<open>Providers of addresses\<close>

text \<open>
  What a provider tells its consumer, in order. The connection provider turns
  \<open>ErrorFindingAddresses\<close> into the end of the process.
\<close>

datatype address_event = AddressFound gostring | ErrorFindingAddresses error

text \<open>\<open>None\<close> is a file that cannot be opened, otherwise its content and whether reading fails.\<close>

definition readAddresses :: "(gostring \<times> bool) option \<Rightarrow> address_event list" where
  "readAddresses file =
     (case file of
        None \<Rightarrow> []
      | Some (content, broken) \<Rightarrow>
          (case scan_lines content of (lines, too_long) \<Rightarrow>
             map (\<lambda>line. if \<not> Address_IsValid line then ErrorFindingAddresses Parsing else AddressFound line) lines @
             (if broken \<or> too_long then [ErrorFindingAddresses Filesystem] else [])))"

record dht_crawler =
  dc_advPort :: int
  dc_subs :: subscriptions
  dc_processed :: "gostring set"

definition NewDHTCrawler :: "int \<Rightarrow> subscriptions \<Rightarrow> dht_crawler result" where
  "NewDHTCrawler advPort s =
     bind_result (ToCombinations s) (\<lambda>c. Ok \<lparr>dc_advPort = advPort, dc_subs = c, dc_processed = {}\<rparr>)"

text \<open>\<open>localIPs\<close> asks the operating system; here it is an argument.\<close>

definition isAddressLocal :: "gostring list \<Rightarrow> gostring \<Rightarrow> int \<Rightarrow> bool result" where
  "isAddressLocal localIPs a localPort =
     (case Address_Parse a of
        Inl (Error _) \<Rightarrow> Ok False
      | Inl f \<Rightarrow> Inl f
      | Inr (ip, port) \<Rightarrow> Ok (if localPort \<noteq> port then False else ip \<in> set localIPs))"

definition handleNewAddress ::
  "gostring list \<Rightarrow> gostring \<Rightarrow> dht_crawler \<Rightarrow> address_event list result \<times> dht_crawler" where
  "handleNewAddress localIPs a dc =
     (if \<not> Address_IsValid a then (Ok [], dc)
      else if a \<in> dc_processed dc then (Ok [], dc)
      else (case isAddressLocal localIPs a (dc_advPort dc) of
              Inl f \<Rightarrow> (Inl f, dc)
            | Inr local \<Rightarrow> (Ok (if \<not> local then [AddressFound a] else []),
                            dc\<lparr>dc_processed := insert a (dc_processed dc)\<rparr>)))"

text \<open>One result of the DHT is a sequence of addresses.\<close>

fun drainAddresses ::
  "gostring list \<Rightarrow> gostring list \<Rightarrow> dht_crawler \<Rightarrow> address_event list result \<times> dht_crawler" where
  "drainAddresses localIPs [] dc = (Ok [], dc)"
| "drainAddresses localIPs (a # as) dc =
     (case handleNewAddress localIPs a dc of
        (Inl f, dc') \<Rightarrow> (Inl f, dc')
      | (Inr es, dc') \<Rightarrow>
          (case drainAddresses localIPs as dc' of
             (Inl f, dc'') \<Rightarrow> (Inl f, dc'')
           | (Inr es', dc'') \<Rightarrow> (Ok (es @ es'), dc'')))"

section \<open>The language of a regular expression\<close>

inductive_set star :: "string set \<Rightarrow> string set" for A where
  star_nil: "[] \<in> star A"
| star_cons: "u \<in> A \<Longrightarrow> v \<in> star A \<Longrightarrow> u @ v \<in> star A"

fun lang :: "regex \<Rightarrow> string set" where
  "lang Empty = {}"
| "lang Eps = {[]}"
| "lang (Class cs) = {[c] |c. c \<in> set cs}"
| "lang (Cat r s) = {u @ v |u v. u \<in> lang r \<and> v \<in> lang s}"
| "lang (Alt r s) = lang r \<union> lang s"
| "lang (Rep r) = star (lang r)"

lemma nullable_lang: "nullable r \<longleftrightarrow> [] \<in> lang r"
  by (induction r) (auto intro: star_nil)

lemma star_Cons: "c # w \<in> star A \<longleftrightarrow> (\<exists>u v. w = u @ v \<and> c # u \<in> A \<and> v \<in> star A)"
proof
  have "x \<in> star A \<Longrightarrow> x = c # w \<Longrightarrow> \<exists>u v. w = u @ v \<and> c # u \<in> A \<and> v \<in> star A" for x
  proof (induction arbitrary: w rule: star.induct)
    case (star_cons u v)
    then show ?case by (cases u) auto
  qed simp
  then show "c # w \<in> star A \<Longrightarrow> \<exists>u v. w = u @ v \<and> c # u \<in> A \<and> v \<in> star A" by simp
  show "\<exists>u v. w = u @ v \<and> c # u \<in> A \<and> v \<in> star A \<Longrightarrow> c # w \<in> star A"
    using star_cons [of "c # _" A] by fastforce
qed

lemma deriv_lang: "w \<in> lang (deriv c r) \<longleftrightarrow> c # w \<in> lang r"
proof (induction r arbitrary: w)
  case (Cat r s)
  have "c # w \<in> lang (Cat r s) \<longleftrightarrow> ([] \<in> lang r \<and> c # w \<in> lang s) \<or>
      (\<exists>u v. w = u @ v \<and> c # u \<in> lang r \<and> v \<in> lang s)"
    unfolding lang.simps mem_Collect_eq Cons_eq_append_conv by (metis append_Nil)
  then show ?case using Cat by (simp add: nullable_lang) blast
qed (auto simp: star_Cons)

lemma MatchString_lang: "MatchString r s \<longleftrightarrow> s \<in> lang r"
  unfolding MatchString_def by (induction s arbitrary: r) (simp_all add: nullable_lang deriv_lang)

section \<open>What the two patterns accept\<close>

definition good_label :: "gostring \<Rightarrow> bool" where
  "good_label s \<longleftrightarrow> s \<noteq> [] \<and> set s \<subseteq> insert CHR ''-'' (set alnum) \<and> hd s \<noteq> CHR ''-'' \<and> last s \<noteq> CHR ''-''"

definition good_port :: "gostring \<Rightarrow> bool" where
  "good_port s \<longleftrightarrow> s \<noteq> [] \<and> set s \<subseteq> set digits"

lemma star_class: "w \<in> star {[c] |c. c \<in> A} \<longleftrightarrow> set w \<subseteq> A"
proof
  show "w \<in> star {[c] |c. c \<in> A} \<Longrightarrow> set w \<subseteq> A" by (induction rule: star.induct) auto
  show "set w \<subseteq> A \<Longrightarrow> w \<in> star {[c] |c. c \<in> A}"
    by (induction w) (auto simp: star_Cons intro: star_nil)
qed

lemma lang_Rep_Class [simp]: "w \<in> lang (Rep (Class cs)) \<longleftrightarrow> set w \<subseteq> set cs"
  by (simp add: star_class)

lemma lang_Class_Cat: "w \<in> lang (Cat (Class cs) r) \<longleftrightarrow> (\<exists>c v. w = c # v \<and> c \<in> set cs \<and> v \<in> lang r)"
  unfolding lang.simps mem_Collect_eq by (metis append_Cons append_Nil)

lemma lang_Cat_Class: "w \<in> lang (Cat r (Class cs)) \<longleftrightarrow> (\<exists>u c. w = u @ [c] \<and> c \<in> set cs \<and> u \<in> lang r)"
  unfolding lang.simps mem_Collect_eq by metis

lemma lang_Class: "w \<in> lang (Class cs) \<longleftrightarrow> (\<exists>c. w = [c] \<and> c \<in> set cs)"
  by simp

lemma lang_Alt: "w \<in> lang (Alt r s) \<longleftrightarrow> w \<in> lang r \<or> w \<in> lang s"
  by simp

lemma dash_alnum: "CHR ''-'' \<notin> set alnum" by (simp add: alnum_def)
lemma dot_alnum: "CHR ''.'' \<notin> insert CHR ''-'' (set alnum)" by (simp add: alnum_def)
lemma colon_alnum: "CHR '':'' \<notin> insert CHR ''-'' (set alnum)" by (simp add: alnum_def)
lemma digits_alnum: "set digits \<subseteq> set alnum" by (simp add: digits_def alnum_def)

lemma lang_Label: "w \<in> lang LabelRegex \<longleftrightarrow> good_label w"
proof -
  have "w \<in> lang LabelRegex \<longleftrightarrow> (\<exists>c. w = [c] \<and> c \<in> set alnum) \<or>
      (\<exists>c u d. w = c # u @ [d] \<and> c \<in> set alnum \<and> set u \<subseteq> insert CHR ''-'' (set alnum) \<and> d \<in> set alnum)"
    unfolding LabelRegex_def lang_Alt lang_Class lang_Class_Cat lang_Cat_Class lang_Rep_Class by auto
  also have "\<dots> \<longleftrightarrow> good_label w"
  proof (cases w)
    case (Cons c v)
    then show ?thesis using dash_alnum by (cases v rule: rev_cases) (auto simp: good_label_def)
  qed (simp add: good_label_def)
  finally show ?thesis .
qed

lemma lang_Port: "w \<in> lang PortRegex \<longleftrightarrow> (\<exists>p. w = CHR '':'' # p \<and> good_port p)"
proof -
  have "w \<in> lang PortRegex \<longleftrightarrow> (\<exists>c u. w = CHR '':'' # c # u \<and> c \<in> set digits \<and> set u \<subseteq> set digits)"
    unfolding PortRegex_def lang_Class_Cat lang_Rep_Class by auto
  also have "\<dots> \<longleftrightarrow> (\<exists>p. w = CHR '':'' # p \<and> good_port p)"
    by (auto simp: good_port_def neq_Nil_conv)
  finally show ?thesis .
qed

text \<open>Labels that each end with a dot, and a last one, are the parts between the dots.\<close>

lemma star_labels:
  "w \<in> star {l @ [CHR ''.''] |l. good_label l} \<longleftrightarrow>
     (\<exists>ls. w = concat (map (\<lambda>l. l @ [CHR ''.'']) ls) \<and> (\<forall>l \<in> set ls. good_label l))"
proof
  assume "w \<in> star {l @ [CHR ''.''] |l. good_label l}"
  then show "\<exists>ls. w = concat (map (\<lambda>l. l @ [CHR ''.'']) ls) \<and> (\<forall>l \<in> set ls. good_label l)"
  proof induction
    case star_nil
    show ?case by (rule exI [of _ "[]"]) simp
  next
    case (star_cons u v)
    then obtain l ls where "u = l @ [CHR ''.'']" "good_label l"
      "v = concat (map (\<lambda>l. l @ [CHR ''.'']) ls)" "\<forall>l \<in> set ls. good_label l" by blast
    then show ?case by (intro exI [of _ "l # ls"]) simp
  qed
next
  assume "\<exists>ls. w = concat (map (\<lambda>l. l @ [CHR ''.'']) ls) \<and> (\<forall>l \<in> set ls. good_label l)"
  then obtain ls where "w = concat (map (\<lambda>l. l @ [CHR ''.'']) ls)" "\<forall>l \<in> set ls. good_label l" by blast
  then show "w \<in> star {l @ [CHR ''.''] |l. good_label l}"
  proof (induction ls arbitrary: w)
    case (Cons l ls)
    then have "l @ [CHR ''.''] \<in> {l @ [CHR ''.''] |l. good_label l}" by auto
    from star.star_cons [OF this Cons.IH [OF refl]] Cons.prems show ?case by simp
  qed (simp add: star_nil)
qed

lemma join_dots: "concat (map (\<lambda>l. l @ [c]) ls) @ l = join c (ls @ [l])"
proof (induction ls)
  case (Cons x ls)
  then show ?case by (cases ls) auto
qed simp

lemma good_label_no_dot: "good_label l \<Longrightarrow> CHR ''.'' \<notin> set l \<and> CHR '':'' \<notin> set l"
  using dot_alnum colon_alnum by (auto simp: good_label_def)

lemma lang_Domain:
  "w \<in> lang DomainPortRegex \<longleftrightarrow> (\<exists>host port. w = host @ CHR '':'' # port \<and> good_port port \<and>
     (\<forall>l \<in> set (split_on CHR ''.'' host). good_label l))"
proof -
  have set_eq: "lang (Cat LabelRegex (Lit CHR ''.'')) = {l @ [CHR ''.''] |l. good_label l}"
    by (auto simp: lang_Label simp flip: lang_Label)
  have cat: "w \<in> lang (Cat r s) \<longleftrightarrow> (\<exists>u v. w = u @ v \<and> u \<in> lang r \<and> v \<in> lang s)" for w r s by simp
  have rep: "lang (Rep r) = star (lang r)" for r by simp
  have "w \<in> lang DomainPortRegex \<longleftrightarrow> (\<exists>ls l port. w = (concat (map (\<lambda>l. l @ [CHR ''.'']) ls) @ l) @ CHR '':'' # port \<and>
      (\<forall>l \<in> set ls. good_label l) \<and> good_label l \<and> good_port port)"
    unfolding DomainPortRegex_def cat [of _ _ "Cat LabelRegex PortRegex"] cat [of _ LabelRegex PortRegex]
      rep set_eq star_labels lang_Port lang_Label
    by (simp only: append_assoc) blast
  also have "\<dots> \<longleftrightarrow> (\<exists>ls port. ls \<noteq> [] \<and> w = join CHR ''.'' ls @ CHR '':'' # port \<and> (\<forall>l \<in> set ls. good_label l) \<and> good_port port)"
    unfolding join_dots
  proof
    assume "\<exists>ls l port. w = join CHR ''.'' (ls @ [l]) @ CHR '':'' # port \<and> (\<forall>l \<in> set ls. good_label l) \<and> good_label l \<and> good_port port"
    then obtain ls l port where "w = join CHR ''.'' (ls @ [l]) @ CHR '':'' # port" "\<forall>l \<in> set ls. good_label l"
      "good_label l" "good_port port" by blast
    then show "\<exists>ls port. ls \<noteq> [] \<and> w = join CHR ''.'' ls @ CHR '':'' # port \<and> (\<forall>l \<in> set ls. good_label l) \<and> good_port port"
      by (intro exI [of _ "ls @ [l]"] exI [of _ port]) auto
  next
    assume "\<exists>ls port. ls \<noteq> [] \<and> w = join CHR ''.'' ls @ CHR '':'' # port \<and> (\<forall>l \<in> set ls. good_label l) \<and> good_port port"
    then obtain ls port where *: "ls \<noteq> []" "w = join CHR ''.'' ls @ CHR '':'' # port" "\<forall>l \<in> set ls. good_label l"
      "good_port port" by blast
    then have "ls = butlast ls @ [last ls]" by simp
    with * show "\<exists>ls l port. w = join CHR ''.'' (ls @ [l]) @ CHR '':'' # port \<and> (\<forall>l \<in> set ls. good_label l) \<and> good_label l \<and> good_port port"
      by (metis in_set_butlastD last_in_set)
  qed
  also have "\<dots> \<longleftrightarrow> (\<exists>host port. w = host @ CHR '':'' # port \<and> good_port port \<and>
     (\<forall>l \<in> set (split_on CHR ''.'' host). good_label l))"
    by (metis good_label_no_dot join_split split_join split_on_nonempty)
  finally show ?thesis .
qed

text \<open>The characters of a pattern.\<close>

fun alphabet :: "regex \<Rightarrow> char list" where
  "alphabet (Class cs) = cs"
| "alphabet (Cat r s) = alphabet r @ alphabet s"
| "alphabet (Alt r s) = alphabet r @ alphabet s"
| "alphabet (Rep r) = alphabet r"
| "alphabet r = []"

lemma star_subset: "w \<in> star A \<Longrightarrow> \<forall>u \<in> A. set u \<subseteq> B \<Longrightarrow> set w \<subseteq> B"
  by (induction rule: star.induct) auto

lemma lang_alphabet: "w \<in> lang r \<Longrightarrow> set w \<subseteq> set (alphabet r)"
proof (induction r arbitrary: w)
  case (Rep r)
  then show ?case using star_subset [of w "lang r"] by simp
qed fastforce+

lemma lang_Octet:
  assumes "w \<in> lang OctetRegex"
  shows "w \<noteq> [] \<and> set w \<subseteq> set digits"
proof -
  have "set (alphabet OctetRegex) \<subseteq> set digits" by (simp add: OctetRegex_def digits_def)
  moreover have "\<not> nullable OctetRegex" by (simp add: OctetRegex_def)
  ultimately show ?thesis using lang_alphabet [OF assms] assms nullable_lang by blast
qed

lemma digits_good_label:
  assumes "w \<noteq> []" "set w \<subseteq> set digits"
  shows "good_label w"
proof -
  have "set w \<subseteq> set alnum" using assms(2) digits_alnum by (rule subset_trans)
  moreover from this have "hd w \<in> set alnum" "last w \<in> set alnum"
    using hd_in_set [OF assms(1)] last_in_set [OF assms(1)] by auto
  ultimately show ?thesis using assms(1) dash_alnum unfolding good_label_def by (metis subset_insertI2)
qed

lemma lang_IP_Domain: "lang IPPortRegex \<subseteq> lang DomainPortRegex"
proof
  fix w assume ip: "w \<in> lang IPPortRegex"
  have cat: "w \<in> lang (Cat r s) \<longleftrightarrow> (\<exists>u v. w = u @ v \<and> u \<in> lang r \<and> v \<in> lang s)" for w r s by simp
  have dot: "w \<in> lang (Cat OctetRegex (Lit CHR ''.'')) \<longleftrightarrow> (\<exists>a. w = a @ [CHR ''.''] \<and> a \<in> lang OctetRegex)" for w
    unfolding lang_Cat_Class by auto
  from ip obtain u v where uv: "w = u @ v"
    "u \<in> lang (Cat (Cat OctetRegex (Lit CHR ''.'')) (Cat (Cat OctetRegex (Lit CHR ''.'')) (Cat OctetRegex (Lit CHR ''.''))))"
    "v \<in> lang (Cat OctetRegex PortRegex)"
    unfolding IPPortRegex_def Let_def cat [of w _ "Cat OctetRegex PortRegex"] by (elim exE conjE)
  from uv(2) obtain a b c where o: "a \<in> lang OctetRegex" "b \<in> lang OctetRegex" "c \<in> lang OctetRegex"
    "u = (a @ [CHR ''.'']) @ (b @ [CHR ''.'']) @ (c @ [CHR ''.''])"
    unfolding cat [of _ "Cat OctetRegex (Lit CHR ''.'')"] dot by (elim exE conjE) simp
  from uv(3) obtain d p where o': "d \<in> lang OctetRegex" "good_port p" "v = d @ CHR '':'' # p"
    unfolding cat [of _ OctetRegex PortRegex] lang_Port by (elim exE conjE) simp
  note p = o'(2)
  have w: "w = a @ CHR ''.'' # b @ CHR ''.'' # c @ CHR ''.'' # d @ CHR '':'' # p"
    by (simp add: uv(1) o(4) o'(3))
  from o o'(1) lang_Octet digits_good_label have l: "good_label a" "good_label b" "good_label c" "good_label d" by blast+
  have "split_on CHR ''.'' (a @ CHR ''.'' # b @ CHR ''.'' # c @ CHR ''.'' # d) = [a, b, c, d]"
    using l [THEN good_label_no_dot] by (simp add: split_on_append split_on_single)
  with l p show "w \<in> lang DomainPortRegex" unfolding lang_Domain w
    by (intro exI [of _ "a @ CHR ''.'' # b @ CHR ''.'' # c @ CHR ''.'' # d"] exI [of _ p]) simp
qed

lemma IsValid_Domain: "Address_IsValid a \<longleftrightarrow> a \<in> lang DomainPortRegex"
  using lang_IP_Domain by (auto simp: Address_IsValid_def MatchString_lang)

lemma LastIndex_port:
  assumes "good_port port"
  shows "LastIndex (host @ CHR '':'' # port) CHR '':'' = Some (length host)"
proof -
  have "CHR '':'' \<notin> set port" using assms by (auto simp: good_port_def digits_def)
  then have "takeWhile (\<lambda>x. x \<noteq> CHR '':'') (rev (host @ CHR '':'' # port)) = rev port"
    by (subst rev_append) (simp, subst takeWhile_append2, auto)
  then show ?thesis by (simp add: LastIndex_def)
qed

lemma Atoi_digits:
  assumes "good_port s"
  shows "Atoi s = (if int (decimal s) < 2 ^ 63 then Some (int (decimal s)) else None)"
proof -
  obtain c cs where s: "s = c # cs" using assms by (cases s) (auto simp: good_port_def)
  have "c \<noteq> CHR ''-''" "c \<noteq> CHR ''+''" "set (c # cs) \<subseteq> set digits"
    using assms s by (auto simp: good_port_def digits_def)
  then show ?thesis unfolding s Atoi_def by (simp add: not_less not_le Let_def)
qed

section \<open>Properties\<close>

text \<open>
  What an address is: the two patterns together accept exactly \<open>host:port\<close> where the port is a
  non-empty decimal number and every part of the host between dots is a non-empty word
  over letters, digits and inner hyphens. The pattern for IP addresses adds nothing to the
  pattern for domain names, so the range of its octets is not enforced.
\<close>

theorem IsValid_equivalent:
  "Address_IsValid a \<longleftrightarrow> (\<exists>host port. a = host @ CHR '':'' # port \<and> good_port port \<and>
     list_all good_label (split_on CHR ''.'' host))"
  unfolding IsValid_Domain lang_Domain list_all_iff ..

text \<open>
  An address that passed the check can be taken apart without a panic: \<open>Parse\<close> splits it at
  its only colon after the host, and fails only when the port does not fit 64 bits.
\<close>

theorem Parse_valid_address:
  assumes "Address_IsValid a"
  shows "\<exists>host port. a = host @ CHR '':'' # port \<and> CHR '':'' \<notin> set port \<and>
    Address_Parse a = (if int (decimal port) < 2 ^ 63 then Ok (host, int (decimal port))
                       else Err (Foreign ''strconv.Atoi''))"
proof -
  obtain host port where a: "a = host @ CHR '':'' # port" "good_port port"
    using assms unfolding IsValid_Domain lang_Domain by blast
  then have "CHR '':'' \<notin> set port" by (auto simp: good_port_def digits_def)
  moreover have "Address_Parse a = (if int (decimal port) < 2 ^ 63 then Ok (host, int (decimal port))
      else Err (Foreign ''strconv.Atoi''))"
    by (simp add: a Address_Parse_def LastIndex_port Atoi_digits)
  ultimately show ?thesis using a by blast
qed

theorem Parse_valid_address_witness:
  "Address_Parse ''dscuss.org:8004'' = Ok (''dscuss.org'', 8004)"
proof -
  have "Address_IsValid ''dscuss.org:8004''"
    unfolding IsValid_Domain lang_Domain
    by (intro exI [of _ "''dscuss.org''"] exI [of _ "''8004''"])
      (simp add: good_port_def digits_def good_label_def alnum_def)
  from Parse_valid_address [OF this] obtain host port where
    h: "''dscuss.org:8004'' = host @ CHR '':'' # port" "CHR '':'' \<notin> set port"
    "Address_Parse ''dscuss.org:8004'' = (if int (decimal port) < 2 ^ 63 then Ok (host, int (decimal port))
        else Err (Foreign ''strconv.Atoi''))" by blast
  have "host = ''dscuss.org'' \<and> port = ''8004''"
    using h(1,2) by (auto simp: append_eq_Cons_conv Cons_eq_append_conv)
  with h(3) show ?thesis by (simp add: decimal_def digit_value_def)
qed

lemma Address_Parse_total:
  assumes "Address_IsValid a"
  shows "\<exists>b. isAddressLocal ips a adv = Ok b"
proof -
  obtain host port where a: "a = host @ CHR '':'' # port" "good_port port"
    using assms unfolding IsValid_Domain lang_Domain by blast
  then show ?thesis
    by (auto simp: isAddressLocal_def Address_Parse_def LastIndex_port Atoi_digits split: if_splits)
qed

lemma handleNewAddress_eq:
  "handleNewAddress ips a dc =
     (if \<not> Address_IsValid a \<or> a \<in> dc_processed dc then (Ok [], dc)
      else (Ok (if isAddressLocal ips a (dc_advPort dc) = Ok True then [] else [AddressFound a]),
            dc\<lparr>dc_processed := insert a (dc_processed dc)\<rparr>))"
  using Address_Parse_total [of a ips "dc_advPort dc"] by (auto simp: handleNewAddress_def)

text \<open>
  The crawler hands on what is worth dialling: whatever the hash table returns, draining
  ends without a fault; the addresses handed on are exactly those that are well formed,
  not handled before and not this node's own, each of them once; and from then on all
  well-formed ones count as handled, so that they are never handed on again.
\<close>

theorem crawler_hands_on_once:
  "\<exists>found dc'. drainAddresses ips as dc = (Ok (map AddressFound found), dc') \<and> distinct found \<and>
     set found = {a. a \<in> set as \<and> Address_IsValid a \<and> a \<notin> dc_processed dc \<and>
                     isAddressLocal ips a (dc_advPort dc) \<noteq> Ok True} \<and>
     dc_processed dc' = dc_processed dc \<union> {a. a \<in> set as \<and> Address_IsValid a} \<and>
     dc_advPort dc' = dc_advPort dc"
proof (induction as arbitrary: dc)
  case (Cons a as)
  obtain es dc1 where 1: "handleNewAddress ips a dc = (Ok es, dc1)"
    by (cases "handleNewAddress ips a dc") (auto simp: handleNewAddress_eq split: if_splits)
  obtain found dc' where 2: "drainAddresses ips as dc1 = (Ok (map AddressFound found), dc')" "distinct found"
    "set found = {a. a \<in> set as \<and> Address_IsValid a \<and> a \<notin> dc_processed dc1 \<and>
       isAddressLocal ips a (dc_advPort dc1) \<noteq> Ok True}"
    "dc_processed dc' = dc_processed dc1 \<union> {a. a \<in> set as \<and> Address_IsValid a}" "dc_advPort dc' = dc_advPort dc1"
    using Cons.IH by blast
  show ?case
  proof (cases "\<not> Address_IsValid a \<or> a \<in> dc_processed dc")
    case True
    with 1 have "es = []" "dc1 = dc" by (simp_all add: handleNewAddress_eq)
    with 1 2 True show ?thesis by (intro exI [of _ found] exI [of _ dc']) auto
  next
    case False
    let ?l = "isAddressLocal ips a (dc_advPort dc) = Ok True"
    from 1 False have "es = map AddressFound (if ?l then [] else [a])"
      "dc1 = dc\<lparr>dc_processed := insert a (dc_processed dc)\<rparr>"
      by (simp_all add: handleNewAddress_eq split: if_splits)
    with 1 2 False show ?thesis
      by (intro exI [of _ "(if ?l then [] else [a]) @ found"] exI [of _ dc']) auto
  qed
qed simp

end
