(* ===== verification/Provider.thy ===== *)
theory Provider
  imports Address Packet
begin

text \<open>
  The connection provider (\<open>p2p/connection_provider.go\<close>): one goroutine accepts connections,
  one dials the known addresses, and every connection that is closed runs a handler on the
  goroutine of its peer. They share two atomic counters and a locked map of addresses. Each
  atomic or locked operation is one step here and the steps of different goroutines
  interleave freely.
\<close>

unbundle bit_operations_syntax

section \<open>The map of addresses\<close>

text \<open>An address is mapped to whether it is in use.\<close>

type_synonym address_map = "gostring \<rightharpoonup> bool"

definition Load :: "address_map \<Rightarrow> gostring \<Rightarrow> bool option" where
  "Load m k = m k"

definition Add :: "gostring \<Rightarrow> bool \<Rightarrow> address_map \<Rightarrow> address_map" where
  "Add k v m = (if m k = None then m(k \<mapsto> v) else m)"

definition Change :: "gostring \<Rightarrow> bool \<Rightarrow> address_map \<Rightarrow> address_map" where
  "Change k v m = (if m k \<noteq> None then m(k \<mapsto> v) else m)"

text \<open>\<open>Range\<close> copies the map and visits the copy, in an order the language leaves open.\<close>

definition Range_copy :: "address_map \<Rightarrow> (gostring \<times> bool) list \<Rightarrow> bool" where
  "Range_copy m tmp \<longleftrightarrow> distinct (map fst tmp) \<and> map_of tmp = m"

section \<open>State\<close>

text \<open>
  Where each goroutine stands. \<open>L_guard\<close> and \<open>D_guard\<close> come after the look at \<open>stopChan\<close>, the
  connection of \<open>L_send\<close> and \<open>D_send\<close> waits for the receiver of \<open>outChan\<close>, and the lists of the
  dialer are the entries its \<open>Range\<close> has still to visit.
\<close>

datatype listener_pc =
    L_start | L_loop | L_guard | L_accept | L_accepted gostring | L_send connection | L_done

datatype dialer_pc =
    D_loop | D_guard | D_copy | D_range "(gostring \<times> bool) list"
  | D_dial gostring "(gostring \<times> bool) list"
  | D_dialled gostring gostring "(gostring \<times> bool) list"
  | D_change gostring gostring "(gostring \<times> bool) list"
  | D_send connection "(gostring \<times> bool) list"
  | D_check "(gostring \<times> bool) list"
  | D_done

text \<open>
  A connection that was handed on is open until its peer closes it. \<open>Closing\<close> is before the
  counter is decremented, \<open>Counted\<close> before the addresses are read; \<open>Releasing\<close> holds the addresses
  still to release and \<open>Changing\<close> is between \<open>Load\<close> and \<open>Change\<close>.
\<close>

datatype stage = Open | Closing | Counted | Releasing "gostring list" | Changing gostring "gostring list"

record provider =
  cp_outAddrs :: address_map
  cp_maxInConnCount :: "32 word"
  cp_maxOutConnCount :: "32 word"
  cp_inConnCount :: "32 word"
  cp_outConnCount :: "32 word"
  cp_stopped :: bool
  cp_listener :: listener_pc
  cp_dialer :: dialer_pc
  cp_conns :: "(connection \<times> stage) list"
  cp_fault :: "fault option"

definition DefaultBootstrapAddress :: gostring where
  "DefaultBootstrapAddress = ''dscuss.org:8004''"

definition setDefaultBootstrapAddresses :: "address_map \<Rightarrow> address_map" where
  "setDefaultBootstrapAddresses m = Add DefaultBootstrapAddress False m"

definition NewConnectionProvider :: "32 word \<Rightarrow> 32 word \<Rightarrow> provider" where
  "NewConnectionProvider maxIn maxOut =
     \<lparr>cp_outAddrs = setDefaultBootstrapAddresses Map.empty,
      cp_maxInConnCount = maxIn, cp_maxOutConnCount = maxOut,
      cp_inConnCount = 0, cp_outConnCount = 0, cp_stopped = False,
      cp_listener = L_start, cp_dialer = D_loop, cp_conns = [], cp_fault = None\<rparr>"

text \<open>
  The network: which remote addresses a connection can show when an address is dialled, and
  which an accepted one can show.
\<close>

record net =
  n_dial :: "gostring \<Rightarrow> gostring \<Rightarrow> bool"
  n_accept :: "gostring \<Rightarrow> bool"

section \<open>The goroutines\<close>

inductive listenIncomingConnections :: "net \<Rightarrow> provider \<Rightarrow> provider \<Rightarrow> bool" for n where
  cannot_listen: "cp_listener s = L_start \<Longrightarrow> listenIncomingConnections n s (s\<lparr>cp_fault := Some Fatal\<rparr>)"
| listening: "cp_listener s = L_start \<Longrightarrow> listenIncomingConnections n s (s\<lparr>cp_listener := L_loop\<rparr>)"
| listener_stops: "cp_listener s = L_loop \<Longrightarrow> cp_stopped s \<Longrightarrow>
    listenIncomingConnections n s (s\<lparr>cp_listener := L_done\<rparr>)"
| listener_goes_on: "cp_listener s = L_loop \<Longrightarrow> \<not> cp_stopped s \<Longrightarrow>
    listenIncomingConnections n s (s\<lparr>cp_listener := L_guard\<rparr>)"
| in_limit: "cp_listener s = L_guard \<Longrightarrow> cp_inConnCount s \<ge> cp_maxInConnCount s \<Longrightarrow>
    listenIncomingConnections n s (s\<lparr>cp_listener := L_loop\<rparr>)"
| below_in_limit: "cp_listener s = L_guard \<Longrightarrow> \<not> cp_inConnCount s \<ge> cp_maxInConnCount s \<Longrightarrow>
    listenIncomingConnections n s (s\<lparr>cp_listener := L_accept\<rparr>)"
| accept_fails: "cp_listener s = L_accept \<Longrightarrow> listenIncomingConnections n s (s\<lparr>cp_listener := L_loop\<rparr>)"
| accepts: "cp_listener s = L_accept \<Longrightarrow> n_accept n r \<Longrightarrow>
    listenIncomingConnections n s (s\<lparr>cp_listener := L_accepted r\<rparr>)"
| counts_in: "cp_listener s = L_accepted r \<Longrightarrow>
    listenIncomingConnections n s
      (s\<lparr>cp_inConnCount := cp_inConnCount s + 1, cp_listener := L_send (NewConnection r True)\<rparr>)"
| hands_on_in: "cp_listener s = L_send c \<Longrightarrow>
    listenIncomingConnections n s (s\<lparr>cp_conns := (c, Open) # cp_conns s, cp_listener := L_loop\<rparr>)"

inductive tryToConnect :: "net \<Rightarrow> provider \<Rightarrow> provider \<Rightarrow> bool" for n where
  is_used: "cp_dialer s = D_range ((addr, isUsed) # rest) \<Longrightarrow> \<not> cp_stopped s \<Longrightarrow> isUsed \<Longrightarrow>
    tryToConnect n s (s\<lparr>cp_dialer := D_range rest\<rparr>)"
| is_unused: "cp_dialer s = D_range ((addr, isUsed) # rest) \<Longrightarrow> \<not> cp_stopped s \<Longrightarrow> \<not> isUsed \<Longrightarrow>
    tryToConnect n s (s\<lparr>cp_dialer := D_dial addr rest\<rparr>)"
| dial_fails: "cp_dialer s = D_dial addr rest \<Longrightarrow> tryToConnect n s (s\<lparr>cp_dialer := D_range rest\<rparr>)"
| dials: "cp_dialer s = D_dial addr rest \<Longrightarrow> n_dial n addr r \<Longrightarrow>
    tryToConnect n s (s\<lparr>cp_dialer := D_dialled addr r rest\<rparr>)"
| counts_out: "cp_dialer s = D_dialled addr r rest \<Longrightarrow>
    tryToConnect n s (s\<lparr>cp_outConnCount := cp_outConnCount s + 1, cp_dialer := D_change addr r rest\<rparr>)"
| marks: "cp_dialer s = D_change addr r rest \<Longrightarrow>
    tryToConnect n s
      (s\<lparr>cp_outAddrs := Change addr True (cp_outAddrs s), cp_dialer := D_send (NewConnection r False) rest\<rparr>)"
| hands_on_out: "cp_dialer s = D_send c rest \<Longrightarrow>
    tryToConnect n s (s\<lparr>cp_conns := (c, Open) # cp_conns s, cp_dialer := D_check rest\<rparr>)"
| breaks: "cp_dialer s = D_check rest \<Longrightarrow> cp_outConnCount s = cp_maxOutConnCount s \<Longrightarrow>
    tryToConnect n s (s\<lparr>cp_dialer := D_loop\<rparr>)"
| next_address: "cp_dialer s = D_check rest \<Longrightarrow> cp_outConnCount s \<noteq> cp_maxOutConnCount s \<Longrightarrow>
    tryToConnect n s (s\<lparr>cp_dialer := D_range rest\<rparr>)"

inductive establishOutgoingConnections :: "net \<Rightarrow> provider \<Rightarrow> provider \<Rightarrow> bool" for n where
  dialer_stops: "cp_dialer s = D_loop \<Longrightarrow> cp_stopped s \<Longrightarrow>
    establishOutgoingConnections n s (s\<lparr>cp_dialer := D_done\<rparr>)"
| dialer_goes_on: "cp_dialer s = D_loop \<Longrightarrow> \<not> cp_stopped s \<Longrightarrow>
    establishOutgoingConnections n s (s\<lparr>cp_dialer := D_guard\<rparr>)"
| out_limit: "cp_dialer s = D_guard \<Longrightarrow> cp_outConnCount s \<ge> cp_maxOutConnCount s \<Longrightarrow>
    establishOutgoingConnections n s (s\<lparr>cp_dialer := D_loop\<rparr>)"
| below_out_limit: "cp_dialer s = D_guard \<Longrightarrow> \<not> cp_outConnCount s \<ge> cp_maxOutConnCount s \<Longrightarrow>
    establishOutgoingConnections n s (s\<lparr>cp_dialer := D_copy\<rparr>)"
| copies: "cp_dialer s = D_copy \<Longrightarrow> Range_copy (cp_outAddrs s) tmp \<Longrightarrow>
    establishOutgoingConnections n s (s\<lparr>cp_dialer := D_range tmp\<rparr>)"
| range_ends: "cp_dialer s = D_range [] \<Longrightarrow>
    establishOutgoingConnections n s (s\<lparr>cp_dialer := D_loop\<rparr>)"
| range_stops: "cp_dialer s = D_range (e # rest) \<Longrightarrow> cp_stopped s \<Longrightarrow>
    establishOutgoingConnections n s (s\<lparr>cp_dialer := D_loop\<rparr>)"
| visits: "tryToConnect n s t \<Longrightarrow> establishOutgoingConnections n s t"

text \<open>The handler that \<open>createCloseConnHandler\<close> returns, run by \<open>Connection.Close\<close>.\<close>

inductive closeConnHandler :: "provider \<Rightarrow> provider \<Rightarrow> bool" where
  closes: "cp_conns s = xs @ (c, Open) # ys \<Longrightarrow>
    closeConnHandler s (s\<lparr>cp_conns := xs @ (c, Closing) # ys\<rparr>)"
| uncounts_in: "cp_conns s = xs @ (c, Closing) # ys \<Longrightarrow> IsIncoming c \<Longrightarrow>
    closeConnHandler s
      (s\<lparr>cp_inConnCount := cp_inConnCount s + NOT 0, cp_conns := xs @ (c, Counted) # ys\<rparr>)"
| uncounts_out: "cp_conns s = xs @ (c, Closing) # ys \<Longrightarrow> \<not> IsIncoming c \<Longrightarrow>
    closeConnHandler s
      (s\<lparr>cp_outConnCount := cp_outConnCount s + NOT 0, cp_conns := xs @ (c, Counted) # ys\<rparr>)"
| reads_addresses: "cp_conns s = xs @ (c, Counted) # ys \<Longrightarrow>
    closeConnHandler s (s\<lparr>cp_conns := xs @ (c, Releasing (Addresses c)) # ys\<rparr>)"
| not_ours: "cp_conns s = xs @ (c, Releasing (a # as)) # ys \<Longrightarrow> Load (cp_outAddrs s) a = None \<Longrightarrow>
    closeConnHandler s (s\<lparr>cp_conns := xs @ (c, Releasing as) # ys\<rparr>)"
| loads: "cp_conns s = xs @ (c, Releasing (a # as)) # ys \<Longrightarrow> Load (cp_outAddrs s) a = Some isUsed \<Longrightarrow>
    closeConnHandler s (s\<lparr>cp_conns := xs @ (c, Changing a as) # ys\<rparr>)"
| releases: "cp_conns s = xs @ (c, Changing a as) # ys \<Longrightarrow>
    closeConnHandler s
      (s\<lparr>cp_outAddrs := Change a False (cp_outAddrs s), cp_conns := xs @ (c, Releasing as) # ys\<rparr>)"

text \<open>
  What others do to the provider: the address providers report, the pool stops it, and the
  validation of a peer moves addresses between two connections, in two calls.
\<close>

inductive others :: "provider \<Rightarrow> provider \<Rightarrow> bool" where
  found: "others s (s\<lparr>cp_outAddrs := Add a False (cp_outAddrs s)\<rparr>)"
| finding_fails: "others s (s\<lparr>cp_fault := Some Fatal\<rparr>)"
| stop: "others s (s\<lparr>cp_stopped := True\<rparr>)"
| adds_addresses: "cp_conns s = xs @ (c, st) # ys \<Longrightarrow> (c', st') \<in> set (cp_conns s) \<Longrightarrow>
    others s (s\<lparr>cp_conns := xs @ (AddAddresses (Addresses c') c, st) # ys\<rparr>)"
| clears_addresses: "cp_conns s = xs @ (c, st) # ys \<Longrightarrow>
    others s (s\<lparr>cp_conns := xs @ (ClearAddresses c, st) # ys\<rparr>)"

text \<open>A fault ends the process, after it nothing runs.\<close>

inductive provider_step :: "net \<Rightarrow> provider \<Rightarrow> provider \<Rightarrow> bool" for n where
  by_listener: "cp_fault s = None \<Longrightarrow> listenIncomingConnections n s t \<Longrightarrow> provider_step n s t"
| by_dialer: "cp_fault s = None \<Longrightarrow> establishOutgoingConnections n s t \<Longrightarrow> provider_step n s t"
| by_closer: "cp_fault s = None \<Longrightarrow> closeConnHandler s t \<Longrightarrow> provider_step n s t"
| by_others: "cp_fault s = None \<Longrightarrow> others s t \<Longrightarrow> provider_step n s t"

lemmas goroutine_cases =
  listenIncomingConnections.cases tryToConnect.cases establishOutgoingConnections.cases
  closeConnHandler.cases others.cases

inductive_cases provider_stepE: "provider_step n s t"

section \<open>Counters\<close>

text \<open>The connections a counter stands for: established and not yet uncounted.\<close>

definition counted :: "bool \<Rightarrow> (connection \<times> stage) list \<Rightarrow> nat" where
  "counted inc cs = length (filter (\<lambda>(c, st). c_incoming c = inc \<and> (st = Open \<or> st = Closing)) cs)"

fun listener_pending :: "listener_pc \<Rightarrow> nat" where
  "listener_pending (L_send c) = 1"
| "listener_pending _ = 0"

fun dialer_pending :: "dialer_pc \<Rightarrow> nat" where
  "dialer_pending (D_change _ _ _) = 1"
| "dialer_pending (D_send _ _) = 1"
| "dialer_pending _ = 0"

definition open_in :: "provider \<Rightarrow> nat" where
  "open_in s = counted True (cp_conns s) + listener_pending (cp_listener s)"

definition open_out :: "provider \<Rightarrow> nat" where
  "open_out s = counted False (cp_conns s) + dialer_pending (cp_dialer s)"

text \<open>Where a goroutine has seen that there is room, there still is.\<close>

fun listener_room :: "listener_pc \<Rightarrow> nat" where
  "listener_room L_accept = 1"
| "listener_room (L_accepted _) = 1"
| "listener_room _ = 0"

fun dialer_room :: "dialer_pc \<Rightarrow> nat" where
  "dialer_room D_copy = 1"
| "dialer_room (D_range _) = 1"
| "dialer_room (D_dial _ _) = 1"
| "dialer_room (D_dialled _ _ _) = 1"
| "dialer_room _ = 0"

fun sends_kind :: "listener_pc \<Rightarrow> dialer_pc \<Rightarrow> bool" where
  "sends_kind l d = ((case l of L_send c \<Rightarrow> c_incoming c | _ \<Rightarrow> True) \<and>
     (case d of D_send c _ \<Rightarrow> \<not> c_incoming c | _ \<Rightarrow> True))"

definition counters_inv :: "32 word \<Rightarrow> 32 word \<Rightarrow> provider \<Rightarrow> bool" where
  "counters_inv maxIn maxOut s \<longleftrightarrow>
     cp_maxInConnCount s = maxIn \<and> cp_maxOutConnCount s = maxOut \<and>
     cp_inConnCount s = of_nat (open_in s) \<and> cp_outConnCount s = of_nat (open_out s) \<and>
     open_in s + listener_room (cp_listener s) \<le> unat maxIn \<and>
     open_out s + dialer_room (cp_dialer s) \<le> unat maxOut \<and>
     sends_kind (cp_listener s) (cp_dialer s)"

lemma counted_simps [simp]:
  "counted inc [] = 0"
  "counted inc ((c, st) # cs) = of_bool (c_incoming c = inc \<and> (st = Open \<or> st = Closing)) + counted inc cs"
  "counted inc (cs @ ds) = counted inc cs + counted inc ds"
  by (simp_all add: counted_def)

lemma connection_kind [simp]:
  "c_incoming (NewConnection r b) = b"
  "c_incoming (AddAddresses as c) = c_incoming c"
  "c_incoming (ClearAddresses c) = c_incoming c"
  by (simp_all add: NewConnection_def AddAddresses_def ClearAddresses_def)

lemma of_nat_below:
  fixes m :: "32 word"
  assumes "n \<le> unat m"
  shows "m \<le> of_nat n \<longleftrightarrow> n = unat m" "of_nat n = m \<longleftrightarrow> n = unat m"
proof -
  have "unat m < 2 ^ LENGTH(32)" by (rule unsigned_less)
  with assms have "n < 2 ^ LENGTH(32)" by linarith
  then have "unat (of_nat n :: 32 word) = n" by (simp add: unsigned_of_nat take_bit_nat_eq_self)
  with assms show "m \<le> of_nat n \<longleftrightarrow> n = unat m" "of_nat n = m \<longleftrightarrow> n = unat m"
    by (auto simp: word_le_nat_alt)
qed

lemma counters_listener:
  assumes "counters_inv a b s" "listenIncomingConnections n s t"
  shows "counters_inv a b t"
  using assms(2,1) by cases (auto simp: counters_inv_def open_in_def open_out_def of_nat_below)

lemma counters_dialer:
  assumes "counters_inv a b s" "establishOutgoingConnections n s t"
  shows "counters_inv a b t"
  using assms(2,1)
proof cases
  case visits
  then show ?thesis using assms(1)
    by cases (auto simp: counters_inv_def open_in_def open_out_def of_nat_below)
qed (auto simp: counters_inv_def open_in_def open_out_def of_nat_below)

lemma counters_closer:
  assumes "counters_inv a b s" "closeConnHandler s t"
  shows "counters_inv a b t"
  using assms(2,1) by cases (auto simp: counters_inv_def open_in_def open_out_def IsIncoming_def)

lemma counters_others:
  assumes "counters_inv a b s" "others s t"
  shows "counters_inv a b t"
  using assms(2,1) by cases (auto simp: counters_inv_def open_in_def open_out_def)

interpretation counters: invariant "\<lambda>s. s = NewConnectionProvider a b" "provider_step n" "counters_inv a b"
  for n a b
proof
  show "counters_inv a b t" if "counters_inv a b s" "provider_step n s t" for s t
    using that(2,1) by cases (blast intro: counters_listener counters_dialer counters_closer counters_others)+
qed (simp add: counters_inv_def NewConnectionProvider_def open_in_def open_out_def)

section \<open>Addresses in use\<close>

text \<open>The entries the dialer has still to deal with in this pass.\<close>

fun dialer_entries :: "dialer_pc \<Rightarrow> (gostring \<times> bool) list" where
  "dialer_entries (D_range rest) = rest"
| "dialer_entries (D_dial a rest) = (a, False) # rest"
| "dialer_entries (D_dialled a r rest) = (a, False) # rest"
| "dialer_entries (D_change a r rest) = (a, False) # rest"
| "dialer_entries (D_send c rest) = rest"
| "dialer_entries (D_check rest) = rest"
| "dialer_entries _ = []"

text \<open>The addresses a connection on its way carries, and those of the ones handed on.\<close>

fun listener_addresses :: "listener_pc \<Rightarrow> gostring set" where
  "listener_addresses (L_accepted r) = {r}"
| "listener_addresses (L_send c) = set (c_addresses c)"
| "listener_addresses _ = {}"

fun dialer_addresses :: "dialer_pc \<Rightarrow> gostring set" where
  "dialer_addresses (D_dialled a r rest) = {r}"
| "dialer_addresses (D_change a r rest) = {r}"
| "dialer_addresses (D_send c rest) = set (c_addresses c)"
| "dialer_addresses _ = {}"

fun stage_addresses :: "stage \<Rightarrow> gostring set" where
  "stage_addresses (Releasing as) = set as"
| "stage_addresses (Changing a as) = insert a (set as)"
| "stage_addresses _ = {}"

definition carried :: "provider \<Rightarrow> gostring set" where
  "carried s = listener_addresses (cp_listener s) \<union> dialer_addresses (cp_dialer s) \<union>
     (\<Union>(c, st) \<in> set (cp_conns s). set (c_addresses c) \<union> stage_addresses st)"

text \<open>A name is never what a connection shows as its remote address; an IP address may be.\<close>

definition never_remote :: "net \<Rightarrow> gostring \<Rightarrow> bool" where
  "never_remote n a \<longleftrightarrow> (\<forall>d r. n_dial n d r \<longrightarrow> r \<noteq> a) \<and> (\<forall>r. n_accept n r \<longrightarrow> r \<noteq> a)"

definition name_inv :: "gostring \<Rightarrow> provider \<Rightarrow> bool" where
  "name_inv a s \<longleftrightarrow> a \<notin> carried s \<and> distinct (map fst (dialer_entries (cp_dialer s))) \<and>
     (cp_outAddrs s a = Some True \<longrightarrow> (a, False) \<notin> set (dialer_entries (cp_dialer s)))"

lemma connection_addresses [simp]:
  "c_addresses (NewConnection r b) = [r]"
  "c_addresses (AddAddresses as c) = c_addresses c @ as"
  "c_addresses (ClearAddresses c) = []"
  by (simp_all add: NewConnection_def AddAddresses_def ClearAddresses_def)

lemma Change_other [simp]: "b \<noteq> a \<Longrightarrow> Change b v m a = m a"
  by (simp add: Change_def)

lemma Change_same [simp]: "Change a v m a = map_option (\<lambda>_. v) (m a)"
  by (cases "m a") (auto simp: Change_def)

lemma Add_used [simp]: "Add b False m a = Some True \<longleftrightarrow> m a = Some True"
  by (auto simp: Add_def)

lemma Range_copy_entry: "Range_copy m tmp \<Longrightarrow> (a, v) \<in> set tmp \<Longrightarrow> m a = Some v"
  by (auto simp: Range_copy_def)

lemmas name_defs = name_inv_def carried_def

lemma name_listener:
  assumes "name_inv a s" "listenIncomingConnections n s t" "never_remote n a"
  shows "name_inv a t \<and> cp_outAddrs t = cp_outAddrs s"
  using assms(2,1,3) by cases (auto simp: name_defs never_remote_def)

lemma name_dialer:
  assumes "name_inv a s" "establishOutgoingConnections n s t" "never_remote n a"
  shows "name_inv a t \<and> (cp_outAddrs s a = Some True \<longrightarrow> cp_outAddrs t a = Some True)"
  using assms(2,1,3)
proof cases
  case (copies tmp)
  then show ?thesis using assms(1)
    by (auto simp: name_defs dest: Range_copy_entry) (simp add: Range_copy_def)
next
  case visits
  then show ?thesis using assms(1,3)
  proof cases
    case (marks addr r rest)
    with assms(1) show ?thesis by (cases "addr = a") (auto simp: name_defs image_iff)
  qed (auto simp: name_defs never_remote_def)
qed (auto simp: name_defs)

lemma name_closer:
  assumes "name_inv a s" "closeConnHandler s t"
  shows "name_inv a t \<and> (cp_outAddrs s a = Some True \<longrightarrow> cp_outAddrs t a = Some True)"
  using assms(2,1)
proof cases
  case (releases xs c b as ys)
  with assms(1) have "b \<noteq> a" by (auto simp: name_defs)
  with releases assms(1) show ?thesis by (auto simp: name_defs)
qed (auto simp: name_defs Addresses_def)

lemma name_others:
  assumes "name_inv a s" "others s t"
  shows "name_inv a t \<and> (cp_outAddrs s a = Some True \<longrightarrow> cp_outAddrs t a = Some True)"
  using assms(2,1)
proof cases
  case (adds_addresses xs c st ys c' st')
  then have "set (c_addresses c') \<subseteq> carried s" unfolding carried_def by fastforce
  with adds_addresses assms(1) show ?thesis by (auto simp: name_defs Addresses_def)
qed (auto simp: name_defs)

lemma name_step:
  assumes "name_inv a s" "provider_step n s t" "never_remote n a"
  shows "name_inv a t" "cp_outAddrs s a = Some True \<Longrightarrow> cp_outAddrs t a = Some True"
  using assms(2) name_listener [OF assms(1) _ assms(3)] name_dialer [OF assms(1) _ assms(3)]
    name_closer [OF assms(1)] name_others [OF assms(1)]
  by (auto elim!: provider_stepE)

text \<open>The step relation restricted to networks in which the name is not a remote address.\<close>

definition name_step_of :: "net \<Rightarrow> gostring \<Rightarrow> provider \<Rightarrow> provider \<Rightarrow> bool" where
  "name_step_of n a s t \<longleftrightarrow> provider_step n s t \<and> never_remote n a"

interpretation names: invariant "\<lambda>s. s = NewConnectionProvider i j" "name_step_of n a" "name_inv a" for i j n a
proof
  show "name_inv a s" if "s = NewConnectionProvider i j" for s
    by (simp add: that NewConnectionProvider_def name_defs)
qed (auto simp: name_step_of_def name_step(1))

interpretation used_names: invariant "\<lambda>s. name_inv a s \<and> cp_outAddrs s a = Some True" "name_step_of n a"
  "\<lambda>s. name_inv a s \<and> cp_outAddrs s a = Some True" for n a
  by unfold_locales (auto simp: name_step_of_def name_step)

lemma name_steps: "never_remote n a \<Longrightarrow> provider_step n = name_step_of n a"
  by (intro ext) (simp add: name_step_of_def)

section \<open>Properties\<close>

text \<open>
  C22. The limits on connections hold in every interleaving of the goroutines: each counter is at every
  moment the number of connections of its kind that are established and not yet closed,
  and never exceeds its maximum, so it neither wraps around nor goes below zero.
\<close>

theorem Connections_bounded:
  assumes "(provider_step n)\<^sup>*\<^sup>* (NewConnectionProvider maxIn maxOut) s"
  shows "unat (cp_inConnCount s) = open_in s \<and> open_in s \<le> unat maxIn \<and>
         unat (cp_outConnCount s) = open_out s \<and> open_out s \<le> unat maxOut"
proof -
  have "counters_inv maxIn maxOut s" by (rule counters.reachable_holds [OF assms refl])
  then have *: "cp_inConnCount s = of_nat (open_in s)" "cp_outConnCount s = of_nat (open_out s)"
    "open_in s \<le> unat maxIn" "open_out s \<le> unat maxOut"
    by (simp_all add: counters_inv_def)
  have "unat (of_nat k :: 32 word) = k" if "k \<le> unat m" for k and m :: "32 word"
  proof -
    have "unat m < 2 ^ LENGTH(32)" by (rule unsigned_less)
    with that show ?thesis by (simp add: unsigned_of_nat take_bit_nat_eq_self)
  qed
  with * show ?thesis by metis
qed

text \<open>
  C27. A bootstrap name is dialled successfully once: the close handler releases the remote addresses of
  the connection, which are numeric, and not the address that was dialled. So an
  address that no connection shows as its remote address (a domain name, like the default
  bootstrap address) stays marked as used from its first connection on, whatever is closed,
  found or moved later, and the dialer is never again about to dial it.
\<close>

theorem Name_stays_used:
  assumes "(provider_step n)\<^sup>*\<^sup>* (NewConnectionProvider maxIn maxOut) s" "never_remote n a"
    "cp_outAddrs s a = Some True" "(provider_step n)\<^sup>*\<^sup>* s t"
  shows "cp_outAddrs t a = Some True \<and> (\<forall>rest. cp_dialer t \<noteq> D_dial a rest)"
proof -
  have "name_inv a s"
    using names.reachable_holds [OF _ refl] assms(1) unfolding name_steps [OF assms(2)] by blast
  then have "name_inv a t \<and> cp_outAddrs t a = Some True"
    using used_names.run_keeps assms(3,4) unfolding name_steps [OF assms(2)] by blast
  then show ?thesis by (auto simp: name_inv_def)
qed

text \<open>A run: the bootstrap name is dialled, the connection is handed on and closed.\<close>

definition toy_net :: net where
  "toy_net = \<lparr>n_dial = \<lambda>d r. d = DefaultBootstrapAddress \<and> r = ''10.0.0.1:8004'', n_accept = \<lambda>r. False\<rparr>"

definition toy_conn :: connection where
  "toy_conn = NewConnection ''10.0.0.1:8004'' False"

definition toy_marked :: provider where
  "toy_marked = (NewConnectionProvider 1 1)
     \<lparr>cp_outAddrs := [DefaultBootstrapAddress \<mapsto> True], cp_outConnCount := 1, cp_dialer := D_send toy_conn []\<rparr>"

definition toy_released :: provider where
  "toy_released = (NewConnectionProvider 1 1)
     \<lparr>cp_outAddrs := [DefaultBootstrapAddress \<mapsto> True], cp_dialer := D_check [],
      cp_conns := [(toy_conn, Releasing [])]\<rparr>"

lemma dialer_first:
  "establishOutgoingConnections n s t \<Longrightarrow> cp_fault s = None \<Longrightarrow> (provider_step n)\<^sup>*\<^sup>* t u \<Longrightarrow>
     (provider_step n)\<^sup>*\<^sup>* s u"
  by (blast intro: by_dialer converse_rtranclp_into_rtranclp)

lemma closer_first:
  "closeConnHandler s t \<Longrightarrow> cp_fault s = None \<Longrightarrow> (provider_step n)\<^sup>*\<^sup>* t u \<Longrightarrow> (provider_step n)\<^sup>*\<^sup>* s u"
  by (blast intro: by_closer converse_rtranclp_into_rtranclp)

lemma toy_conn_facts [simp]: "\<not> c_incoming toy_conn" "c_addresses toy_conn = [''10.0.0.1:8004'']"
  by (simp_all add: toy_conn_def)

lemma toy_net_dials: "n_dial toy_net DefaultBootstrapAddress ''10.0.0.1:8004''"
  by (simp add: toy_net_def)

lemma default_addresses: "setDefaultBootstrapAddresses Map.empty = [DefaultBootstrapAddress \<mapsto> False]"
  by (simp add: setDefaultBootstrapAddresses_def Add_def)

lemma toy_marks: "(provider_step toy_net)\<^sup>*\<^sup>* (NewConnectionProvider 1 1) toy_marked"
  unfolding NewConnectionProvider_def toy_marked_def default_addresses
  apply (rule dialer_first [OF dialer_goes_on]; simp)
  apply (rule dialer_first [OF below_out_limit]; simp)
  apply (rule dialer_first [OF copies [where tmp = "[(DefaultBootstrapAddress, False)]"]]; simp add: Range_copy_def)
  apply (rule dialer_first [OF visits [OF is_unused [where isUsed = False]]]; simp)
  apply (rule dialer_first [OF visits [OF dials [where addr = DefaultBootstrapAddress and r = "''10.0.0.1:8004''"]]]; simp add: toy_net_dials)
  apply (rule dialer_first [OF visits [OF counts_out]]; simp)
  apply (rule dialer_first [OF visits [OF marks [where addr = DefaultBootstrapAddress and r = "''10.0.0.1:8004''"]]]; simp add: Change_def flip: toy_conn_def)
  apply (rule rtranclp.rtrancl_refl)
  done

lemma toy_releases: "(provider_step toy_net)\<^sup>*\<^sup>* toy_marked toy_released"
  unfolding toy_marked_def toy_released_def NewConnectionProvider_def
  apply (rule dialer_first [OF visits [OF hands_on_out]]; simp)
  apply (rule closer_first [OF closes [where xs = "[]"]]; simp)
  apply (rule closer_first [OF uncounts_out [where xs = "[]" and c = toy_conn]]; simp add: IsIncoming_def)
  apply (rule closer_first [OF reads_addresses [where xs = "[]" and c = toy_conn]]; simp add: Addresses_def)
  apply (rule closer_first [OF not_ours [where xs = "[]" and a = "''10.0.0.1:8004''"]]; simp add: Load_def DefaultBootstrapAddress_def)
  apply (rule rtranclp.rtrancl_refl)
  done

theorem Connections_bounded_witness:
  "open_out toy_marked = 1 \<and> unat (cp_outConnCount toy_marked) = 1"
proof -
  from Connections_bounded [OF toy_marks] have "unat (cp_outConnCount toy_marked) = open_out toy_marked" by blast
  then show ?thesis by (simp add: open_out_def toy_marked_def NewConnectionProvider_def)
qed

theorem Name_stays_used_witness:
  "cp_outAddrs toy_released DefaultBootstrapAddress = Some True \<and>
   (\<forall>rest. cp_dialer toy_released \<noteq> D_dial DefaultBootstrapAddress rest)"
proof (rule Name_stays_used [OF toy_marks _ _ toy_releases])
  show "never_remote toy_net DefaultBootstrapAddress"
    by (auto simp: never_remote_def toy_net_def DefaultBootstrapAddress_def)
qed (simp add: toy_marked_def)

end
