(* ===== verification/Api.thy ===== *)
theory Api
  imports Account Provider
begin

text \<open>
  The program interface (\<open>dscuss.go\<close>, \<open>config.go\<close>): initialisation, the one login a process
  can hold, and the operations of a login handle, which combine the storage, the profile,
  the view and the emerging of entities. Handles are pointers into a heap, because
  validity is pointer equality.
\<close>

section \<open>Configuration\<close>

record config =
  cfg_Address :: gostring
  cfg_Port :: int
  cfg_AddressProvider :: gostring
  cfg_DHTPort :: int
  cfg_DHTBootstrap :: gostring
  cfg_MaxInConnCount :: "32 word"
  cfg_MaxOutConnCount :: "32 word"

definition defaultConfig :: config where
  "defaultConfig = \<lparr>cfg_Address = '''', cfg_Port = 8004, cfg_AddressProvider = ''dht'', cfg_DHTPort = 0,
     cfg_DHTBootstrap = ''dscuss.org:6881'', cfg_MaxInConnCount = 10, cfg_MaxOutConnCount = 10\<rparr>"

text \<open>
  What opening and decoding the file gives. A missing file is replaced by the default
  configuration, which is fatal when it cannot be written.
\<close>

datatype config_file = Cannot_open | Cannot_decode | Decoded config

definition newConfig :: "config_file \<Rightarrow> bool \<Rightarrow> config result" where
  "newConfig file can_save =
     (case file of
        Cannot_open \<Rightarrow> if \<not> can_save then Inl Fatal else Ok defaultConfig
      | Cannot_decode \<Rightarrow> Err Config
      | Decoded c \<Rightarrow> Ok c)"

section \<open>The process\<close>

text \<open>What the program runs on: the host and the engines of its libraries.\<close>

record runtime =
  rt_host :: host
  rt_env :: env
  rt_eng :: engine
  rt_pe :: profile_engine
  rt_fuel :: nat

datatype address_provider = AddressList gostring | Crawler dht_crawler

record login_handle =
  lh_owner :: owner
  lh_userDir :: gostring
  lh_aps :: "address_provider list"
  lh_cp :: provider
  lh_running :: bool

type_synonym handle_ref = nat

record process =
  ps_dir :: gostring
  ps_cfg :: "config option"
  ps_logFile :: bool
  ps_login :: "handle_ref option"
  ps_handles :: "handle_ref \<rightharpoonup> login_handle"
  ps_disk :: disk
  ps_lastMsg :: time
  ps_lastOper :: time

definition DefaultDir :: gostring where "DefaultDir = ''~/.dscuss''"
definition AddressListFileName :: gostring where "AddressListFileName = ''addresses.txt''"

text \<open>What the operating system answers \<open>Init\<close>.\<close>

record init_host =
  ih_home :: "gostring option"
  ih_dir_missing :: "gostring \<Rightarrow> bool"
  ih_Mkdir_fails :: bool
  ih_log_fails :: bool
  ih_config :: config_file
  ih_can_save :: bool

definition Init_dir :: "init_host \<Rightarrow> gostring \<Rightarrow> gostring result" where
  "Init_dir ih initDir =
     (let dir = (if initDir = '''' then DefaultDir else initDir)
      in if Truncate dir 2 = ''~/''
         then (case ih_home ih of
                 None \<Rightarrow> Err Internal
               | Some home \<Rightarrow> Ok (if 2 < length dir then Join home (drop 2 dir) else home))
         else Ok dir)"

text \<open>
  \<open>logFile, err := \<dots>\<close> declares a new variable: the package variable \<open>logFile\<close> that \<open>Uninit\<close>
  closes is left as it was.
\<close>

definition Init :: "init_host \<Rightarrow> gostring \<Rightarrow> process \<Rightarrow> unit result \<times> process" where
  "Init ih initDir p =
     (case Init_dir ih initDir of
        Inl err \<Rightarrow> (Inl err, p\<lparr>ps_dir := (if initDir = '''' then DefaultDir else initDir)\<rparr>)
      | Inr dir \<Rightarrow>
          let p1 = p\<lparr>ps_dir := dir\<rparr>
          in if ih_dir_missing ih dir \<and> ih_Mkdir_fails ih then (Err Filesystem, p1)
             else if ih_log_fails ih then (Err Filesystem, p1)
             else (case newConfig (ih_config ih) (ih_can_save ih) of
                     Inl err \<Rightarrow> (Inl err, p1\<lparr>ps_cfg := None\<rparr>)
                   | Inr c \<Rightarrow> (Ok (), p1\<lparr>ps_cfg := Some c\<rparr>)))"

definition IsLoggedIn :: "process \<Rightarrow> bool" where
  "IsLoggedIn p \<longleftrightarrow> ps_login p \<noteq> None"

definition ApiRegister ::
  "runtime \<Rightarrow> gostring \<Rightarrow> gostring \<Rightarrow> subscriptions \<Rightarrow> process \<Rightarrow> unit result \<times> process" where
  "ApiRegister rt nickname info s p =
     (case Register (rt_host rt) (rt_env rt) (rt_eng rt) (rt_pe rt) (ps_dir p) nickname info s (ps_disk p) of
        (r, dk) \<Rightarrow> (r, p\<lparr>ps_disk := dk\<rparr>))"

section \<open>Logging in and out\<close>

fun address_providers ::
  "profile_engine \<Rightarrow> gostring \<Rightarrow> config \<Rightarrow> gostring list \<Rightarrow> profile \<Rightarrow> address_provider list result \<times> profile" where
  "address_providers pe dir cfg [] prof = (Ok [], prof)"
| "address_providers pe dir cfg (name # names) prof =
     (case (if name = ''addrlist'' then (Ok [AddressList (Join dir AddressListFileName)], prof)
            else if name = ''dht'' then
              (case Profile_GetSubscriptions pe prof of
                 (Inl err, prof') \<Rightarrow> (Inl err, prof')
               | (Inr s, prof') \<Rightarrow> (bind_result (NewDHTCrawler (cfg_Port cfg) s) (\<lambda>dc. Ok [Crawler dc]), prof'))
            else (Ok [], prof)) of
        (Inl err, prof') \<Rightarrow> (Inl err, prof')
      | (Inr ap, prof') \<Rightarrow>
          (case address_providers pe dir cfg names prof' of
             (Inl err, prof'') \<Rightarrow> (Inl err, prof'')
           | (Inr aps, prof'') \<Rightarrow> (Ok (ap @ aps), prof'')))"

text \<open>\<open>lh\<close> is the address the new handle is allocated at.\<close>

definition Login :: "runtime \<Rightarrow> gostring \<Rightarrow> handle_ref \<Rightarrow> process \<Rightarrow> handle_ref result \<times> process" where
  "Login rt nickname lh p =
     (if IsLoggedIn p then (Err AlreadyLoggedIn, p)
      else if \<not> IsNicknameValid nickname then (Err WrongNickname, p)
      else (case OwnerNew (rt_host rt) (rt_env rt) (rt_eng rt) (rt_pe rt) (ps_dir p) nickname (ps_disk p) of
              Inl err \<Rightarrow> (Inl err, p)
            | Inr ownr \<Rightarrow>
                (case ps_cfg p of
                   None \<Rightarrow> (Inl Panic, p)
                 | Some cfg \<Rightarrow>
                     (case address_providers (rt_pe rt) (ps_dir p) cfg
                             (split_on CHR '','' (cfg_AddressProvider cfg)) (ow_Profile ownr) of
                        (Inl err, prof) \<Rightarrow> (Inl err, p)
                      | (Inr aps, prof) \<Rightarrow>
                          if aps = [] then (Inl Fatal, p)
                          else (Ok lh, p\<lparr>ps_login := Some lh,
                                 ps_handles := (ps_handles p)(lh \<mapsto>
                                   \<lparr>lh_owner = ownr\<lparr>ow_Profile := prof\<rparr>,
                                    lh_userDir = Join (ps_dir p) nickname, lh_aps = aps,
                                    lh_cp = NewConnectionProvider (cfg_MaxInConnCount cfg) (cfg_MaxOutConnCount cfg),
                                    lh_running = True\<rparr>)\<rparr>)))))"

definition IsValid :: "handle_ref option \<Rightarrow> process \<Rightarrow> bool" where
  "IsValid lh p \<longleftrightarrow> lh \<noteq> None \<and> lh = ps_login p"

definition Logout :: "handle_ref \<Rightarrow> process \<Rightarrow> unit result \<times> process" where
  "Logout lh p =
     (if \<not> IsValid (Some lh) p then (Inl Fatal, p)
      else (case ps_handles p lh of
              None \<Rightarrow> (Inl Panic, p)
            | Some h \<Rightarrow> (Ok (), p\<lparr>ps_login := None,
                  ps_handles := (ps_handles p)(lh \<mapsto> h\<lparr>lh_running := False\<rparr>),
                  ps_disk := OwnerClose (lh_userDir h) (lh_owner h) (ps_disk p)\<rparr>)))"

definition Uninit :: "process \<Rightarrow> unit result \<times> process" where
  "Uninit p = (case ps_login p of None \<Rightarrow> (Ok (), p) | Some lh \<Rightarrow> Logout lh p)"

text \<open>\<open>*lh = *newLoginHandle; login = lh\<close>: the old handle takes over the new one.\<close>

definition Relogin :: "runtime \<Rightarrow> handle_ref \<Rightarrow> handle_ref \<Rightarrow> process \<Rightarrow> unit result \<times> process" where
  "Relogin rt lh new p =
     (case ps_handles p lh of
        None \<Rightarrow> (Inl Panic, p)
      | Some h \<Rightarrow>
          let nick = uNickname (user_content_of (ow_User (lh_owner h)))
          in (case Logout lh p of
                (Inl err, p1) \<Rightarrow> (Inl err, p1)
              | (Inr _, p1) \<Rightarrow>
                  (case Login rt nick new p1 of
                     (Inl err, p2) \<Rightarrow> (Inl err, p2)
                   | (Inr newLoginHandle, p2) \<Rightarrow>
                       (Ok (), p2\<lparr>ps_handles := (ps_handles p2)(lh := ps_handles p2 newLoginHandle),
                                 ps_login := Some lh\<rparr>))))"

section \<open>Operations of a handle\<close>

definition GetLoggedUser :: "owner \<Rightarrow> user" where
  "GetLoggedUser ow = ow_User ow"

abbreviation ow_db :: "owner \<Rightarrow> entity_database" where "ow_db ow \<equiv> st_db (ow_Storage ow)"

text \<open>\<open>clock\<close> are the three readings of the clock, the last component is \<open>lastMsgTimestamp\<close>.\<close>

definition NewThread ::
  "runtime \<Rightarrow> gostring \<Rightarrow> gostring \<Rightarrow> topic \<Rightarrow> time \<times> time \<times> time \<Rightarrow> owner \<Rightarrow> time \<Rightarrow> message result \<times> time" where
  "NewThread rt subj txt tpc clock ow lastMsg =
     EmergeMessage (rt_env rt) subj txt (user_id (ow_User ow)) ZeroID (ow_Signer ow) tpc clock lastMsg"

definition NewReply ::
  "runtime \<Rightarrow> gostring \<Rightarrow> gostring \<Rightarrow> entity_id \<Rightarrow> time \<times> time \<times> time \<Rightarrow> owner \<Rightarrow> time \<Rightarrow> message result \<times> time" where
  "NewReply rt subj txt parentID clock ow lastMsg =
     (case GetMessage (rt_env rt) (rt_eng rt) parentID (ow_db ow) of
        Inl err \<Rightarrow> (Inl err, lastMsg)
      | Inr p \<Rightarrow>
          (case GetMessageDepth (rt_env rt) (rt_eng rt) (ow_db ow) p of
             None \<Rightarrow> (Inl Hang, lastMsg)
           | Some (Inl err) \<Rightarrow> (Inl err, lastMsg)
           | Some (Inr d) \<Rightarrow>
               if MaxMessageDepth \<le> d then (Err MsgDepthExceeded, lastMsg)
               else EmergeMessage (rt_env rt) subj txt (user_id (ow_User ow)) parentID (ow_Signer ow) None
                      clock lastMsg))"

definition NewOperation ::
  "runtime \<Rightarrow> int \<Rightarrow> int \<Rightarrow> gostring \<Rightarrow> entity_id \<Rightarrow> time \<times> time \<times> time \<Rightarrow> owner \<Rightarrow> time
     \<Rightarrow> operation result \<times> time" where
  "NewOperation rt typ reason comment objectID clock ow lastOper =
     EmergeOperation (rt_env rt) typ reason comment (user_id (ow_User ow)) objectID (ow_Signer ow) clock lastOper"

definition PostEntity :: "runtime \<Rightarrow> entity \<Rightarrow> time \<Rightarrow> owner \<Rightarrow> unit result \<times> owner" where
  "PostEntity rt e now ow =
     (case PutEntity (rt_env rt) (rt_eng rt) e None now (ow_Storage ow) of
        (r, st) \<Rightarrow> (r, ow\<lparr>ow_Storage := st\<rparr>))"

definition ApiGetUser :: "runtime \<Rightarrow> entity_id \<Rightarrow> owner \<Rightarrow> user result" where
  "ApiGetUser rt i ow = GetUser (rt_env rt) (rt_eng rt) i (ow_db ow)"

definition ApiGetMessage :: "runtime \<Rightarrow> entity_id \<Rightarrow> owner \<Rightarrow> message result" where
  "ApiGetMessage rt i ow = GetMessage (rt_env rt) (rt_eng rt) i (ow_db ow)"

definition GetRootMessage :: "runtime \<Rightarrow> message \<Rightarrow> owner \<Rightarrow> message result" where
  "GetRootMessage rt m ow =
     (case GetRoot (rt_env rt) (rt_eng rt) (ow_db ow) m of None \<Rightarrow> Inl Hang | Some r \<Rightarrow> r)"

definition ListOperationsOnUser :: "runtime \<Rightarrow> entity_id \<Rightarrow> owner \<Rightarrow> operation list result" where
  "ListOperationsOnUser rt i ow = GetOperationsOnUser (rt_env rt) (rt_eng rt) i (ow_db ow)"

definition ListOperationsOnMessage :: "runtime \<Rightarrow> entity_id \<Rightarrow> owner \<Rightarrow> operation list result" where
  "ListOperationsOnMessage rt i ow = GetOperationsOnMessage (rt_env rt) (rt_eng rt) i (ow_db ow)"

text \<open>The view works on the profile, whose caches it may fill.\<close>

definition moderated ::
  "runtime \<Rightarrow> message list result \<Rightarrow> owner \<Rightarrow> message list result \<times> owner" where
  "moderated rt mm ow =
     (case mm of
        Inl err \<Rightarrow> (Inl err, ow)
      | Inr brd \<Rightarrow>
          (case ModerateMessages (rt_env rt) (rt_eng rt) (rt_pe rt) (ow_db ow) brd (ow_Profile ow) of
             (r, prof) \<Rightarrow> (r, ow\<lparr>ow_Profile := prof\<rparr>)))"

definition ListBoard :: "runtime \<Rightarrow> int \<Rightarrow> int \<Rightarrow> owner \<Rightarrow> message list result \<times> owner" where
  "ListBoard rt offset limit ow =
     (if offset < 0 \<or> limit < 0 then (Err WrongArguments, ow)
      else moderated rt (GetRootMessages (rt_env rt) (rt_eng rt) offset limit (ow_db ow)) ow)"

definition ListTopic :: "runtime \<Rightarrow> topic \<Rightarrow> int \<Rightarrow> int \<Rightarrow> owner \<Rightarrow> message list result \<times> owner" where
  "ListTopic rt tpc offset limit ow =
     (if offset < 0 \<or> limit < 0 then (Err WrongArguments, ow)
      else moderated rt (GetTopicMessages (rt_env rt) (rt_eng rt) tpc offset limit (ow_db ow)) ow)"

definition ListThread :: "runtime \<Rightarrow> entity_id \<Rightarrow> owner \<Rightarrow> node option result \<times> owner" where
  "ListThread rt i ow =
     (case GetThread (rt_env rt) (rt_eng rt) (rt_fuel rt) i (ow_db ow) of
        None \<Rightarrow> (Inl Hang, ow)
      | Some (Inl err) \<Rightarrow> (Inl err, ow)
      | Some (Inr t) \<Rightarrow>
          (case ModerateThread (rt_env rt) (rt_eng rt) (rt_pe rt) (ow_db ow) (Some t) (ow_Profile ow) of
             (r, prof) \<Rightarrow> (r, ow\<lparr>ow_Profile := prof\<rparr>)))"

definition on_profile_of :: "(profile \<Rightarrow> 'a result \<times> profile) \<Rightarrow> owner \<Rightarrow> 'a result \<times> owner" where
  "on_profile_of f ow = (case f (ow_Profile ow) of (r, prof) \<Rightarrow> (r, ow\<lparr>ow_Profile := prof\<rparr>))"

definition Subscribe :: "runtime \<Rightarrow> topic \<Rightarrow> owner \<Rightarrow> unit result \<times> owner" where
  "Subscribe rt tpc = on_profile_of (Profile_PutSubscription (rt_pe rt) tpc)"

definition Unsubscribe :: "runtime \<Rightarrow> topic \<Rightarrow> owner \<Rightarrow> unit result \<times> owner" where
  "Unsubscribe rt tpc = on_profile_of (Profile_RemoveSubscription (rt_pe rt) tpc)"

definition ListSubscriptions :: "runtime \<Rightarrow> owner \<Rightarrow> subscriptions result \<times> owner" where
  "ListSubscriptions rt = on_profile_of (Profile_GetSubscriptions (rt_pe rt))"

definition AddModerator :: "runtime \<Rightarrow> entity_id \<Rightarrow> owner \<Rightarrow> unit result \<times> owner" where
  "AddModerator rt i ow =
     (case HasUser (rt_eng rt) i (ow_db ow) of
        Inl err \<Rightarrow> (Inl err, ow)
      | Inr has \<Rightarrow> if \<not> has then (Err NoSuchUser, ow)
                   else on_profile_of (Profile_PutModerator (rt_pe rt) i) ow)"

definition RemoveModerator :: "runtime \<Rightarrow> entity_id \<Rightarrow> owner \<Rightarrow> unit result \<times> owner" where
  "RemoveModerator rt i = on_profile_of (Profile_RemoveModerator (rt_pe rt) i)"

definition ListModerators :: "runtime \<Rightarrow> owner \<Rightarrow> entity_id list result \<times> owner" where
  "ListModerators rt = on_profile_of (Profile_GetModerators (rt_pe rt))"

definition ListUserHistory :: "runtime \<Rightarrow> owner \<Rightarrow> user_history list result" where
  "ListUserHistory rt ow = Profile_GetFullHistory (rt_pe rt) (ow_Profile ow)"

section \<open>An owner in good order\<close>

text \<open>
  The store represents what was put into it, and the caches of the profile agree with its
  database; \<open>us\<close>, \<open>ms\<close>, \<open>os\<close> are the entities with the times they were stored at.
\<close>

definition sound_runtime :: "runtime \<Rightarrow> bool" where
  "sound_runtime rt \<longleftrightarrow> faithful (rt_eng rt) \<and> preliable (rt_pe rt)"

definition good_owner ::
  "runtime \<Rightarrow> owner \<Rightarrow> (user \<times> time) list \<Rightarrow> (message \<times> time) list \<Rightarrow> (operation \<times> time) list \<Rightarrow> bool" where
  "good_owner rt ow us ms os \<longleftrightarrow> represents (rt_env rt) (ow_db ow) us ms os \<and>
     coherent (rt_pe rt) (ow_Profile ow) \<and> selfID (ow_Profile ow) = user_id (ow_User ow)"

definition board :: "runtime \<Rightarrow> owner \<Rightarrow> (message \<times> time) list \<Rightarrow> (operation \<times> time) list \<Rightarrow> int \<Rightarrow> int \<Rightarrow> message list" where
  "board rt ow ms os offset limit =
     filter (visible (moderator_set (ow_Profile ow)) os)
       (map fst (page offset limit (dated (rt_eng rt) (filter (\<lambda>(m, t). \<not> IsReply m) ms))))"

lemma ModerateMessages_coherent:
  assumes "sound_runtime rt" "good_owner rt ow us ms os"
  shows "\<exists>prof. ModerateMessages (rt_env rt) (rt_eng rt) (rt_pe rt) (ow_db ow) brd (ow_Profile ow) =
    (Ok (filter (visible (moderator_set (ow_Profile ow)) os) brd), prof)"
proof -
  have "stable (rt_pe rt) (moderator_set (ow_Profile ow)) (ow_Profile ow)"
    using assms(2) by (simp add: good_owner_def stable_def)
  with ModerateMessages_ok [of "rt_eng rt" "rt_env rt" "ow_db ow" us ms os "rt_pe rt"] assms show ?thesis
    by (fastforce simp: sound_runtime_def good_owner_def faithful_def)
qed

lemma ListBoard_board:
  assumes "sound_runtime rt" "good_owner rt ow us ms os"
  shows "fst (ListBoard rt offset limit ow) =
    (if offset < 0 \<or> limit < 0 then Err WrongArguments else Ok (board rt ow ms os offset limit))"
proof -
  let ?brd = "map fst (page offset limit (dated (rt_eng rt) (filter (\<lambda>(m, t). \<not> IsReply m) ms)))"
  have "GetRootMessages (rt_env rt) (rt_eng rt) offset limit (ow_db ow) = Ok ?brd"
    using assms by (intro GetRootMessages_represents) (auto simp: sound_runtime_def good_owner_def)
  moreover obtain prof where "ModerateMessages (rt_env rt) (rt_eng rt) (rt_pe rt) (ow_db ow) ?brd (ow_Profile ow) =
      (Ok (filter (visible (moderator_set (ow_Profile ow)) os) ?brd), prof)"
    using ModerateMessages_coherent [OF assms] by blast
  ultimately show ?thesis by (simp add: ListBoard_def moderated_def board_def)
qed

text \<open>Posting a new storable entity keeps an owner in good order.\<close>

lemma Post_message:
  assumes "sound_runtime rt" "good_owner rt ow us ms os" "storable_message (rt_env rt) m"
    "message_id m \<notin> (message_id \<circ> fst) ` set ms"
  shows "\<exists>ow'. PostEntity rt (EMessage m) now ow = (Ok (), ow') \<and> good_owner rt ow' us (ms @ [(m, now)]) os \<and>
    ow_Profile ow' = ow_Profile ow"
proof -
  have r: "represents (rt_env rt) (ow_db ow) us ms os" using assms(2) by (simp add: good_owner_def)
  with assms obtain d' where "PutMessage (rt_eng rt) m now (ow_db ow) = (Ok (), d')"
    "represents (rt_env rt) d' us (ms @ [(m, now)]) os"
    using PutMessage_represents [OF _ r, of "rt_eng rt" m now]
    by (auto simp: sound_runtime_def represents_ids [OF r])
  with assms(2) show ?thesis by (simp add: PostEntity_def PutEntity_def good_owner_def)
qed

lemma Post_operation:
  assumes "sound_runtime rt" "good_owner rt ow us ms os" "storable_operation (rt_env rt) p"
    "operation_id p \<notin> (operation_id \<circ> fst) ` set os"
    "oObjectID (operation_content_of p) \<in>
       (if removes p then (message_id \<circ> fst) ` set ms else (user_id \<circ> fst) ` set us)"
  shows "\<exists>ow'. PostEntity rt (EOperation p) now ow = (Ok (), ow') \<and> good_owner rt ow' us ms (os @ [(p, now)]) \<and>
    ow_Profile ow' = ow_Profile ow"
proof -
  have r: "represents (rt_env rt) (ow_db ow) us ms os" using assms(2) by (simp add: good_owner_def)
  with assms obtain d' where "PutOperation (rt_eng rt) p now (ow_db ow) = (Ok (), d')"
    "represents (rt_env rt) d' us ms (os @ [(p, now)])"
    using PutOperation_represents [OF _ r, of "rt_eng rt" p now]
    by (auto simp: sound_runtime_def represents_ids [OF r] split: if_splits)
  with assms(2) show ?thesis by (simp add: PostEntity_def PutEntity_def good_owner_def)
qed

text \<open>The depth of a message in a larger store, and its dependence on the counter.\<close>

definition extends_messages :: "env \<Rightarrow> engine \<Rightarrow> entity_database \<Rightarrow> entity_database \<Rightarrow> bool" where
  "extends_messages env eng d d' \<longleftrightarrow> (\<forall>i x. GetMessage env eng i d = Ok x \<longrightarrow> GetMessage env eng i d' = Ok x)"

lemma depth_mono:
  "GetMessageDepth_loop env eng d m a = Some y \<Longrightarrow> \<forall>d' n. extends_messages env eng d d' \<longrightarrow> y = Ok n \<longrightarrow>
     (\<exists>k. n = a + k \<and> (\<forall>b. GetMessageDepth_loop env eng d' m b = Some (Ok (b + k))))"
proof (rule GetMessageDepth_loop.raw_induct [where P = "\<lambda>env eng d m a y. \<forall>d' n. extends_messages env eng d d' \<longrightarrow>
    y = Ok n \<longrightarrow> (\<exists>k. n = a + k \<and> (\<forall>b. GetMessageDepth_loop env eng d' m b = Some (Ok (b + k))))"])
  fix loop env eng d m a y
  assume IH: "\<And>env eng d m a y. loop env eng d m a = Some y \<Longrightarrow>
      \<forall>d' n. extends_messages env eng d d' \<longrightarrow> y = Ok n \<longrightarrow>
        (\<exists>k. n = a + k \<and> (\<forall>b. GetMessageDepth_loop env eng d' m b = Some (Ok (b + k))))"
    and y: "(if IsReply m
         then case GetMessage env eng (mParentID (message_content_of m)) d of
                Inl err \<Rightarrow> Some (Inl err) | Inr p \<Rightarrow> loop env eng d p (a + 1)
         else Some (Ok a)) = Some y"
  show "\<forall>d' n. extends_messages env eng d d' \<longrightarrow> y = Ok n \<longrightarrow>
     (\<exists>k. n = a + k \<and> (\<forall>b. GetMessageDepth_loop env eng d' m b = Some (Ok (b + k))))"
  proof (intro allI impI)
    fix d' n assume ext: "extends_messages env eng d d'" and n: "y = Ok n"
    show "\<exists>k. n = a + k \<and> (\<forall>b. GetMessageDepth_loop env eng d' m b = Some (Ok (b + k)))"
    proof (cases "IsReply m")
      case True
      with y n obtain p where
        p: "GetMessage env eng (mParentID (message_content_of m)) d = Ok p" "loop env eng d p (a + 1) = Some (Ok n)"
        by (auto split: sum.splits)
      from IH [OF p(2)] ext obtain k where
        k: "n = a + 1 + k" "\<And>b. GetMessageDepth_loop env eng d' p b = Some (Ok (b + k))" by blast
      have "GetMessage env eng (mParentID (message_content_of m)) d' = Ok p"
        using ext p(1) by (simp add: extends_messages_def)
      with True k show ?thesis
        by (intro exI [of _ "Suc k"]) (simp add: GetMessageDepth_loop.simps [of _ _ _ m])
    next
      case False
      with y n show ?thesis
        by (intro exI [of _ 0]) (simp add: GetMessageDepth_loop.simps [of _ _ _ m])
    qed
  qed
qed

lemma extends_append:
  assumes "faithful eng" "represents env d us ms os" "represents env d' us (ms @ ms') os"
  shows "extends_messages env eng d d'"
proof -
  have "find P xs = Some x \<Longrightarrow> find P (xs @ ys) = Some x" for P :: "message \<times> time \<Rightarrow> bool" and xs ys x
    by (induction xs) auto
  then show ?thesis
    by (auto simp: extends_messages_def GetMessage_represents [OF assms(1,2)]
        GetMessage_represents [OF assms(1,3)] split: option.splits)
qed

lemma EmergeMessage_parts:
  "EmergeMessage env s x a p sg t clock lastMsg = (Ok m, l) \<Longrightarrow>
     mParentID (message_content_of m) = p \<and> mAuthorID (message_content_of m) = a"
  by (auto simp: EmergeMessage_def Let_def bind_result_eq_Inr newUnsignedMessage_def newMessageContent_def
      split: prod.splits if_splits)

lemma visible_append:
  "visible M (os @ [(p, t)]) m \<longleftrightarrow> visible M os m \<and> \<not> (oAuthorID (operation_content_of p) \<in> M \<and>
     (bans p \<and> oObjectID (operation_content_of p) = mAuthorID (message_content_of m) \<or>
      removes p \<and> oObjectID (operation_content_of p) = message_id m))"
  by (auto simp: visible_def banned_by_def)

section \<open>A session from login to logout\<close>

text \<open>
  What happens to the owner while a handle is valid: the interface and the peers store
  entities, and the interface changes and reads the profile.
\<close>

inductive owner_op :: "runtime \<Rightarrow> owner \<Rightarrow> owner \<Rightarrow> bool" for rt where
  stores: "PutEntity (rt_env rt) (rt_eng rt) e sender now (ow_Storage ow) = (r, st) \<Longrightarrow>
    owner_op rt ow (ow\<lparr>ow_Storage := st\<rparr>)"
| attaches: "owner_op rt ow (ow\<lparr>ow_Storage := AttachObserver c (ow_Storage ow)\<rparr>)"
| detaches: "owner_op rt ow (ow\<lparr>ow_Storage := DetachObserver c (ow_Storage ow)\<rparr>)"
| subscribes: "owner_op rt ow (snd (Subscribe rt tpc ow))"
| unsubscribes: "owner_op rt ow (snd (Unsubscribe rt tpc ow))"
| adds_moderator: "owner_op rt ow (snd (AddModerator rt i ow))"
| removes_moderator: "owner_op rt ow (snd (RemoveModerator rt i ow))"
| lists_subscriptions: "owner_op rt ow (snd (ListSubscriptions rt ow))"
| lists_moderators: "owner_op rt ow (snd (ListModerators rt ow))"
| lists_board: "owner_op rt ow (snd (ListBoard rt offset limit ow))"
| lists_topic: "owner_op rt ow (snd (ListTopic rt tpc offset limit ow))"
| lists_thread: "owner_op rt ow (snd (ListThread rt i ow))"
| saves_history: "Profile_PutUserHistory (rt_pe rt) hist (ow_Profile ow) = (r, prof) \<Longrightarrow>
    owner_op rt ow (ow\<lparr>ow_Profile := prof\<rparr>)"

inductive_cases owner_opE: "owner_op rt ow ow'"

text \<open>The owner's own identity in its store.\<close>

definition knows_self :: "runtime \<Rightarrow> owner \<Rightarrow> bool" where
  "knows_self rt ow \<longleftrightarrow> GetUser (rt_env rt) (rt_eng rt)
     (NewID (env_crypto (rt_env rt)) (EncodeToDER (env_crypto (rt_env rt)) (s_public (ow_Signer ow)))) (ow_db ow)
     = Ok (ow_User ow)"

lemma PutEntity_keeps_users:
  assumes "PutEntity env eng e sender now s = (r, s')" "find (\<lambda>x. ur_id x = i) (Users (st_db s)) = Some x"
  shows "find (\<lambda>x. ur_id x = i) (Users (st_db s')) = Some x"
proof (cases e)
  case (EUser u)
  with assms show ?thesis
    using user_rows.store_find [of i "user_row_of env u now" "st_db s"]
    by (auto simp: PutEntity_def PutUser_def split: if_splits sum.splits prod.splits)
next
  case (EMessage m)
  with assms put_keeps(6) [of "eng" m now "st_db s"] show ?thesis
    by (auto simp: PutEntity_def split: sum.splits prod.splits)
next
  case (EOperation p)
  with assms put_keeps(8) [of "eng" p now "st_db s"] show ?thesis
    by (auto simp: PutEntity_def split: sum.splits prod.splits)
qed

lemma GetUser_row:
  assumes "reliable eng" "GetUser env eng i d = Ok u"
    "\<And>x. find (\<lambda>x. ur_id x = i) (Users d) = Some x \<Longrightarrow> find (\<lambda>x. ur_id x = i) (Users d') = Some x"
  shows "GetUser env eng i d' = Ok u"
  using assms by (auto simp: GetUser_def split: option.splits if_splits)

lemma on_profile_of_frame [simp]:
  "ow_User (snd (on_profile_of f ow)) = ow_User ow" "ow_Signer (snd (on_profile_of f ow)) = ow_Signer ow"
  "ow_Storage (snd (on_profile_of f ow)) = ow_Storage ow"
  by (simp_all add: on_profile_of_def split: prod.split)

lemma moderated_frame [simp]:
  "ow_User (snd (moderated rt mm ow)) = ow_User ow" "ow_Signer (snd (moderated rt mm ow)) = ow_Signer ow"
  "ow_Storage (snd (moderated rt mm ow)) = ow_Storage ow"
  by (simp_all add: moderated_def split: prod.split sum.split)

lemma owner_op_frame:
  assumes "owner_op rt ow ow'"
  shows "ow_User ow' = ow_User ow \<and> ow_Signer ow' = ow_Signer ow"
  using assms
  by cases (auto simp: Subscribe_def Unsubscribe_def AddModerator_def RemoveModerator_def ListSubscriptions_def
      ListModerators_def ListBoard_def ListTopic_def ListThread_def split: prod.split sum.split option.split)

lemma owner_op_users:
  assumes "owner_op rt ow ow'" "find (\<lambda>x. ur_id x = i) (Users (ow_db ow)) = Some x"
  shows "find (\<lambda>x. ur_id x = i) (Users (ow_db ow')) = Some x"
  using assms(1)
proof cases
  case (stores e sender now r st)
  with PutEntity_keeps_users [OF _ assms(2)] show ?thesis by simp
qed (use assms(2) in \<open>auto simp: Subscribe_def Unsubscribe_def AddModerator_def RemoveModerator_def
   ListSubscriptions_def ListModerators_def ListBoard_def ListTopic_def ListThread_def AttachObserver_def
   DetachObserver_def split: prod.split sum.split option.split\<close>)

lemma owner_op_knows:
  assumes "reliable (rt_eng rt)" "owner_op rt ow ow'" "knows_self rt ow"
  shows "knows_self rt ow'"
  using assms(3) owner_op_frame [OF assms(2)] GetUser_row [OF assms(1) _ owner_op_users [OF assms(2)]]
  by (auto simp: knows_self_def)

lemma owner_ops_knows:
  assumes "(owner_op rt)\<^sup>*\<^sup>* ow ow'" "reliable (rt_eng rt)" "knows_self rt ow"
  shows "knows_self rt ow' \<and> ow_User ow' = ow_User ow \<and> ow_Signer ow' = ow_Signer ow"
  using assms by (induction rule: rtranclp_induct) (auto dest: owner_op_knows owner_op_frame)

section \<open>Properties\<close>


text \<open>
  C13. A ban by the owner takes effect: posting a ban of a stored user succeeds, and every page of the
  board is then the page it was without the messages of that user. Pages are cut before
  they are moderated, so they get shorter.
\<close>

theorem Own_ban_hides:
  assumes "sound_runtime rt" "good_owner rt ow us ms os" "storable_operation (rt_env rt) p" "bans p"
    "operation_id p \<notin> (operation_id \<circ> fst) ` set os"
    "oAuthorID (operation_content_of p) = user_id (ow_User ow)"
    "oObjectID (operation_content_of p) \<in> (user_id \<circ> fst) ` set us"
  shows "\<exists>ow'. PostEntity rt (EOperation p) now ow = (Ok (), ow') \<and>
    (\<forall>offset limit. fst (ListBoard rt offset limit ow') = bind_result (fst (ListBoard rt offset limit ow))
       (\<lambda>brd. Ok (filter (\<lambda>m. mAuthorID (message_content_of m) \<noteq> oObjectID (operation_content_of p)) brd)))"
proof -
  have nr: "\<not> removes p" using assms(4) by (simp add: OperationTypeBanUser_def OperationTypeRemoveMessage_def)
  with assms(7) have "oObjectID (operation_content_of p) \<in>
      (if removes p then (message_id \<circ> fst) ` set ms else (user_id \<circ> fst) ` set us)" by simp
  from Post_operation [OF assms(1,2,3,5) this] obtain ow' where
    ow': "PostEntity rt (EOperation p) now ow = (Ok (), ow')" "good_owner rt ow' us ms (os @ [(p, now)])"
    "ow_Profile ow' = ow_Profile ow" by blast
  have self: "user_id (ow_User ow) \<in> moderator_set (ow_Profile ow)"
    using assms(2) by (simp add: good_owner_def moderator_set_def)
  have "board rt ow' ms (os @ [(p, now)]) offset limit =
      filter (\<lambda>m. mAuthorID (message_content_of m) \<noteq> oObjectID (operation_content_of p)) (board rt ow ms os offset limit)"
    for offset limit
    using assms(4,6) nr self by (auto simp: board_def ow'(3) visible_append intro!: filter_cong)
  with ow'(1) ListBoard_board [OF assms(1,2)] ListBoard_board [OF assms(1) ow'(2)] show ?thesis
    by (intro exI [of _ ow']) simp
qed

text \<open>
  C26. Threads stay shallow: a reply the interface lets a user write, once posted, has a depth of at
  most \<open>MaxMessageDepth\<close> below its root and hangs under the message it was written to.
\<close>

theorem Reply_depth_bounded:
  assumes "sound_runtime rt" "good_owner rt ow us ms os"
    "NewReply rt subj txt pid clock ow lastMsg = (Ok m, l)" "storable_message (rt_env rt) m"
    "message_id m \<notin> (message_id \<circ> fst) ` set ms"
  shows "\<exists>ow' n. PostEntity rt (EMessage m) now ow = (Ok (), ow') \<and>
    GetMessageDepth (rt_env rt) (rt_eng rt) (ow_db ow') m = Some (Ok n) \<and> n \<le> MaxMessageDepth \<and>
    mParentID (message_content_of m) = pid"
proof -
  obtain ow' where ow': "PostEntity rt (EMessage m) now ow = (Ok (), ow')"
    "good_owner rt ow' us (ms @ [(m, now)]) os"
    using Post_message [OF assms(1,2,4,5)] by blast
  have ext: "extends_messages (rt_env rt) (rt_eng rt) (ow_db ow) (ow_db ow')"
    using extends_append assms(1,2) ow'(2) by (meson good_owner_def sound_runtime_def)
  from assms(3) obtain p d where p: "GetMessage (rt_env rt) (rt_eng rt) pid (ow_db ow) = Ok p"
    "GetMessageDepth (rt_env rt) (rt_eng rt) (ow_db ow) p = Some (Ok d)" "d < MaxMessageDepth"
    "EmergeMessage (rt_env rt) subj txt (user_id (ow_User ow)) pid (ow_Signer ow) None clock lastMsg = (Ok m, l)"
    by (auto simp: NewReply_def split: sum.splits option.splits if_splits)
  from depth_mono [OF p(2) [unfolded GetMessageDepth_def]] ext have
    d: "GetMessageDepth_loop (rt_env rt) (rt_eng rt) (ow_db ow') p b = Some (Ok (b + d))" for b by force
  have pid: "mParentID (message_content_of m) = pid" using EmergeMessage_parts [OF p(4)] by simp
  have "GetMessage (rt_env rt) (rt_eng rt) pid (ow_db ow') = Ok p"
    using ext p(1) by (simp add: extends_messages_def)
  with pid d have "GetMessageDepth (rt_env rt) (rt_eng rt) (ow_db ow') m = Some (Ok (if IsReply m then Suc d else 0))"
    by (simp add: GetMessageDepth_def GetMessageDepth_loop.simps [of _ _ _ m])
  with ow'(1) pid p(3) show ?thesis by auto
qed

text \<open>What a login leaves.\<close>

lemma address_providers_db:
  "address_providers pe dir cfg names prof = (r, prof') \<Longrightarrow> pr_db prof' = pr_db prof"
proof (induction names arbitrary: prof r)
  case (Cons n ns)
  have "pr_db p' = pr_db p" if "Profile_GetSubscriptions pe p = (x, p')" for p p' x
    using that by (auto simp: Profile_GetSubscriptions_def split: if_splits sum.splits)
  with Cons show ?case by (fastforce split: if_splits sum.splits prod.splits)
qed simp

lemma Login_Ok:
  assumes "Login rt nick lh p = (Ok l, p1)"
  obtains ud pem ow prof aps cp where "l = lh" "ps_disk p1 = ps_disk p" "ps_dir p1 = ps_dir p" "ps_login p1 = Some lh"
    "ps_disk p (Join (ps_dir p) nick) = Some ud" "ud_privkey ud = Some pem"
    "h_ParsePrivateKeyFromPEM (rt_host rt) pem = Ok (ow_Signer ow)" "knows_self rt ow"
    "ps_handles p1 lh = Some \<lparr>lh_owner = ow, lh_userDir = Join (ps_dir p) nick, lh_aps = aps, lh_cp = cp, lh_running = True\<rparr>"
proof -
  let ?own = "OwnerNew (rt_host rt) (rt_env rt) (rt_eng rt) (rt_pe rt) (ps_dir p) nick (ps_disk p)"
  have guards: "\<not> IsLoggedIn p" "IsNicknameValid nick" using assms by (auto simp: Login_def split: if_splits)
  obtain ow where ow: "?own = Ok ow" using assms guards by (cases ?own) (auto simp: Login_def)
  obtain cfg where cfg: "ps_cfg p = Some cfg" using assms guards ow by (cases "ps_cfg p") (auto simp: Login_def)
  let ?ap = "address_providers (rt_pe rt) (ps_dir p) cfg (split_on CHR '','' (cfg_AddressProvider cfg)) (ow_Profile ow)"
  obtain aps prof where ap: "?ap = (Ok aps, prof)"
    using assms guards ow cfg by (cases ?ap; cases "fst ?ap") (auto simp: Login_def)
  have p1: "l = lh" "p1 = p\<lparr>ps_login := Some lh, ps_handles := (ps_handles p)(lh \<mapsto>
      \<lparr>lh_owner = ow\<lparr>ow_Profile := prof\<rparr>, lh_userDir = Join (ps_dir p) nick, lh_aps = aps,
       lh_cp = NewConnectionProvider (cfg_MaxInConnCount cfg) (cfg_MaxOutConnCount cfg), lh_running = True\<rparr>)\<rparr>"
    using assms guards ow cfg ap by (auto simp: Login_def split: if_splits)
  from ow obtain ud pem where "ps_disk p (Join (ps_dir p) nick) = Some ud" "ud_privkey ud = Some pem"
    "h_ParsePrivateKeyFromPEM (rt_host rt) pem = Ok (ow_Signer ow)" "knows_self rt ow"
    by (auto simp: OwnerNew_def knows_self_def NewStorage_def bind_result_eq_Inr split: option.splits if_splits)
  with p1 that [of ud pem "ow\<lparr>ow_Profile := prof\<rparr>"] show ?thesis by (simp add: knows_self_def)
qed

text \<open>Replacing the owner a handle holds: what the operations on a handle amount to.\<close>

definition with_owner :: "handle_ref \<Rightarrow> owner \<Rightarrow> process \<Rightarrow> process" where
  "with_owner lh ow p = p\<lparr>ps_handles := (ps_handles p)(lh := map_option (\<lambda>h. h\<lparr>lh_owner := ow\<rparr>) (ps_handles p lh))\<rparr>"

text \<open>What logging out leaves on the disk, and opening the owner again.\<close>

lemma Logout_opens:
  assumes p: "ps_login p = Some l" "ps_handles p l = Some h" "lh_userDir h = Join (ps_dir p) nick"
      "ps_disk p (Join (ps_dir p) nick) = Some ud" "ud_privkey ud = Some pem"
      "h_ParsePrivateKeyFromPEM (rt_host rt) pem = Ok (ow_Signer (lh_owner h))" "knows_self rt (lh_owner h)"
    and rt: "reliable (rt_eng rt)" "preliable (rt_pe rt)" "good_host (rt_host rt)"
  shows "\<exists>q. Logout l p = (Ok (), q) \<and> ps_login q = None \<and> ps_dir q = ps_dir p \<and> ps_cfg q = ps_cfg p \<and>
    ps_disk q (Join (ps_dir p) nick) = Some (ud\<lparr>ud_entity := Some (ow_db (lh_owner h)),
      ud_profile := Some (pr_db (ow_Profile (lh_owner h)))\<rparr>) \<and>
    OwnerNew (rt_host rt) (rt_env rt) (rt_eng rt) (rt_pe rt) (ps_dir q) nick (ps_disk q) =
      Ok \<lparr>ow_User = ow_User (lh_owner h), ow_Storage = NewStorage (ow_db (lh_owner h)),
          ow_Profile = NewProfile (pr_db (ow_Profile (lh_owner h))) (user_id (ow_User (lh_owner h))),
          ow_Signer = ow_Signer (lh_owner h)\<rparr>"
proof -
  let ?q = "snd (Logout l p)"
  have q: "Logout l p = (Ok (), ?q)" "ps_login ?q = None" "ps_dir ?q = ps_dir p" "ps_cfg ?q = ps_cfg p"
    "ps_disk ?q (Join (ps_dir p) nick) = Some (ud\<lparr>ud_entity := Some (ow_db (lh_owner h)),
      ud_profile := Some (pr_db (ow_Profile (lh_owner h)))\<rparr>)"
    using p(1-4) by (simp_all add: Logout_def IsValid_def OwnerClose_def)
  moreover from q have "OwnerNew (rt_host rt) (rt_env rt) (rt_eng rt) (rt_pe rt) (ps_dir ?q) nick (ps_disk ?q) =
      Ok \<lparr>ow_User = ow_User (lh_owner h), ow_Storage = NewStorage (ow_db (lh_owner h)),
          ow_Profile = NewProfile (pr_db (ow_Profile (lh_owner h))) (user_id (ow_User (lh_owner h))),
          ow_Signer = ow_Signer (lh_owner h)\<rparr>"
    using p(5-7) rt(3)
    by (simp add: OwnerNew_def good_host_def entity_file_def profile_file_def knows_self_def
        OpenEntityDatabase_reliable [OF rt(1)] OpenProfileDatabase_reliable [OF rt(2)])
  ultimately show ?thesis by blast
qed

text \<open>
  C12. Nothing a session did is lost: after a login, any number of operations by the interface and by
  peers, and the logout, opening the owner again gives the same user and key, with the
  entity and profile databases exactly as the session left them; and the old handle has
  become invalid, so that a second logout through it ends the process.
\<close>

theorem Session_survives_logout:
  assumes "Login rt nick lh p = (Ok l, p1)" "ps_handles p1 lh = Some h" "(owner_op rt)\<^sup>*\<^sup>* (lh_owner h) ow"
    "reliable (rt_eng rt)" "preliable (rt_pe rt)" "good_host (rt_host rt)"
  shows "\<exists>p3 ow'. Logout lh (with_owner lh ow p1) = (Ok (), p3) \<and> \<not> IsLoggedIn p3 \<and> fst (Logout lh p3) = Inl Fatal \<and>
    OwnerNew (rt_host rt) (rt_env rt) (rt_eng rt) (rt_pe rt) (ps_dir p3) nick (ps_disk p3) = Ok ow' \<and>
    ow_User ow' = ow_User (lh_owner h) \<and> ow_Signer ow' = ow_Signer (lh_owner h) \<and>
    ow_db ow' = ow_db ow \<and> pr_db (ow_Profile ow') = pr_db (ow_Profile ow)"
proof (rule Login_Ok [OF assms(1)])
  fix ud pem ow0 and prof :: profile and aps cp
  assume l: "ps_disk p1 = ps_disk p" "ps_dir p1 = ps_dir p" "ps_login p1 = Some lh"
    "ps_disk p (Join (ps_dir p) nick) = Some ud" "ud_privkey ud = Some pem"
    "h_ParsePrivateKeyFromPEM (rt_host rt) pem = Ok (ow_Signer ow0)" "knows_self rt ow0"
    "ps_handles p1 lh = Some \<lparr>lh_owner = ow0, lh_userDir = Join (ps_dir p) nick, lh_aps = aps, lh_cp = cp, lh_running = True\<rparr>"
  then have h: "lh_owner h = ow0" "lh_userDir h = Join (ps_dir p) nick" using assms(2) by auto
  have ow: "knows_self rt ow" "ow_User ow = ow_User ow0" "ow_Signer ow = ow_Signer ow0"
    using owner_ops_knows [OF assms(3,4)] l(7) h(1) by auto
  define p2 where "p2 = with_owner lh ow p1"
  have p2: "ps_handles p2 lh = Some (h\<lparr>lh_owner := ow\<rparr>)" "ps_login p2 = Some lh" "ps_disk p2 = ps_disk p"
    "ps_dir p2 = ps_dir p"
    using assms(2) l by (simp_all add: p2_def with_owner_def)
  from p2 h l(4-6) ow obtain p3 where p3: "Logout lh p2 = (Ok (), p3)" "ps_login p3 = None" "ps_dir p3 = ps_dir p2"
    "OwnerNew (rt_host rt) (rt_env rt) (rt_eng rt) (rt_pe rt) (ps_dir p3) nick (ps_disk p3) =
      Ok \<lparr>ow_User = ow_User ow, ow_Storage = NewStorage (ow_db ow),
          ow_Profile = NewProfile (pr_db (ow_Profile ow)) (user_id (ow_User ow)), ow_Signer = ow_Signer ow\<rparr>"
    using Logout_opens [of p2 lh "h\<lparr>lh_owner := ow\<rparr>" nick ud pem rt, OF _ _ _ _ _ _ _ assms(4-6)] by auto
  with h ow show ?thesis unfolding p2_def [symmetric]
    by (intro exI [of _ p3] exI) (auto simp: IsLoggedIn_def Logout_def IsValid_def NewStorage_def NewProfile_def)
qed

section \<open>Witnesses\<close>

text \<open>A node with its own user, who also wrote the one message of the store.\<close>

definition toy_rt :: runtime where
  "toy_rt = \<lparr>rt_host = toy_host, rt_env = toy_env, rt_eng = toy_engine, rt_pe = toy_profile_engine, rt_fuel = 10\<rparr>"

definition toy_owner :: "entity_database \<Rightarrow> owner" where
  "toy_owner d = \<lparr>ow_User = toy_user, ow_Storage = NewStorage d,
     ow_Profile = NewProfile empty_profile_database (user_id toy_user), ow_Signer = emerge_signer\<rparr>"

abbreviation toy_root :: message where "toy_root \<equiv> toy_message ''a'' ZeroID (Some [''x''])"

definition toy_id :: "byte \<Rightarrow> entity_id" where "toy_id b = b # replicate 31 1"

lemma toy_hash_single: "toy_hash [b] = toy_id b"
  by (simp add: toy_hash_def toy_id_def numeral_eq_Suc)

lemma toy_id_facts [simp]: "length (toy_id b) = 32" "toy_id b = toy_id c \<longleftrightarrow> b = c" "toy_id b \<noteq> ZeroID"
  by (simp_all add: toy_id_def ZeroID_def IDLen_def) (simp add: numeral_eq_Suc)

lemma toy_uid: "user_id toy_user = toy_id 7"
proof -
  have "EncodeToDER (env_crypto toy_env) (s_public emerge_signer) = [7]"
    by (simp add: EncodeToDER_def toy_env_def toy_crypto_def emerge_signer_def be_bytes.simps [of 7] be_bytes.simps [of 0])
  with EmergeUser_Ok(7) [OF toy_EmergeUser good_emerge_signer] show ?thesis
    by (simp add: NewID_def) (simp add: toy_env_def toy_hash_single)
qed

lemma toy_message_ids:
  "message_id (toy_message ''a'' p t) = toy_id 97" "message_id (toy_message ''b'' p t) = toy_id 98"
  by (simp_all add: toy_message_parts toy_hash_single)

lemma sound_toy: "sound_runtime toy_rt"
  by (simp add: sound_runtime_def toy_rt_def)

lemma storable_toy_root: "storable_message toy_env toy_root"
  using toy_tag_valid by (intro storable_toy) simp_all

lemma toy_owner_good:
  "\<exists>d. good_owner toy_rt (toy_owner d) [(toy_user, 0)] [(toy_root, 5)] []"
proof -
  have r: "reliable toy_engine" by (rule faithful_reliable [OF faithful_toy])
  obtain d1 where d1: "represents toy_env d1 [(toy_user, 0)] [] []"
    using PutUser_represents [OF r represents_empty storable_toy_user, of 0]
    by (auto simp: user_ids_def empty_database_def)
  then obtain d where "represents toy_env d [(toy_user, 0)] [(toy_root, 5)] []"
    using PutMessage_represents [OF r d1 storable_toy_root, of 5] by (auto simp: represents_ids [OF d1])
  moreover have "coherent toy_profile_engine (NewProfile empty_profile_database (user_id toy_user))"
    using pdb_wf_empty by (simp add: coherent_def NewProfile_def) (simp add: empty_profile_database_def)
  ultimately show ?thesis by (auto simp: good_owner_def toy_rt_def toy_owner_def NewStorage_def NewProfile_def)
qed


definition toy_ban :: operation where
  "toy_ban = \<lparr>oper_unsigned = newUnsignedOperation toy_env OperationTypeBanUser OperationReasonSpam ''c''
     (user_id toy_user) (user_id toy_user) 0, oper_sig = []\<rparr>"

theorem Own_ban_hides_witness:
  "\<exists>d ow'. PostEntity toy_rt (EOperation toy_ban) 9 (toy_owner d) = (Ok (), ow') \<and>
     fst (ListBoard toy_rt 0 10 ow') = bind_result (fst (ListBoard toy_rt 0 10 (toy_owner d)))
       (\<lambda>brd. Ok (filter (\<lambda>m. mAuthorID (message_content_of m) \<noteq> user_id toy_user) brd))"
proof -
  obtain d where d: "good_owner toy_rt (toy_owner d) [(toy_user, 0)] [(toy_root, 5)] []"
    using toy_owner_good by blast
  have parts: "oType (operation_content_of toy_ban) = OperationTypeBanUser"
    "oAuthorID (operation_content_of toy_ban) = user_id toy_user"
    "oObjectID (operation_content_of toy_ban) = user_id toy_user"
    by (simp_all add: toy_ban_def newUnsignedOperation_def newOperationContent_def Let_def)
  have "storable_operation (rt_env toy_rt) toy_ban"
    by (simp add: toy_rt_def storable_operation_def toy_ban_def newUnsignedOperation_def newOperationContent_def
        Let_def UnsignedOperation_isValid_def oper_type_defs oper_reason_defs ID_IsZero_def IDLen_def
        OperationContent_ToID_def NewID_def toy_env_def operation_id_def toy_uid)
  from Own_ban_hides [OF sound_toy d this, of 9] parts show ?thesis
    by (auto simp: toy_owner_def)
qed

theorem Reply_depth_bounded_witness:
  "\<exists>d m l ow' n. NewReply toy_rt ''b'' ''t'' (message_id toy_root) (Hour, Hour, Hour) (toy_owner d) 0 = (Ok m, l) \<and>
     PostEntity toy_rt (EMessage m) 9 (toy_owner d) = (Ok (), ow') \<and>
     GetMessageDepth toy_env toy_engine (ow_db ow') m = Some (Ok n) \<and> n \<le> MaxMessageDepth"
proof -
  obtain d where d: "good_owner toy_rt (toy_owner d) [(toy_user, 0)] [(toy_root, 5)] []"
    using toy_owner_good by blast
  let ?um = "newUnsignedMessage toy_env ''b'' ''t'' (user_id toy_user) (message_id toy_root) Hour None"
  let ?m = "\<lparr>msg_unsigned = ?um, msg_sig = toy_sig\<rparr>"
  note id = toy_message_ids(1)
  have valid: "UnsignedMessage_isValid toy_env ?um"
    by (simp add: UnsignedMessage_isValid_def newUnsignedMessage_def newMessageContent_def Let_def id toy_uid
        ID_IsZero_def MaxMessageSubjectLen_def MaxMessageTextLen_def)
  then have emerge: "EmergeMessage toy_env ''b'' ''t'' (user_id toy_user) (message_id toy_root) emerge_signer None
      (Hour, Hour, Hour) 0 = (Ok ?m, Hour)"
    by (simp add: EmergeMessage_def Let_def time_sub_def MinMessagePostDelay_def duration_defs toy_Sign)
  have rep: "represents toy_env d [(toy_user, 0)] [(toy_root, 5)] []"
    using d by (simp add: good_owner_def toy_rt_def toy_owner_def NewStorage_def)
  have "GetMessage toy_env toy_engine (message_id toy_root) d = Ok toy_root"
    by (simp add: GetMessage_represents [OF faithful_toy rep])
  moreover have "GetMessageDepth toy_env toy_engine d toy_root = Some (Ok 0)"
    by (simp add: GetMessageDepth_def GetMessageDepth_loop.simps [of _ _ _ toy_root] IsReply_def
        toy_message_parts ID_IsZero_def)
  ultimately have reply: "NewReply toy_rt ''b'' ''t'' (message_id toy_root) (Hour, Hour, Hour) (toy_owner d) 0 = (Ok ?m, Hour)"
    using emerge by (simp add: NewReply_def toy_rt_def toy_owner_def NewStorage_def MaxMessageDepth_def)
  have mid: "message_id ?m = toy_id 98"
    by (simp add: message_id_def newUnsignedMessage_def newMessageContent_def Let_def MessageContent_ToID_def
        NewID_def toy_env_def toy_hash_single)
  have "storable_message (rt_env toy_rt) ?m"
    using valid mid by (simp add: toy_rt_def storable_message_def newUnsignedMessage_def newMessageContent_def
        Let_def id toy_uid IDLen_def Topic_IsValid_def)
  moreover have "message_id ?m \<notin> (message_id \<circ> fst) ` set [(toy_root, 5)]" using mid id by simp
  ultimately show ?thesis
    using Reply_depth_bounded [OF sound_toy d reply, of 9] reply by (auto simp: toy_rt_def)
qed

text \<open>The process of a registered user who reads addresses from a file.\<close>

definition toy_process :: "disk \<Rightarrow> process" where
  "toy_process dk = \<lparr>ps_dir = ''home'', ps_cfg = Some (defaultConfig\<lparr>cfg_AddressProvider := ''addrlist''\<rparr>),
     ps_logFile = False, ps_login = None, ps_handles = Map.empty, ps_disk = dk, ps_lastMsg = 0, ps_lastOper = 0\<rparr>"

lemma toy_login:
  "\<exists>dk p1. Login toy_rt ''nick_1'' 0 (toy_process dk) = (Ok 0, p1) \<and> (\<exists>h. ps_handles p1 0 = Some h \<and>
     uNickname (user_content_of (ow_User (lh_owner h))) = ''nick_1'')"
proof -
  obtain dk where reg: "Register toy_host toy_env toy_engine toy_profile_engine ''home'' ''nick_1'' [] [Some [''x'']] Map.empty = (Ok (), dk)"
    using toy_register by blast
  have host: "good_host toy_host" "h_NewPrivateKey toy_host = Some emerge_signer"
    "h_ParsePrivateKeyFromPEM toy_host (h_EncodeToPEM toy_host emerge_signer) = Ok emerge_signer"
    by (simp_all add: good_host_def toy_host_def)
  obtain ow where ow: "OwnerNew toy_host toy_env toy_engine toy_profile_engine ''home'' ''nick_1'' dk = Ok ow"
    "uNickname (user_content_of (ow_User ow)) = ''nick_1''"
    using Register_opens [OF reg host(2,1,3) good_emerge_signer faithful_reliable [OF faithful_toy] preliable_toy
        toy_key_parses] by blast
  have "IsNicknameValid ''nick_1''" by (simp add: IsNicknameValid_def nickname_chars_def MaxUsernameLen_def)
  with ow show ?thesis
    by (intro exI [of _ dk]) (simp add: Login_def IsLoggedIn_def toy_process_def toy_rt_def)
qed

theorem Session_survives_logout_witness:
  "\<exists>dk p1 h p3. Login toy_rt ''nick_1'' 0 (toy_process dk) = (Ok 0, p1) \<and> ps_handles p1 0 = Some h \<and>
     (let ow = snd (PostEntity toy_rt (EMessage toy_root) 9 (lh_owner h)) in
        Logout 0 (with_owner 0 ow p1) = (Ok (), p3) \<and>
        (\<exists>ow'. OwnerNew toy_host toy_env toy_engine toy_profile_engine (ps_dir p3) ''nick_1'' (ps_disk p3) = Ok ow' \<and>
           ow_db ow' = ow_db ow))"
proof -
  obtain dk p1 h where l: "Login toy_rt ''nick_1'' 0 (toy_process dk) = (Ok 0, p1)" "ps_handles p1 0 = Some h"
    using toy_login by blast
  have "owner_op toy_rt (lh_owner h) (snd (PostEntity toy_rt (EMessage toy_root) 9 (lh_owner h)))"
    by (cases "PutEntity toy_env toy_engine (EMessage toy_root) None 9 (ow_Storage (lh_owner h))")
      (auto simp: PostEntity_def toy_rt_def intro: stores)
  then have op: "(owner_op toy_rt)\<^sup>*\<^sup>* (lh_owner h) (snd (PostEntity toy_rt (EMessage toy_root) 9 (lh_owner h)))" ..
  have "reliable (rt_eng toy_rt)" "preliable (rt_pe toy_rt)" "good_host (rt_host toy_rt)"
    using faithful_reliable [OF faithful_toy] by (simp_all add: toy_rt_def good_host_def toy_host_def)
  have parts: "rt_host toy_rt = toy_host" "rt_env toy_rt = toy_env" "rt_eng toy_rt = toy_engine"
    "rt_pe toy_rt = toy_profile_engine" by (simp_all add: toy_rt_def)
  from Session_survives_logout [OF l op \<open>reliable (rt_eng toy_rt)\<close> \<open>preliable (rt_pe toy_rt)\<close>
      \<open>good_host (rt_host toy_rt)\<close>] l
  show ?thesis unfolding Let_def parts by blast
qed

end
