(* ===== verification/Client.thy ===== *)
theory Client
  imports Api "HOL-Library.List_Lexorder" "HOL-Library.Char_ord"
begin

text \<open>
  What the programs on top of the library (\<open>cmd/dscuss-cli\<close>, \<open>cmd/dscuss-web\<close>) share: the texts
  of errors, the names of users, peers in the order of their names, and calls of a login
  handle, whose effects on the process are those of an interface operation.
\<close>

section \<open>Texts\<close>

fun error_text :: "error \<Rightarrow> gostring" where
  "error_text Internal = ''internal error''"
| "error_text Filesystem = ''filesystem error''"
| "error_text Parsing = ''error parsing input data''"
| "error_text Config = ''error handling config file''"
| "error_text Database = ''database error''"
| "error_text CantOpenDB = ''unable to open the database''"
| "error_text DBOperFailed = ''error operating on the database''"
| "error_text InconsistentDB = ''the database contains inconsistent data''"
| "error_text NoSuchEntity = ''can't find requested entity''"
| "error_text WrongNickname = ''unacceptable nickname''"
| "error_text AlreadyLoggedIn = ''another user is already logged in''"
| "error_text NotLoggedIn = ''you have to login first''"
| "error_text AlreadyRegistered = ''such user is already registered''"
| "error_text NoSuchUser = ''can't find the specified user''"
| "error_text NoSuchModerator = ''can't find the specified moderator''"
| "error_text AlreadyModerator = ''the specified user is already a moderator''"
| "error_text DuplicationAttempt = ''attempt to duplicate data in the database''"
| "error_text NoUserHistory = ''can't find history record for the specified user''"
| "error_text WrongPacketType = ''wrong packet type''"
| "error_text MalformedPayload = ''payload of the packet is malformed''"
| "error_text ProtocolViolation = ''protocol violation detected''"
| "error_text UnsupportedProtocol = ''requested version of the protocol is not supported''"
| "error_text ClosedConnection = ''use of closed connection''"
| "error_text InvalidPeer = ''peer validation failed''"
| "error_text WrongArguments = ''wrong arguments''"
| "error_text AlreadySubscribed = ''you are already subscribed to the specified topic''"
| "error_text NotSubscribed = ''you are not subscribed to the specified topic''"
| "error_text ForbiddenOperation = ''forbidden operation''"
| "error_text UserBanned = ''user is banned''"
| "error_text NoSuchTag = ''can't find requested tag''"
| "error_text PacketSizeExceeded = ''the packet size exceeded the limit''"
| "error_text MsgDepthExceeded = ''the thread depth exceeded the limit''"
| "error_text MsgPostRateErr = ''attempt to violate the limit of the message post rate''"
| "error_text OperPostRateErr = ''attempt to violate the limit of the operation post rate''"
| "error_text SubsSizeExceeded = ''too many topics in the subscriptions''"
| "error_text (Foreign s) = s"

text \<open>\<open>%d\<close> of a number that is not negative.\<close>

fun dec :: "nat \<Rightarrow> gostring" where
  "dec n = (if n < 10 then [char_of (48 + n)] else dec (n div 10) @ [char_of (48 + n mod 10)])"

declare dec.simps [simp del]

section \<open>Calls of a handle\<close>

definition on_handle ::
  "handle_ref \<Rightarrow> (owner \<Rightarrow> 'a result \<times> owner) \<Rightarrow> process \<Rightarrow> 'a result \<times> process" where
  "on_handle l f p =
     (case ps_handles p l of
        None \<Rightarrow> (Inl Panic, p)
      | Some h \<Rightarrow> (case f (lh_owner h) of (r, ow) \<Rightarrow> (r, with_owner l ow p)))"

definition ask_handle :: "handle_ref \<Rightarrow> (owner \<Rightarrow> 'a result) \<Rightarrow> process \<Rightarrow> 'a result" where
  "ask_handle l f p = (case ps_handles p l of None \<Rightarrow> Inl Panic | Some h \<Rightarrow> f (lh_owner h))"

text \<open>The times of the last message and operation are variables of the process.\<close>

definition handle_message ::
  "handle_ref \<Rightarrow> (owner \<Rightarrow> time \<Rightarrow> message result \<times> time) \<Rightarrow> process \<Rightarrow> message result \<times> process" where
  "handle_message l f p =
     (case ps_handles p l of
        None \<Rightarrow> (Inl Panic, p)
      | Some h \<Rightarrow> (case f (lh_owner h) (ps_lastMsg p) of (r, t) \<Rightarrow> (r, p\<lparr>ps_lastMsg := t\<rparr>)))"

definition handle_operation ::
  "handle_ref \<Rightarrow> (owner \<Rightarrow> time \<Rightarrow> operation result \<times> time) \<Rightarrow> process \<Rightarrow> operation result \<times> process" where
  "handle_operation l f p =
     (case ps_handles p l of
        None \<Rightarrow> (Inl Panic, p)
      | Some h \<Rightarrow> (case f (lh_owner h) (ps_lastOper p) of (r, t) \<Rightarrow> (r, p\<lparr>ps_lastOper := t\<rparr>)))"

text \<open>
  \<open>x, err := f()\<close> followed by the code that looks at \<open>err\<close>: an error value is handed on, a
  panic, a fatal exit and an endless walk are not.
\<close>

definition call :: "'a result \<times> 's \<Rightarrow> (error + 'a \<Rightarrow> 's \<Rightarrow> unit result \<times> 's) \<Rightarrow> unit result \<times> 's" where
  "call rs k =
     (case rs of
        (Inl (Error e), s) \<Rightarrow> k (Inl e) s
      | (Inl f, s) \<Rightarrow> (Inl f, s)
      | (Inr x, s) \<Rightarrow> k (Inr x) s)"

text \<open>A function without an error result.\<close>

definition exec :: "'a result \<times> 's \<Rightarrow> ('a \<Rightarrow> 's \<Rightarrow> unit result \<times> 's) \<Rightarrow> unit result \<times> 's" where
  "exec rs k = (case rs of (Inl f, s) \<Rightarrow> (Inl f, s) | (Inr x, s) \<Rightarrow> k x s)"

lemma exec_simps [simp]: "exec (Inr x, s) k = k x s" "exec (Inl f, s) k = (Inl f, s)"
  by (simp_all add: exec_def)

lemma call_simps [simp]:
  "call (Inr x, s) k = k (Inr x) s" "call (Err e, s) k = k (Inl e) s" "call (Inl Panic, s) k = (Inl Panic, s)"
  "call (Inl Fatal, s) k = (Inl Fatal, s)" "call (Inl Hang, s) k = (Inl Hang, s)"
  by (simp_all add: call_def)

lemma call_split:
  "P (call rs k) \<longleftrightarrow> (\<forall>e s. rs = (Err e, s) \<longrightarrow> P (k (Inl e) s)) \<and> (\<forall>x s. rs = (Inr x, s) \<longrightarrow> P (k (Inr x) s)) \<and>
     (\<forall>f s. rs = (Inl f, s) \<longrightarrow> f \<in> {Fatal, Panic, Hang} \<longrightarrow> P (Inl f, s))"
  by (cases rs; cases "fst rs"; cases "projl (fst rs)") auto

lemma Login_err: "Login rt nick new p = (Inl e, q) \<Longrightarrow> q = p"
  by (auto simp: Login_def split: if_splits option.splits sum.splits prod.splits)

section \<open>Users and peers\<close>

record peer_info =
  pi_ShortID :: gostring
  pi_ID :: gostring
  pi_LocalAddr :: gostring
  pi_RemoteAddr :: gostring
  pi_AssociatedAddrs :: "gostring list"
  pi_Nickname :: gostring
  pi_State :: gostring
  pi_Subscriptions :: "gostring list"

text \<open>
  \<open>sort.Sort(ByNickname(peers))\<close>; the order of peers with one nickname is not specified, the
  model keeps it. A nil element is dereferenced as soon as there is something to compare.
\<close>

definition sort_by_nickname :: "peer_info option list \<Rightarrow> peer_info list result" where
  "sort_by_nickname peers =
     (if None \<in> set peers then Inl Panic else Ok (sort_key pi_Nickname (map the peers)))"

text \<open>The nickname shown for an identifier, in both programs.\<close>

definition shown_nickname :: "user result \<Rightarrow> gostring result" where
  "shown_nickname r =
     (case r of
        Inl (Error NoSuchEntity) \<Rightarrow> Ok ''[unknown user]''
      | Inl (Error _) \<Rightarrow> Ok ''[error fetching user from db]''
      | Inl f \<Rightarrow> Inl f
      | Inr u \<Rightarrow> Ok (uNickname (user_content_of u)))"

section \<open>Effects\<close>

text \<open>
  What a piece of a client may do to the state, as a reflexive and transitive relation:
  proved for the calls it makes, it holds for the code around them.
\<close>

locale effect =
  fixes R :: "'s \<Rightarrow> 's \<Rightarrow> bool"
  assumes refl [simp, intro!]: "R s s" and trans: "R s t \<Longrightarrow> R t u \<Longrightarrow> R s u"
begin

lemma call_effect: "R s (snd rs) \<Longrightarrow> (\<And>x t. R t (snd (k x t))) \<Longrightarrow> R s (snd (call rs k))"
  by (auto split: call_split intro: trans)

lemma exec_effect: "R s (snd rs) \<Longrightarrow> (\<And>x t. R t (snd (k x t))) \<Longrightarrow> R s (snd (exec rs k))"
  by (auto simp: exec_def split: sum.split prod.split intro: trans)

lemmas effects = call_effect exec_effect

end

section \<open>A process whose owner is logged in\<close>

definition toy_handle :: "owner \<Rightarrow> login_handle" where
  "toy_handle ow = \<lparr>lh_owner = ow, lh_userDir = [], lh_aps = [], lh_cp = NewConnectionProvider 10 10, lh_running = True\<rparr>"

definition site_process :: "owner \<Rightarrow> process" where
  "site_process ow = (toy_process Map.empty)\<lparr>ps_login := Some 0, ps_handles := [0 \<mapsto> toy_handle ow]\<rparr>"

lemma toy_site_process:
  "ps_login (site_process (toy_owner d)) = Some 0" "ps_handles (site_process ow) 0 = Some (toy_handle ow)"
  "lh_owner (toy_handle ow) = ow" "uNickname (user_content_of (ow_User (toy_owner d))) = ''nick_1''"
  by (simp_all add: site_process_def toy_handle_def toy_owner_def toy_user_def newUnsignedUser_def
      newUserContent_def Let_def)

lemma toy_rt_parts:
  "rt_host toy_rt = toy_host" "rt_env toy_rt = toy_env" "rt_eng toy_rt = toy_engine" "rt_pe toy_rt = toy_profile_engine"
  by (simp_all add: toy_rt_def)

end
