(* ===== verification/PeerInfo.thy ===== *)
theory PeerInfo
  imports Client PeerRun
begin

text \<open>
  What a peer says of itself (\<open>Info\<close>, \<open>String\<close>, \<open>ID\<close> and \<open>ShortID\<close> of \<open>p2p/peer/peer.go\<close>, the names of the
  states): the data both clients list, and the text in every line of the log, which is made in every
  state and must not dereference what is not there.
\<close>

definition unknownValue :: gostring where "unknownValue = ''[unknown]''"

fun State_Name :: "state \<Rightarrow> gostring" where
  "State_Name Handshaking = ''Handshaking''"
| "State_Name Idle = ''Idle''"
| "State_Name (Sending e t n) = ''Sending''"
| "State_Name (Receiving p n) = ''Receiving''"
| "State_Name (ActiveSyncing ms os t) = ''StateActiveSyncing''"
| "State_Name PassiveSyncing = ''StatePassiveSyncing''"

text \<open>A nil pointer to an identifier has a text, too.\<close>

definition PeerID_String :: "entity_id option \<Rightarrow> gostring" where
  "PeerID_String i = (case i of None \<Rightarrow> unknownValue | Some eid \<Rightarrow> ID_String eid)"

definition Peer_ID :: "world \<Rightarrow> entity_id option" where
  "Peer_ID w = (case w_user w of Some u \<Rightarrow> Some (user_id u) | None \<Rightarrow> None)"

definition Peer_ShortID :: "world \<Rightarrow> gostring" where
  "Peer_ShortID w = (case Peer_ID w of None \<Rightarrow> unknownValue | Some eid \<Rightarrow> Shorten eid)"

definition Peer_Info :: "gostring \<Rightarrow> connection \<Rightarrow> state \<Rightarrow> world \<Rightarrow> peer_info" where
  "Peer_Info localAddr c st w =
     (let nick = (case w_user w of Some u \<Rightarrow> uNickname (user_content_of u) | None \<Rightarrow> unknownValue);
          subs = (if w_subs w \<noteq> [] then StringSlice (w_subs w) else [unknownValue])
      in \<lparr>pi_ShortID = Peer_ShortID w, pi_ID = PeerID_String (Peer_ID w), pi_LocalAddr = localAddr,
          pi_RemoteAddr = c_remote c, pi_AssociatedAddrs = Addresses c, pi_Nickname = nick,
          pi_State = State_Name st, pi_Subscriptions = subs\<rparr>)"

text \<open>After the handshake the user is taken for granted.\<close>

definition Peer_String :: "gostring \<Rightarrow> connection \<Rightarrow> state \<Rightarrow> world \<Rightarrow> gostring result" where
  "Peer_String localAddr c st w =
     (if State_ID st \<noteq> StateIDHandshaking
      then (case w_user w of
              None \<Rightarrow> Inl Panic
            | Some u \<Rightarrow> Ok (uNickname (user_content_of u) @ ''-'' @ Shorten (user_id u) @ ''/'' @ localAddr @ ''-'' @ c_remote c))
      else Ok (''(not handshaked), '' @ c_remote c))"

text \<open>
  In every state of every run the text of the peer can be made; and once the handshake is done
  what is listed is known: the nickname, identifier and subscriptions of a valid user
  that is stored.
\<close>

theorem Info_known_after_handshake:
  assumes "quiet_validate ss" "run_reach ss (NewPeer ss w0) (Running st, w)"
  shows "(\<exists>s. Peer_String localAddr c st w = Ok s) \<and>
    (State_ID st \<noteq> StateIDHandshaking \<longrightarrow> (\<exists>u. User_IsValid (ss_env ss) u = Ok True \<and> user_id u \<in> user_ids (w_db w) \<and>
       pi_Nickname (Peer_Info localAddr c st w) = uNickname (user_content_of u) \<and>
       pi_ID (Peer_Info localAddr c st w) = ID_String (user_id u) \<and>
       pi_ShortID (Peer_Info localAddr c st w) = Truncate (pi_ID (Peer_Info localAddr c st w)) 8 \<and>
       pi_Subscriptions (Peer_Info localAddr c st w) = map Topic_String (w_subs w) \<and> w_subs w \<noteq> []))"
proof (cases "State_ID st = StateIDHandshaking")
  case False
  with run_reach_introduced [OF assms, of st] obtain u where
    "w_user w = Some u" "User_IsValid (ss_env ss) u = Ok True" "Subs_IsValid (w_subs w)" "user_id u \<in> user_ids (w_db w)"
    by (auto simp: NewPeer_def introduced_def)
  moreover from this(3) have "w_subs w \<noteq> []" by (auto simp: Subs_IsValid_def)
  ultimately show ?thesis
    by (simp add: Peer_String_def Peer_Info_def Peer_ID_def PeerID_String_def Peer_ShortID_def Shorten_def StringSlice_def Let_def) blast
qed (simp add: Peer_String_def)

end
