(* ===== verification/Reconnect.thy ===== *)
theory Reconnect
  imports Handshake Account
begin

text \<open>
  What is left of a session when its connection ends: \<open>Close\<close> of \<open>p2p/peer/peer.go\<close> writes the history
  that \<open>finalize\<close>, \<open>getStartTime\<close> and \<open>isInterestedInEntity\<close> go by when the same user connects
  again.
\<close>

lemma put_entity_profile: "put_entity ss e c w = (r, w') \<Longrightarrow> w_profile w' = w_profile w"
  by (auto simp: put_entity_def chain_def read_clock_def split: prod.splits)

text \<open>The history a peer works with after the handshake is the one the profile has.\<close>

lemma finalize_history:
  assumes "quiet_validate ss" "\<And>x. w_profile (snd (ss_validate ss x)) = w_profile x"
    and "finalize ss u s w = (Ok (), w')" "Profile_GetUserHistory (ss_profile_engine ss) (user_id u) (w_profile w) = Ok h"
  shows "w_hist w' = Some h \<and> w_subs w' = s"
proof -
  from assms(3) obtain has w1 w2 ok w3 where
    1: "on_db (HasUser (ss_engine ss) (user_id u)) w = (Inr has, w1)"
    and 2: "(if has then ret () else fatal (put_entity ss (EUser u) (Some (ss_chan ss)))) w1 = (Inr (), w2)"
    and 3: "ss_validate ss (w2\<lparr>w_user := Some u, w_subs := s\<rparr>) = (ok, w3)"
    and 4: "(if \<not> ok then fail InvalidPeer
      else chain (get_history ss (user_id u)) (\<lambda>h w. (Ok (), w\<lparr>w_hist := h\<rparr>))) w3 = (Ok (), w')"
    unfolding finalize_def chain_Inr fatal_Inr by (auto simp: validate_Inr)
  have "w_profile w2 = w_profile w"
    using 1 2 by (auto simp: on_db_def fatal_Inr ret_def dest: put_entity_profile split: if_splits)
  moreover have "w_profile w3 = w_profile w2" "w_subs w3 = s"
    using assms(1) [unfolded quiet_validate_def same_peer_def, rule_format, of "w2\<lparr>w_user := Some u, w_subs := s\<rparr>"]
      assms(2) [of "w2\<lparr>w_user := Some u, w_subs := s\<rparr>"] by (simp_all add: 3)
  ultimately show ?thesis
    using 4 assms(4) by (auto simp: chain_Inr get_history_def fail_def split: if_splits)
qed

lemma Subs_Diff_self [simp]: "Subs_Diff s s = []"
  by (auto simp: Subs_Diff_Nil Covers_iff)

text \<open>Closing writes the present subscriptions and the present time as the history of the user.\<close>

lemma Close_Peer_writes:
  assumes "w_user w = Some u" "preliable (ss_profile_engine ss)" "pdb_wf (pr_db (w_profile w))"
    and "\<forall>t \<in> set (w_subs w). Topic_IsValid t" "distinct (w_subs w)" "w_subs w \<noteq> []" "last (w_subs w) \<noteq> None"
    and "length (w_subs w) \<le> MaxSubscriptionLen"
    and "State_ID st \<notin> {StateIDHandshaking, StateIDActiveSyncing, StateIDPassiveSyncing}"
  obtains w1 where "Close_Peer ss st w = (Ok (), w1)" "w_db w1 = w_db w"
    "Profile_GetUserHistory (ss_profile_engine ss) (user_id u) (w_profile w1) =
       Ok \<lparr>h_id = user_id u, h_disconnected = w_clock w (w_ticks w), h_subs = w_subs w\<rparr>"
proof -
  let ?h = "\<lparr>h_id = user_id u, h_disconnected = w_clock w (w_ticks w), h_subs = w_subs w\<rparr>"
  obtain pd where "PutUserHistory (ss_profile_engine ss) ?h (pr_db (w_profile w)) = (Ok (), pd)"
    "GetUserHistory (ss_profile_engine ss) (user_id u) pd = Ok ?h"
    using UserHistory_roundtrip [OF assms(2,3), of ?h] assms(4-8) by auto
  with assms(1,9) that show thesis
    by (auto simp: Close_Peer_def chain_def the_user_def read_clock_def ignore_error_def on_profile_def
        Profile_PutUserHistory_def Profile_GetUserHistory_def DetachObserver_def)
qed

section \<open>Property\<close>

text \<open>
  C31. An interrupted synchronisation is not resumed: when the connection ends while a peer is being sent
  what it missed, the node notes the present time as the time until which that peer is up to
  date, because the guard of \<open>Close\<close> looks at the state \<open>Sending\<close> and not at the state it returns to.
  When the same user, with the same subscriptions, has shaken hands again, the synchronisation starts from
  that time, and none of the messages that were still to be sent is announced any more.
\<close>

theorem Interrupted_sync_is_forgotten:
  assumes "w_user w = Some u" "preliable (ss_profile_engine ss)" "pdb_wf (pr_db (w_profile w))"
    and "\<forall>t \<in> set (w_subs w). Topic_IsValid t" "distinct (w_subs w)" "w_subs w \<noteq> []" "last (w_subs w) \<noteq> None"
    and "length (w_subs w) \<le> MaxSubscriptionLen"
    and "Close_Peer ss (Sending e t (ActiveSyncing (Some ms) os start)) w = (Ok (), w1)"
    and "ss_profile_engine ss' = ss_profile_engine ss" "quiet_validate ss'"
    and "\<And>x. w_profile (snd (ss_validate ss' x)) = w_profile x"
    and "w_profile v = w_profile w1" "finalize ss' u (w_subs w) v = (Ok (), v')"
    and "(m, stored) \<in> set ms" "stored < w_clock w (w_ticks w)"
  shows "getStartTime v' = (Ok (w_clock w (w_ticks w)), v') \<and>
    perform ss' (Sending (EMessage m) stored nxt) v' = (Ok nxt, v')"
proof -
  have "State_ID (Sending e t (ActiveSyncing (Some ms) os start)) \<notin> {StateIDHandshaking, StateIDActiveSyncing, StateIDPassiveSyncing}"
    by simp
  from Close_Peer_writes [OF assms(1-8) this] assms(9) have
    "Profile_GetUserHistory (ss_profile_engine ss) (user_id u) (w_profile w1) =
       Ok \<lparr>h_id = user_id u, h_disconnected = w_clock w (w_ticks w), h_subs = w_subs w\<rparr>" by auto
  with assms(10,13) have "w_hist v' = Some \<lparr>h_id = user_id u, h_disconnected = w_clock w (w_ticks w), h_subs = w_subs w\<rparr> \<and>
      w_subs v' = w_subs w"
    by (intro finalize_history [OF assms(11,12,14)]) simp
  with assms(16) show ?thesis
    by (simp add: getStartTime_def perform_Sending_def chain_def ret_def isInterestedInEntity_def interesting_subs_def)
qed

theorem Interrupted_sync_is_forgotten_witness:
  "\<exists>w w1 v'. Close_Peer toy_session (Sending (EUser toy_user) 0 (ActiveSyncing (Some [(toy_message ''a'' ZeroID (Some [''x'']), 1)]) None 0)) w =
       (Ok (), w1) \<and>
     finalize toy_session toy_user [Some [''x'']] w1 = (Ok (), v') \<and> getStartTime v' = (Ok Hour, v') \<and>
     perform toy_session (Sending (EMessage (toy_message ''a'' ZeroID (Some [''x'']))) 1 Idle) v' = (Ok Idle, v')"
proof -
  have r: "reliable toy_engine" by (rule faithful_reliable [OF faithful_toy])
  define d where "d = snd (PutUser toy_env toy_engine toy_user 0 empty_database)"
  define w where "w = toy_world\<lparr>w_storage := (w_storage toy_world)\<lparr>st_db := d\<rparr>, w_clock := (\<lambda>_. Hour),
    w_user := Some toy_user, w_subs := [Some [''x'']]\<rparr>"
  have ss: "ss_profile_engine toy_session = toy_profile_engine" "ss_engine toy_session = toy_engine"
    "\<And>x. ss_validate toy_session x = (True, x)" by (simp_all add: toy_session_def)
  have pd: "pdb_wf (pr_db (w_profile w))" by (simp add: w_def toy_world_def toy_profile_def NewProfile_def pdb_wf_empty)
  have subs: "w_user w = Some toy_user" "\<forall>t \<in> set (w_subs w). Topic_IsValid t" "distinct (w_subs w)" "w_subs w \<noteq> []"
    "last (w_subs w) \<noteq> None" "length (w_subs w) \<le> MaxSubscriptionLen"
    by (simp_all add: w_def Topic_IsValid_iff MaxTopicCapacity_def isTagValid_def MaxTagLen_def tag_chars_def MaxSubscriptionLen_def)
  let ?m = "toy_message ''a'' ZeroID (Some [''x''])"
  let ?st = "Sending (EUser toy_user) 0 (ActiveSyncing (Some [(?m, 1)]) None 0)"
  have pre: "preliable (ss_profile_engine toy_session)" by (simp add: ss)
  have st: "State_ID ?st \<notin> {StateIDHandshaking, StateIDActiveSyncing, StateIDPassiveSyncing}" by simp
  obtain w1 where w1: "Close_Peer toy_session ?st w = (Ok (), w1)" "w_db w1 = w_db w"
    "Profile_GetUserHistory (ss_profile_engine toy_session) (user_id toy_user) (w_profile w1) =
       Ok \<lparr>h_id = user_id toy_user, h_disconnected = w_clock w (w_ticks w), h_subs = w_subs w\<rparr>"
    by (rule Close_Peer_writes [OF subs(1) pre pd subs(2-6) st])
  have "w_db w1 = d" using w1(2) by (simp add: w_def)
  moreover have "user_id toy_user \<in> user_ids d"
    using PutUser_represents [OF r represents_empty storable_toy_user, of 0] represents_ids(1)
    by (force simp: d_def user_ids_def empty_database_def)
  ultimately have "HasUser toy_engine (user_id toy_user) (w_db w1) = Ok True" by (simp add: HasUser_reliable [OF r])
  then have "\<exists>v'. finalize toy_session toy_user [Some [''x'']] w1 = (Ok (), v')"
    using w1(3) by (simp add: finalize_def chain_def fatal_def or_fatal_def on_db_def ret_def get_history_def ss)
  then obtain v' where v': "finalize toy_session toy_user (w_subs w) w1 = (Ok (), v')" by (auto simp: w_def)
  have q: "quiet_validate toy_session" by (simp add: quiet_validate_def same_peer_def ss)
  have p: "\<And>x. w_profile (snd (ss_validate toy_session x)) = w_profile x" by (simp add: ss)
  have "(?m, 1) \<in> set [(?m, 1::int)]" "1 < w_clock w (w_ticks w)" by (simp_all add: w_def duration_defs)
  from Interrupted_sync_is_forgotten [OF subs(1) pre pd subs(2-6) w1(1) refl q p refl v' this, where nxt = Idle] w1(1) v'
  show ?thesis by (intro exI [of _ w] exI [of _ w1] exI [of _ v']) (simp add: w_def)
qed

end
