(* ===== verification/Exchange.thy ===== *)
theory Exchange
  imports Receive Api
begin

text \<open>
  Two peers at the two ends of one connection: what the sending state of one node writes is
  what the receiving state of the other reads, and the other way round. A message travels
  with everything the receiver lacks to accept it: the branch it replies to and the users
  who wrote it.
\<close>

section \<open>Packets between two nodes\<close>

definition packet_of :: "session \<Rightarrow> session \<Rightarrow> payload \<Rightarrow> time \<Rightarrow> packet" where
  "packet_of ss other pld t =
     projr (NewPacket (ss_codec ss) (type_of_payload pld) (user_id (ss_owner other)) pld (ss_signer ss) t)"

text \<open>A node whose signer works, with an identifier of the right length.\<close>

definition trusted :: "codec \<Rightarrow> session \<Rightarrow> bool" where
  "trusted c ss \<longleftrightarrow> ss_codec ss = c \<and> good_signer (env_crypto (codec_env c)) (ss_signer ss) \<and>
     (\<forall>data. \<exists>sig. Sign (env_crypto (codec_env c)) (ss_signer ss) data = Ok sig) \<and>
     length (user_id (ss_owner ss)) = IDLen"

text \<open>A world whose peer has been introduced as the other node, with a connection that writes.\<close>

definition linked :: "session \<Rightarrow> world \<Rightarrow> bool" where
  "linked other w \<longleftrightarrow> w_writes w = [] \<and> (\<exists>u. w_user w = Some u \<and> user_id u = user_id (ss_owner other) \<and>
     uPubKey (user_content_of u) = s_public (ss_signer other))"

text \<open>The clocks of the two nodes, over the exchange, differ by at most three minutes.\<close>

definition in_time :: "(nat \<Rightarrow> time) \<Rightarrow> (nat \<Rightarrow> time) \<Rightarrow> bool" where
  "in_time c d \<longleftrightarrow> (\<forall>i j. \<bar>c i - d j\<bar> \<le> 3 * Minute)"

lemma in_time_sym: "in_time c d \<Longrightarrow> in_time d c"
  by (auto simp: in_time_def abs_minus_commute)

lemma linked_simps [simp]:
  "linked other (w\<lparr>w_inbox := ib\<rparr>) = linked other w" "linked other (w\<lparr>w_ticks := n\<rparr>) = linked other w"
  "linked other (w\<lparr>w_outbox := ob\<rparr>) = linked other w" "linked other (w\<lparr>w_profile := pr\<rparr>) = linked other w"
  "linked other (w\<lparr>w_storage := st\<rparr>) = linked other w"
  by (simp_all add: linked_def)

lemma packet_made:
  assumes "trusted c ss" "trusted c other"
  shows "NewPacket c (type_of_payload pld) (user_id (ss_owner other)) pld (ss_signer ss) t = Ok (packet_of ss other pld t)"
proof -
  obtain sig where "Sign (env_crypto (codec_env c)) (ss_signer ss) (json_body c \<lparr>b_type = type_of_payload pld,
      b_receiver = go_copy ZeroID (user_id (ss_owner other)), b_date = t, b_payload = json_payload c pld\<rparr>) = Ok sig"
    using assms(1) unfolding trusted_def by blast
  then have "\<exists>p. NewPacket c (type_of_payload pld) (user_id (ss_owner other)) pld (ss_signer ss) t = Ok p"
    by (simp add: NewPacket_def Let_def)
  moreover have "ss_codec ss = c" using assms(1) by (simp add: trusted_def)
  ultimately show ?thesis by (auto simp: packet_of_def)
qed

lemma packet_accepted:
  assumes "trusted c ss" "trusted c other" "good_codec c pld"
  shows "b_type (p_body (packet_of ss other pld t)) = type_of_payload pld"
    "VerifySig c (packet_of ss other pld t) (s_public (ss_signer ss)) = Ok True"
    "DecodePayload c (packet_of ss other pld t) = Ok pld"
    "f (type_of_payload pld) \<Longrightarrow> now - t \<le> 3 * Minute \<Longrightarrow>
       VerifyHeaderFull (packet_of ss other pld t) f (user_id (ss_owner other)) now = Ok ()"
proof -
  have s: "good_signer (env_crypto (codec_env c)) (ss_signer ss)" using assms(1) by (simp add: trusted_def)
  have len: "length (user_id (ss_owner other)) = IDLen" using assms(2) by (simp add: trusted_def)
  note d = NewPacket_delivered [OF s assms(3) len packet_made [OF assms(1,2)]]
  show "b_type (p_body (packet_of ss other pld t)) = type_of_payload pld"
    "VerifySig c (packet_of ss other pld t) (s_public (ss_signer ss)) = Ok True"
    "DecodePayload c (packet_of ss other pld t) = Ok pld"
    "f (type_of_payload pld) \<Longrightarrow> now - t \<le> 3 * Minute \<Longrightarrow>
       VerifyHeaderFull (packet_of ss other pld t) f (user_id (ss_owner other)) now = Ok ()"
    using d by (simp_all add: VerifyHeaderFull_ok MaxTimeDiscrepancy_def)
qed

section \<open>What one node does with what the other sent\<close>

lemma read_clock_run: "read_clock w = (Ok (w_clock w (w_ticks w)), w\<lparr>w_ticks := w_ticks w + 1\<rparr>)"
  by (simp add: read_clock_def)

lemma send_to_user_run:
  assumes "trusted c ss" "trusted c other" "linked other w"
  shows "send_to_user ss (type_of_payload pld) pld w = (Ok (), w\<lparr>w_ticks := w_ticks w + 1,
    w_outbox := w_outbox w @ [packet_of ss other pld (w_clock w (w_ticks w))]\<rparr>)"
proof -
  obtain u where u: "w_user w = Some u" "user_id u = user_id (ss_owner other)" and wr: "w_writes w = []"
    using assms(3) by (auto simp: linked_def)
  have "ss_codec ss = c" using assms(1) by (simp add: trusted_def)
  with u wr packet_made [OF assms(1,2), of pld "w_clock w (w_ticks w)"] show ?thesis
    by (simp add: send_to_user_def send_def chain_def the_user_def read_clock_run Write_def)
qed

text \<open>The checks every state makes of what it reads, for a packet of an expected type.\<close>

lemma checks_run:
  assumes "trusted c ss" "trusted c other" "linked other w" "good_codec c pld" "f (type_of_payload pld)"
    and "w_clock w (w_ticks w) - t \<le> 3 * Minute"
  shows "chain the_user (\<lambda>u. chain (check_sig ss (packet_of other ss pld t) (uPubKey (user_content_of u))) (\<lambda>_.
      chain (check_header ss (packet_of other ss pld t) f (user_id (ss_owner ss))) k)) w = k () (w\<lparr>w_ticks := w_ticks w + 1\<rparr>)"
proof -
  obtain u where u: "w_user w = Some u" "uPubKey (user_content_of u) = s_public (ss_signer other)"
    using assms(3) by (auto simp: linked_def)
  have "ss_codec ss = c" using assms(1) by (simp add: trusted_def)
  with u packet_accepted(1-3) [OF assms(2,1,4), of t] packet_accepted(4) [where f = f and t = t, OF assms(2,1,4,5,6)] show ?thesis
    by (simp add: chain_def the_user_def check_sig_def check_header_def read_clock_run)
qed

lemma readEntity_run:
  assumes "trusted c ss" "trusted c other" "linked other w" "good_codec c (payload_of e)"
    and "w_clock w (w_ticks w) - t \<le> 3 * Minute"
  shows "readEntity ss (id_of e) (w\<lparr>w_inbox := Inr (packet_of other ss (payload_of e) t) # ib\<rparr>) =
    (Ok e, w\<lparr>w_inbox := ib, w_ticks := w_ticks w + 1\<rparr>)"
proof -
  let ?p = "packet_of other ss (payload_of e) t"
  let ?f = "\<lambda>t. t = PacketTypeUser \<or> t = PacketTypeMessage \<or> t = PacketTypeOperation"
  have "ss_codec ss = c" using assms(1) by (simp add: trusted_def)
  moreover have "?f (type_of_payload (payload_of e))" by (cases e) (simp_all add: payload_of_def)
  ultimately show ?thesis
    using packet_accepted(3) [OF assms(2,1,4), of t]
      checks_run [where f = ?f and t = t and w = "w\<lparr>w_inbox := ib\<rparr>", OF assms(1,2) _ assms(4)] assms(3,5)
    unfolding readEntity_def
    by (subst chain_def) (simp add: Read_def, cases e; simp add: payload_of_def chain_def violation_def)
qed

lemma sendReq_run:
  assumes "trusted c ss" "trusted c other" "linked other w" "length i = IDLen"
  shows "sendReq ss i w = (Ok (), w\<lparr>w_ticks := w_ticks w + 1,
    w_outbox := w_outbox w @ [packet_of ss other (PReq i) (w_clock w (w_ticks w))]\<rparr>)"
  using send_to_user_run [OF assms(1-3), of "PReq i"] assms(4) by (simp add: sendReq_def NewPayloadReq_def)

lemma sendAck_run:
  assumes "trusted c ss" "trusted c other" "linked other w"
  shows "sendAck ss w = (Ok (), w\<lparr>w_ticks := w_ticks w + 1,
    w_outbox := w_outbox w @ [packet_of ss other PAck (w_clock w (w_ticks w))]\<rparr>)"
  using send_to_user_run [OF assms, of PAck] by (simp add: sendAck_def NewPayloadAck_def)

lemma sendAnnounce_run:
  assumes "trusted c ss" "trusted c other" "linked other w" "length i = IDLen"
  shows "sendAnnounce ss i w = (Ok (), w\<lparr>w_ticks := w_ticks w + 1,
    w_outbox := w_outbox w @ [packet_of ss other (PAnnounce i) (w_clock w (w_ticks w))]\<rparr>)"
  using send_to_user_run [OF assms(1-3), of "PAnnounce i"] assms(4) by (simp add: sendAnnounce_def NewPayloadAnnounce_def)

text \<open>The type field of an entity says what it is.\<close>

definition well_typed :: "entity \<Rightarrow> bool" where
  "well_typed e \<longleftrightarrow> type_of e =
     (case e of EUser u \<Rightarrow> TypeUser | EMessage m \<Rightarrow> TypeMessage | EOperation p \<Rightarrow> TypeOperation)"

lemma sendEntity_run:
  assumes "trusted c ss" "trusted c other" "linked other w" "well_typed e"
  shows "sendEntity ss e w = (Ok (), w\<lparr>w_ticks := w_ticks w + 1,
    w_outbox := w_outbox w @ [packet_of ss other (payload_of e) (w_clock w (w_ticks w))]\<rparr>)"
  using send_to_user_run [OF assms(1-3), of "payload_of e"] assms(4)
  by (cases e) (auto simp: sendEntity_def well_typed_def payload_of_def TypeUser_def TypeMessage_def TypeOperation_def)

text \<open>The sender serves a request for the entity it announced, or for one it has stored.\<close>

definition serves :: "session \<Rightarrow> entity \<Rightarrow> entity_database \<Rightarrow> entity \<Rightarrow> bool" where
  "serves ss outgoing d e \<longleftrightarrow> well_typed e \<and>
     (e = outgoing \<or> id_of e \<noteq> id_of outgoing \<and> GetEntity (ss_env ss) (ss_engine ss) (id_of e) d = Ok e)"

lemma Sending_round:
  assumes "trusted c ss" "trusted c other" "linked other w" "good_codec c (PReq (id_of e))"
    and "serves ss outgoing (w_db w) e" "w_clock w (w_ticks w) - t \<le> 3 * Minute"
  shows "Sending_loop (Inr (packet_of other ss (PReq (id_of e)) t) # ib) ss outgoing next
      (w\<lparr>w_inbox := Inr (packet_of other ss (PReq (id_of e)) t) # ib\<rparr>) =
    Sending_loop ib ss outgoing next (w\<lparr>w_inbox := ib, w_ticks := w_ticks w + 2,
      w_outbox := w_outbox w @ [packet_of ss other (payload_of e) (w_clock w (w_ticks w + 1))]\<rparr>)"
proof -
  let ?p = "packet_of other ss (PReq (id_of e)) t"
  let ?f = "\<lambda>t. t = PacketTypeAck \<or> t = PacketTypeReq \<or> t = PacketTypeAnnounce"
  let ?w = "w\<lparr>w_inbox := ib, w_ticks := w_ticks w + 1\<rparr>"
  note acc = packet_accepted(1,3) [OF assms(2,1,4), of t]
  have c: "ss_codec ss = c" using assms(1) by (simp add: trusted_def)
  have "processReq ss outgoing ?p ?w = sendEntity ss e ?w"
    using assms(5) acc(2) c by (auto simp: processReq_def chain_def serves_def on_db_def violation_def)
  also have "\<dots> = (Ok (), ?w\<lparr>w_ticks := w_ticks w + 2,
      w_outbox := w_outbox w @ [packet_of ss other (payload_of e) (w_clock w (w_ticks w + 1))]\<rparr>)"
    using sendEntity_run [OF assms(1,2), of ?w e] assms(3,5) by (simp add: serves_def)
  finally have req: "processReq ss outgoing ?p ?w = \<dots>" .
  have "b_type (p_body ?p) = PacketTypeReq" using acc(1) by simp
  moreover have "PacketTypeReq \<noteq> PacketTypeAnnounce" "PacketTypeReq \<noteq> PacketTypeAck" by (simp_all add: packet_type_defs)
  ultimately have ty: "b_type (p_body ?p) = PacketTypeReq" "PacketTypeReq \<noteq> PacketTypeAnnounce" "PacketTypeReq \<noteq> PacketTypeAck"
    by simp_all
  have ok: "?f (type_of_payload (PReq (id_of e)))" by simp
  have l: "linked other (w\<lparr>w_inbox := ib\<rparr>)" using assms(3) by simp
  note run = checks_run [where f = ?f and t = t, OF assms(1,2) l assms(4) ok]
  show ?thesis
    unfolding Sending_loop.simps
    by (subst chain_def) (simp add: Read_def run assms(6) ty del: type_of_payload.simps, simp add: chain_def req [simplified])
qed

lemma Sending_acked:
  assumes "trusted c ss" "trusted c other" "linked other w" "good_codec c PAck" "w_clock w (w_ticks w) - t \<le> 3 * Minute"
  shows "Sending_loop [Inr (packet_of other ss PAck t)] ss outgoing next
      (w\<lparr>w_inbox := [Inr (packet_of other ss PAck t)]\<rparr>) = (Ok next, w\<lparr>w_inbox := [], w_ticks := w_ticks w + 1\<rparr>)"
proof -
  let ?p = "packet_of other ss PAck t"
  let ?f = "\<lambda>t. t = PacketTypeAck \<or> t = PacketTypeReq \<or> t = PacketTypeAnnounce"
  have ty: "b_type (p_body ?p) = PacketTypeAck" using packet_accepted(1) [OF assms(2,1,4), of t] by simp
  have ok: "?f (type_of_payload PAck)" by simp
  have l: "linked other (w\<lparr>w_inbox := []\<rparr>)" using assms(3) by simp
  note run = checks_run [where f = ?f and t = t, OF assms(1,2) l assms(4) ok]
  show ?thesis
    unfolding Sending_loop.simps
    by (subst chain_def) (simp add: Read_def run assms(5) ty del: type_of_payload.simps)
qed

section \<open>What the receiver checks\<close>

text \<open>
  The receiver's store and profile, and what it is told: the author of every identifier that
  occurs, and a branch of messages from the announced one upwards, each with its parent next.
\<close>

definition hosting ::
  "session \<Rightarrow> entity_id set \<Rightarrow> subscriptions \<Rightarrow> (user \<times> time) list \<Rightarrow> (message \<times> time) list \<Rightarrow> (operation \<times> time) list \<Rightarrow> world \<Rightarrow> bool" where
  "hosting ss M s us ms os w \<longleftrightarrow> represents (ss_env ss) (w_db w) us ms os \<and>
     stable (ss_profile_engine ss) M (w_profile w) \<and>
     GetSubscriptions (ss_profile_engine ss) (pr_db (w_profile w)) = Ok s \<and> (\<forall>t \<in> set s. wf_topic t)"

definition dependable :: "session \<Rightarrow> bool" where
  "dependable ss \<longleftrightarrow> faithful (ss_engine ss) \<and> preliable (ss_profile_engine ss) \<and>
     (\<forall>t. strftime_s (ss_engine ss) t = t div Second)"

abbreviation author_of :: "message \<Rightarrow> entity_id" where "author_of m \<equiv> mAuthorID (message_content_of m)"
abbreviation parent_of :: "message \<Rightarrow> entity_id" where "parent_of m \<equiv> mParentID (message_content_of m)"
abbreviation written :: "message \<Rightarrow> time" where "written m \<equiv> mDateWritten (message_content_of m)"

definition spaced :: "message set \<Rightarrow> message \<Rightarrow> bool" where
  "spaced N m \<longleftrightarrow> (\<forall>n \<in> N. author_of n = author_of m \<longrightarrow> message_id n \<noteq> message_id m \<longrightarrow>
     MinMessagePostDelay \<le> \<bar>written n - written m\<bar>)"

text \<open>A message whose checks do not depend on what else is pending.\<close>

definition sound_message ::
  "env \<Rightarrow> (entity_id \<Rightarrow> user) \<Rightarrow> entity_id set \<Rightarrow> (operation \<times> time) list \<Rightarrow> message set \<Rightarrow> message \<Rightarrow> bool" where
  "sound_message env auth M os N m \<longleftrightarrow> storable_message env m \<and> \<not> banned_by M os (author_of m) \<and>
     user_id (auth (author_of m)) = author_of m \<and>
     Message_IsSigValid env m (uPubKey (user_content_of (auth (author_of m)))) = Ok True \<and>
     uRegDate (user_content_of (auth (author_of m))) \<le> written m \<and> spaced N m"

text \<open>What a pending message still needs.\<close>

definition needs ::
  "(entity_id \<Rightarrow> user) \<Rightarrow> entity_id set \<Rightarrow> entity_id set \<Rightarrow> entity set \<Rightarrow> message \<Rightarrow> entity_id option" where
  "needs auth K L P m =
     (if author_of m \<notin> K \<and> EUser (auth (author_of m)) \<notin> P then Some (author_of m)
      else if IsReply m \<and> parent_of m \<notin> L \<and> (\<forall>p. EMessage p \<in> P \<longrightarrow> message_id p \<noteq> parent_of m) then Some (parent_of m)
      else None)"

lemma getPendingEntity_found:
  "distinct (map id_of P) \<Longrightarrow> e \<in> set P \<Longrightarrow> getPendingEntity P (id_of e) = Some e"
  unfolding getPendingEntity_def by (induction P) (auto simp: image_iff)

lemma is_banned_run:
  assumes "dependable ss" "hosting ss M s us ms os w"
  shows "\<exists>pr. is_banned ss i w = (Ok (banned_by M os i), w\<lparr>w_profile := pr\<rparr>) \<and> hosting ss M s us ms os (w\<lparr>w_profile := pr\<rparr>)"
proof -
  have r: "reliable (ss_engine ss)" "preliable (ss_profile_engine ss)" using assms(1) by (simp_all add: dependable_def)
  have h: "represents (ss_env ss) (w_db w) us ms os" "stable (ss_profile_engine ss) M (w_profile w)"
    "GetSubscriptions (ss_profile_engine ss) (pr_db (w_profile w)) = Ok s" "\<forall>t \<in> set s. wf_topic t"
    using assms(2) by (auto simp: hosting_def)
  obtain pr where pr: "IsUserBanned (ss_env ss) (ss_engine ss) (ss_profile_engine ss) (w_db w) i (w_profile w) =
      (Ok (banned_by M os i), pr)" "stable (ss_profile_engine ss) M pr"
    using IsUserBanned_ok [OF r(1) h(1) r(2) h(2), of i] by blast
  have "same_profile (w_profile w) pr"
    using pr(1) IsUserBanned_loop_keeps [OF _ same_profile_refl]
    by (auto simp: IsUserBanned_def split: sum.splits)
  with pr h show ?thesis
    by (auto simp: is_banned_def on_profile_def fatal_def hosting_def same_profile_def or_fatal_def)
qed

lemma find_author_run:
  assumes "dependable ss" "hosting ss M s us ms os w" "user_id (auth i) = i" "\<forall>u. EUser u \<in> set P \<longrightarrow> u = auth (user_id u)"
    and "distinct (map id_of P)" "i \<in> (user_id \<circ> fst) ` set us \<Longrightarrow> auth i \<in> fst ` set us"
  shows "find_author ss P i w = (Ok (if i \<in> (user_id \<circ> fst) ` set us \<or> EUser (auth i) \<in> set P then Some (auth i) else None), w)"
proof (cases "EUser (auth i) \<in> set P")
  case True
  from getPendingEntity_found [OF assms(5) this] assms(3) have "getPendingUser P i = Some (auth i)"
    by (simp add: getPendingUser_def)
  with True show ?thesis by (simp add: find_author_def)
next
  case False
  then have none: "getPendingUser P i = None"
    using assms(4) getPendingUser_Some [of P i] by (cases "getPendingUser P i") auto
  have rep: "represents (ss_env ss) (w_db w) us ms os" using assms(2) by (simp add: hosting_def)
  have r: "reliable (ss_engine ss)" using assms(1) by (simp add: dependable_def)
  note get = GetUser_represents [OF r rep, of i]
  show ?thesis
  proof (cases "i \<in> (user_id \<circ> fst) ` set us")
    case True
    then obtain t where "(auth i, t) \<in> set us" using assms(6) by auto
    then have "find (\<lambda>(u, t). user_id u = i) us = Some (auth i, t)"
      using represents_distinct(1) [OF rep] assms(3) by (induction us) (auto simp: image_iff)
    with get none True show ?thesis by (simp add: find_author_def)
  next
    case out: False
    then have "find (\<lambda>(u, t). user_id u = i) us = None" by (force simp: find_None_iff)
    with get none False out show ?thesis by (simp add: find_author_def)
  qed
qed

lemma near_none:
  assumes "dependable ss" "represents (ss_env ss) d us ms os" "spaced N m" "fst ` set ms \<subseteq> N"
  shows "GetNearMessageID (ss_engine ss) m MinMessagePostDelay d = Ok None"
proof -
  have r: "reliable (ss_engine ss)" "\<forall>t. strftime_s (ss_engine ss) t = t div Second"
    using assms(1) by (simp_all add: dependable_def)
  have rows: "Messages d = map (\<lambda>(m, t). message_row_of m t) ms" "\<forall>(m, t) \<in> set ms. storable_message (ss_env ss) m"
    using assms(2) by (auto simp: represents_def)
  then have len: "\<forall>r \<in> set (Messages d). length (mr_id r) = IDLen" by (auto simp: storable_message_def)
  have delay: "MinMessagePostDelay = 60 * Second" "0 \<le> (60::int)" by (simp_all add: MinMessagePostDelay_def duration_defs)
  obtain found where f: "GetNearMessageID (ss_engine ss) m MinMessagePostDelay d = Ok found"
    "found \<noteq> None \<longrightarrow> (\<exists>r \<in> set (Messages d). mr_id r \<noteq> message_id m \<and> mr_author r = author_of m \<and>
        \<bar>mr_time r - written m\<bar> < MinMessagePostDelay)"
    using GetNearMessageID_bounds [OF r delay len, of m] by blast
  have "found = None"
  proof (rule ccontr)
    assume "found \<noteq> None"
    with f(2) rows(1) obtain n t where "(n, t) \<in> set ms" "message_id n \<noteq> message_id m" "author_of n = author_of m"
      "\<bar>written n - written m\<bar> < MinMessagePostDelay"
      by (auto simp: message_row_of_def)
    moreover then have "n \<in> N" using assms(4) by force
    ultimately show False using assms(3) by (force simp: spaced_def)
  qed
  with f(1) show ?thesis by simp
qed

lemma near_pending_none:
  assumes "spaced N m" "\<forall>n. EMessage n \<in> set P \<longrightarrow> n \<in> N"
  shows "getNearPendingMessageID P m MinMessagePostDelay = None"
  using assms(2)
proof (induction P)
  case (Cons e P)
  then have IH: "getNearPendingMessageID P m MinMessagePostDelay = None" by simp
  show ?case
  proof (cases e)
    case (EMessage n)
    with Cons.prems assms(1) have "author_of n = author_of m \<Longrightarrow> message_id n \<noteq> message_id m \<Longrightarrow>
        MinMessagePostDelay \<le> \<bar>written n - written m\<bar>" by (simp add: spaced_def)
    then have "author_of n = author_of m \<Longrightarrow> message_id n \<noteq> message_id m \<Longrightarrow>
        \<not> (if written m < written n then time_sub (written n) (written m) < MinMessagePostDelay
           else time_sub (written m) (written n) < MinMessagePostDelay)"
      using time_sub_less_iff [of MinMessagePostDelay]
      by (auto simp: MinMessagePostDelay_def duration_defs split: if_splits)
    with IH EMessage show ?thesis by auto
  qed (use IH in simp_all)
qed simp

text \<open>What is pending: users as they are known, messages of the branch, all under their own identifiers.\<close>

definition pending_ok :: "(entity_id \<Rightarrow> user) \<Rightarrow> message set \<Rightarrow> entity list \<Rightarrow> bool" where
  "pending_ok auth N P \<longleftrightarrow> distinct (map id_of P) \<and> (\<forall>u. EUser u \<in> set P \<longrightarrow> u = auth (user_id u)) \<and>
     (\<forall>m. EMessage m \<in> set P \<longrightarrow> m \<in> N)"

lemma placed_run:
  assumes "dependable ss" "hosting ss M s us ms os w" "pending_ok auth N P"
    and "\<not> IsReply m \<longrightarrow> Covers s (mTopic (message_content_of m))"
  shows "\<exists>pr. checkMessage_placed ss P m w = (Ok (if IsReply m \<and> parent_of m \<notin> (message_id \<circ> fst) ` set ms \<and>
      (\<forall>p. EMessage p \<in> set P \<longrightarrow> message_id p \<noteq> parent_of m) then Some (NeedID (parent_of m)) else None),
      w\<lparr>w_profile := pr\<rparr>) \<and> hosting ss M s us ms os (w\<lparr>w_profile := pr\<rparr>)"
proof -
  have h: "represents (ss_env ss) (w_db w) us ms os" "stable (ss_profile_engine ss) M (w_profile w)"
    "GetSubscriptions (ss_profile_engine ss) (pr_db (w_profile w)) = Ok s" "\<forall>t \<in> set s. wf_topic t"
    using assms(2) by (auto simp: hosting_def)
  show ?thesis
  proof (cases "IsReply m")
    case True
    have "HasMessage (ss_engine ss) (parent_of m) (w_db w) = Ok (parent_of m \<in> (message_id \<circ> fst) ` set ms)"
      using assms(1) by (simp add: dependable_def HasMessage_reliable represents_ids [OF h(1)])
    moreover have "getPendingMessage P (parent_of m) = None" if "\<forall>p. EMessage p \<in> set P \<longrightarrow> message_id p \<noteq> parent_of m"
      using that by (auto simp: getPendingMessage_def getPendingEntity_def split: option.splits entity.splits dest!: find_SomeD)
    moreover have "getPendingMessage P (parent_of m) = Some p" if "EMessage p \<in> set P" "message_id p = parent_of m" for p
      using getPendingEntity_found [OF _ that(1)] assms(3) that(2) by (simp add: getPendingMessage_def pending_ok_def)
    ultimately show ?thesis using True assms(2)
      by (intro exI [of _ "w_profile w"])
        (auto simp: checkMessage_placed_def IsReply_def chain_def fatal_def on_db_def or_fatal_def)
  next
    case False
    have "coherent (ss_profile_engine ss) (w_profile w)" using h(2) by (simp add: stable_def)
    then have cache: "pr_subs (w_profile w) = [] \<or> GetSubscriptions (ss_profile_engine ss) (pr_db (w_profile w)) = Ok (pr_subs (w_profile w))"
      by (simp add: coherent_def)
    obtain pr where pr: "Profile_GetSubscriptions (ss_profile_engine ss) (w_profile w) = (Ok (Subs_Copy s), pr)"
      "pr_subs pr = [] \<or> GetSubscriptions (ss_profile_engine ss) (pr_db pr) = Ok (pr_subs pr)"
      "pr_db pr = pr_db (w_profile w)" "selfID pr = selfID (w_profile w)"
      using subs.get_coherent [OF cache h(3)] by blast
    have "pr_moderators pr = pr_moderators (w_profile w)"
      using pr(1) by (auto simp: Profile_GetSubscriptions_def split: if_splits sum.splits)
    with pr h(2) have st: "stable (ss_profile_engine ss) M pr"
      by (simp add: stable_def coherent_def moderator_set_def fetch_moderators_def)
    have "Covers (Subs_Copy s) (mTopic (message_content_of m))"
      using assms(4) False h(4) by (simp add: Covers_Copy)
    with pr(1) False have "checkMessage_placed ss P m w = (Ok None, w\<lparr>w_profile := pr\<rparr>)"
      by (simp add: checkMessage_placed_def IsReply_def chain_def on_profile_def)
    with False st pr(3) h(1,3,4) show ?thesis by (auto simp: hosting_def)
  qed
qed

lemma checkMessage_run:
  assumes "dependable ss" "hosting ss M s us ms os w" "pending_ok auth N P" "sound_message (ss_env ss) auth M os N m"
    and "fst ` set ms \<subseteq> N" "\<not> IsReply m \<longrightarrow> Covers s (mTopic (message_content_of m))"
    and "author_of m \<in> (user_id \<circ> fst) ` set us \<Longrightarrow> auth (author_of m) \<in> fst ` set us"
  shows "\<exists>pr. checkMessage ss P m w = (Ok (map_option NeedID
      (needs auth ((user_id \<circ> fst) ` set us) ((message_id \<circ> fst) ` set ms) (set P) m)), w\<lparr>w_profile := pr\<rparr>) \<and>
    hosting ss M s us ms os (w\<lparr>w_profile := pr\<rparr>)"
proof -
  let ?a = "author_of m"
  have m: "Message_IsUnsignedPartValid (ss_env ss) m" "\<not> banned_by M os ?a" "user_id (auth ?a) = ?a"
    "Message_IsSigValid (ss_env ss) m (uPubKey (user_content_of (auth ?a))) = Ok True"
    "uRegDate (user_content_of (auth ?a)) \<le> written m" "spaced N m"
    using assms(4) by (simp_all add: sound_message_def storable_message_def Message_IsUnsignedPartValid_def)
  have P: "distinct (map id_of P)" "\<forall>u. EUser u \<in> set P \<longrightarrow> u = auth (user_id u)" "\<forall>n. EMessage n \<in> set P \<longrightarrow> n \<in> N"
    using assms(3) by (simp_all add: pending_ok_def)
  obtain pr where b: "is_banned ss ?a w = (Ok False, w\<lparr>w_profile := pr\<rparr>)" "hosting ss M s us ms os (w\<lparr>w_profile := pr\<rparr>)"
    using is_banned_run [OF assms(1,2), of ?a] m(2) by auto
  note find = find_author_run [where auth = auth and i = ?a, OF assms(1) b(2) m(3) P(2,1) assms(7)]
  show ?thesis
  proof (cases "?a \<in> (user_id \<circ> fst) ` set us \<or> EUser (auth ?a) \<in> set P")
    case False
    with m(1) b find show ?thesis
      by (intro exI [of _ pr]) (auto simp: checkMessage_def chain_def needs_def)
  next
    case True
    have "represents (ss_env ss) (w_db w) us ms os" using assms(2) by (simp add: hosting_def)
    note near = near_none [OF assms(1) this m(6) assms(5)] near_pending_none [OF m(6) P(3)]
    obtain pr' where p: "checkMessage_placed ss P m (w\<lparr>w_profile := pr\<rparr>) = (Ok (if IsReply m \<and>
        parent_of m \<notin> (message_id \<circ> fst) ` set ms \<and> (\<forall>p. EMessage p \<in> set P \<longrightarrow> message_id p \<noteq> parent_of m)
        then Some (NeedID (parent_of m)) else None), w\<lparr>w_profile := pr'\<rparr>)" "hosting ss M s us ms os (w\<lparr>w_profile := pr'\<rparr>)"
      using placed_run [OF assms(1) b(2) assms(3,6)] by auto
    have "checkMessage_rate ss P m (w\<lparr>w_profile := pr\<rparr>) = checkMessage_placed ss P m (w\<lparr>w_profile := pr\<rparr>)"
      by (simp add: checkMessage_rate_def chain_def fatal_def on_db_def near or_fatal_def)
    with p m(1,4,5) b(1) find True show ?thesis
      by (intro exI [of _ pr']) (auto simp: checkMessage_def chain_def needs_def not_less)
  qed
qed

lemma checkUser_run:
  assumes "dependable ss" "hosting ss M s us ms os w" "User_IsValid (ss_env ss) u = Ok True" "\<not> banned_by M os (user_id u)"
  shows "\<exists>pr. checkUser ss u w = (Ok None, w\<lparr>w_profile := pr\<rparr>) \<and> hosting ss M s us ms os (w\<lparr>w_profile := pr\<rparr>)"
  using is_banned_run [OF assms(1,2), of "user_id u"] assms(3,4) by (auto simp: checkUser_def chain_def)

text \<open>
  The standing assumptions on a branch: every message of it is sound, every author it names is
  known to the receiver or acceptable, and its root is solicited.
\<close>

definition branch_ok ::
  "session \<Rightarrow> (entity_id \<Rightarrow> user) \<Rightarrow> entity_id set \<Rightarrow> subscriptions \<Rightarrow> (user \<times> time) list \<Rightarrow> (message \<times> time) list
     \<Rightarrow> (operation \<times> time) list \<Rightarrow> message list \<Rightarrow> bool" where
  "branch_ok ss auth M s us ms os cs \<longleftrightarrow>
     (\<forall>m \<in> set cs. sound_message (ss_env ss) auth M os (fst ` set ms \<union> set cs) m \<and>
        (if author_of m \<in> (user_id \<circ> fst) ` set us then auth (author_of m) \<in> fst ` set us
         else User_IsValid (ss_env ss) (auth (author_of m)) = Ok True \<and> storable_user (ss_env ss) (auth (author_of m))) \<and>
        (\<not> IsReply m \<longrightarrow> Covers s (mTopic (message_content_of m))) \<and> message_id m \<notin> (message_id \<circ> fst) ` set ms)"

text \<open>The pending entities that have all they need.\<close>

definition settled ::
  "(entity_id \<Rightarrow> user) \<Rightarrow> (user \<times> time) list \<Rightarrow> (message \<times> time) list \<Rightarrow> message list \<Rightarrow> entity set \<Rightarrow> entity \<Rightarrow> bool" where
  "settled auth us ms cs P e \<longleftrightarrow>
     (case e of
        EUser u \<Rightarrow> \<exists>m \<in> set cs. u = auth (author_of m) \<and> author_of m \<notin> (user_id \<circ> fst) ` set us
      | EMessage m \<Rightarrow> m \<in> set cs \<and>
          needs auth ((user_id \<circ> fst) ` set us) ((message_id \<circ> fst) ` set ms) P m = None
      | EOperation p \<Rightarrow> False)"

lemma check_one_settled:
  assumes "dependable ss" "hosting ss M s us ms os w" "branch_ok ss auth M s us ms os cs"
    and "pending_ok auth (fst ` set ms \<union> set cs) P" "settled auth us ms cs (set P) e"
  shows "\<exists>pr. check_one ss P e w = (Ok None, w\<lparr>w_profile := pr\<rparr>) \<and> hosting ss M s us ms os (w\<lparr>w_profile := pr\<rparr>)"
proof (cases e)
  case (EUser u)
  with assms(5) obtain m where m: "m \<in> set cs" "u = auth (author_of m)" "author_of m \<notin> (user_id \<circ> fst) ` set us"
    by (auto simp: settled_def)
  with assms(3) have "User_IsValid (ss_env ss) u = Ok True" "\<not> banned_by M os (user_id u)"
    by (auto simp: branch_ok_def sound_message_def)
  from checkUser_run [OF assms(1,2) this] EUser show ?thesis by (simp add: check_one_def)
next
  case (EMessage m)
  with assms(5) have m: "m \<in> set cs"
    "needs auth ((user_id \<circ> fst) ` set us) ((message_id \<circ> fst) ` set ms) (set P) m = None" by (simp_all add: settled_def)
  have "\<exists>pr. checkMessage ss P m w = (Ok (map_option NeedID
      (needs auth ((user_id \<circ> fst) ` set us) ((message_id \<circ> fst) ` set ms) (set P) m)), w\<lparr>w_profile := pr\<rparr>) \<and>
    hosting ss M s us ms os (w\<lparr>w_profile := pr\<rparr>)"
    using assms(3) m(1) by (intro checkMessage_run [OF assms(1,2,4)]) (auto simp: branch_ok_def)
  with m(2) EMessage show ?thesis by (simp add: check_one_def)
qed (use assms(5) in \<open>simp add: settled_def\<close>)

lemma check_all_settled:
  assumes "dependable ss" "branch_ok ss auth M s us ms os cs" "pending_ok auth (fst ` set ms \<union> set cs) P"
  shows "hosting ss M s us ms os w \<Longrightarrow> \<forall>e \<in> set es. settled auth us ms cs (set P) e \<Longrightarrow>
    \<exists>pr. check_all ss P (es @ fs) w = check_all ss P fs (w\<lparr>w_profile := pr\<rparr>) \<and> hosting ss M s us ms os (w\<lparr>w_profile := pr\<rparr>)"
proof (induction es arbitrary: w)
  case Nil
  then show ?case by (intro exI [of _ "w_profile w"]) simp
next
  case (Cons e es)
  from check_one_settled [OF assms(1) Cons.prems(1) assms(2,3), of e] Cons.prems(2) obtain pr where
    1: "check_one ss P e w = (Ok None, w\<lparr>w_profile := pr\<rparr>)" "hosting ss M s us ms os (w\<lparr>w_profile := pr\<rparr>)" by auto
  from Cons.IH [OF 1(2)] Cons.prems(2) 1(1) show ?case by (auto simp: chain_def)
qed

text \<open>Both outcomes of a check of the pending entities.\<close>

lemma pending_checked:
  assumes "dependable ss" "branch_ok ss auth M s us ms os cs" "hosting ss M s us ms os w"
    and "P = m # Q" "m = EMessage n" "pending_ok auth (fst ` set ms \<union> set cs) P" "\<forall>e \<in> set P. settled auth us ms cs (set P) e"
  shows "\<exists>pr. checkPendingEntities ss P w = (Ok None, w\<lparr>w_profile := pr\<rparr>) \<and> hosting ss M s us ms os (w\<lparr>w_profile := pr\<rparr>)"
  using check_all_settled [OF assms(1,2,6,3,7), of "[]"] assms(4,5) by (simp add: checkPendingEntities_def)

lemma pending_needs:
  assumes "dependable ss" "branch_ok ss auth M s us ms os cs" "hosting ss M s us ms os w"
    and "P = es @ EMessage m # fs" "es = [] \<or> (\<exists>n ns. es = EMessage n # ns)"
    and "pending_ok auth (fst ` set ms \<union> set cs) P" "\<forall>e \<in> set es. settled auth us ms cs (set P) e" "m \<in> set cs"
    and "needs auth ((user_id \<circ> fst) ` set us) ((message_id \<circ> fst) ` set ms) (set P) m = Some i"
  shows "\<exists>pr. checkPendingEntities ss P w = (Ok (Some (NeedID i)), w\<lparr>w_profile := pr\<rparr>) \<and>
    hosting ss M s us ms os (w\<lparr>w_profile := pr\<rparr>)"
proof -
  obtain pr where 1: "check_all ss P P w = check_all ss P (EMessage m # fs) (w\<lparr>w_profile := pr\<rparr>)"
    "hosting ss M s us ms os (w\<lparr>w_profile := pr\<rparr>)"
    using check_all_settled [OF assms(1,2,6,3,7), of "EMessage m # fs"] assms(4) by auto
  have "\<exists>pr'. checkMessage ss P m (w\<lparr>w_profile := pr\<rparr>) = (Ok (map_option NeedID
      (needs auth ((user_id \<circ> fst) ` set us) ((message_id \<circ> fst) ` set ms) (set P) m)),
      w\<lparr>w_profile := pr\<rparr>\<lparr>w_profile := pr'\<rparr>) \<and> hosting ss M s us ms os (w\<lparr>w_profile := pr\<rparr>\<lparr>w_profile := pr'\<rparr>)"
    using assms(2,8) by (intro checkMessage_run [OF assms(1) 1(2) assms(6)]) (auto simp: branch_ok_def)
  then obtain pr' where 2: "checkMessage ss P m (w\<lparr>w_profile := pr\<rparr>) = (Ok (Some (NeedID i)), w\<lparr>w_profile := pr'\<rparr>)"
    "hosting ss M s us ms os (w\<lparr>w_profile := pr'\<rparr>)" using assms(9) by auto
  then have "check_all ss P P w = (Ok (Some (NeedID i)), w\<lparr>w_profile := pr'\<rparr>)"
    using 1(1) by (simp add: chain_def check_one_def)
  with 2(2) assms(4,5) show ?thesis by (auto simp: checkPendingEntities_def)
qed

section \<open>Actions that do not read from the connection\<close>

definition blind :: "'a act \<Rightarrow> bool" where
  "blind m \<longleftrightarrow> (\<forall>w ib. m (w\<lparr>w_inbox := ib\<rparr>) = (case m w of (r, w') \<Rightarrow> (r, w'\<lparr>w_inbox := ib\<rparr>)))"

lemma blindD: "blind m \<Longrightarrow> m w = (r, w') \<Longrightarrow> m (w\<lparr>w_inbox := ib\<rparr>) = (r, w'\<lparr>w_inbox := ib\<rparr>)"
  by (simp add: blind_def)

lemma blind_chain:
  assumes "blind m" "\<And>x. blind (f x)"
  shows "blind (chain m f)"
  unfolding blind_def
proof (intro allI)
  fix w ib
  obtain r w' where m: "m w = (r, w')" by fastforce
  from blindD [OF assms(1) m] assms(2) m
  show "chain m f (w\<lparr>w_inbox := ib\<rparr>) = (case chain m f w of (r, w') \<Rightarrow> (r, w'\<lparr>w_inbox := ib\<rparr>))"
    by (cases r) (simp_all add: chain_def blind_def)
qed

lemma blind_fatal: "blind m \<Longrightarrow> blind (fatal m)"
  by (auto simp: blind_def fatal_def split: prod.split)

lemma blind_basic:
  "blind (ret x)" "blind (lift r)" "blind (fail e)" "blind (stop ft)" "blind (on_db f)" "blind (on_profile g)" "blind read_clock"
  by (auto simp: blind_def on_db_def on_profile_def read_clock_def split: prod.split)

lemma blind_if: "blind a \<Longrightarrow> blind b \<Longrightarrow> blind (if P then a else b)"
  by simp

lemma blind_option: "blind a \<Longrightarrow> (\<And>y. blind (f y)) \<Longrightarrow> blind (case x of None \<Rightarrow> a | Some y \<Rightarrow> f y)"
  by (cases x) simp_all

lemma blind_is_banned: "blind (is_banned ss i)"
  by (auto simp: blind_def is_banned_def fatal_def on_profile_def split: prod.split)

lemma blind_find_author: "blind (find_author ss P i)"
  by (auto simp: blind_def find_author_def split: option.split)

lemmas blind_steps = blind_chain blind_fatal blind_basic blind_if blind_option blind_is_banned blind_find_author

lemma blind_checkUser: "blind (checkUser ss u)"
  unfolding checkUser_def by (intro blind_steps)

lemma blind_checkMessage: "blind (checkMessage ss P m)"
  unfolding checkMessage_def checkMessage_rate_def checkMessage_placed_def Let_def by (intro blind_steps)

lemma blind_checkOperation: "blind (checkOperation ss P p)"
  unfolding checkOperation_def checkOperation_object_def by (intro blind_steps)

lemma blind_check_one: "blind (check_one ss P e)"
  by (cases e) (simp_all add: check_one_def blind_checkUser blind_checkMessage blind_checkOperation)

lemma blind_check_all: "blind (check_all ss P es)"
proof (induction es)
  case (Cons e es)
  then show ?case unfolding check_all.simps by (intro blind_steps blind_check_one)
qed (simp_all add: blind_def)

lemma blind_checkPendingEntities: "blind (checkPendingEntities ss P)"
  unfolding checkPendingEntities_def
  by (cases P) (auto intro: blind_basic blind_check_all split: entity.split simp del: check_all.simps)

lemma blind_put_entity: "blind (put_entity ss e c)"
  unfolding put_entity_def by (intro blind_chain blind_basic) (auto simp: blind_def split: prod.split)

lemma blind_store_pending: "blind (store_pending ss es)"
proof (induction es)
  case (Cons e es)
  then show ?case unfolding store_pending.simps by (intro blind_steps blind_put_entity)
qed (simp_all add: blind_def)

section \<open>Storing what has been checked\<close>

fun users_in :: "entity list \<Rightarrow> user list" where
  "users_in [] = []"
| "users_in (EUser u # es) = u # users_in es"
| "users_in (EMessage m # es) = users_in es"
| "users_in (EOperation p # es) = users_in es"

fun messages_in :: "entity list \<Rightarrow> message list" where
  "messages_in [] = []"
| "messages_in (EUser u # es) = messages_in es"
| "messages_in (EMessage m # es) = m # messages_in es"
| "messages_in (EOperation p # es) = messages_in es"

definition storable_new :: "env \<Rightarrow> (user \<times> time) list \<Rightarrow> (message \<times> time) list \<Rightarrow> entity \<Rightarrow> bool" where
  "storable_new env us ms e \<longleftrightarrow>
     (case e of
        EUser u \<Rightarrow> storable_user env u \<and> user_id u \<notin> (user_id \<circ> fst) ` set us
      | EMessage m \<Rightarrow> storable_message env m \<and> message_id m \<notin> (message_id \<circ> fst) ` set ms
      | EOperation p \<Rightarrow> False)"

lemma put_entity_run:
  assumes "reliable (ss_engine ss)" "represents (ss_env ss) (w_db w) us ms os" "storable_new (ss_env ss) us ms e"
  shows "\<exists>st us' ms'. put_entity ss e c w = (Ok (), w\<lparr>w_ticks := w_ticks w + 1, w_storage := st\<rparr>) \<and>
    represents (ss_env ss) (st_db st) (us @ us') (ms @ ms') os \<and> map fst us' = users_in [e] \<and> map fst ms' = messages_in [e]"
proof (cases e)
  case (EUser u)
  with assms(3) have u: "storable_user (ss_env ss) u" "user_id u \<notin> user_ids (w_db w)"
    by (simp_all add: storable_new_def represents_ids [OF assms(2)])
  obtain d where "PutUser (ss_env ss) (ss_engine ss) u (w_clock w (w_ticks w)) (w_db w) = (Ok (), d)"
    "represents (ss_env ss) d (us @ [(u, w_clock w (w_ticks w))]) ms os"
    using PutUser_represents [OF assms(1,2) u] by blast
  with EUser show ?thesis
    by (intro exI [of _ "notifyObservers e c (w_storage w\<lparr>st_db := d\<rparr>)"] exI [of _ "[(u, w_clock w (w_ticks w))]"] exI [of _ "[]"])
      (simp add: put_entity_def chain_def read_clock_run PutEntity_def)
next
  case (EMessage m)
  with assms(3) have m: "storable_message (ss_env ss) m" "message_id m \<notin> message_ids (w_db w)"
    by (simp_all add: storable_new_def represents_ids [OF assms(2)])
  obtain d where "PutMessage (ss_engine ss) m (w_clock w (w_ticks w)) (w_db w) = (Ok (), d)"
    "represents (ss_env ss) d us (ms @ [(m, w_clock w (w_ticks w))]) os"
    using PutMessage_represents [OF assms(1,2) m] by blast
  with EMessage show ?thesis
    by (intro exI [of _ "notifyObservers e c (w_storage w\<lparr>st_db := d\<rparr>)"] exI [of _ "[]"] exI [of _ "[(m, w_clock w (w_ticks w))]"])
      (simp add: put_entity_def chain_def read_clock_run PutEntity_def)
qed (use assms(3) in \<open>simp add: storable_new_def\<close>)

lemma store_pending_run:
  assumes "reliable (ss_engine ss)"
  shows "represents (ss_env ss) (w_db w) us ms os \<Longrightarrow> \<forall>e \<in> set es. storable_new (ss_env ss) us ms e \<Longrightarrow>
    distinct (map id_of es) \<Longrightarrow>
    \<exists>n st us' ms'. store_pending ss es w = (Ok (), w\<lparr>w_ticks := n, w_storage := st\<rparr>) \<and>
      represents (ss_env ss) (st_db st) (us @ us') (ms @ ms') os \<and> map fst us' = users_in es \<and> map fst ms' = messages_in es"
proof (induction es arbitrary: w us ms)
  case Nil
  then show ?case by (intro exI [of _ "w_ticks w"] exI [of _ "w_storage w"] exI [of _ "[]"]) simp
next
  case (Cons e es)
  then obtain st us1 ms1 where 1: "put_entity ss e (Some (ss_chan ss)) w = (Ok (), w\<lparr>w_ticks := w_ticks w + 1, w_storage := st\<rparr>)"
    "represents (ss_env ss) (st_db st) (us @ us1) (ms @ ms1) os" "map fst us1 = users_in [e]" "map fst ms1 = messages_in [e]"
    using put_entity_run [OF assms, of w us ms os e "Some (ss_chan ss)"] by auto
  let ?w = "w\<lparr>w_ticks := w_ticks w + 1, w_storage := st\<rparr>"
  have ids: "(user_id \<circ> fst) ` set us1 \<subseteq> {id_of e}" "(message_id \<circ> fst) ` set ms1 \<subseteq> {id_of e}"
    using 1(3,4) by (cases e; auto)+
  have "storable_new (ss_env ss) (us @ us1) (ms @ ms1) f" if "f \<in> set es" for f
  proof -
    have "storable_new (ss_env ss) us ms f" "id_of f \<noteq> id_of e" using that Cons.prems(2,3) by (auto simp: image_iff)
    with ids show ?thesis by (cases f) (auto simp: storable_new_def)
  qed
  with Cons.IH [of ?w "us @ us1" "ms @ ms1"] 1(2) Cons.prems(3) obtain n st' us2 ms2 where
    2: "store_pending ss es ?w = (Ok (), ?w\<lparr>w_ticks := n, w_storage := st'\<rparr>)"
    "represents (ss_env ss) (st_db st') (us @ us1 @ us2) (ms @ ms1 @ ms2) os" "map fst us2 = users_in es" "map fst ms2 = messages_in es"
    by auto
  have "store_pending ss (e # es) w = (Ok (), w\<lparr>w_ticks := n, w_storage := st'\<rparr>)"
    using 1(1) 2(1) by (simp add: chain_def fatal_def or_fatal_def)
  moreover have "map fst (us1 @ us2) = users_in (e # es)" "map fst (ms1 @ ms2) = messages_in (e # es)"
    using 1(3,4) 2(3,4) by (cases e; simp)+
  ultimately show ?case using 2(2) by blast
qed

section \<open>The two nodes together\<close>

text \<open>
  What the receiver fetches for a branch: the messages from the announced one upwards, each
  followed by its author when nobody knew that user before.
\<close>

fun fetched :: "(entity_id \<Rightarrow> user) \<Rightarrow> entity_id set \<Rightarrow> message list \<Rightarrow> entity list" where
  "fetched auth K [] = []"
| "fetched auth K (m # ms) = EMessage m # (if author_of m \<in> K then [] else [EUser (auth (author_of m))]) @
     fetched auth (insert (author_of m) K) ms"

definition after_read :: "session \<Rightarrow> entity list \<Rightarrow> unit act" where
  "after_read ss pending =
     chain (checkPendingEntities ss pending) (\<lambda>err.
       case err of
         None \<Rightarrow> store_pending ss pending
       | Some (NeedID i) \<Rightarrow>
           if length pending < MaxPendingEntitiesNum then receive_loop ss pending i else too_deep ss pending
       | Some (BanSender comment) \<Rightarrow>
           chain the_user (\<lambda>u. chain (banUser ss (user_id u) comment) (\<lambda>_. fail ban_sender_error))
       | Some (BanID i comment) \<Rightarrow> banUser ss i comment
       | Some Banned \<Rightarrow> ret ()
       | Some Skip \<Rightarrow> ret ())"

lemma receive_loop_after:
  "receive_loop ss P i = chain (sendReq ss i) (\<lambda>_. chain (readEntity ss i) (\<lambda>e. after_read ss (P @ [e])))"
  unfolding receive_loop.simps [of ss P i] after_read_def by simp

text \<open>What neither sending nor receiving changes.\<close>

definition kept :: "world \<Rightarrow> world \<Rightarrow> bool" where
  "kept w w' \<longleftrightarrow> w_clock w' = w_clock w \<and> w_writes w' = w_writes w \<and> w_user w' = w_user w \<and>
     w_subs w' = w_subs w \<and> w_hist w' = w_hist w"

definition kept_store :: "world \<Rightarrow> world \<Rightarrow> bool" where
  "kept_store w w' \<longleftrightarrow> kept w w' \<and> w_storage w' = w_storage w \<and> w_profile w' = w_profile w"

lemma kept_trans: "kept u v \<Longrightarrow> kept v w \<Longrightarrow> kept u w" "kept_store u v \<Longrightarrow> kept_store v w \<Longrightarrow> kept_store u w"
  by (simp_all add: kept_def kept_store_def)

lemma linked_kept: "kept w w' \<Longrightarrow> linked other w' = linked other w"
  by (simp add: linked_def kept_def)

text \<open>
  Both nodes come to the end when each reads what the other writes: the sender is in its loop
  for \<open>outgoing\<close>, the receiver has \<open>act\<close> and the acknowledgement left.
\<close>

definition completes ::
  "session \<Rightarrow> entity \<Rightarrow> state \<Rightarrow> session \<Rightarrow> state \<Rightarrow> unit act \<Rightarrow> (world \<Rightarrow> bool) \<Rightarrow> world \<Rightarrow> world \<Rightarrow> bool" where
  "completes sa outgoing next sb next' act good wa wb \<longleftrightarrow> (\<exists>pa pb wa' wb'.
     Sending_loop (map Inr pb) sa outgoing next (wa\<lparr>w_inbox := map Inr pb\<rparr>) = (Ok next, wa') \<and>
     w_outbox wa' = w_outbox wa @ pa \<and>
     chain act (\<lambda>_. chain (sendAck sb) (\<lambda>_. ret next')) (wb\<lparr>w_inbox := map Inr pa\<rparr>) = (Ok next', wb') \<and>
     w_outbox wb' = w_outbox wb @ pb \<and> good wb' \<and>
     w_inbox wa' = [] \<and> kept_store wa wa' \<and> w_inbox wb' = [] \<and> kept wb wb')"

lemma chain_assoc: "chain (chain m f) g = chain m (\<lambda>x. chain (f x) g)"
  by (rule ext) (simp add: chain_def split: prod.split sum.split)

lemma inbox_last:
  "w\<lparr>w_ticks := n, w_outbox := ob, w_inbox := ib\<rparr> = w\<lparr>w_inbox := ib, w_ticks := n, w_outbox := ob\<rparr>"
  by (cases w) simp

text \<open>One request and its answer.\<close>

lemma completes_round:
  assumes "trusted c sa" "trusted c sb" "linked sb wa" "linked sa wb" "in_time (w_clock wa) (w_clock wb)"
    and "good_codec c (PReq (id_of e))" "good_codec c (payload_of e)" "serves sa outgoing (w_db wa) e" "length (id_of e) = IDLen"
    and "completes sa outgoing next sb next' (after_read sb (P @ [e])) good
      (wa\<lparr>w_ticks := w_ticks wa + 2, w_outbox := w_outbox wa @ [packet_of sa sb (payload_of e) (w_clock wa (w_ticks wa + 1))]\<rparr>)
      (wb\<lparr>w_ticks := w_ticks wb + 2, w_outbox := w_outbox wb @ [packet_of sb sa (PReq (id_of e)) (w_clock wb (w_ticks wb))]\<rparr>)"
  shows "completes sa outgoing next sb next' (receive_loop sb P (id_of e)) good wa wb"
proof -
  let ?r = "packet_of sb sa (PReq (id_of e)) (w_clock wb (w_ticks wb))"
  let ?p = "packet_of sa sb (payload_of e) (w_clock wa (w_ticks wa + 1))"
  have time: "w_clock wa i - w_clock wb j \<le> 3 * Minute" "w_clock wb j - w_clock wa i \<le> 3 * Minute" for i j
    using assms(5) by (auto simp: in_time_def abs_le_iff)
  from assms(10) obtain pa pb wa' wb' where rest:
    "Sending_loop (map Inr pb) sa outgoing next (wa\<lparr>w_inbox := map Inr pb, w_ticks := w_ticks wa + 2,
       w_outbox := w_outbox wa @ [?p]\<rparr>) = (Ok next, wa')" "w_outbox wa' = w_outbox wa @ ?p # pa"
    "chain (after_read sb (P @ [e])) (\<lambda>_. chain (sendAck sb) (\<lambda>_. ret next')) (wb\<lparr>w_inbox := map Inr pa,
       w_ticks := w_ticks wb + 2, w_outbox := w_outbox wb @ [?r]\<rparr>) = (Ok next', wb')"
    "w_outbox wb' = w_outbox wb @ ?r # pb" "good wb'" "w_inbox wa' = []" "kept_store wa wa'" "w_inbox wb' = []" "kept wb wb'"
    by (auto simp: completes_def inbox_last kept_def kept_store_def)
  have "Sending_loop (map Inr (?r # pb)) sa outgoing next (wa\<lparr>w_inbox := map Inr (?r # pb)\<rparr>) = (Ok next, wa')"
    using Sending_round [OF assms(1,2,3,6,8) time(1), of "w_ticks wb" "map Inr pb" "next"] rest(1) by simp
  moreover have "sendReq sb (id_of e) (wb\<lparr>w_inbox := map Inr (?p # pa)\<rparr>) =
      (Ok (), wb\<lparr>w_inbox := map Inr (?p # pa), w_ticks := w_ticks wb + 1, w_outbox := w_outbox wb @ [?r]\<rparr>)"
    using sendReq_run [OF assms(2,1) _ assms(9), of "wb\<lparr>w_inbox := map Inr (?p # pa)\<rparr>"] assms(4) by simp
  moreover have "readEntity sb (id_of e) (wb\<lparr>w_inbox := map Inr (?p # pa), w_ticks := w_ticks wb + 1, w_outbox := w_outbox wb @ [?r]\<rparr>) =
      (Ok e, wb\<lparr>w_inbox := map Inr pa, w_ticks := w_ticks wb + 2, w_outbox := w_outbox wb @ [?r]\<rparr>)"
  proof -
    let ?w = "wb\<lparr>w_ticks := w_ticks wb + 1, w_outbox := w_outbox wb @ [?r]\<rparr>"
    have "linked sa ?w" "w_clock ?w (w_ticks ?w) - w_clock wa (w_ticks wa + 1) \<le> 3 * Minute"
      using assms(4) time(2) by simp_all
    from readEntity_run [OF assms(2,1) this(1) assms(7) this(2), of "map Inr pa"] show ?thesis by (cases wb) simp
  qed
  ultimately have "chain (receive_loop sb P (id_of e)) (\<lambda>_. chain (sendAck sb) (\<lambda>_. ret next')) (wb\<lparr>w_inbox := map Inr (?p # pa)\<rparr>) =
      (Ok next', wb')" "Sending_loop (map Inr (?r # pb)) sa outgoing next (wa\<lparr>w_inbox := map Inr (?r # pb)\<rparr>) = (Ok next, wa')"
    using rest(3) unfolding receive_loop_after chain_assoc by (simp_all add: chain_def [of "sendReq sb (id_of e)"] chain_def [of "readEntity sb (id_of e)"])
  with rest(2,4-9) show ?thesis unfolding completes_def by (intro exI [of _ "?p # pa"] exI [of _ "?r # pb"]) auto
qed

text \<open>A check that finds what is missing, and the check that finds nothing missing.\<close>

lemma completes_needs:
  assumes "checkPendingEntities sb P wb = (Ok (Some (NeedID i)), wb1)" "length P < MaxPendingEntitiesNum"
    and "w_outbox wb1 = w_outbox wb" "kept wb wb1" "completes sa outgoing next sb next' (receive_loop sb P i) good wa wb1"
  shows "completes sa outgoing next sb next' (after_read sb P) good wa wb"
proof -
  have "checkPendingEntities sb P (wb\<lparr>w_inbox := ib\<rparr>) = (Ok (Some (NeedID i)), wb1\<lparr>w_inbox := ib\<rparr>)" for ib
    by (rule blindD [OF blind_checkPendingEntities assms(1)])
  then have "chain (after_read sb P) f (wb\<lparr>w_inbox := ib\<rparr>) = chain (receive_loop sb P i) f (wb1\<lparr>w_inbox := ib\<rparr>)" for ib and f :: "unit \<Rightarrow> state act"
    using assms(2) unfolding after_read_def chain_assoc by (simp add: chain_def [of "checkPendingEntities sb P"])
  with assms(3,5) kept_trans(1) [OF assms(4)] show ?thesis unfolding completes_def by metis
qed

lemma completes_done:
  assumes "trusted c sa" "trusted c sb" "linked sb wa" "linked sa wb" "in_time (w_clock wa) (w_clock wb)" "good_codec c PAck"
    and "checkPendingEntities sb P wb = (Ok None, wb\<lparr>w_profile := pr\<rparr>)"
    and "store_pending sb P (wb\<lparr>w_profile := pr\<rparr>) = (Ok (), wb\<lparr>w_profile := pr, w_ticks := n, w_storage := st\<rparr>)"
    and "\<And>w'. w_storage w' = st \<Longrightarrow> w_profile w' = pr \<Longrightarrow> good w'"
  shows "completes sa outgoing next sb next' (after_read sb P) good wa wb"
proof -
  let ?a = "packet_of sb sa PAck (w_clock wb n)"
  let ?w = "wb\<lparr>w_profile := pr, w_ticks := n, w_storage := st, w_inbox := []\<rparr>"
  have time: "w_clock wa (w_ticks wa) - w_clock wb n \<le> 3 * Minute"
    using assms(5) by (auto simp: in_time_def abs_le_iff)
  have "checkPendingEntities sb P (wb\<lparr>w_inbox := []\<rparr>) = (Ok None, wb\<lparr>w_profile := pr, w_inbox := []\<rparr>)"
    using blindD [OF blind_checkPendingEntities assms(7)] by simp
  moreover have "store_pending sb P (wb\<lparr>w_profile := pr, w_inbox := []\<rparr>) = (Ok (), ?w)"
    using blindD [OF blind_store_pending assms(8), of "[]"] by simp
  moreover have "sendAck sb ?w = (Ok (), ?w\<lparr>w_ticks := n + 1, w_outbox := w_outbox wb @ [?a]\<rparr>)"
    using sendAck_run [OF assms(2,1), of ?w] assms(4) by simp
  ultimately have "chain (after_read sb P) (\<lambda>_. chain (sendAck sb) (\<lambda>_. ret next')) (wb\<lparr>w_inbox := map Inr []\<rparr>) =
      (Ok next', ?w\<lparr>w_ticks := n + 1, w_outbox := w_outbox wb @ [?a]\<rparr>)"
    by (simp add: after_read_def chain_def)
  moreover have "Sending_loop (map Inr [?a]) sa outgoing next (wa\<lparr>w_inbox := map Inr [?a]\<rparr>) =
      (Ok next, wa\<lparr>w_inbox := [], w_ticks := w_ticks wa + 1\<rparr>)"
    using Sending_acked [OF assms(1,2,3,6) time] by simp
  ultimately show ?thesis unfolding completes_def
    by (intro exI [of _ "[]"] exI [of _ "[?a]"]) (auto intro: assms(9) simp: kept_def kept_store_def)
qed

text \<open>A branch from the announced message upwards, to a root or to a parent that is stored.\<close>

fun climbs :: "entity_id set \<Rightarrow> message list \<Rightarrow> bool" where
  "climbs L [] \<longleftrightarrow> True"
| "climbs L [m] \<longleftrightarrow> (IsReply m \<longrightarrow> parent_of m \<in> L)"
| "climbs L (m # p # cs) \<longleftrightarrow> IsReply m \<and> parent_of m = message_id p \<and> climbs L (p # cs)"

definition exchanging ::
  "codec \<Rightarrow> session \<Rightarrow> session \<Rightarrow> entity_id set \<Rightarrow> subscriptions \<Rightarrow> (user \<times> time) list \<Rightarrow> (message \<times> time) list
     \<Rightarrow> (operation \<times> time) list \<Rightarrow> entity_database \<Rightarrow> world \<Rightarrow> world \<Rightarrow> bool" where
  "exchanging c sa sb M s us ms os da wa wb \<longleftrightarrow> trusted c sa \<and> trusted c sb \<and> dependable sb \<and> good_codec c PAck \<and>
     (\<forall>i. length i = IDLen \<longrightarrow> good_codec c (PReq i)) \<and> linked sb wa \<and> linked sa wb \<and> in_time (w_clock wa) (w_clock wb) \<and>
     hosting sb M s us ms os wb \<and> w_db wa = da"

definition collecting ::
  "codec \<Rightarrow> session \<Rightarrow> session \<Rightarrow> (entity_id \<Rightarrow> user) \<Rightarrow> (user \<times> time) list \<Rightarrow> (message \<times> time) list \<Rightarrow> message list
     \<Rightarrow> entity \<Rightarrow> entity_database \<Rightarrow> entity_id set \<Rightarrow> entity list \<Rightarrow> message list \<Rightarrow> bool" where
  "collecting c sa sb auth us ms bs outgoing da K P cs \<longleftrightarrow>
     set cs \<subseteq> set bs \<and> climbs ((message_id \<circ> fst) ` set ms) cs \<and>
     pending_ok auth (fst ` set ms \<union> set bs) (P @ fetched auth K cs) \<and>
     length (P @ fetched auth K cs) \<le> MaxPendingEntitiesNum \<and>
     (\<forall>e \<in> set (P @ fetched auth K cs). storable_new (ss_env sb) us ms e) \<and>
     (\<forall>e \<in> set (fetched auth K cs). serves sa outgoing da e \<and> good_codec c (payload_of e) \<and> length (id_of e) = IDLen) \<and>
     (user_id \<circ> fst) ` set us \<subseteq> K \<and> (\<forall>a \<in> K. a \<in> (user_id \<circ> fst) ` set us \<or> EUser (auth a) \<in> set P)"

lemma collecting_next:
  "author_of m \<in> K \<Longrightarrow> collecting c sa sb auth us ms bs out da K P (m # cs) \<Longrightarrow>
     collecting c sa sb auth us ms bs out da K (P @ [EMessage m]) cs"
  "author_of m \<notin> K \<Longrightarrow> collecting c sa sb auth us ms bs out da K P (m # cs) \<Longrightarrow>
     collecting c sa sb auth us ms bs out da (insert (author_of m) K) (P @ [EMessage m, EUser (auth (author_of m))]) cs"
  by (cases cs; auto simp: collecting_def insert_absorb)+

lemma pending_ok_prefix: "pending_ok auth N (P @ Q) \<Longrightarrow> pending_ok auth N P"
  by (simp add: pending_ok_def)

lemma settled_mono: "settled auth us ms bs P e \<Longrightarrow> P \<subseteq> Q \<Longrightarrow> settled auth us ms bs Q e"
  by (auto simp: settled_def needs_def split: entity.splits if_splits)

text \<open>What the receiver has in the end.\<close>

definition received ::
  "session \<Rightarrow> entity_id set \<Rightarrow> subscriptions \<Rightarrow> (user \<times> time) list \<Rightarrow> (message \<times> time) list \<Rightarrow> (operation \<times> time) list
     \<Rightarrow> entity list \<Rightarrow> world \<Rightarrow> bool" where
  "received ss M s us ms os es w \<longleftrightarrow> (\<exists>us' ms'. hosting ss M s (us @ us') (ms @ ms') os w \<and>
     map fst us' = users_in es \<and> map fst ms' = messages_in es)"

lemma completes_settled:
  assumes "exchanging c sa sb M s us ms os da wa wb" "branch_ok sb auth M s us ms os bs"
    and "pending_ok auth (fst ` set ms \<union> set bs) P" "\<forall>e \<in> set P. storable_new (ss_env sb) us ms e"
    and "P = EMessage n # ns" "\<forall>e \<in> set P. settled auth us ms bs (set P) e"
  shows "completes sa out next sb next' (after_read sb P) (received sb M s us ms os P) wa wb"
proof -
  have x: "trusted c sa" "trusted c sb" "dependable sb" "good_codec c PAck" "linked sb wa" "linked sa wb"
    "in_time (w_clock wa) (w_clock wb)" "hosting sb M s us ms os wb"
    using assms(1) by (simp_all add: exchanging_def)
  obtain pr where pr: "checkPendingEntities sb P wb = (Ok None, wb\<lparr>w_profile := pr\<rparr>)" "hosting sb M s us ms os (wb\<lparr>w_profile := pr\<rparr>)"
    using pending_checked [OF x(3) assms(2) x(8) assms(5) refl assms(3,6)] by blast
  have "reliable (ss_engine sb)" "distinct (map id_of P)" using x(3) assms(3) by (simp_all add: dependable_def pending_ok_def)
  from store_pending_run [OF this(1) _ assms(4) this(2), of "wb\<lparr>w_profile := pr\<rparr>" os] pr(2) obtain n st us' ms' where
    st: "store_pending sb P (wb\<lparr>w_profile := pr\<rparr>) = (Ok (), wb\<lparr>w_profile := pr, w_ticks := n, w_storage := st\<rparr>)"
    "represents (ss_env sb) (st_db st) (us @ us') (ms @ ms') os" "map fst us' = users_in P" "map fst ms' = messages_in P"
    by (auto simp: hosting_def)
  show ?thesis
  proof (rule completes_done [OF x(1,2,5,6,7,4) pr(1) st(1)])
    fix w' :: world assume "w_storage w' = st" "w_profile w' = pr"
    with pr(2) st(2-4) show "received sb M s us ms os P w'" by (auto simp: received_def hosting_def)
  qed
qed

lemma exchanging_simps [simp]:
  "exchanging c sa sb M s us ms os da (wa\<lparr>w_ticks := n, w_outbox := ob\<rparr>) (wb\<lparr>w_ticks := n', w_outbox := ob'\<rparr>) =
     exchanging c sa sb M s us ms os da wa wb"
  "exchanging c sa sb M s us ms os da wa wb \<Longrightarrow> hosting sb M s us ms os (wb\<lparr>w_profile := pr\<rparr>) \<Longrightarrow>
     exchanging c sa sb M s us ms os da wa (wb\<lparr>w_profile := pr\<rparr>)"
  by (simp_all add: exchanging_def hosting_def)

lemma completes_fetch:
  assumes "exchanging c sa sb M s us ms os da wa wb" "serves sa out da e" "good_codec c (payload_of e)" "length (id_of e) = IDLen"
    and "\<And>wa wb. exchanging c sa sb M s us ms os da wa wb \<Longrightarrow>
      completes sa out next sb next' (after_read sb (P @ [e])) good wa wb"
  shows "completes sa out next sb next' (receive_loop sb P (id_of e)) good wa wb"
  using assms(1-4) by (intro completes_round [where c = c] assms(5)) (simp_all add: exchanging_def hosting_def)

lemma completes_lacks:
  assumes "exchanging c sa sb M s us ms os da wa wb" "branch_ok sb auth M s us ms os bs"
    and "P = es @ EMessage m # fs" "es = [] \<or> (\<exists>n ns. es = EMessage n # ns)"
    and "pending_ok auth (fst ` set ms \<union> set bs) P" "\<forall>e \<in> set es. settled auth us ms bs (set P) e" "m \<in> set bs"
    and "needs auth ((user_id \<circ> fst) ` set us) ((message_id \<circ> fst) ` set ms) (set P) m = Some i"
    and "length P < MaxPendingEntitiesNum"
    and "\<And>wa wb. exchanging c sa sb M s us ms os da wa wb \<Longrightarrow> completes sa out next sb next' (receive_loop sb P i) good wa wb"
  shows "completes sa out next sb next' (after_read sb P) good wa wb"
proof -
  have "dependable sb" "hosting sb M s us ms os wb" using assms(1) by (simp_all add: exchanging_def)
  from pending_needs [OF this(1) assms(2) this(2) assms(3-8)] obtain pr where
    pr: "checkPendingEntities sb P wb = (Ok (Some (NeedID i)), wb\<lparr>w_profile := pr\<rparr>)" "hosting sb M s us ms os (wb\<lparr>w_profile := pr\<rparr>)"
    by blast
  show ?thesis by (rule completes_needs [OF pr(1) assms(9)]) (simp_all add: assms(1,10) pr(2) kept_def)
qed

lemma collecting_fresh:
  assumes "collecting c sa sb auth us ms bs out da K P cs" "e \<in> set (fetched auth K cs)"
  shows "\<forall>f \<in> set P. id_of f \<noteq> id_of e" "storable_new (ss_env sb) us ms e" "length P < MaxPendingEntitiesNum"
proof -
  have d: "distinct (map id_of (P @ fetched auth K cs))" and "length (P @ fetched auth K cs) \<le> MaxPendingEntitiesNum"
    and "\<forall>e \<in> set (P @ fetched auth K cs). storable_new (ss_env sb) us ms e"
    using assms(1) unfolding collecting_def pending_ok_def by blast+
  moreover from assms(2) have "0 < length (fetched auth K cs)" by (rule length_pos_if_in_set)
  moreover from this have "length P < length (P @ fetched auth K cs)" by simp
  ultimately show "storable_new (ss_env sb) us ms e" "length P < MaxPendingEntitiesNum"
    using assms(2) by (simp, metis less_le_trans length_append)
  show "\<forall>f \<in> set P. id_of f \<noteq> id_of e"
    using d assms(2) by (auto simp: disjoint_iff image_iff)
qed

text \<open>After the author of the last message has come, the next thing missing is its parent.\<close>

lemma completes_onward:
  assumes "branch_ok sb auth M s us ms os bs" "exchanging c sa sb M s us ms os da wa wb"
    and "collecting c sa sb auth us ms bs out da K Q cs" "Q = P @ EMessage m # fs" "P = [] \<or> (\<exists>n ns. P = EMessage n # ns)"
    and "m \<in> set bs" "climbs ((message_id \<circ> fst) ` set ms) (m # cs)"
    and "author_of m \<in> (user_id \<circ> fst) ` set us \<or> EUser (auth (author_of m)) \<in> set Q"
    and "\<forall>e \<in> set P \<union> set fs. settled auth us ms bs (set Q) e"
    and next_parent: "\<And>p cs' wa wb. cs = p # cs' \<Longrightarrow> exchanging c sa sb M s us ms os da wa wb \<Longrightarrow>
      \<forall>e \<in> set Q. settled auth us ms bs (insert (EMessage p) (set Q)) e \<Longrightarrow>
      completes sa out next sb next' (receive_loop sb Q (message_id p)) (received sb M s us ms os (Q @ fetched auth K cs)) wa wb"
  shows "completes sa out next sb next' (after_read sb Q) (received sb M s us ms os (Q @ fetched auth K cs)) wa wb"
proof -
  have head: "\<exists>n ns. Q = EMessage n # ns" using assms(4,5) by auto
  have Q: "pending_ok auth (fst ` set ms \<union> set bs) Q" "\<forall>e \<in> set Q. storable_new (ss_env sb) us ms e"
    using assms(3) by (auto simp: collecting_def intro: pending_ok_prefix)
  show ?thesis
  proof (cases cs)
    case Nil
    with assms(6-8) have "settled auth us ms bs (set Q) (EMessage m)" by (auto simp: settled_def needs_def)
    with assms(4,9) have all: "\<forall>e \<in> set Q. settled auth us ms bs (set Q) e" by simp
    obtain n ns where "Q = EMessage n # ns" using head by blast
    then have "completes sa out next sb next' (after_read sb Q) (received sb M s us ms os Q) wa wb"
      using all by (rule completes_settled [OF assms(2,1) Q])
    then show ?thesis by (simp add: Nil)
  next
    case (Cons p cs')
    have p: "IsReply m" "parent_of m = message_id p" using assms(7) Cons by simp_all
    have "EMessage p \<in> set (fetched auth K cs)" by (simp add: Cons)
    note fresh = collecting_fresh [OF assms(3) this]
    then have "\<forall>n. EMessage n \<in> set Q \<longrightarrow> message_id n \<noteq> message_id p" "message_id p \<notin> (message_id \<circ> fst) ` set ms"
      by (auto simp: storable_new_def)
    then have "needs auth ((user_id \<circ> fst) ` set us) ((message_id \<circ> fst) ` set ms) (set Q) m = Some (message_id p)"
      using assms(8) p by (auto simp: needs_def)
    moreover have "\<forall>e \<in> set P. settled auth us ms bs (set Q) e" using assms(9) by simp
    moreover have "settled auth us ms bs (insert (EMessage p) (set Q)) (EMessage m)"
      using assms(6,8) p by (auto simp: settled_def needs_def)
    then have "\<forall>e \<in> set Q. settled auth us ms bs (insert (EMessage p) (set Q)) e"
      using assms(4,9) by (auto intro: settled_mono)
    ultimately show ?thesis
      using completes_lacks [OF assms(2,1,4,5) Q(1) _ assms(6) _ fresh(3)] next_parent [OF Cons] by blast
  qed
qed

text \<open>The whole branch, request by request.\<close>

lemma collecting_head:
  assumes "branch_ok sb auth M s us ms os bs" "collecting c sa sb auth us ms bs out da K P (m # cs)"
  shows "m \<in> set bs" "climbs ((message_id \<circ> fst) ` set ms) (m # cs)" "pending_ok auth (fst ` set ms \<union> set bs) (P @ [EMessage m])"
    "serves sa out da (EMessage m)" "good_codec c (payload_of (EMessage m))" "length (message_id m) = IDLen"
    "user_id (auth (author_of m)) = author_of m"
    "author_of m \<in> K \<Longrightarrow> author_of m \<in> (user_id \<circ> fst) ` set us \<or> EUser (auth (author_of m)) \<in> set P"
    "author_of m \<notin> K \<Longrightarrow> author_of m \<notin> (user_id \<circ> fst) ` set us \<and> EUser (auth (author_of m)) \<notin> set (P @ [EMessage m]) \<and>
       length (P @ [EMessage m]) < MaxPendingEntitiesNum \<and> serves sa out da (EUser (auth (author_of m))) \<and>
       good_codec c (payload_of (EUser (auth (author_of m)))) \<and> length (author_of m) = IDLen"
proof -
  show m: "m \<in> set bs" and "climbs ((message_id \<circ> fst) ` set ms) (m # cs)" "serves sa out da (EMessage m)"
    "good_codec c (payload_of (EMessage m))" "length (message_id m) = IDLen"
    using assms(2) by (simp_all add: collecting_def)
  show u: "user_id (auth (author_of m)) = author_of m"
    using assms(1) m by (simp add: branch_ok_def sound_message_def)
  show "pending_ok auth (fst ` set ms \<union> set bs) (P @ [EMessage m])"
    using assms(2) pending_ok_prefix [of auth _ "P @ [EMessage m]"] by (auto simp: collecting_def)
  show "author_of m \<in> K \<Longrightarrow> author_of m \<in> (user_id \<circ> fst) ` set us \<or> EUser (auth (author_of m)) \<in> set P"
    using assms(2) by (simp add: collecting_def)
  assume a: "author_of m \<notin> K"
  then have e: "EUser (auth (author_of m)) \<in> set (fetched auth K (m # cs))" by simp
  note fresh = collecting_fresh [OF assms(2) e]
  have "author_of m \<notin> (user_id \<circ> fst) ` set us"
    using fresh(2) u by (simp add: storable_new_def)
  moreover have "EUser (auth (author_of m)) \<notin> set (P @ [EMessage m])" using fresh(1) by auto
  moreover have "length (P @ [EMessage m]) < MaxPendingEntitiesNum"
    using assms(2) a by (auto simp: collecting_def)
  moreover have "\<forall>e \<in> set (fetched auth K (m # cs)). serves sa out da e \<and> good_codec c (payload_of e) \<and> length (id_of e) = IDLen"
    using assms(2) by (simp add: collecting_def)
  ultimately show "author_of m \<notin> (user_id \<circ> fst) ` set us \<and> EUser (auth (author_of m)) \<notin> set (P @ [EMessage m]) \<and>
       length (P @ [EMessage m]) < MaxPendingEntitiesNum \<and> serves sa out da (EUser (auth (author_of m))) \<and>
       good_codec c (payload_of (EUser (auth (author_of m)))) \<and> length (author_of m) = IDLen"
    using e u by (metis id_of.simps(1))
qed

lemma branch_step:
  assumes "branch_ok sb auth M s us ms os bs" "exchanging c sa sb M s us ms os da wa wb"
    and "collecting c sa sb auth us ms bs out da K P (m # cs)" "P = [] \<or> (\<exists>n ns. P = EMessage n # ns)"
    and "\<forall>e \<in> set P. settled auth us ms bs (insert (EMessage m) (set P)) e"
    and next_parent: "\<And>Q K p cs' wa wb. cs = p # cs' \<Longrightarrow> exchanging c sa sb M s us ms os da wa wb \<Longrightarrow>
      collecting c sa sb auth us ms bs out da K Q cs \<Longrightarrow> Q = [] \<or> (\<exists>n ns. Q = EMessage n # ns) \<Longrightarrow>
      \<forall>e \<in> set Q. settled auth us ms bs (insert (EMessage p) (set Q)) e \<Longrightarrow>
      completes sa out next sb next' (receive_loop sb Q (message_id p)) (received sb M s us ms os (Q @ fetched auth K cs)) wa wb"
  shows "completes sa out next sb next' (receive_loop sb P (message_id m))
    (received sb M s us ms os (P @ fetched auth K (m # cs))) wa wb"
proof -
  note h = collecting_head [OF assms(1,3)]
  let ?a = "author_of m" and ?good = "received sb M s us ms os (P @ fetched auth K (m # cs))"
  have "completes sa out next sb next' (after_read sb (P @ [EMessage m])) ?good wa wb"
    if x: "exchanging c sa sb M s us ms os da wa wb" for wa wb
  proof (cases "?a \<in> K")
    case True
    note coll = collecting_next(1) [OF True assms(3)]
    have head: "P @ [EMessage m] = [] \<or> (\<exists>n ns. P @ [EMessage m] = EMessage n # ns)" using assms(4) by auto
    have known: "author_of m \<in> (user_id \<circ> fst) ` set us \<or> EUser (auth (author_of m)) \<in> set (P @ [EMessage m])"
      using h(8) [OF True] by auto
    have "\<forall>f \<in> set P \<union> set []. settled auth us ms bs (set (P @ [EMessage m])) f" using assms(5) by simp
    with known have "completes sa out next sb next' (after_read sb (P @ [EMessage m]))
        (received sb M s us ms os ((P @ [EMessage m]) @ fetched auth K cs)) wa wb"
      by (rule completes_onward [OF assms(1) x coll refl assms(4) h(1,2)])
        (rule next_parent [OF _ _ coll head]; simp)
    with True show ?thesis by (simp add: insert_absorb)
  next
    case False
    let ?e = "EUser (auth ?a)" and ?Q = "P @ [EMessage m]"
    note k = h(9) [OF False]
    have "completes sa out next sb next' (after_read sb (?Q @ [?e])) ?good wa wb"
      if x: "exchanging c sa sb M s us ms os da wa wb" for wa wb
    proof -
      note coll = collecting_next(2) [OF False assms(3)]
      have head: "P @ [EMessage m, ?e] = [] \<or> (\<exists>n ns. P @ [EMessage m, ?e] = EMessage n # ns)" using assms(4) by auto
      have "settled auth us ms bs (set (P @ [EMessage m, ?e])) f" if "f \<in> set P \<union> set [?e]" for f
      proof (cases "f = ?e")
        case True
        then show ?thesis using k h(1) by (auto simp: settled_def)
      next
        case False
        with that assms(5) have "settled auth us ms bs (insert (EMessage m) (set P)) f" by auto
        then show ?thesis by (rule settled_mono) auto
      qed
      then have all: "\<forall>f \<in> set P \<union> set [?e]. settled auth us ms bs (set (P @ [EMessage m, ?e])) f" by blast
      have "?a \<in> (user_id \<circ> fst) ` set us \<or> ?e \<in> set (P @ [EMessage m, ?e])" by simp
      note onward = completes_onward [OF assms(1) x coll refl assms(4) h(1,2) this all]
      have "completes sa out next sb next' (after_read sb (P @ [EMessage m, ?e]))
          (received sb M s us ms os ((P @ [EMessage m, ?e]) @ fetched auth (insert ?a K) cs)) wa wb"
        by (rule onward) (rule next_parent [OF _ _ coll head]; simp)
      with False show ?thesis by simp
    qed
    then have "completes sa out next sb next' (receive_loop sb ?Q ?a) ?good wa wb"
      if "exchanging c sa sb M s us ms os da wa wb" for wa wb
      using completes_fetch [OF that, of out ?e] k h(7) by simp
    moreover have "needs auth ((user_id \<circ> fst) ` set us) ((message_id \<circ> fst) ` set ms) (set ?Q) m = Some ?a"
      using k by (simp add: needs_def)
    ultimately show ?thesis
      using completes_lacks [OF x assms(1) refl assms(4) h(3) _ h(1)] assms(5) k by auto
  qed
  then show ?thesis using completes_fetch [OF assms(2) h(4,5)] h(6) by simp
qed

lemma branch_completes:
  assumes "branch_ok sb auth M s us ms os bs"
  shows "exchanging c sa sb M s us ms os da wa wb \<Longrightarrow> collecting c sa sb auth us ms bs out da K P (m # cs) \<Longrightarrow>
    P = [] \<or> (\<exists>n ns. P = EMessage n # ns) \<Longrightarrow>
    \<forall>e \<in> set P. settled auth us ms bs (insert (EMessage m) (set P)) e \<Longrightarrow>
    completes sa out next sb next' (receive_loop sb P (message_id m))
      (received sb M s us ms os (P @ fetched auth K (m # cs))) wa wb"
proof (induction cs arbitrary: P K m wa wb)
  case (Cons p cs)
  show ?case by (rule branch_step [OF assms Cons.prems]) (use Cons.IH in auto)
next
  case Nil
  show ?case by (rule branch_step [OF assms Nil.prems]) simp
qed

section \<open>The whole transfer\<close>

lemma blind_isInterestedInMessage: "blind (isInterestedInMessage ss s m)"
proof -
  have "blind (get_root ss m)" by (simp add: blind_def get_root_def)
  then show ?thesis unfolding isInterestedInMessage_def by (intro blind_steps)
qed

lemma blind_isInterestedInEntity: "blind (isInterestedInEntity ss e t)"
proof -
  have s: "interesting_subs t (w\<lparr>w_inbox := ib\<rparr>) = interesting_subs t w" for w ib
    by (cases "w_hist w") (simp_all add: interesting_subs_def)
  have "blind (chain (fatal (on_db f)) (isInterestedInMessage ss s))" for f s
    by (intro blind_steps blind_isInterestedInMessage)
  with blind_isInterestedInMessage show ?thesis
    unfolding blind_def isInterestedInEntity_def Let_def s by (auto split: entity.split)
qed

lemma messages_fetched: "messages_in (fetched auth K cs) = cs"
  by (induction cs arbitrary: K) auto

lemma users_fetched: "set (users_in (fetched auth K cs)) = auth ` (author_of ` set cs - K)"
proof (induction cs arbitrary: K)
  case (Cons m cs)
  then show ?case by auto
qed simp

lemma processAnnounce_run:
  assumes "trusted c ss" "trusted c other" "linked other w" "good_codec c (PAnnounce i)" "w_clock w (w_ticks w) - t \<le> 3 * Minute"
  shows "processAnnounce ss (packet_of other ss (PAnnounce i) t) w = (Ok i, w\<lparr>w_ticks := w_ticks w + 1\<rparr>)"
proof -
  have "ss_codec ss = c" using assms(1) by (simp add: trusted_def)
  moreover have "PacketTypeAnnounce = type_of_payload (PAnnounce i)" by simp
  ultimately show ?thesis
    using checks_run [where f = "\<lambda>t. t = PacketTypeAnnounce" and t = t, OF assms(1-4) _ assms(5)]
      packet_accepted(3) [OF assms(2,1,4), of t]
    by (simp add: processAnnounce_def chain_def [of "lift _"] violation_def)
qed

lemma Sending_answers:
  assumes "trusted c sa" "trusted c sb" "linked sb wa" "length (id_of e) = IDLen"
    and "isInterestedInEntity sa e stored wa = (Ok True, wa)"
    and "Sending_loop (map Inr pb) sa e next (wa\<lparr>w_inbox := map Inr pb, w_ticks := w_ticks wa + 1,
      w_outbox := w_outbox wa @ [packet_of sa sb (PAnnounce (id_of e)) (w_clock wa (w_ticks wa))]\<rparr>) = (Ok next, wa')"
  shows "perform sa (Sending e stored next) (wa\<lparr>w_inbox := map Inr pb\<rparr>) = (Ok next, wa')"
proof -
  have "isInterestedInEntity sa e stored (wa\<lparr>w_inbox := map Inr pb\<rparr>) = (Ok True, wa\<lparr>w_inbox := map Inr pb\<rparr>)"
    by (rule blindD [OF blind_isInterestedInEntity assms(5)])
  moreover have "sendAnnounce sa (id_of e) (wa\<lparr>w_inbox := map Inr pb\<rparr>) = (Ok (), wa\<lparr>w_inbox := map Inr pb,
      w_ticks := w_ticks wa + 1, w_outbox := w_outbox wa @ [packet_of sa sb (PAnnounce (id_of e)) (w_clock wa (w_ticks wa))]\<rparr>)"
    using sendAnnounce_run [OF assms(1,2) _ assms(4), of "wa\<lparr>w_inbox := map Inr pb\<rparr>"] assms(3) by simp
  ultimately show ?thesis using assms(6) by (simp add: perform_Sending_def chain_def)
qed

lemma Receiving_fetches:
  assumes "trusted c sa" "trusted c sb" "linked sa wb" "good_codec c (PAnnounce i)" "w_clock wb (w_ticks wb) - t \<le> 3 * Minute"
    and "HasEntity (ss_engine sb) i (w_db wb) = Ok False"
    and "chain (receive_loop sb [] i) (\<lambda>_. chain (sendAck sb) (\<lambda>_. ret next'))
      (wb\<lparr>w_inbox := map Inr pa, w_ticks := w_ticks wb + 1\<rparr>) = (Ok next', wb')"
  shows "perform sb (Receiving (packet_of sa sb (PAnnounce i) t) next') (wb\<lparr>w_inbox := map Inr pa\<rparr>) = (Ok next', wb')"
proof -
  have "processAnnounce sb (packet_of sa sb (PAnnounce i) t) (wb\<lparr>w_inbox := map Inr pa\<rparr>) =
      (Ok i, wb\<lparr>w_inbox := map Inr pa, w_ticks := w_ticks wb + 1\<rparr>)"
    using processAnnounce_run [OF assms(2,1) _ assms(4), of "wb\<lparr>w_inbox := map Inr pa\<rparr>" t] assms(3,5) by simp
  moreover have "fatal (on_db (HasEntity (ss_engine sb) i)) (wb\<lparr>w_inbox := map Inr pa, w_ticks := w_ticks wb + 1\<rparr>) =
      (Ok False, wb\<lparr>w_inbox := map Inr pa, w_ticks := w_ticks wb + 1\<rparr>)"
    using assms(6) by (simp add: fatal_def on_db_def or_fatal_def)
  ultimately show ?thesis using assms(7)
    unfolding perform.simps perform_Receiving_def
    by (simp add: chain_def [of "processAnnounce sb _"] chain_def [of "fatal _"])
qed

text \<open>The whole transfer, with what it leaves of both worlds.\<close>

lemma transfer:
  assumes "exchanging c sa sb M s us ms os (w_db wa) wa wb" "good_codec c (PAnnounce (message_id m))"
    and "branch_ok sb auth M s us ms os (m # cs)"
    and "collecting c sa sb auth us ms (m # cs) (EMessage m) (w_db wa) ((user_id \<circ> fst) ` set us) [] (m # cs)"
    and "isInterestedInEntity sa (EMessage m) stored wa = (Ok True, wa)"
    and "HasEntity (ss_engine sb) (message_id m) (w_db wb) = Ok False"
  shows "\<exists>pa pb wa' wb'.
    perform sa (Sending (EMessage m) stored na) (wa\<lparr>w_inbox := map Inr pb\<rparr>) = (Ok na, wa') \<and>
    w_outbox wa' = w_outbox wa @ packet_of sa sb (PAnnounce (message_id m)) (w_clock wa (w_ticks wa)) # pa \<and>
    perform sb (Receiving (packet_of sa sb (PAnnounce (message_id m)) (w_clock wa (w_ticks wa))) nb)
      (wb\<lparr>w_inbox := map Inr pa\<rparr>) = (Ok nb, wb') \<and>
    w_outbox wb' = w_outbox wb @ pb \<and> received sb M s us ms os (fetched auth ((user_id \<circ> fst) ` set us) (m # cs)) wb' \<and>
    w_inbox wa' = [] \<and> kept_store wa wa' \<and> w_inbox wb' = [] \<and> kept wb wb'"
proof -
  let ?K = "(user_id \<circ> fst) ` set us"
  let ?a = "packet_of sa sb (PAnnounce (message_id m)) (w_clock wa (w_ticks wa))"
  let ?wa = "wa\<lparr>w_ticks := w_ticks wa + 1, w_outbox := w_outbox wa @ [?a]\<rparr>"
  let ?wb = "wb\<lparr>w_ticks := w_ticks wb + 1, w_outbox := w_outbox wb\<rparr>"
  have x: "trusted c sa" "trusted c sb" "linked sb wa" "linked sa wb" "in_time (w_clock wa) (w_clock wb)"
    using assms(1) by (simp_all add: exchanging_def)
  have len: "length (id_of (EMessage m)) = IDLen" using collecting_head(6) [OF assms(3,4)] by simp
  have time: "w_clock wb (w_ticks wb) - w_clock wa (w_ticks wa) \<le> 3 * Minute"
    using x(5) by (auto simp: in_time_def abs_le_iff)
  have "exchanging c sa sb M s us ms os (w_db wa) ?wa ?wb"
    using assms(1) by (simp only: exchanging_simps)
  then have "completes sa (EMessage m) na sb nb (receive_loop sb [] (message_id m))
      (received sb M s us ms os ([] @ fetched auth ?K (m # cs))) ?wa ?wb"
    by (rule branch_completes [OF assms(3) _ assms(4)]) simp_all
  then obtain pa pb wa' wb' where run:
    "Sending_loop (map Inr pb) sa (EMessage m) na (?wa\<lparr>w_inbox := map Inr pb\<rparr>) = (Ok na, wa')"
    "w_outbox wa' = (w_outbox wa @ [?a]) @ pa"
    "chain (receive_loop sb [] (message_id m)) (\<lambda>_. chain (sendAck sb) (\<lambda>_. ret nb)) (?wb\<lparr>w_inbox := map Inr pa\<rparr>) = (Ok nb, wb')"
    "w_outbox wb' = w_outbox wb @ pb" "received sb M s us ms os (fetched auth ?K (m # cs)) wb'"
    "w_inbox wa' = []" "kept_store wa wa'" "w_inbox wb' = []" "kept wb wb'"
    unfolding completes_def append_Nil by (elim exE conjE) (rule that; simp add: kept_store_def kept_def)
  have "perform sa (Sending (EMessage m) stored na) (wa\<lparr>w_inbox := map Inr pb\<rparr>) = (Ok na, wa')"
    using run(1) by (intro Sending_answers [OF x(1-3) len assms(5)]) (simp add: inbox_last)
  moreover have "perform sb (Receiving ?a nb) (wb\<lparr>w_inbox := map Inr pa\<rparr>) = (Ok nb, wb')"
    using run(3) by (intro Receiving_fetches [OF x(1,2,4) assms(2) time assms(6)]) (cases wb, simp)
  moreover have "w_outbox wa' = w_outbox wa @ ?a # pa" using run(2) by simp
  ultimately show ?thesis using run(4-9) by blast
qed

lemma received_fetched:
  assumes "received ss M s us ms os (fetched auth K cs) w"
  shows "\<exists>us' ms'. hosting ss M s (us @ us') (ms @ ms') os w \<and> map fst ms' = cs \<and> fst ` set us' = auth ` (author_of ` set cs - K)"
proof -
  from assms obtain us' ms' where "hosting ss M s (us @ us') (ms @ ms') os w"
    "map fst us' = users_in (fetched auth K cs)" "map fst ms' = messages_in (fetched auth K cs)"
    by (auto simp only: received_def)
  moreover from this have "fst ` set us' = auth ` (author_of ` set cs - K)" "map fst ms' = cs"
    by (simp_all only: messages_fetched users_fetched flip: set_map)
  ultimately show ?thesis by blast
qed

text \<open>
  C3. A message travels: the sender announces it and serves what it is asked for; the receiver
  climbs the branch to a message it has or to the root, fetches each author nobody knew, and
  stores everything. When every message of the branch is sound for the receiver, fits within
  the pending limit and is served by the sender, both states come to their end, each reading
  exactly what the other writes, and the receiver then holds what it held before, all the
  messages of the branch and all their authors.
\<close>

theorem Message_travels:
  assumes "exchanging c sa sb M s us ms os (w_db wa) wa wb" "good_codec c (PAnnounce (message_id m))"
    and "branch_ok sb auth M s us ms os (m # cs)"
    and "collecting c sa sb auth us ms (m # cs) (EMessage m) (w_db wa) ((user_id \<circ> fst) ` set us) [] (m # cs)"
    and "isInterestedInEntity sa (EMessage m) stored wa = (Ok True, wa)"
    and "HasEntity (ss_engine sb) (message_id m) (w_db wb) = Ok False"
  shows "\<exists>announce pa pb wa' wb' us' ms'.
    perform sa (Sending (EMessage m) stored na) (wa\<lparr>w_inbox := map Inr pb\<rparr>) = (Ok na, wa') \<and>
    w_outbox wa' = w_outbox wa @ announce # pa \<and>
    perform sb (Receiving announce nb) (wb\<lparr>w_inbox := map Inr pa\<rparr>) = (Ok nb, wb') \<and>
    w_outbox wb' = w_outbox wb @ pb \<and>
    represents (ss_env sb) (w_db wb') (us @ us') (ms @ ms') os \<and> map fst ms' = m # cs \<and>
    fst ` set us' = auth ` (author_of ` set (m # cs) - (user_id \<circ> fst) ` set us)"
proof -
  from transfer [OF assms, where na = na and nb = nb] obtain pa pb wa' wb' where run:
    "perform sa (Sending (EMessage m) stored na) (wa\<lparr>w_inbox := map Inr pb\<rparr>) = (Ok na, wa')"
    "w_outbox wa' = w_outbox wa @ packet_of sa sb (PAnnounce (message_id m)) (w_clock wa (w_ticks wa)) # pa"
    "perform sb (Receiving (packet_of sa sb (PAnnounce (message_id m)) (w_clock wa (w_ticks wa))) nb)
      (wb\<lparr>w_inbox := map Inr pa\<rparr>) = (Ok nb, wb')"
    "w_outbox wb' = w_outbox wb @ pb" "received sb M s us ms os (fetched auth ((user_id \<circ> fst) ` set us) (m # cs)) wb'"
    by blast
  from received_fetched [OF run(5)] run(1-4) show ?thesis unfolding hosting_def by metis
qed

text \<open>
  Two nodes, one of which has a thread with a reply by a user that the other has never heard
  of: the reply is announced, then its author and its root are asked for.
\<close>

definition sent :: "gostring \<Rightarrow> entity_id \<Rightarrow> topic \<Rightarrow> time \<Rightarrow> message" where
  "sent s p t d = \<lparr>msg_unsigned = newUnsignedMessage toy_env s ''text'' (user_id toy_user) p d t, msg_sig = toy_sig\<rparr>"

definition sent_root :: message where "sent_root = sent ''a'' ZeroID (Some [''x'']) Epoch"
definition sent_reply :: message where "sent_reply = sent ''b'' (toy_id 97) None (Epoch + Minute)"

definition sent_codec :: codec where
  "sent_codec = toy_codec\<lparr>json_payload := (\<lambda>p. case p of PMessage m \<Rightarrow> message_id m | PReq i \<Rightarrow> i | PAnnounce i \<Rightarrow> i | _ \<Rightarrow> []),
     parse_user := (\<lambda>_. Ok toy_user), parse_message := (\<lambda>b. Ok (if b = toy_id 97 then sent_root else sent_reply)),
     parse_announce := (\<lambda>b. Ok b), parse_req := (\<lambda>b. Ok b)\<rparr>"

definition sent_from :: session where "sent_from = toy_session\<lparr>ss_codec := sent_codec, ss_owner := toy_user\<rparr>"
definition sent_to :: session where "sent_to = toy_session\<lparr>ss_codec := sent_codec\<rparr>"

definition sent_world :: "entity_database \<Rightarrow> profile_database \<Rightarrow> user \<Rightarrow> world" where
  "sent_world d pd u = toy_world\<lparr>w_storage := (w_storage toy_world)\<lparr>st_db := d\<rparr>, w_clock := (\<lambda>_. Epoch),
     w_profile := NewProfile pd (replicate 32 1), w_user := Some u, w_subs := [Some [''x'']]\<rparr>"

definition sent_pdb :: profile_database where "sent_pdb = empty_profile_database\<lparr>Subscriptions := [''x'']\<rparr>"

lemma sent_parts:
  "message_id (sent s p t d) = toy_hash (map (word_of_nat \<circ> of_char) s)" "author_of (sent s p t d) = toy_id 7"
  "parent_of (sent s p t d) = p" "mTopic (message_content_of (sent s p t d)) = t" "written (sent s p t d) = d"
  "type_of (EMessage (sent s p t d)) = TypeMessage"
  by (cases t; simp add: sent_def newUnsignedMessage_def newMessageContent_def Let_def message_id_def toy_uid
      MessageContent_ToID_def NewID_def toy_env_def)+

lemma sent_ids [simp]:
  "message_id sent_root = toy_id 97" "message_id sent_reply = toy_id 98" "author_of sent_root = toy_id 7"
  "author_of sent_reply = toy_id 7" "parent_of sent_root = ZeroID" "parent_of sent_reply = toy_id 97"
  "written sent_root = Epoch" "written sent_reply = Epoch + Minute" "IsReply sent_reply" "\<not> IsReply sent_root"
  "mTopic (message_content_of sent_root) = Some [''x'']" "mTopic (message_content_of sent_reply) = None"
  by (simp_all add: sent_root_def sent_reply_def sent_parts toy_hash_single IsReply_def ID_IsZero_def)

lemma storable_sent: "storable_message toy_env sent_root" "storable_message toy_env sent_reply"
proof -
  have "storable_message toy_env (sent s p t d)"
    if "s \<noteq> []" "length s \<le> 128" "p = ZeroID \<longleftrightarrow> t \<noteq> None" "Topic_IsValid t" "length p = IDLen" for s p t d
  proof -
    have "UnsignedMessage_isValid toy_env (msg_unsigned (sent s p t d))"
      "d_type (um_desc (msg_unsigned (sent s p t d))) = TypeMessage"
      using that by (cases t; simp add: sent_def newUnsignedMessage_def newMessageContent_def Let_def
          UnsignedMessage_isValid_def MaxMessageSubjectLen_def MaxMessageTextLen_def ID_IsZero_def not_less)+
    with that show ?thesis by (simp add: storable_message_def sent_parts IDLen_def)
  qed
  then show "storable_message toy_env sent_root" "storable_message toy_env sent_reply"
    using toy_tag_valid by (simp_all add: sent_root_def sent_reply_def IDLen_def)
qed

lemma sent_sessions:
  "ss_codec sent_from = sent_codec" "ss_codec sent_to = sent_codec" "ss_owner sent_from = toy_user"
  "ss_owner sent_to = ss_owner toy_session" "ss_signer sent_from = emerge_signer" "ss_signer sent_to = emerge_signer"
  "ss_engine sent_from = toy_engine" "ss_engine sent_to = toy_engine" "ss_profile_engine sent_to = toy_profile_engine"
  "codec_env sent_codec = toy_env" "ss_env sent_from = toy_env" "ss_env sent_to = toy_env"
  by (simp_all add: sent_from_def sent_to_def toy_session_def sent_codec_def toy_codec_def)

lemma sent_worlds [simp]:
  "w_db (sent_world d pd u) = d" "w_profile (sent_world d pd u) = NewProfile pd (replicate 32 1)"
  "w_user (sent_world d pd u) = Some u" "w_subs (sent_world d pd u) = [Some [''x'']]" "w_hist (sent_world d pd u) = None"
  "w_clock (sent_world d pd u) = (\<lambda>_. Epoch)" "w_writes (sent_world d pd u) = []"
  by (simp_all add: sent_world_def toy_world_def)

lemma sent_trusted: "trusted sent_codec sent_from" "trusted sent_codec sent_to"
proof -
  have "length (user_id (ss_owner toy_session)) = 32"
    by (simp add: toy_session_def user_id_def newUnsignedUser_def newUserContent_def Let_def UserContent_ToID_def NewID_def
        toy_env_def)
  then show "trusted sent_codec sent_from" "trusted sent_codec sent_to"
    by (simp_all add: trusted_def sent_sessions good_emerge_signer toy_Sign toy_uid IDLen_def)
qed

lemma sent_subs: "GetSubscriptions toy_profile_engine sent_pdb = Ok [Some [''x'']]" "wf_topic (Some [''x''])"
  using toy_tag_valid
  by (simp_all add: GetSubscriptions_def sent_pdb_def empty_profile_database_def toy_profile_engine_def NewTopic_def AddTopic_def
      Subs_Contains_def comma_def Let_def isTagValid_def MaxTagLen_def tag_chars_def)

lemma sent_exchanging:
  "exchanging sent_codec sent_from sent_to {replicate 32 1} [Some [''x'']] [] [] [] d
     (sent_world d pd (ss_owner toy_session)) (sent_world empty_database sent_pdb toy_user)"
proof -
  have "linked sent_to (sent_world d pd (ss_owner toy_session))" "linked sent_from (sent_world d' pd' toy_user)" for d' pd'
    by (simp_all add: linked_def sent_sessions toy_session_def toy_user_def newUnsignedUser_def newUserContent_def Let_def)
  moreover have "dependable sent_to" by (simp add: dependable_def sent_sessions) (simp add: toy_engine_def)
  moreover have "hosting sent_to {replicate 32 1} [Some [''x'']] [] [] [] (sent_world empty_database sent_pdb toy_user)"
    using sent_subs represents_empty
    by (auto simp: hosting_def sent_sessions stable_def coherent_def moderator_set_def NewProfile_def)
      (simp_all add: sent_pdb_def empty_profile_database_def pdb_wf_def)
  ultimately show ?thesis
    using sent_trusted by (simp add: exchanging_def in_time_def Minute_def Second_def) (simp add: sent_codec_def toy_codec_def)
qed

lemma sent_branch: "branch_ok sent_to (\<lambda>_. toy_user) {replicate 32 1} [Some [''x'']] [] [] [] [sent_reply, sent_root]"
proof -
  have "uPubKey (user_content_of toy_user) = s_public emerge_signer" "uRegDate (user_content_of toy_user) = Epoch"
    "msg_sig sent_root = toy_sig" "msg_sig sent_reply = toy_sig"
    by (simp_all add: toy_user_def newUnsignedUser_def newUserContent_def Let_def sent_root_def sent_reply_def sent_def)
  then show ?thesis
    by (simp add: toy_Verify ContainsTopic_def ContainsTag_def branch_ok_def sound_message_def sent_sessions storable_sent banned_by_def toy_uid spaced_def
      storable_toy_user toy_user_valid Covers_def MinMessagePostDelay_def duration_defs Message_IsSigValid_def)
qed

lemma sent_collecting:
  assumes "represents toy_env d [(toy_user, 0)] [(sent_root, 0)] []"
  shows "collecting sent_codec sent_from sent_to (\<lambda>_. toy_user) [] [] [sent_reply, sent_root] (EMessage sent_reply) d {} []
    [sent_reply, sent_root]"
proof -
  have r: "reliable toy_engine" by (rule faithful_reliable [OF faithful_toy])
  have "GetUser toy_env toy_engine (toy_id 7) d = Ok toy_user" "GetUser toy_env toy_engine (toy_id 97) d = Err NoSuchEntity"
    "GetMessage toy_env toy_engine (toy_id 97) d = Ok sent_root"
    using GetUser_represents [OF r assms] GetMessage_represents [OF faithful_toy assms] by (simp_all add: toy_uid)
  then have get: "GetEntity toy_env toy_engine (toy_id 7) d = Ok (EUser toy_user)"
    "GetEntity toy_env toy_engine (toy_id 97) d = Ok (EMessage sent_root)"
    by (simp_all add: GetEntity_def)
  have typed: "well_typed (EUser toy_user)" "well_typed (EMessage sent_root)" "well_typed (EMessage sent_reply)"
    by (simp_all add: well_typed_def sent_root_def sent_reply_def sent_def newUnsignedMessage_def toy_user_def
        newUnsignedUser_def Let_def)
  have "fetched (\<lambda>_. toy_user) {} [sent_reply, sent_root] = [EMessage sent_reply, EUser toy_user, EMessage sent_root]"
    by simp
  moreover have "good_codec sent_codec (payload_of e)" if "e \<in> {EMessage sent_reply, EUser toy_user, EMessage sent_root}" for e
    using that by (auto simp: sent_codec_def payload_of_def)
  ultimately show ?thesis
    using get typed storable_sent storable_toy_user
    by (simp add: collecting_def pending_ok_def serves_def storable_new_def sent_sessions toy_uid IDLen_def
        MaxPendingEntitiesNum_def)
qed

theorem Message_travels_witness:
  "\<exists>d announce pa pb wa' wb' us'.
    perform sent_from (Sending (EMessage sent_reply) 0 Idle)
      (sent_world d sent_pdb (ss_owner toy_session)\<lparr>w_inbox := map Inr pb\<rparr>) = (Ok Idle, wa') \<and>
    w_outbox wa' = announce # pa \<and>
    perform sent_to (Receiving announce Idle) (sent_world empty_database sent_pdb toy_user\<lparr>w_inbox := map Inr pa\<rparr>) = (Ok Idle, wb') \<and>
    w_outbox wb' = pb \<and> (\<exists>ms'. represents toy_env (w_db wb') us' ms' [] \<and> map fst ms' = [sent_reply, sent_root]) \<and>
    fst ` set us' = {toy_user}"
proof -
  have r: "reliable toy_engine" by (rule faithful_reliable [OF faithful_toy])
  obtain d1 where d1: "represents toy_env d1 [(toy_user, 0)] [] []"
    using PutUser_represents [OF r represents_empty storable_toy_user, of 0] by (auto simp: user_ids_def empty_database_def)
  then obtain d where d: "represents toy_env d [(toy_user, 0)] [(sent_root, 0)] []"
    using PutMessage_represents [OF r d1 storable_sent(1), of 0] by (auto simp: represents_ids [OF d1])
  let ?wa = "sent_world d sent_pdb (ss_owner toy_session)" and ?wb = "sent_world empty_database sent_pdb toy_user"
  have "GetMessage toy_env toy_engine (toy_id 97) d = Ok sent_root"
    using GetMessage_represents [OF faithful_toy d] by simp
  then have "GetRoot toy_env toy_engine d sent_reply = Some (Ok sent_root)" by (simp add: GetRoot.simps)
  then have i: "isInterestedInEntity sent_from (EMessage sent_reply) 0 ?wa = (Ok True, ?wa)"
    by (simp add: isInterestedInEntity_def interesting_subs_def isInterestedInMessage_def get_root_def sent_sessions
        chain_def fatal_def or_fatal_def Covers_def ContainsTopic_def ContainsTag_def)
  have x: "exchanging sent_codec sent_from sent_to {replicate 32 1} [Some [''x'']] [] [] [] (w_db ?wa) ?wa ?wb"
    using sent_exchanging [of d sent_pdb] by simp
  have g: "good_codec sent_codec (PAnnounce (message_id sent_reply))" by (simp add: sent_codec_def)
  have h: "HasEntity (ss_engine sent_to) (message_id sent_reply) (w_db ?wb) = Ok False"
    by (simp add: sent_sessions HasEntity_def HasUser_def HasMessage_def HasOperation_def toy_engine_def empty_database_def)
  have k: "collecting sent_codec sent_from sent_to (\<lambda>_. toy_user) [] [] [sent_reply, sent_root] (EMessage sent_reply)
      (w_db ?wa) ((user_id \<circ> fst) ` set []) [] [sent_reply, sent_root]"
    using sent_collecting [OF d] by simp
  have o: "w_outbox ?wa = []" "w_outbox ?wb = []" by (simp_all add: sent_world_def toy_world_def)
  from Message_travels [OF x g sent_branch k i h, where na = Idle and nb = Idle]
  show ?thesis unfolding o append_Nil sent_sessions by (elim exE conjE) (intro exI conjI; (assumption | simp))
qed

end
