(* ===== verification/Sync.thy ===== *)
theory Sync
  imports Exchange
begin

text \<open>
  Two nodes that synchronise after the handshake: the active node sends, one after the other,
  the messages it stored lately, the passive node fetches those it lacks, and then they change
  roles. Runs of the two state machines are composed from the transfers of single messages.
\<close>

section \<open>Runs that leave some of their input\<close>

text \<open>
  An action that ended well read a prefix of its input: with more input behind it, it does the
  same and leaves the rest.
\<close>

definition continues :: "(net_error + packet) list \<Rightarrow> 'a act \<Rightarrow> 'a act \<Rightarrow> bool" where
  "continues ib m m' \<longleftrightarrow> (\<forall>w x w'. m w = (Ok x, w') \<longrightarrow>
     m' (w\<lparr>w_inbox := w_inbox w @ ib\<rparr>) = (Ok x, w'\<lparr>w_inbox := w_inbox w' @ ib\<rparr>))"

abbreviation prefix_run :: "'a act \<Rightarrow> bool" where "prefix_run m \<equiv> (\<forall>ib. continues ib m m)"

lemma continuesD:
  "continues ib m m' \<Longrightarrow> m w = (Ok x, w') \<Longrightarrow> m' (w\<lparr>w_inbox := w_inbox w @ ib\<rparr>) = (Ok x, w'\<lparr>w_inbox := w_inbox w' @ ib\<rparr>)"
  by (simp add: continues_def)

lemma blind_inbox: "blind m \<Longrightarrow> m w = (r, w') \<Longrightarrow> w_inbox w' = w_inbox w"
  using blindD [of m w r w' "w_inbox w"] by simp (metis prod.inject world.select_convs(6) world.surjective world.update_convs(6))

lemma blind_prefix: "blind m \<Longrightarrow> continues ib m m"
  unfolding continues_def using blindD blind_inbox by metis

lemma prefix_Read: "continues ib Read Read"
  by (auto simp: continues_def Read_def split: list.splits sum.splits)

lemma prefix_chain:
  assumes "continues ib m m'" "\<And>x. continues ib (f x) (f' x)"
  shows "continues ib (chain m f) (chain m' f')"
  unfolding continues_def
proof (intro allI impI)
  fix w y w'
  assume "chain m f w = (Ok y, w')"
  then obtain x w1 where "m w = (Ok x, w1)" "f x w1 = (Ok y, w')"
    by (auto simp: chain_def split: prod.splits sum.splits)
  then show "chain m' f' (w\<lparr>w_inbox := w_inbox w @ ib\<rparr>) = (Ok y, w'\<lparr>w_inbox := w_inbox w' @ ib\<rparr>)"
    using continuesD [OF assms(1)] continuesD [OF assms(2)] by (simp add: chain_def)
qed

lemma prefix_if: "continues ib a a' \<Longrightarrow> continues ib b b' \<Longrightarrow> continues ib (if P then a else b) (if P then a' else b')"
  by simp

lemmas prefix_steps = prefix_chain prefix_if prefix_Read

lemma blind_sending:
  "blind the_user" "blind (Write p)" "blind (send_to_user ss t pld)" "blind (check_sig ss pkt key)"
  "blind (check_header ss pkt f i)" "blind (sendEntity ss e)" "blind (processReq ss e pkt)" "blind (sendAnnounce ss i)"
proof -
  show u: "blind the_user" and w: "blind (Write p)" for p
    by (auto simp: blind_def the_user_def Write_def split: option.splits list.splits)
  show s: "blind (send_to_user ss t pld)" for t pld
    unfolding send_to_user_def send_def by (intro blind_steps u w)
  show "blind (check_sig ss pkt key)" "blind (check_header ss pkt f i)"
    unfolding check_sig_def check_header_def by (intro blind_steps)+
  show e: "blind (sendEntity ss e)" for e unfolding sendEntity_def by (intro blind_steps s)
  show "blind (sendAnnounce ss i)" unfolding sendAnnounce_def by (rule s)
  have "blind (case i of PReq rid \<Rightarrow> chain (if rid \<noteq> id_of e then on_db (GetEntity (ss_env ss) (ss_engine ss) rid) else ret e)
      (sendEntity ss) | _ \<Rightarrow> stop Fatal)" for i
    by (cases i) (auto intro!: blind_steps e)
  then show "blind (processReq ss e pkt)" unfolding processReq_def by (intro blind_steps)
qed

lemma blind_banUser: "blind (banUser ss i c)"
proof -
  have 1: "blind (emerge_ban ss i c)"
    unfolding emerge_ban_def by (intro blind_steps) (auto simp: blind_def split: prod.split)
  have 2: "blind (ignore_error m)" if "blind m" for m
    unfolding blind_def
  proof (intro allI)
    fix w ib
    obtain r w' where m: "m w = (r, w')" by fastforce
    from blindD [OF that m] m show "ignore_error m (w\<lparr>w_inbox := ib\<rparr>) =
        (case ignore_error m w of (r, w') \<Rightarrow> (r, w'\<lparr>w_inbox := ib\<rparr>))"
      by (auto simp: ignore_error_def split: sum.split fault.split)
  qed
  show ?thesis unfolding blind_def
  proof (intro allI)
    fix w ib
    obtain r w' where m: "emerge_ban ss i c w = (r, w')" by fastforce
    have "ignore_error (put_entity ss e n) (v\<lparr>w_inbox := ib\<rparr>) =
        (case ignore_error (put_entity ss e n) v of (r, w') \<Rightarrow> (r, w'\<lparr>w_inbox := ib\<rparr>))" for e n v
      using 2 [OF blind_put_entity] by (simp add: blind_def)
    with blindD [OF 1 m] m show "banUser ss i c (w\<lparr>w_inbox := ib\<rparr>) =
        (case banUser ss i c w of (r, w') \<Rightarrow> (r, w'\<lparr>w_inbox := ib\<rparr>))"
      by (auto simp: banUser_def split: sum.split fault.split error.split)
  qed
qed

lemma blind_ret: "blind (ret x)" "blind (stop f)" "blind (fail e)"
  by (simp_all add: blind_basic)

lemma prefix_readEntity: "continues ib (readEntity ss i) (readEntity ss i)"
proof -
  have "blind (case p of PUser x \<Rightarrow> ret (EUser x) | PMessage m \<Rightarrow> ret (EMessage m) | POperation p \<Rightarrow> ret (EOperation p)
      | _ \<Rightarrow> stop Fatal)" for p
    by (cases p) (simp_all add: blind_ret)
  then have "blind (chain the_user (\<lambda>u. chain (check_sig ss pkt (uPubKey (user_content_of u))) (\<lambda>_.
      chain (check_header ss pkt f (user_id (ss_owner ss))) (\<lambda>_.
      chain (lift (violation (DecodePayload (ss_codec ss) pkt))) (\<lambda>p.
      chain (case p of PUser x \<Rightarrow> ret (EUser x) | PMessage m \<Rightarrow> ret (EMessage m) | POperation p \<Rightarrow> ret (EOperation p)
      | _ \<Rightarrow> stop Fatal) (\<lambda>e. if id_of e \<noteq> i then fail ProtocolViolation else ret e))))))" for pkt f
    by (intro blind_steps blind_sending)
  then show ?thesis unfolding readEntity_def by (intro prefix_steps blind_prefix)
qed

lemma prefix_receive_loop: "continues ib (receive_loop ss pend i) (receive_loop ss pend i)"
proof (induction ss pend i rule: receive_loop.induct)
  case (1 ss pend i)
  have deep: "blind (too_deep ss P)" for P
    unfolding too_deep_def by (intro blind_steps blind_banUser blind_sending)
  let ?after = "\<lambda>e err. case err of
         None \<Rightarrow> store_pending ss (pend @ [e])
       | Some (NeedID j) \<Rightarrow>
           if length (pend @ [e]) < MaxPendingEntitiesNum then receive_loop ss (pend @ [e]) j
           else too_deep ss (pend @ [e])
       | Some (BanSender comment) \<Rightarrow>
           chain the_user (\<lambda>u. chain (banUser ss (user_id u) comment) (\<lambda>_. fail ban_sender_error))
       | Some (BanID j comment) \<Rightarrow> banUser ss j comment
       | Some Banned \<Rightarrow> ret ()
       | Some Skip \<Rightarrow> ret ()"
  have "continues ib (?after e err) (?after e err)" for e err
  proof (cases err)
    case None
    then show ?thesis by (simp add: blind_prefix blind_store_pending)
  next
    case (Some ce)
    then show ?thesis
    proof (cases ce)
      case (NeedID j)
      with Some 1 deep show ?thesis by (simp add: blind_prefix)
    next
      case (BanSender comment)
      have "blind (?after e (Some (BanSender comment)))"
        unfolding option.case check_error.case by (intro blind_steps blind_banUser blind_sending)
      then have "continues ib (?after e (Some (BanSender comment))) (?after e (Some (BanSender comment)))"
        by (rule blind_prefix)
      with Some BanSender show ?thesis by simp
    qed (simp_all add: blind_prefix blind_banUser blind_ret)
  qed
  then show ?case unfolding receive_loop.simps [of ss pend i] sendReq_def
    by (intro prefix_chain [OF blind_prefix [OF blind_sending(3)]] prefix_chain [OF prefix_readEntity]
        prefix_chain [OF blind_prefix [OF blind_checkPendingEntities]])
qed

lemma prefix_Receiving: "prefix_run (perform ss (Receiving pckt next))"
proof -
  have "blind (case p of PAnnounce a \<Rightarrow> ret a | _ \<Rightarrow> stop Fatal)" for p by (cases p) (simp_all add: blind_ret)
  then have "blind (processAnnounce ss pckt)" unfolding processAnnounce_def by (intro blind_steps blind_sending)
  then show ?thesis unfolding perform.simps perform_Receiving_def sendAck_def
    by (intro allI prefix_chain prefix_if prefix_receive_loop blind_prefix blind_sending blind_steps)
qed

lemma prefix_Sending_loop: "continues ib (Sending_loop ps ss e next) (Sending_loop (ps @ ib) ss e next)"
proof (induction ps)
  case Nil
  show ?case by (simp add: continues_def chain_def fail_def split: prod.split sum.split)
next
  case (Cons p ps)
  then show ?case unfolding Sending_loop.simps append_Cons
    by (intro prefix_steps blind_prefix blind_sending blind_ret)
qed

lemma prefix_Sending: "prefix_run (perform ss (Sending e t next))"
proof
  fix ib
  have loop: "continues ib (\<lambda>w. Sending_loop (w_inbox w) ss e next w) (\<lambda>w. Sending_loop (w_inbox w) ss e next w)"
    using prefix_Sending_loop [of ib _ ss e "next"] by (simp add: continues_def)
  show "continues ib (perform ss (Sending e t next)) (perform ss (Sending e t next))"
    unfolding perform.simps perform_Sending_def
    by (intro prefix_chain [OF blind_prefix [OF blind_isInterestedInEntity]] prefix_if blind_prefix [OF blind_ret(1)]
        prefix_chain [OF blind_prefix [OF blind_sending(8)]] loop)
qed

section \<open>Two runs that meet\<close>

lemma run_reach_trans:
  assumes "run_reach ss a (Running (fst b), snd b)" "run_reach ss b c"
  shows "run_reach ss a c"
  using assms(2,1) by (induction rule: run_reach.induct) (auto intro: run_reach.intros)

lemma run_reach_perform:
  assumes "perform ss st w = (Ok st', w')"
  shows "run_reach ss (st, w) (Running st', w')"
  using run_perform [of ss "(st, w)" st w] run_start [of ss "(st, w)"] assms by (simp add: run_step_def)

text \<open>
  The two nodes get from their states to the next ones, each reading exactly what the other
  writes meanwhile, whatever else is waiting to be read.
\<close>

definition meet ::
  "session \<Rightarrow> state \<Rightarrow> state \<Rightarrow> session \<Rightarrow> state \<Rightarrow> state \<Rightarrow> (world \<Rightarrow> world \<Rightarrow> bool) \<Rightarrow> world \<Rightarrow> world \<Rightarrow> bool" where
  "meet sa sta sta' sb stb stb' good wa wb \<longleftrightarrow> (\<exists>pa pb wa' wb'.
     (\<forall>ib. run_reach sa (sta, wa\<lparr>w_inbox := map Inr pb @ ib\<rparr>) (Running sta', wa'\<lparr>w_inbox := ib\<rparr>)) \<and>
     w_outbox wa' = w_outbox wa @ pa \<and>
     (\<forall>ib. run_reach sb (stb, wb\<lparr>w_inbox := map Inr pa @ ib\<rparr>) (Running stb', wb'\<lparr>w_inbox := ib\<rparr>)) \<and>
     w_outbox wb' = w_outbox wb @ pb \<and> good wa' wb')"

lemma meet_refl: "good wa wb \<Longrightarrow> meet sa sta sta sb stb stb good wa wb"
  unfolding meet_def
  by (rule exI [of _ "[]"], rule exI [of _ "[]"], rule exI [of _ wa], rule exI [of _ wb])
    (use run_start [of _ "(_, _)"] in simp)

lemma meet_trans:
  assumes "meet sa a a' sb b b' mid wa wb" "\<And>wa wb. mid wa wb \<Longrightarrow> meet sa a' a'' sb b' b'' good wa wb"
  shows "meet sa a a'' sb b b'' good wa wb"
proof -
  from assms(1) obtain p q va vb where 1:
    "\<And>ib. run_reach sa (a, wa\<lparr>w_inbox := map Inr q @ ib\<rparr>) (Running a', va\<lparr>w_inbox := ib\<rparr>)" "w_outbox va = w_outbox wa @ p"
    "\<And>ib. run_reach sb (b, wb\<lparr>w_inbox := map Inr p @ ib\<rparr>) (Running b', vb\<lparr>w_inbox := ib\<rparr>)" "w_outbox vb = w_outbox wb @ q"
    "mid va vb" by (auto simp: meet_def)
  from assms(2) [OF 1(5)] obtain p' q' wa' wb' where 2:
    "\<And>ib. run_reach sa (a', va\<lparr>w_inbox := map Inr q' @ ib\<rparr>) (Running a'', wa'\<lparr>w_inbox := ib\<rparr>)" "w_outbox wa' = w_outbox va @ p'"
    "\<And>ib. run_reach sb (b', vb\<lparr>w_inbox := map Inr p' @ ib\<rparr>) (Running b'', wb'\<lparr>w_inbox := ib\<rparr>)" "w_outbox wb' = w_outbox vb @ q'"
    "good wa' wb'" by (auto simp: meet_def)
  have "run_reach sa (a, wa\<lparr>w_inbox := map Inr (q @ q') @ ib\<rparr>) (Running a'', wa'\<lparr>w_inbox := ib\<rparr>)" for ib
    using run_reach_trans [OF _ 2(1)] 1(1) by simp
  moreover have "run_reach sb (b, wb\<lparr>w_inbox := map Inr (p @ p') @ ib\<rparr>) (Running b'', wb'\<lparr>w_inbox := ib\<rparr>)" for ib
    using run_reach_trans [OF _ 2(3)] 1(3) by simp
  moreover have "w_outbox wa' = w_outbox wa @ p @ p'" "w_outbox wb' = w_outbox wb @ q @ q'"
    using 1(2,4) 2(2,4) by simp_all
  ultimately show ?thesis unfolding meet_def using 2(5) by blast
qed

text \<open>One node acts alone, without reading.\<close>

lemma meet_silent:
  assumes "\<And>ib. perform sa a (wa\<lparr>w_inbox := ib\<rparr>) = (Ok a', wa'\<lparr>w_inbox := ib\<rparr>)" "w_outbox wa' = w_outbox wa"
    and "meet sa a' a'' sb b b' good wa' wb"
  shows "meet sa a a'' sb b b' good wa wb"
proof (rule meet_trans)
  show "meet sa a a' sb b b (\<lambda>x y. x = wa' \<and> y = wb) wa wb"
    unfolding meet_def
    by (rule exI [of _ "[]"], rule exI [of _ "[]"], rule exI [of _ wa'], rule exI [of _ wb])
      (use assms(2) run_reach_perform [OF assms(1)] run_start [of sb "(b, _)"] in simp)
qed (use assms(3) in simp)

lemma run_reach_leaves:
  assumes "perform ss st (w\<lparr>w_inbox := map Inr p\<rparr>) = (Ok st', w')" "w_inbox w' = []" "prefix_run (perform ss st)"
  shows "run_reach ss (st, w\<lparr>w_inbox := map Inr p @ ib\<rparr>) (Running st', w'\<lparr>w_inbox := ib\<rparr>)"
  using continuesD [OF spec [OF assms(3), of ib] assms(1)] assms(2) by (intro run_reach_perform) simp

section \<open>Steps of the two states of synchronisation\<close>

lemma Passive_reads:
  assumes "trusted c ss" "trusted c other" "linked other w" "good_codec c pld" "w_clock w (w_ticks w) - t \<le> 3 * Minute"
  shows "perform ss PassiveSyncing (w\<lparr>w_inbox := Inr (packet_of other ss pld t) # ib\<rparr>) =
    (Ok (if type_of_payload pld = PacketTypeDone then if ss_active ss then Idle else newStateActiveSyncing
         else Receiving (packet_of other ss pld t) PassiveSyncing), w\<lparr>w_inbox := ib, w_ticks := w_ticks w + 1\<rparr>)"
proof -
  let ?p = "packet_of other ss pld t"
  obtain u where u: "w_user w = Some u" "uPubKey (user_content_of u) = s_public (ss_signer other)"
    using assms(3) by (auto simp: linked_def)
  have "ss_codec ss = c" using assms(1) by (simp add: trusted_def)
  moreover note packet_accepted(1,2) [OF assms(2,1,4), of t]
  moreover have "VerifyHeader ?p PacketTypeDone (user_id (ss_owner ss)) (w_clock w (w_ticks w)) = Ok ()"
    if "type_of_payload pld = PacketTypeDone"
    unfolding VerifyHeader_def using that
    by (intro packet_accepted(4) [OF assms(2,1,4) _ assms(5)]) simp
  moreover have "\<exists>e. VerifyHeader ?p PacketTypeDone (user_id (ss_owner ss)) (w_clock w (w_ticks w)) = Inl e"
    if "type_of_payload pld \<noteq> PacketTypeDone"
    using that packet_accepted(1) [OF assms(2,1,4), of t] VerifyHeaderFull_ok [of ?p "\<lambda>t. t = PacketTypeDone"]
    by (cases "VerifyHeader ?p PacketTypeDone (user_id (ss_owner ss)) (w_clock w (w_ticks w))") (auto simp: VerifyHeader_def)
  ultimately show ?thesis using u
    by (auto simp: perform_PassiveSyncing_def chain_def Read_def the_user_def check_sig_def read_clock_run)
qed

section \<open>What the two nodes have in common\<close>

text \<open>
  The messages of both nodes: every one is well formed, signed by its author and dated after the
  author's registration, no two of one author are too close, identifiers are unique, every
  branch ends in a root and is not too long, and the codec passes them.
\<close>

definition transferable :: "codec \<Rightarrow> (entity_id \<Rightarrow> user) \<Rightarrow> message \<Rightarrow> bool" where
  "transferable c auth m \<longleftrightarrow> (let env = codec_env c; u = auth (author_of m) in
     storable_message env m \<and> well_typed (EMessage m) \<and> good_codec c (PMessage m) \<and> good_codec c (PAnnounce (message_id m)) \<and>
     user_id u = author_of m \<and> User_IsValid env u = Ok True \<and> storable_user env u \<and> well_typed (EUser u) \<and>
     good_codec c (PUser u) \<and> Message_IsSigValid env m (uPubKey (user_content_of u)) = Ok True \<and>
     uRegDate (user_content_of u) \<le> written m)"

definition branch :: "message set \<Rightarrow> message list \<Rightarrow> bool" where
  "branch N cs \<longleftrightarrow> set cs \<subseteq> N \<and> climbs {} cs \<and> distinct (map message_id cs) \<and> length cs \<le> MaxMessageDepth + 2"

definition universe :: "codec \<Rightarrow> (entity_id \<Rightarrow> user) \<Rightarrow> message set \<Rightarrow> bool" where
  "universe c auth N \<longleftrightarrow> (\<forall>m \<in> N. transferable c auth m \<and> spaced N m \<and> (\<exists>cs. branch N (m # cs)) \<and>
     (\<forall>n \<in> N. (message_id n = message_id m \<longrightarrow> n = m) \<and> message_id m \<noteq> author_of n))"

text \<open>A store of such messages that has their authors and the messages they reply to.\<close>

abbreviation uids :: "(user \<times> time) list \<Rightarrow> entity_id set" where "uids us \<equiv> (user_id \<circ> fst) ` set us"
abbreviation mids :: "(message \<times> time) list \<Rightarrow> entity_id set" where "mids ms \<equiv> (message_id \<circ> fst) ` set ms"

definition closed_store ::
  "(entity_id \<Rightarrow> user) \<Rightarrow> message set \<Rightarrow> (user \<times> time) list \<Rightarrow> (message \<times> time) list \<Rightarrow> bool" where
  "closed_store auth N us ms \<longleftrightarrow> fst ` set ms \<subseteq> N \<and> (\<forall>u \<in> fst ` set us. u = auth (user_id u)) \<and>
     (\<forall>m \<in> fst ` set ms. author_of m \<in> uids us \<and> (IsReply m \<longrightarrow> parent_of m \<in> mids ms)) \<and>
     uids us \<inter> message_id ` N = {}"

lemma closed_user:
  assumes "closed_store auth N us ms" "i \<in> uids us"
  shows "auth i \<in> fst ` set us"
proof -
  from assms(2) obtain u t where "(u, t) \<in> set us" "user_id u = i" by auto
  moreover from this assms(1) have "u = auth (user_id u)" by (force simp: closed_store_def)
  ultimately show ?thesis by force
qed

lemma closed_message:
  assumes "universe c auth N" "closed_store auth N us ms" "p \<in> N" "message_id p \<in> mids ms"
  shows "p \<in> fst ` set ms"
proof -
  from assms(4) obtain x where "x \<in> set ms" "message_id p = message_id (fst x)" by auto
  then have n: "fst x \<in> fst ` set ms" "message_id (fst x) = message_id p" by simp_all
  with assms(2) have "fst x \<in> N" unfolding closed_store_def by blast
  with assms(1,3) n(2) have "fst x = p" unfolding universe_def by blast
  with n(1) show ?thesis by simp
qed

text \<open>The branch of a stored message is stored.\<close>

lemma closed_branch:
  assumes "universe c auth N" "closed_store auth N us ms"
  shows "m \<in> fst ` set ms \<Longrightarrow> climbs {} (m # cs) \<Longrightarrow> set (m # cs) \<subseteq> N \<Longrightarrow> set cs \<subseteq> fst ` set ms"
proof (induction cs arbitrary: m)
  case (Cons p cs)
  have "IsReply m" "parent_of m = message_id p" using Cons.prems(2) by simp_all
  moreover have "\<forall>m \<in> fst ` set ms. IsReply m \<longrightarrow> parent_of m \<in> mids ms"
    using assms(2) unfolding closed_store_def by blast
  ultimately have "message_id p \<in> mids ms" using Cons.prems(1) by metis
  with closed_message [OF assms] Cons.prems(3) have "p \<in> fst ` set ms" by simp
  with Cons.IH [of p] Cons.prems(2,3) show ?case by simp
qed simp

text \<open>The part of a branch that a store lacks.\<close>

abbreviation lacking :: "entity_id set \<Rightarrow> message list \<Rightarrow> message list" where
  "lacking L \<equiv> takeWhile (\<lambda>p. message_id p \<notin> L)"

lemma climbs_lacking: "climbs {} (m # cs) \<Longrightarrow> climbs L (m # lacking L cs)"
proof (induction cs arbitrary: m)
  case (Cons p cs)
  then have "IsReply m" "parent_of m = message_id p" "climbs {} (p # cs)" by simp_all
  with Cons.IH [of p] show ?case by simp
qed simp

lemma distinct_lacking: "distinct (map f xs) \<Longrightarrow> distinct (map f (takeWhile P xs))"
  by (metis distinct_take map_append takeWhile_dropWhile_id distinct_append)

lemma length_fetched: "length (fetched auth K cs) \<le> 2 * length cs"
  by (induction cs arbitrary: K) (auto intro: le_SucI)

lemma in_fetched: "e \<in> set (fetched auth K cs) \<Longrightarrow>
    (\<exists>m \<in> set cs. e = EMessage m) \<or> (\<exists>m \<in> set cs. e = EUser (auth (author_of m)) \<and> author_of m \<notin> K)"
  by (induction cs arbitrary: K) (auto split: if_splits)

lemma distinct_fetched:
  assumes "\<forall>m \<in> set cs. user_id (auth (author_of m)) = author_of m \<and> (\<forall>n \<in> set cs. message_id m \<noteq> author_of n)"
    and "distinct (map message_id cs)"
  shows "distinct (map id_of (fetched auth K cs))"
  using assms
proof (induction cs arbitrary: K)
  case (Cons m cs)
  have ne: "id_of e \<noteq> message_id m" if e: "e \<in> set (fetched auth K' cs)" for e K'
  proof -
    from in_fetched [OF e] obtain n where n: "n \<in> set cs" "e = EMessage n \<or> e = EUser (auth (author_of n))" by auto
    moreover have "user_id (auth (author_of n)) = author_of n" "message_id m \<noteq> author_of n"
      using Cons.prems(1) n(1) by simp_all
    moreover have "message_id n \<noteq> message_id m" using Cons.prems(2) n(1) by (simp, metis image_eqI)
    ultimately show ?thesis by auto
  qed
  have na: "id_of e \<noteq> author_of m" if e: "e \<in> set (fetched auth (insert (author_of m) K) cs)" for e
  proof -
    from in_fetched [OF e] obtain n where n: "n \<in> set cs"
      "e = EMessage n \<or> e = EUser (auth (author_of n)) \<and> author_of n \<noteq> author_of m" by auto
    moreover have "user_id (auth (author_of n)) = author_of n" "message_id n \<noteq> author_of m"
      using Cons.prems(1) n(1) by simp_all
    ultimately show ?thesis by auto
  qed
  have "message_id m \<notin> id_of ` set (fetched auth K' cs)" for K'
  proof
    assume "message_id m \<in> id_of ` set (fetched auth K' cs)"
    then obtain e where "e \<in> set (fetched auth K' cs)" "message_id m = id_of e" ..
    from ne [OF this(1)] this(2) show False by simp
  qed
  moreover have "author_of m \<notin> id_of ` set (fetched auth (insert (author_of m) K) cs)"
  proof
    assume "author_of m \<in> id_of ` set (fetched auth (insert (author_of m) K) cs)"
    then obtain e where "e \<in> set (fetched auth (insert (author_of m) K) cs)" "author_of m = id_of e" ..
    from na [OF this(1)] this(2) show False by simp
  qed
  moreover have "distinct (map id_of (fetched auth K' cs))" for K' using Cons by simp
  moreover have "user_id (auth (author_of m)) = author_of m" "author_of m \<noteq> message_id m" using Cons.prems(1) by auto
  ultimately show ?case by simp
qed simp

section \<open>What a node lacks, the other serves\<close>

lemma find_key:
  "distinct (map (f \<circ> fst) xs) \<Longrightarrow> (x, t) \<in> set xs \<Longrightarrow> find (\<lambda>(y, t). f y = f x) xs = Some (x, t)"
  by (induction xs) (auto simp: image_iff)

lemma served_message:
  assumes "faithful eng" "represents env d us ms os" "universe c auth N" "closed_store auth N us ms" "m \<in> fst ` set ms"
  shows "GetEntity env eng (message_id m) d = Ok (EMessage m)"
proof -
  obtain t where t: "(m, t) \<in> set ms" using assms(5) by auto
  have "m \<in> N" using assms(4,5) unfolding closed_store_def by blast
  then have "message_id m \<notin> uids us" using assms(4) unfolding closed_store_def by blast
  then have "find (\<lambda>(u, t). user_id u = message_id m) us = None" by (force simp: find_None_iff)
  then have "GetUser env eng (message_id m) d = Err NoSuchEntity"
    using GetUser_represents [OF faithful_reliable [OF assms(1)] assms(2)] by simp
  moreover have "GetMessage env eng (message_id m) d = Ok m"
    using GetMessage_represents [OF assms(1,2)] find_key [OF represents_distinct(2) [OF assms(2)] t] by simp
  ultimately show ?thesis by (simp add: GetEntity_def)
qed

lemma served_user:
  assumes "faithful eng" "represents env d us ms os" "closed_store auth N us ms" "i \<in> uids us" "user_id (auth i) = i"
  shows "GetEntity env eng i d = Ok (EUser (auth i))"
proof -
  obtain t where "(auth i, t) \<in> set us" using closed_user [OF assms(3,4)] by auto
  from find_key [OF represents_distinct(1) [OF assms(2)] this] assms(5)
  have "GetUser env eng i d = Ok (auth i)"
    using GetUser_represents [OF faithful_reliable [OF assms(1)] assms(2), of i] by simp
  then show ?thesis by (simp add: GetEntity_def)
qed

definition accepts :: "entity_id set \<Rightarrow> subscriptions \<Rightarrow> (operation \<times> time) list \<Rightarrow> message set \<Rightarrow> bool" where
  "accepts M s os N \<longleftrightarrow> (\<forall>m \<in> N. \<not> banned_by M os (author_of m) \<and>
     (\<not> IsReply m \<longrightarrow> Covers s (mTopic (message_content_of m))) \<and> message_id m \<notin> (operation_id \<circ> fst) ` set os)"

lemma universe_facts:
  assumes "universe c auth N" "m \<in> N"
  shows "transferable c auth m" "spaced N m" "user_id (auth (author_of m)) = author_of m"
    "n \<in> N \<Longrightarrow> message_id n = message_id m \<Longrightarrow> n = m" "n \<in> N \<Longrightarrow> message_id m \<noteq> author_of n"
proof -
  show t: "transferable c auth m" and "spaced N m" "n \<in> N \<Longrightarrow> message_id n = message_id m \<Longrightarrow> n = m"
    "n \<in> N \<Longrightarrow> message_id m \<noteq> author_of n"
    using assms unfolding universe_def by blast+
  from t show "user_id (auth (author_of m)) = author_of m" by (simp add: transferable_def Let_def)
qed

lemma spaced_mono: "spaced N m \<Longrightarrow> N' \<subseteq> N \<Longrightarrow> spaced N' m"
  by (auto simp: spaced_def)

lemma lacking_branch_ok:
  assumes "universe c auth N" "closed_store auth N us ms" "accepts M s os N" "ss_env sb = codec_env c"
    and "branch N (m # cs)" "message_id m \<notin> mids ms"
  shows "branch_ok sb auth M s us ms os (m # lacking (mids ms) cs)"
proof -
  let ?bs = "m # lacking (mids ms) cs"
  have N: "set ?bs \<subseteq> N" using assms(5) by (auto simp: branch_def dest: set_takeWhileD)
  have fst: "fst ` set ms \<subseteq> N" using assms(2) unfolding closed_store_def by blast
  show ?thesis unfolding branch_ok_def
  proof
    fix n assume n: "n \<in> set ?bs"
    with N have "n \<in> N" by blast
    note u = universe_facts [OF assms(1) this]
    have "spaced (fst ` set ms \<union> set ?bs) n" using spaced_mono [OF u(2)] N fst by simp
    moreover have "message_id n \<notin> mids ms" using n assms(6) by (auto dest: set_takeWhileD)
    moreover have "\<not> banned_by M os (author_of n) \<and> (\<not> IsReply n \<longrightarrow> Covers s (mTopic (message_content_of n)))"
      using assms(3) \<open>n \<in> N\<close> by (simp add: accepts_def)
    ultimately show "sound_message (ss_env sb) auth M os (fst ` set ms \<union> set ?bs) n \<and>
        (if author_of n \<in> uids us then auth (author_of n) \<in> fst ` set us
         else User_IsValid (ss_env sb) (auth (author_of n)) = Ok True \<and> storable_user (ss_env sb) (auth (author_of n))) \<and>
        (\<not> IsReply n \<longrightarrow> Covers s (mTopic (message_content_of n))) \<and> message_id n \<notin> mids ms"
      using u(1) closed_user [OF assms(2)] assms(4) by (simp add: sound_message_def transferable_def Let_def)
  qed
qed

lemma lacking_collecting:
  assumes "universe c auth N" "closed_store auth N us ms" "ss_env sb = codec_env c" "ss_env sa = codec_env c"
    and "branch N (m # cs)" "message_id m \<notin> mids ms"
    and "faithful (ss_engine sa)" "represents (codec_env c) da usA msA osA" "closed_store auth N usA msA" "m \<in> fst ` set msA"
  shows "collecting c sa sb auth us ms (m # lacking (mids ms) cs) (EMessage m) da (uids us) [] (m # lacking (mids ms) cs)"
proof -
  let ?bs = "m # lacking (mids ms) cs" and ?F = "fetched auth (uids us) (m # lacking (mids ms) cs)"
  have b: "set (m # cs) \<subseteq> N" "climbs {} (m # cs)" "distinct (map message_id (m # cs))" "length (m # cs) \<le> MaxMessageDepth + 2"
    using assms(5) by (simp_all add: branch_def)
  have sub: "set ?bs \<subseteq> set (m # cs)" by (auto dest: set_takeWhileD)
  then have N: "set ?bs \<subseteq> N" using b(1) by blast
  have d: "distinct (map message_id ?bs)"
    using b(3) distinct_lacking [of message_id cs] by (auto dest: set_takeWhileD)
  have stored: "set ?bs \<subseteq> fst ` set msA"
    using sub closed_branch [OF assms(1,9,10) b(2,1)] assms(10) by auto
  have elem: "serves sa (EMessage m) da e \<and> good_codec c (payload_of e) \<and> length (id_of e) = IDLen \<and>
      storable_new (ss_env sb) us ms e" if e: "e \<in> set ?F" for e
  proof -
    from in_fetched [OF e] obtain n where n: "n \<in> set ?bs" and
      "e = EMessage n \<or> e = EUser (auth (author_of n)) \<and> author_of n \<notin> uids us" by blast
    with N stored have "n \<in> N" "n \<in> fst ` set msA" by blast+
    note u = universe_facts [OF assms(1) \<open>n \<in> N\<close>]
    have "author_of n \<in> uids usA" using assms(9) \<open>n \<in> fst ` set msA\<close> unfolding closed_store_def by blast
    have "m \<in> N" using N by simp
    from \<open>e = EMessage n \<or> _\<close> show ?thesis
    proof
      assume e: "e = EMessage n"
      have "message_id n \<notin> mids ms" using n assms(6) by (auto dest: set_takeWhileD)
      moreover have "n = m \<or> message_id n \<noteq> message_id m" using u(4) [OF \<open>m \<in> N\<close>] by auto
      moreover have "storable_message (codec_env c) n" "good_codec c (PMessage n)" "well_typed (EMessage n)"
        using u(1) by (simp_all add: transferable_def Let_def)
      ultimately show ?thesis
        using e served_message [OF assms(7,8,1,9) \<open>n \<in> fst ` set msA\<close>] assms(3,4)
        by (auto simp: serves_def storable_new_def payload_of_def storable_message_def)
    next
      assume e: "e = EUser (auth (author_of n)) \<and> author_of n \<notin> uids us"
      have "author_of n \<noteq> message_id m" using universe_facts(5) [OF assms(1) \<open>m \<in> N\<close> \<open>n \<in> N\<close>] by simp
      moreover have "storable_user (codec_env c) (auth (author_of n))" "good_codec c (PUser (auth (author_of n)))"
        "well_typed (EUser (auth (author_of n)))" "length (author_of n) = IDLen"
        using u(1) by (simp_all add: transferable_def Let_def storable_message_def)
      ultimately show ?thesis
        using e served_user [OF assms(7,8,9) \<open>author_of n \<in> uids usA\<close> u(3)] u(3) assms(3,4)
        by (simp add: serves_def storable_new_def payload_of_def)
    qed
  qed
  have "length ?F \<le> 2 * length ?bs" by (rule length_fetched)
  moreover have "length ?bs \<le> MaxMessageDepth + 2"
    using b(4) length_takeWhile_le [of "\<lambda>p. message_id p \<notin> mids ms" cs] by simp
  ultimately have len: "length ?F \<le> MaxPendingEntitiesNum" by (simp add: MaxPendingEntitiesNum_def)
  have "distinct (map id_of ?F)"
    using N universe_facts [OF assms(1)] by (intro distinct_fetched d) blast
  moreover have "u = auth (user_id u)" if "EUser u \<in> set ?F" for u
    using in_fetched [OF that] N universe_facts(3) [OF assms(1)] by auto
  moreover have "n \<in> fst ` set ms \<union> set ?bs" if "EMessage n \<in> set ?F" for n
    using in_fetched [OF that] by auto
  ultimately have "pending_ok auth (fst ` set ms \<union> set ?bs) ?F" unfolding pending_ok_def by blast
  with len elem climbs_lacking [OF b(2)] show ?thesis
    unfolding collecting_def append_Nil by blast
qed

section \<open>One message of a synchronisation\<close>

lemma climbs_parent: "climbs L cs \<Longrightarrow> n \<in> set cs \<Longrightarrow> IsReply n \<Longrightarrow> parent_of n \<in> L \<union> message_id ` set cs"
proof (induction L cs rule: climbs.induct)
  case (3 L m p cs)
  then show ?case by (cases "n = m") auto
qed auto

lemma closed_store_grows:
  assumes "universe c auth N" "closed_store auth N us ms" "set cs \<subseteq> N" "climbs (mids ms) cs" "map fst ms' = cs"
    and "fst ` set us' = auth ` (author_of ` set cs - uids us)"
  shows "closed_store auth N (us @ us') (ms @ ms')"
proof -
  have a: "user_id (auth (author_of n)) = author_of n" "author_of n \<notin> message_id ` N" if "n \<in> set cs" for n
  proof -
    have n: "n \<in> N" using assms(3) that by blast
    show "user_id (auth (author_of n)) = author_of n" by (rule universe_facts(3) [OF assms(1) n])
    show "author_of n \<notin> message_id ` N" using universe_facts(5) [OF assms(1) _ n] by (metis imageE)
  qed
  have new: "fst ` set ms' = set cs" "mids ms' = message_id ` set cs" by (simp_all add: image_image flip: assms(5))
  have "uids us' = user_id ` fst ` set us'" by (rule image_comp [symmetric])
  also have "\<dots> = user_id ` auth ` (author_of ` set cs - uids us)" by (simp only: assms(6))
  also have "\<dots> = (\<lambda>a. user_id (auth a)) ` (author_of ` set cs - uids us)" by (rule image_image)
  also have "\<dots> = (\<lambda>a. a) ` (author_of ` set cs - uids us)" by (rule image_cong [OF refl]) (use a(1) in auto)
  finally have ids: "uids us' = author_of ` set cs - uids us" by simp
  have old: "fst ` set ms \<subseteq> N" "\<forall>u \<in> fst ` set us. u = auth (user_id u)"
    "\<forall>m \<in> fst ` set ms. author_of m \<in> uids us \<and> (IsReply m \<longrightarrow> parent_of m \<in> mids ms)" "uids us \<inter> message_id ` N = {}"
    using assms(2) unfolding closed_store_def by blast+
  have "\<forall>u \<in> fst ` set us'. u = auth (user_id u)"
    using a(1) by (auto simp: assms(6))
  with old(2) have "\<forall>u \<in> fst ` set (us @ us'). u = auth (user_id u)" by auto
  moreover have "\<forall>m \<in> fst ` set ms'. author_of m \<in> uids us \<union> uids us' \<and> (IsReply m \<longrightarrow> parent_of m \<in> mids ms \<union> mids ms')"
    unfolding ids new using climbs_parent [OF assms(4)] by auto
  with old(3) have "\<forall>m \<in> fst ` set (ms @ ms'). author_of m \<in> uids (us @ us') \<and> (IsReply m \<longrightarrow> parent_of m \<in> mids (ms @ ms'))"
    unfolding set_append image_Un by (metis UnE UnI1 UnI2)
  moreover have "uids us' \<inter> message_id ` N = {}" unfolding ids using a(2) by blast
  with old(4) have "uids (us @ us') \<inter> message_id ` N = {}" unfolding set_append image_Un by (simp add: Int_Un_distrib2)
  moreover have "fst ` set (ms @ ms') \<subseteq> N" using new assms(3) old(1) by (simp add: image_Un)
  ultimately show ?thesis unfolding closed_store_def by blast
qed

definition codec_ok :: "codec \<Rightarrow> bool" where
  "codec_ok c \<longleftrightarrow> good_codec c PAck \<and> good_codec c PDone \<and> (\<forall>i. length i = IDLen \<longrightarrow> good_codec c (PReq i))"

text \<open>A node that takes part: its keys, engines, store and profile, and who it is connected to.\<close>

definition node ::
  "codec \<Rightarrow> (entity_id \<Rightarrow> user) \<Rightarrow> message set \<Rightarrow> session \<Rightarrow> session \<Rightarrow> entity_id set \<Rightarrow> subscriptions
     \<Rightarrow> (user \<times> time) list \<Rightarrow> (message \<times> time) list \<Rightarrow> (operation \<times> time) list \<Rightarrow> world \<Rightarrow> bool" where
  "node c auth N ss other M s us ms os w \<longleftrightarrow> trusted c ss \<and> dependable ss \<and> linked other w \<and>
     hosting ss M s us ms os w \<and> closed_store auth N us ms \<and> accepts M s os N"

lemma node_ticks [simp]:
  "node c auth N ss other M s us ms os (w\<lparr>w_ticks := n\<rparr>) = node c auth N ss other M s us ms os w"
  "node c auth N ss other M s us ms os (w\<lparr>w_outbox := ob\<rparr>) = node c auth N ss other M s us ms os w"
  by (simp_all add: node_def hosting_def)

lemma node_kept:
  assumes "node c auth N ss other M s us ms os w" "kept_store w w'"
  shows "node c auth N ss other M s us ms os w'"
  using assms linked_kept [of w w' other] by (simp add: node_def hosting_def kept_store_def)

lemma HasEntity_known:
  assumes "reliable eng" "represents env d us ms os"
  shows "HasEntity eng i d = Ok (i \<in> uids us \<union> mids ms \<union> (operation_id \<circ> fst) ` set os)"
  by (simp add: HasEntity_def HasUser_reliable HasMessage_reliable HasOperation_reliable assms(1) represents_ids [OF assms(2)])

lemma nodes_exchange:
  assumes "codec_ok c" "node c auth N sa sb MA sA usA msA osA wa" "node c auth N sb sa MB sB us ms os wb"
    and "in_time (w_clock wa) (w_clock wb)"
  shows "exchanging c sa sb MB sB us ms os (w_db wa) wa wb"
  using assms by (simp add: node_def exchanging_def codec_ok_def)

lemma meet_announced:
  assumes "trusted c sa" "trusted c sb" "linked sa wb" "w_clock wb (w_ticks wb) - t \<le> 3 * Minute" "good_codec c (PAnnounce i)"
    and "perform sa st (wa\<lparr>w_inbox := map Inr pb\<rparr>) = (Ok st', wa')" "w_inbox wa' = []" "prefix_run (perform sa st)"
    and "w_outbox wa' = w_outbox wa @ packet_of sa sb (PAnnounce i) t # pa"
    and "perform sb (Receiving (packet_of sa sb (PAnnounce i) t) PassiveSyncing)
      (wb\<lparr>w_ticks := w_ticks wb + 1, w_inbox := map Inr pa\<rparr>) = (Ok PassiveSyncing, wb')"
    and "w_inbox wb' = []" "w_outbox wb' = w_outbox wb @ pb" "good wa' wb'"
  shows "meet sa st st' sb PassiveSyncing PassiveSyncing good wa wb"
proof -
  let ?a = "packet_of sa sb (PAnnounce i) t" and ?wb = "wb\<lparr>w_ticks := w_ticks wb + 1\<rparr>"
  have ty: "type_of_payload (PAnnounce i) \<noteq> PacketTypeDone" by (simp add: packet_type_defs)
  have "run_reach sb (PassiveSyncing, wb\<lparr>w_inbox := map Inr (?a # pa) @ ib\<rparr>) (Running PassiveSyncing, wb'\<lparr>w_inbox := ib\<rparr>)" for ib
  proof (rule run_reach_trans)
    show "run_reach sb (Receiving ?a PassiveSyncing, ?wb\<lparr>w_inbox := map Inr pa @ ib\<rparr>) (Running PassiveSyncing, wb'\<lparr>w_inbox := ib\<rparr>)"
      by (rule run_reach_leaves [OF assms(10,11) prefix_Receiving])
    show "run_reach sb (PassiveSyncing, wb\<lparr>w_inbox := map Inr (?a # pa) @ ib\<rparr>)
        (Running (fst (Receiving ?a PassiveSyncing, ?wb\<lparr>w_inbox := map Inr pa @ ib\<rparr>)),
         snd (Receiving ?a PassiveSyncing, ?wb\<lparr>w_inbox := map Inr pa @ ib\<rparr>))"
      using Passive_reads [OF assms(2,1,3,5,4), of "map Inr pa @ ib"] ty
      by (intro run_reach_perform) (cases wb, simp del: type_of_payload.simps)
  qed
  moreover note run_reach_leaves [OF assms(6-8)]
  ultimately show ?thesis unfolding meet_def using assms(9,12,13)
    by (intro exI [of _ "?a # pa"] exI [of _ pb] exI [of _ wa'] exI [of _ wb']) simp
qed

lemma meet_known:
  assumes "codec_ok c" "node c auth N sa sb MA sA usA msA osA wa" "node c auth N sb sa MB sB us ms os wb"
    and "in_time (w_clock wa) (w_clock wb)" "good_codec c (PAnnounce (message_id m))" "length (message_id m) = IDLen"
    and "isInterestedInEntity sa (EMessage m) stored wa = (Ok True, wa)" "message_id m \<in> mids ms"
  shows "meet sa (Sending (EMessage m) stored na) na sb PassiveSyncing PassiveSyncing
    (\<lambda>wa' wb'. kept_store wa wa' \<and> kept_store wb wb') wa wb"
proof -
  let ?t = "w_clock wa (w_ticks wa)" let ?a = "packet_of sa sb (PAnnounce (message_id m)) ?t"
  let ?u = "w_clock wb (w_ticks wb + 2)" let ?k = "packet_of sb sa PAck ?u"
  have x: "trusted c sa" "trusted c sb" "linked sb wa" "linked sa wb" "reliable (ss_engine sb)"
    "represents (ss_env sb) (w_db wb) us ms os" "good_codec c PAck"
    using assms(1-3) by (auto simp: node_def dependable_def hosting_def codec_ok_def)
  have time: "w_clock wb i - w_clock wa j \<le> 3 * Minute" "w_clock wa j - w_clock wb i \<le> 3 * Minute" for i j
    using assms(4) by (auto simp: in_time_def abs_le_iff)
  let ?wa = "wa\<lparr>w_ticks := w_ticks wa + 1, w_outbox := w_outbox wa @ [?a]\<rparr>"
  have l: "linked sb ?wa" "w_clock ?wa (w_ticks ?wa) - ?u \<le> 3 * Minute" using x(3) time(2) by simp_all
  have "Sending_loop (map Inr [?k]) sa (EMessage m) na (wa\<lparr>w_inbox := map Inr [?k], w_ticks := w_ticks wa + 1,
      w_outbox := w_outbox wa @ [?a]\<rparr>) = (Ok na, ?wa\<lparr>w_inbox := [], w_ticks := w_ticks wa + 2\<rparr>)"
    using Sending_acked [OF x(1,2) l(1) x(7) l(2), of "EMessage m" na] by (cases wa) simp
  then have "perform sa (Sending (EMessage m) stored na) (wa\<lparr>w_inbox := map Inr [?k]\<rparr>) =
      (Ok na, ?wa\<lparr>w_inbox := [], w_ticks := w_ticks wa + 2\<rparr>)"
    by (intro Sending_answers [OF x(1-3) _ assms(7)]) (simp_all add: assms(6))
  moreover
  let ?wb = "wb\<lparr>w_ticks := w_ticks wb + 1, w_inbox := []\<rparr>"
  have "HasEntity (ss_engine sb) (message_id m) (w_db wb) = Ok True"
    using HasEntity_known [OF x(5,6)] assms(8) by simp
  moreover have "processAnnounce sb ?a ?wb = (Ok (message_id m), ?wb\<lparr>w_ticks := w_ticks wb + 2\<rparr>)"
    using processAnnounce_run [OF x(2,1) _ assms(5), of ?wb ?t] x(4) time(1) by simp
  moreover have "sendAck sb (?wb\<lparr>w_ticks := w_ticks wb + 2\<rparr>) =
      (Ok (), ?wb\<lparr>w_ticks := w_ticks wb + 3, w_outbox := w_outbox wb @ [?k]\<rparr>)"
    using sendAck_run [OF x(2,1), of "?wb\<lparr>w_ticks := w_ticks wb + 2\<rparr>"] x(4) by simp
  ultimately have a: "perform sa (Sending (EMessage m) stored na) (wa\<lparr>w_inbox := map Inr [?k]\<rparr>) =
      (Ok na, ?wa\<lparr>w_inbox := [], w_ticks := w_ticks wa + 2\<rparr>)"
    and b: "perform sb (Receiving ?a PassiveSyncing) (wb\<lparr>w_ticks := w_ticks wb + 1, w_inbox := map Inr []\<rparr>) =
      (Ok PassiveSyncing, ?wb\<lparr>w_ticks := w_ticks wb + 3, w_outbox := w_outbox wb @ [?k]\<rparr>)"
    by (simp_all add: perform_Receiving_def chain_def fatal_def on_db_def or_fatal_def)
  show ?thesis
    by (rule meet_announced [OF x(1,2,4) time(1) assms(5) a _ prefix_Sending _ b]) (simp_all add: kept_store_def kept_def)
qed

text \<open>What a synchronisation has brought: the store grew by messages and users of the other node.\<close>

definition grown ::
  "codec \<Rightarrow> (entity_id \<Rightarrow> user) \<Rightarrow> message set \<Rightarrow> session \<Rightarrow> session \<Rightarrow> entity_id set \<Rightarrow> subscriptions
     \<Rightarrow> (user \<times> time) list \<Rightarrow> (message \<times> time) list \<Rightarrow> (operation \<times> time) list \<Rightarrow> message set \<Rightarrow> message set \<Rightarrow> world \<Rightarrow> bool" where
  "grown c auth N ss other M s us ms os Must May w \<longleftrightarrow>
     (\<exists>us' ms'. node c auth N ss other M s (us @ us') (ms @ ms') os w \<and>
        Must \<subseteq> fst ` set (ms @ ms') \<and> fst ` set ms' \<subseteq> May)"

lemma meet_lacking:
  assumes "codec_ok c" "universe c auth N" "node c auth N sa sb MA sA usA msA osA wa" "node c auth N sb sa MB sB us ms os wb"
    and "in_time (w_clock wa) (w_clock wb)" "m \<in> fst ` set msA" "message_id m \<notin> mids ms"
    and "isInterestedInEntity sa (EMessage m) stored wa = (Ok True, wa)"
  shows "meet sa (Sending (EMessage m) stored na) na sb PassiveSyncing PassiveSyncing
    (\<lambda>wa' wb'. kept_store wa wa' \<and> kept wb wb' \<and> grown c auth N sb sa MB sB us ms os {m} (fst ` set msA) wb') wa wb"
proof -
  have x: "trusted c sa" "trusted c sb" "linked sb wa" "linked sa wb" "dependable sa" "reliable (ss_engine sb)"
    "closed_store auth N us ms" "closed_store auth N usA msA" "accepts MB sB os N" "dependable sb"
    "represents (ss_env sb) (w_db wb) us ms os" "represents (ss_env sa) (w_db wa) usA msA osA"
    using assms(3,4) by (auto simp: node_def dependable_def hosting_def)
  then have env: "ss_env sa = codec_env c" "ss_env sb = codec_env c" "faithful (ss_engine sa)"
    by (simp_all add: trusted_def dependable_def)
  have m: "m \<in> N" using x(8) assms(6) unfolding closed_store_def by blast
  then obtain cs where cs: "branch N (m # cs)" using assms(2) unfolding universe_def by blast
  let ?bs = "m # lacking (mids ms) cs" and ?wb = "wb\<lparr>w_ticks := w_ticks wb + 1\<rparr>"
  have bs: "set ?bs \<subseteq> N" "climbs {} (m # cs)" "set (m # cs) \<subseteq> N"
    using cs by (auto simp: branch_def dest: set_takeWhileD)
  have announce: "good_codec c (PAnnounce (message_id m))"
    using universe_facts(1) [OF assms(2) m] by (simp add: transferable_def Let_def)
  have no_user: "message_id m \<notin> uids us" using x(7) m unfolding closed_store_def by blast
  then have has: "HasEntity (ss_engine sb) (message_id m) (w_db ?wb) = Ok False"
    using HasEntity_known [OF x(6,11)] assms(7) x(9) m by (simp add: accepts_def)
  have ex: "exchanging c sa sb MB sB us ms os (w_db wa) wa ?wb"
    using assms(5) by (intro nodes_exchange [OF assms(1,3)]) (simp_all add: assms(4))
  have time: "w_clock wb (w_ticks wb) - w_clock wa (w_ticks wa) \<le> 3 * Minute"
    using assms(5) by (auto simp: in_time_def abs_le_iff)
  note served = lacking_collecting [OF assms(2) x(7) env(2,1) cs assms(7) env(3) x(12) [unfolded env(1)] x(8) assms(6)]
  from transfer [where na = na and nb = PassiveSyncing, OF ex announce
      lacking_branch_ok [OF assms(2) x(7,9) env(2) cs assms(7)] served assms(8) has]
  obtain pa pb wa' wb' where t:
    "perform sa (Sending (EMessage m) stored na) (wa\<lparr>w_inbox := map Inr pb\<rparr>) = (Ok na, wa')"
    "w_outbox wa' = w_outbox wa @ packet_of sa sb (PAnnounce (message_id m)) (w_clock wa (w_ticks wa)) # pa"
    "perform sb (Receiving (packet_of sa sb (PAnnounce (message_id m)) (w_clock wa (w_ticks wa))) PassiveSyncing)
      (?wb\<lparr>w_inbox := map Inr pa\<rparr>) = (Ok PassiveSyncing, wb')"
    "w_outbox wb' = w_outbox ?wb @ pb" "received sb MB sB us ms os (fetched auth (uids us) ?bs) wb'"
    "w_inbox wa' = []" "kept_store wa wa'" "w_inbox wb' = []" "kept ?wb wb'"
    by blast
  then have kept: "kept wb wb'" and out: "w_outbox wb' = w_outbox wb @ pb" by (simp_all add: kept_def)
  from received_fetched [OF t(5)] obtain us' ms' where r: "hosting sb MB sB (us @ us') (ms @ ms') os wb'"
    "map fst ms' = ?bs" "fst ` set us' = auth ` (author_of ` set ?bs - uids us)"
    by (elim exE conjE) (rule that)
  have new: "fst ` set ms' = set ?bs" using r(2) by (metis list.set_map)
  have "closed_store auth N (us @ us') (ms @ ms')"
    using climbs_lacking [OF bs(2)] r(2,3) by (intro closed_store_grows [OF assms(2) x(7) bs(1)])
  then have "node c auth N sb sa MB sB (us @ us') (ms @ ms') os wb'"
    using r(1) x(2,4,9,10) linked_kept [OF kept] by (simp add: node_def)
  moreover have "set ?bs \<subseteq> fst ` set msA"
    using closed_branch [OF assms(2) x(8) assms(6) bs(2,3)] assms(6) by (auto dest: set_takeWhileD)
  ultimately have "grown c auth N sb sa MB sB us ms os {m} (fst ` set msA) wb'"
    unfolding grown_def using new by (intro exI [of _ us'] exI [of _ ms']) (simp add: image_Un)
  with t(7) kept show ?thesis
    by (intro meet_announced [OF x(1,2,4) time announce t(1,6) prefix_Sending t(2,3,8) out]) blast
qed

lemma meet_mono:
  assumes "meet sa a a' sb b b' P wa wb" "\<And>x y. P x y \<Longrightarrow> Q x y"
  shows "meet sa a a' sb b b' Q wa wb"
  using assms unfolding meet_def by blast

lemma meet_message:
  assumes "codec_ok c" "universe c auth N" "node c auth N sa sb MA sA usA msA osA wa" "node c auth N sb sa MB sB us ms os wb"
    and "in_time (w_clock wa) (w_clock wb)" "m \<in> fst ` set msA"
    and "isInterestedInEntity sa (EMessage m) stored wa = (Ok True, wa)"
  shows "meet sa (Sending (EMessage m) stored na) na sb PassiveSyncing PassiveSyncing
    (\<lambda>wa' wb'. kept_store wa wa' \<and> kept wb wb' \<and> grown c auth N sb sa MB sB us ms os {m} (fst ` set msA) wb') wa wb"
proof (cases "message_id m \<in> mids ms")
  case False
  from meet_lacking [OF assms(1-6) False assms(7)] show ?thesis .
next
  case True
  have cl: "closed_store auth N usA msA" "closed_store auth N us ms" using assms(3,4) by (simp_all add: node_def)
  have m: "m \<in> N" using cl(1) assms(6) unfolding closed_store_def by blast
  from universe_facts(1) [OF assms(2) m] have t: "good_codec c (PAnnounce (message_id m))" "length (message_id m) = IDLen"
    by (simp_all add: transferable_def Let_def storable_message_def)
  have "m \<in> fst ` set ms" by (rule closed_message [OF assms(2) cl(2) m True])
  then have "grown c auth N sb sa MB sB us ms os {m} (fst ` set msA) wb'" if "kept_store wb wb'" for wb'
    using node_kept [OF assms(4) that] unfolding grown_def by (intro exI [of _ "[]"]) simp
  then show ?thesis
    by (intro meet_mono [OF meet_known [OF assms(1,3-5) t assms(7) True]]) (simp add: kept_store_def)
qed

section \<open>What the sender is interested in sending\<close>

lemma GetRoot_branch:
  assumes "faithful eng" "represents env d us ms os"
  shows "climbs {} (m # cs) \<Longrightarrow> set cs \<subseteq> fst ` set ms \<Longrightarrow> GetRoot env eng d m = Some (Ok (last (m # cs))) \<and> \<not> IsReply (last (m # cs))"
proof (induction cs arbitrary: m)
  case Nil
  then show ?case by (simp add: GetRoot.simps)
next
  case (Cons p cs)
  then have p: "IsReply m" "parent_of m = message_id p" by simp_all
  obtain t where "(p, t) \<in> set ms" using Cons.prems(2) by auto
  then have "GetMessage env eng (message_id p) d = Ok p"
    using GetMessage_represents [OF assms] find_key [OF represents_distinct(2) [OF assms(2)]] by simp
  with p Cons.IH [of p] Cons.prems show ?case by (simp add: GetRoot.simps [of _ _ _ m])
qed

definition wanted :: "message set \<Rightarrow> world \<Rightarrow> bool" where
  "wanted N w \<longleftrightarrow> w_hist w = None \<and> (\<forall>m \<in> N. \<not> IsReply m \<longrightarrow> Covers (w_subs w) (mTopic (message_content_of m)))"

lemma interested_in_all:
  assumes "universe c auth N" "node c auth N sa sb MA sA usA msA osA w" "wanted N w" "m \<in> fst ` set msA"
  shows "isInterestedInEntity sa (EMessage m) stored w = (Ok True, w)"
proof -
  have n: "faithful (ss_engine sa)" "represents (ss_env sa) (w_db w) usA msA osA" "closed_store auth N usA msA"
    using assms(2) by (simp_all add: node_def dependable_def hosting_def)
  have m: "m \<in> N" using n(3) assms(4) unfolding closed_store_def by blast
  with assms(1) obtain cs where "branch N (m # cs)" unfolding universe_def by blast
  then have cs: "climbs {} (m # cs)" "set (m # cs) \<subseteq> N" by (simp_all add: branch_def)
  let ?r = "last (m # cs)"
  have r: "GetRoot (ss_env sa) (ss_engine sa) (w_db w) m = Some (Ok ?r)" "\<not> IsReply ?r"
    using GetRoot_branch [OF n(1,2) cs(1) closed_branch [OF assms(1) n(3) assms(4) cs]] by blast+
  have "?r \<in> N" using cs(2) last_in_set [of "m # cs"] by blast
  then have cov: "Covers (w_subs w) (mTopic (message_content_of ?r))" using assms(3) r(2) by (simp add: wanted_def)
  then have "w_subs w \<noteq> []" by (auto simp: Covers_def)
  moreover have "m = ?r" if "\<not> IsReply m" using r(1) that by (simp add: GetRoot.simps)
  ultimately show ?thesis using assms(3) cov r(1)
    by (auto simp: isInterestedInEntity_def interesting_subs_def wanted_def isInterestedInMessage_def chain_def fatal_def
        get_root_def or_fatal_def ret_def simp del: last.simps)
qed

section \<open>A list of messages\<close>

lemma wanted_kept: "wanted N w \<Longrightarrow> kept w w' \<Longrightarrow> wanted N w'"
  by (simp add: wanted_def kept_def)

lemma ActiveSyncing_message:
  assumes "start \<noteq> zero_time"
  shows "perform ss (ActiveSyncing (Some ((m, t) # L)) ops start) w = (Ok (Sending (EMessage m) t (ActiveSyncing (Some L) ops start)), w)"
  using assms by (simp add: perform_ActiveSyncing_def chain_def messagesSynced_def ret_def)

text \<open>The postcondition of a list of messages that were sent.\<close>

definition delivered ::
  "codec \<Rightarrow> (entity_id \<Rightarrow> user) \<Rightarrow> message set \<Rightarrow> session \<Rightarrow> session \<Rightarrow> entity_id set \<Rightarrow> subscriptions
     \<Rightarrow> (user \<times> time) list \<Rightarrow> (message \<times> time) list \<Rightarrow> (operation \<times> time) list \<Rightarrow> message set \<Rightarrow> message set
     \<Rightarrow> world \<Rightarrow> world \<Rightarrow> world \<Rightarrow> world \<Rightarrow> bool" where
  "delivered c auth N sa sb M s us ms os Must May wa wb wa' wb' \<longleftrightarrow>
     kept_store wa wa' \<and> kept wb wb' \<and> grown c auth N sb sa M s us ms os Must May wb'"

lemma delivered_trans:
  assumes "kept_store wa va" "kept wb vb" "A \<subseteq> fst ` set (ms @ ms')" "fst ` set ms' \<subseteq> May"
    and "delivered c auth N sa sb M s (us @ us') (ms @ ms') os B May va vb wa' wb'"
  shows "delivered c auth N sa sb M s us ms os (A \<union> B) May wa wb wa' wb'"
proof -
  from assms(5) obtain us2 ms2 where "node c auth N sb sa M s ((us @ us') @ us2) ((ms @ ms') @ ms2) os wb'"
    "B \<subseteq> fst ` set ((ms @ ms') @ ms2)" "fst ` set ms2 \<subseteq> May" unfolding delivered_def grown_def by blast
  with assms(3,4) have "grown c auth N sb sa M s us ms os (A \<union> B) May wb'"
    unfolding grown_def by (intro exI [of _ "us' @ us2"] exI [of _ "ms' @ ms2"]) (auto simp: image_Un)
  with assms(1,2,5) kept_trans show ?thesis unfolding delivered_def by blast
qed

lemma delivered_weaken:
  assumes "delivered c auth N sa sb M s us ms os A May va wb wa' wb'" "A' \<subseteq> A" "kept_store wa va"
  shows "delivered c auth N sa sb M s us ms os A' May wa wb wa' wb'"
proof -
  from assms(1) obtain us' ms' where "node c auth N sb sa M s (us @ us') (ms @ ms') os wb'"
    "A \<subseteq> fst ` set (ms @ ms')" "fst ` set ms' \<subseteq> May" unfolding delivered_def grown_def by blast
  with assms(2) have "grown c auth N sb sa M s us ms os A' May wb'"
    unfolding grown_def by (intro exI [of _ us'] exI [of _ ms']) blast
  with assms(1,3) kept_trans(2) show ?thesis unfolding delivered_def by blast
qed

lemma meet_sending:
  assumes "codec_ok c" "universe c auth N"
    and "node c auth N sa sb MA sA usA msA osA wa" "node c auth N sb sa MB sB us ms os wb" "wanted N wa"
    and "in_time (w_clock wa) (w_clock wb)" "m \<in> fst ` set msA"
    and rest: "\<And>va vb us ms. node c auth N sa sb MA sA usA msA osA va \<Longrightarrow> node c auth N sb sa MB sB us ms os vb \<Longrightarrow>
      wanted N va \<Longrightarrow> in_time (w_clock va) (w_clock vb) \<Longrightarrow> kept wa va \<Longrightarrow>
      meet sa na na' sb PassiveSyncing b' (delivered c auth N sa sb MB sB us ms os A (fst ` set msA) va vb) va vb"
  shows "meet sa (Sending (EMessage m) t na) na' sb PassiveSyncing b'
    (delivered c auth N sa sb MB sB us ms os ({m} \<union> A) (fst ` set msA) wa wb) wa wb"
proof (rule meet_trans [OF meet_message [OF assms(1-4,6,7) interested_in_all [OF assms(2,3,5,7)]]])
  fix va vb assume v: "kept_store wa va \<and> kept wb vb \<and> grown c auth N sb sa MB sB us ms os {m} (fst ` set msA) vb"
  then obtain us' ms' where n: "node c auth N sb sa MB sB (us @ us') (ms @ ms') os vb"
    "{m} \<subseteq> fst ` set (ms @ ms')" "fst ` set ms' \<subseteq> fst ` set msA" unfolding grown_def by blast
  have k: "kept_store wa va" "kept wb vb" "kept wa va" using v by (simp_all add: kept_store_def)
  have "wanted N va" "in_time (w_clock va) (w_clock vb)"
    using wanted_kept [OF assms(5) k(3)] k assms(6) by (simp_all add: kept_def)
  from rest [OF node_kept [OF assms(3) k(1)] n(1) this k(3)]
  show "meet sa na na' sb PassiveSyncing b' (delivered c auth N sa sb MB sB us ms os ({m} \<union> A) (fst ` set msA) wa wb) va vb"
    by (rule meet_mono) (rule delivered_trans [OF k(1,2) n(2,3)])
qed

lemma delivered_refl:
  assumes "node c auth N sb sa M s us ms os wb'" "kept_store wa wa'" "kept wb wb'" "A \<subseteq> fst ` set ms"
  shows "delivered c auth N sa sb M s us ms os A May wa wb wa' wb'"
  using assms unfolding delivered_def grown_def by (intro conjI exI [of _ "[]"]) simp_all

lemma meet_list:
  assumes "codec_ok c" "universe c auth N" "start \<noteq> zero_time"
  shows "node c auth N sa sb MA sA usA msA osA wa \<Longrightarrow> node c auth N sb sa MB sB us ms os wb \<Longrightarrow> wanted N wa \<Longrightarrow>
    in_time (w_clock wa) (w_clock wb) \<Longrightarrow> fst ` set L \<subseteq> fst ` set msA \<Longrightarrow>
    meet sa (ActiveSyncing (Some L) ops start) (ActiveSyncing (Some []) ops start) sb PassiveSyncing PassiveSyncing
      (delivered c auth N sa sb MB sB us ms os (fst ` set L) (fst ` set msA) wa wb) wa wb"
proof (induction L arbitrary: wa wb us ms)
  case Nil
  then show ?case by (intro meet_refl delivered_refl) (simp_all add: kept_store_def kept_def)
next
  case (Cons x L)
  obtain m t where x: "x = (m, t)" by fastforce
  have m: "m \<in> fst ` set msA" and L: "fst ` set L \<subseteq> fst ` set msA" using Cons.prems(5) x by auto
  have "meet sa (Sending (EMessage m) t (ActiveSyncing (Some L) ops start)) (ActiveSyncing (Some []) ops start) sb
      PassiveSyncing PassiveSyncing (delivered c auth N sa sb MB sB us ms os ({m} \<union> fst ` set L) (fst ` set msA) wa wb) wa wb"
    by (rule meet_sending [OF assms(1,2) Cons.prems(1-4) m]) (rule Cons.IH [OF _ _ _ _ L])
  then show ?case unfolding x
    by (intro meet_silent [OF ActiveSyncing_message [OF assms(3)] refl]) simp
qed

section \<open>One direction\<close>

definition recent :: "world \<Rightarrow> (message \<times> time) list \<Rightarrow> message set" where
  "recent w ms = {m. \<exists>t. (m, t) \<in> set ms \<and> (\<forall>i. w_clock w i - MaxSyncDuration \<le> t)}"

text \<open>
  The clock is past the beginning of Go's time, everything there is to send fits into one query,
  and no operation is recent enough to be sent.
\<close>

definition few_messages :: "world \<Rightarrow> (message \<times> time) list \<Rightarrow> (operation \<times> time) list \<Rightarrow> bool" where
  "few_messages w ms os \<longleftrightarrow> int (length ms) \<le> MaxSyncNumberOfMessages \<and>
     (\<forall>i. w_clock w i - MaxSyncDuration \<noteq> zero_time) \<and> (\<forall>(p, t) \<in> set os. \<forall>i. t < w_clock w i - MaxSyncDuration)"

lemma meet_done:
  assumes "codec_ok c" "node c auth N sa sb MA sA usA msA osA wa" "node c auth N sb sa MB sB us ms os wb"
    and "in_time (w_clock wa) (w_clock wb)"
    and "\<And>ib. perform sa st (wa\<lparr>w_inbox := ib\<rparr>) = chain (sendDone sa) (\<lambda>_. ret na) (wa\<lparr>w_inbox := ib, w_ticks := n\<rparr>)"
  shows "meet sa st na sb PassiveSyncing (if ss_active sb then Idle else newStateActiveSyncing)
    (\<lambda>wa' wb'. kept_store wa wa' \<and> kept_store wb wb') wa wb"
proof -
  let ?d = "packet_of sa sb PDone (w_clock wa n)"
  have x: "trusted c sa" "trusted c sb" "linked sb wa" "linked sa wb" "good_codec c PDone"
    using assms(1-3) by (simp_all add: node_def codec_ok_def)
  have time: "w_clock wb (w_ticks wb) - w_clock wa n \<le> 3 * Minute"
    using assms(4) by (auto simp: in_time_def abs_le_iff)
  have "perform sa st (wa\<lparr>w_inbox := ib\<rparr>) = (Ok na, wa\<lparr>w_inbox := ib, w_ticks := n + 1, w_outbox := w_outbox wa @ [?d]\<rparr>)" for ib
  proof -
    have "linked sb (wa\<lparr>w_inbox := ib, w_ticks := n\<rparr>)" using x(3) by simp
    from send_to_user_run [OF x(1,2) this, of PDone] show ?thesis
      by (simp add: assms(5) chain_def sendDone_def NewPayloadDone_def)
  qed
  then have a: "run_reach sa (st, wa\<lparr>w_inbox := ib\<rparr>) (Running na, wa\<lparr>w_ticks := n + 1, w_outbox := w_outbox wa @ [?d], w_inbox := ib\<rparr>)" for ib
    by (intro run_reach_perform) (cases wa, simp)
  have "type_of_payload PDone = PacketTypeDone" by simp
  with Passive_reads [OF x(2,1,4,5) time] have
    "perform sb PassiveSyncing (wb\<lparr>w_inbox := Inr ?d # ib\<rparr>) =
      (Ok (if ss_active sb then Idle else newStateActiveSyncing), wb\<lparr>w_ticks := w_ticks wb + 1, w_inbox := ib\<rparr>)" for ib
    by (cases wb) (simp del: perform.simps)
  then have b: "run_reach sb (PassiveSyncing, wb\<lparr>w_inbox := Inr ?d # ib\<rparr>)
      (Running (if ss_active sb then Idle else newStateActiveSyncing), wb\<lparr>w_ticks := w_ticks wb + 1, w_inbox := ib\<rparr>)" for ib
    by (rule run_reach_perform)
  show ?thesis unfolding meet_def
    by (rule exI [of _ "[?d]"], rule exI [of _ "[]"], rule exI [of _ "wa\<lparr>w_ticks := n + 1, w_outbox := w_outbox wa @ [?d]\<rparr>"],
        rule exI [of _ "wb\<lparr>w_ticks := w_ticks wb + 1\<rparr>"])
      (use a b in \<open>simp add: kept_store_def kept_def\<close>)
qed

text \<open>The first step of the active side.\<close>

definition to_sync :: "session \<Rightarrow> (message \<times> time) list \<Rightarrow> world \<Rightarrow> (message \<times> time) list" where
  "to_sync ss ms w = page 0 MaxSyncNumberOfMessages
     (dated (ss_engine ss) (filter (\<lambda>(m, t). w_clock w (w_ticks w) - MaxSyncDuration \<le> t) ms))"

lemma ActiveSyncing_starts:
  assumes "node c auth N sa sb MA sA usA msA osA w" "wanted N w" "few_messages w msA osA"
  shows "recent w msA \<subseteq> fst ` set (to_sync sa msA w)" "fst ` set (to_sync sa msA w) \<subseteq> fst ` set msA"
    "perform sa newStateActiveSyncing w = (case to_sync sa msA w of
       (m, t) # L' \<Rightarrow> (Ok (Sending (EMessage m) t (ActiveSyncing (Some L') None (w_clock w (w_ticks w) - MaxSyncDuration))),
         w\<lparr>w_ticks := w_ticks w + 1\<rparr>)
     | [] \<Rightarrow> chain (sendDone sa) (\<lambda>_. ret (if ss_active sa then PassiveSyncing else Idle)) (w\<lparr>w_ticks := w_ticks w + 1\<rparr>))"
proof -
  let ?start = "w_clock w (w_ticks w) - MaxSyncDuration" and ?w = "w\<lparr>w_ticks := w_ticks w + 1\<rparr>"
  let ?f = "filter (\<lambda>(m, t). ?start \<le> t) msA"
  let ?L = "to_sync sa msA w"
  have n: "faithful (ss_engine sa)" "represents (ss_env sa) (w_db w) usA msA osA"
    using assms(1) by (simp_all add: node_def dependable_def hosting_def)
  have "length msA \<le> 1000" using assms(3) by (simp add: few_messages_def MaxSyncNumberOfMessages_def)
  then have "length ?f \<le> 1000" by (rule le_trans [OF length_filter_le])
  then have "length (dated (ss_engine sa) ?f) \<le> 1000" by (simp add: dated_def)
  then have "?L = dated (ss_engine sa) ?f" by (simp add: to_sync_def page_def MaxSyncNumberOfMessages_def)
  then have L: "set ?L = {(m, t) \<in> set msA. ?start \<le> t}" by auto
  have msgs: "GetMessagesStoredAfter (ss_env sa) (ss_engine sa) ?start MaxSyncNumberOfMessages (w_db w) = Ok ?L"
    unfolding to_sync_def by (rule GetMessagesStoredAfter_represents [OF n])
  have "t < ?start" if "(p, t) \<in> set osA" for p t
    using bspec [OF _ that, of "\<lambda>(p, t). \<forall>i. t < w_clock w i - MaxSyncDuration"] assms(3) by (simp add: few_messages_def)
  then have "filter (\<lambda>(p, t). ?start \<le> t) osA = []" by (force simp: filter_empty_conv)
  then have ops: "GetOperationsStoredAfter (ss_env sa) (ss_engine sa) ?start MaxSyncNumberOfOperations (w_db w) = Ok []"
    using GetOperationsStoredAfter_represents [OF faithful_reliable [OF n(1)] n(2)] by (simp add: page_def ranked_def)
  have start: "getStartTime w = (Ok ?start, ?w)"
    using assms(2) by (simp add: getStartTime_def wanted_def chain_def read_clock_run ret_def)
  show "perform sa newStateActiveSyncing w = (case ?L of
       (m, t) # L' \<Rightarrow> (Ok (Sending (EMessage m) t (ActiveSyncing (Some L') None ?start)), ?w)
     | [] \<Rightarrow> chain (sendDone sa) (\<lambda>_. ret (if ss_active sa then PassiveSyncing else Idle)) ?w)"
    using msgs ops start
    by (simp add: newStateActiveSyncing_def perform_ActiveSyncing_def chain_def messagesSynced_def operationsSynced_def on_db_def
        ret_def nil_if_empty_def split: list.split)
  show "recent w msA \<subseteq> fst ` set ?L" unfolding L recent_def by force
  show "fst ` set ?L \<subseteq> fst ` set msA" unfolding L by auto
qed

lemma ActiveSyncing_ends:
  assumes "node c auth N sa sb MA sA usA msA osA w" "few_messages w msA osA" "start = w_clock w i - MaxSyncDuration"
  shows "perform sa (ActiveSyncing (Some []) None start) w =
    chain (sendDone sa) (\<lambda>_. ret (if ss_active sa then PassiveSyncing else Idle)) w"
proof -
  have n: "reliable (ss_engine sa)" "represents (ss_env sa) (w_db w) usA msA osA"
    using assms(1) by (simp_all add: node_def dependable_def faithful_reliable hosting_def)
  have "t < start" if "(p, t) \<in> set osA" for p t
    using bspec [OF _ that, of "\<lambda>(p, t). \<forall>i. t < w_clock w i - MaxSyncDuration"] assms(2,3) by (simp add: few_messages_def)
  then have "filter (\<lambda>(p, t). start \<le> t) osA = []" by (force simp: filter_empty_conv)
  then have "GetOperationsStoredAfter (ss_env sa) (ss_engine sa) start MaxSyncNumberOfOperations (w_db w) = Ok []"
    using GetOperationsStoredAfter_represents [OF n] by (simp add: page_def ranked_def)
  moreover have "start \<noteq> zero_time" using assms(2,3) by (simp add: few_messages_def)
  ultimately show ?thesis
    by (simp add: perform_ActiveSyncing_def chain_def messagesSynced_def operationsSynced_def on_db_def ret_def nil_if_empty_def)
qed

lemma node_inbox [simp]:
  "node c auth N ss other M s us ms os (w\<lparr>w_inbox := ib\<rparr>) = node c auth N ss other M s us ms os w"
  "wanted N (w\<lparr>w_inbox := ib\<rparr>) = wanted N w" "few_messages (w\<lparr>w_inbox := ib\<rparr>) ms os = few_messages w ms os"
  "to_sync ss ms (w\<lparr>w_inbox := ib\<rparr>) = to_sync ss ms w"
  by (simp_all add: node_def hosting_def wanted_def few_messages_def to_sync_def)

lemma few_messages_kept: "few_messages w ms os \<Longrightarrow> kept w w' \<Longrightarrow> few_messages w' ms os"
  by (simp add: few_messages_def kept_def)

abbreviation after_active :: "session \<Rightarrow> state" where
  "after_active ss \<equiv> if ss_active ss then PassiveSyncing else Idle"
abbreviation after_passive :: "session \<Rightarrow> state" where
  "after_passive ss \<equiv> if ss_active ss then Idle else newStateActiveSyncing"

lemma meet_finish:
  assumes "codec_ok c" "node c auth N sa sb MA sA usA msA osA wa" "node c auth N sb sa MB sB us ms os wb"
    and "in_time (w_clock wa) (w_clock wb)" "few_messages wa msA osA" "start = w_clock wa i - MaxSyncDuration" "A \<subseteq> fst ` set ms"
  shows "meet sa (ActiveSyncing (Some []) None start) (after_active sa) sb PassiveSyncing (after_passive sb)
    (delivered c auth N sa sb MB sB us ms os A May wa wb) wa wb"
proof -
  have "perform sa (ActiveSyncing (Some []) None start) (wa\<lparr>w_inbox := ib\<rparr>) =
      chain (sendDone sa) (\<lambda>_. ret (after_active sa)) (wa\<lparr>w_inbox := ib, w_ticks := w_ticks wa\<rparr>)" for ib
  proof -
    have "wa\<lparr>w_inbox := ib, w_ticks := w_ticks wa\<rparr> = wa\<lparr>w_inbox := ib\<rparr>" by (cases wa) simp
    with ActiveSyncing_ends [of c auth N sa sb MA sA usA msA osA "wa\<lparr>w_inbox := ib\<rparr>" start i] assms(2,5,6)
    show ?thesis by (simp del: perform.simps)
  qed
  from meet_done [OF assms(1-4) this] show ?thesis
    by (rule meet_mono) (use assms(7) node_kept [OF assms(3)] in \<open>auto simp: kept_store_def intro!: delivered_refl\<close>)
qed

lemma meet_one_way:
  assumes "codec_ok c" "universe c auth N" "node c auth N sa sb MA sA usA msA osA wa" "node c auth N sb sa MB sB us ms os wb"
    and "in_time (w_clock wa) (w_clock wb)" "wanted N wa" "few_messages wa msA osA"
  shows "meet sa newStateActiveSyncing (after_active sa) sb PassiveSyncing (after_passive sb)
    (delivered c auth N sa sb MB sB us ms os (recent wa msA) (fst ` set msA) wa wb) wa wb"
proof -
  let ?start = "w_clock wa (w_ticks wa) - MaxSyncDuration" and ?wa = "wa\<lparr>w_ticks := w_ticks wa + 1\<rparr>"
  note begins = ActiveSyncing_starts(1,2) [OF assms(3,6,7)]
  have begins_ib: "perform sa newStateActiveSyncing (wa\<lparr>w_inbox := ib\<rparr>) = (case to_sync sa msA wa of
       (m, t) # L' \<Rightarrow> (Ok (Sending (EMessage m) t (ActiveSyncing (Some L') None ?start)), wa\<lparr>w_inbox := ib, w_ticks := w_ticks wa + 1\<rparr>)
     | [] \<Rightarrow> chain (sendDone sa) (\<lambda>_. ret (after_active sa)) (wa\<lparr>w_inbox := ib, w_ticks := w_ticks wa + 1\<rparr>))" for ib
    using ActiveSyncing_starts(3) [of c auth N sa sb MA sA usA msA osA "wa\<lparr>w_inbox := ib\<rparr>"] assms(3,6,7)
    by (simp del: perform.simps cong: list.case_cong)
  show ?thesis
  proof (cases "to_sync sa msA wa")
    case Nil
    with begins_ib have "perform sa newStateActiveSyncing (wa\<lparr>w_inbox := ib\<rparr>) =
        chain (sendDone sa) (\<lambda>_. ret (after_active sa)) (wa\<lparr>w_inbox := ib, w_ticks := w_ticks wa + 1\<rparr>)" for ib by simp
    from meet_done [OF assms(1,3-5) this] show ?thesis
      by (rule meet_mono) (use begins(1) Nil node_kept [OF assms(4)] in \<open>auto simp: kept_store_def intro!: delivered_refl\<close>)
  next
    case (Cons x L)
    obtain m t where x: "x = (m, t)" by fastforce
    have m: "m \<in> fst ` set msA" "fst ` set L \<subseteq> fst ` set msA" using begins(2) Cons x by auto
    have start: "?start \<noteq> zero_time" using assms(7) by (simp add: few_messages_def)
    have a: "node c auth N sa sb MA sA usA msA osA ?wa" "wanted N ?wa" "in_time (w_clock ?wa) (w_clock wb)"
      using assms(3,5,6) by (simp_all add: wanted_def)
    have "meet sa (ActiveSyncing (Some L) None ?start) (after_active sa) sb PassiveSyncing (after_passive sb)
        (delivered c auth N sa sb MB sB us ms os (fst ` set L) (fst ` set msA) va vb) va vb"
      if n: "node c auth N sa sb MA sA usA msA osA va" "node c auth N sb sa MB sB us ms os vb" "wanted N va"
        "in_time (w_clock va) (w_clock vb)" and k: "kept ?wa va" for va vb us ms
    proof (rule meet_trans [OF meet_list [OF assms(1,2) start n m(2)]])
      fix ya yb assume y: "delivered c auth N sa sb MB sB us ms os (fst ` set L) (fst ` set msA) va vb ya yb"
      then obtain us' ms' where g: "node c auth N sb sa MB sB (us @ us') (ms @ ms') os yb"
        "fst ` set L \<subseteq> fst ` set (ms @ ms')" "fst ` set ms' \<subseteq> fst ` set msA" unfolding delivered_def grown_def by blast
      have ky: "kept_store va ya" "kept vb yb" "kept wa ya" using y k by (simp_all add: delivered_def kept_store_def kept_def)
      have "few_messages ya msA osA" "in_time (w_clock ya) (w_clock yb)" "?start = w_clock ya (w_ticks wa) - MaxSyncDuration"
        using few_messages_kept [OF assms(7) ky(3)] ky n(4) by (simp_all add: kept_store_def kept_def)
      from meet_finish [OF assms(1) node_kept [OF n(1) ky(1)] g(1) this(2,1,3) g(2)]
      show "meet sa (ActiveSyncing (Some []) None ?start) (after_active sa) sb PassiveSyncing (after_passive sb)
          (delivered c auth N sa sb MB sB us ms os (fst ` set L) (fst ` set msA) va vb) ya yb"
        by (rule meet_mono) (use delivered_trans [OF ky(1,2) g(2,3)] in fastforce)
    qed
    from meet_sending [OF assms(1,2) a(1) assms(4) a(2,3) m(1) this]
    have sends: "meet sa (Sending (EMessage m) t (ActiveSyncing (Some L) None ?start)) (after_active sa) sb PassiveSyncing (after_passive sb)
        (delivered c auth N sa sb MB sB us ms os ({m} \<union> fst ` set L) (fst ` set msA) ?wa wb) ?wa wb" .
    have begin_sending: "perform sa newStateActiveSyncing (wa\<lparr>w_inbox := ib\<rparr>) =
        (Ok (Sending (EMessage m) t (ActiveSyncing (Some L) None ?start)), ?wa\<lparr>w_inbox := ib\<rparr>)" for ib
    proof -
      have "?wa\<lparr>w_inbox := ib\<rparr> = wa\<lparr>w_inbox := ib, w_ticks := w_ticks wa + 1\<rparr>" by (cases wa) simp
      with begins_ib [of ib] Cons x show ?thesis by (simp del: perform.simps)
    qed
    have brought: "delivered c auth N sa sb MB sB us ms os (recent wa msA) (fst ` set msA) wa wb y z"
      if "delivered c auth N sa sb MB sB us ms os ({m} \<union> fst ` set L) (fst ` set msA) ?wa wb y z" for y z
    proof -
      have "recent wa msA \<subseteq> {m} \<union> fst ` set L" using begins(1) Cons x by auto
      moreover have "kept_store wa ?wa" by (simp add: kept_store_def kept_def)
      ultimately show ?thesis by (rule delivered_weaken [OF that])
    qed
    have "meet sa newStateActiveSyncing (after_active sa) sb PassiveSyncing (after_passive sb)
        (delivered c auth N sa sb MB sB us ms os ({m} \<union> fst ` set L) (fst ` set msA) ?wa wb) wa wb"
      by (rule meet_silent [OF begin_sending _ sends]) simp
    then show ?thesis by (rule meet_mono) (rule brought)
  qed
qed

section \<open>Both directions\<close>

lemma meet_sym: "meet sa a a' sb b b' good wa wb \<Longrightarrow> meet sb b b' sa a a' (\<lambda>x y. good y x) wb wa"
  unfolding meet_def by (elim exE conjE) (intro exI conjI; assumption)

lemma few_messages_grown:
  assumes "node c auth N sb sa M s (us @ us') (ms @ ms') os w'" "fst ` set ms' \<subseteq> fst ` set msA"
    and "few_messages w (msA @ ms) os" "kept w w'"
  shows "few_messages w' (ms @ ms') os"
proof -
  have "represents (ss_env sb) (w_db w') (us @ us') (ms @ ms') os" using assms(1) by (simp add: node_def hosting_def)
  from represents_distinct(2) [OF this] have "distinct (map fst ms')"
    using distinct_map [of message_id "map fst ms'"] by (simp add: comp_assoc)
  then have "length ms' = card (fst ` set ms')" by (metis distinct_card length_map list.set_map)
  also have "\<dots> \<le> card (fst ` set msA)" using assms(2) by (simp add: card_mono)
  also have "\<dots> \<le> length msA" using card_image_le [of "set msA" fst] card_length [of msA] by simp
  finally show ?thesis using assms(3,4) by (simp add: few_messages_def kept_def)
qed

lemma meet_runs:
  assumes "meet sa sta sta' sb stb stb' good wa wb" "\<forall>x y. good x y \<longrightarrow> good (x\<lparr>w_inbox := []\<rparr>) (y\<lparr>w_inbox := []\<rparr>)"
  shows "\<exists>pa pb wa' wb'. run_reach sa (sta, wa\<lparr>w_inbox := map Inr pb\<rparr>) (Running sta', wa') \<and> w_outbox wa' = w_outbox wa @ pa \<and>
    run_reach sb (stb, wb\<lparr>w_inbox := map Inr pa\<rparr>) (Running stb', wb') \<and> w_outbox wb' = w_outbox wb @ pb \<and> good wa' wb'"
proof -
  obtain pa pb wa' wb' where m:
    "\<forall>ib. run_reach sa (sta, wa\<lparr>w_inbox := map Inr pb @ ib\<rparr>) (Running sta', wa'\<lparr>w_inbox := ib\<rparr>)"
    "w_outbox wa' = w_outbox wa @ pa"
    "\<forall>ib. run_reach sb (stb, wb\<lparr>w_inbox := map Inr pa @ ib\<rparr>) (Running stb', wb'\<lparr>w_inbox := ib\<rparr>)"
    "w_outbox wb' = w_outbox wb @ pb" "good wa' wb'"
    using assms(1) unfolding meet_def by (elim exE conjE) (rule that)
  show ?thesis
    using m(1) [THEN spec, of "[]"] m(3) [THEN spec, of "[]"] m(2,4,5) assms(2)
    by (intro exI [of _ pa] exI [of _ pb] exI [of _ "wa'\<lparr>w_inbox := []\<rparr>"] exI [of _ "wb'\<lparr>w_inbox := []\<rparr>"]) simp
qed

text \<open>Each node has all it had, every recent message of the other, and nothing that neither had.\<close>

definition synchronised ::
  "session \<Rightarrow> session \<Rightarrow> (message \<times> time) list \<Rightarrow> (message \<times> time) list \<Rightarrow> (operation \<times> time) list
     \<Rightarrow> (operation \<times> time) list \<Rightarrow> world \<Rightarrow> world \<Rightarrow> world \<Rightarrow> world \<Rightarrow> bool" where
  "synchronised sa sb msA msB osA osB wa wb x y \<longleftrightarrow> (\<exists>usA' msA' usB' msB'. represents (ss_env sa) (w_db x) usA' msA' osA \<and>
    represents (ss_env sb) (w_db y) usB' msB' osB \<and>
    fst ` set msA \<union> recent wb msB \<subseteq> fst ` set msA' \<and> fst ` set msB \<union> recent wa msA \<subseteq> fst ` set msB' \<and>
    fst ` set msA' \<union> fst ` set msB' \<subseteq> fst ` set msA \<union> fst ` set msB)"

lemma synchronise_meet:
  assumes "codec_ok c" "universe c auth N" "ss_active sa" "\<not> ss_active sb"
    and "node c auth N sa sb MA sA usA msA osA wa" "node c auth N sb sa MB sB usB msB osB wb"
    and "in_time (w_clock wa) (w_clock wb)" "wanted N wa" "wanted N wb"
    and "few_messages wa (msA @ msB) osA" "few_messages wb (msA @ msB) osB"
  shows "meet sa newStateActiveSyncing Idle sb PassiveSyncing Idle (synchronised sa sb msA msB osA osB wa wb) wa wb"
proof -
  let ?good = "synchronised sa sb msA msB osA osB wa wb"
  have few: "few_messages wa msA osA" using assms(10) by (simp add: few_messages_def)
  show ?thesis
  proof (rule meet_trans)
    show "meet sa newStateActiveSyncing PassiveSyncing sb PassiveSyncing newStateActiveSyncing
        (delivered c auth N sa sb MB sB usB msB osB (recent wa msA) (fst ` set msA) wa wb) wa wb"
      using meet_one_way [OF assms(1,2,5-8) few] assms(3,4) by simp
    fix va vb assume v: "delivered c auth N sa sb MB sB usB msB osB (recent wa msA) (fst ` set msA) wa wb va vb"
    then obtain us' ms' where n: "node c auth N sb sa MB sB (usB @ us') (msB @ ms') osB vb"
      "recent wa msA \<subseteq> fst ` set (msB @ ms')" "fst ` set ms' \<subseteq> fst ` set msA" unfolding delivered_def grown_def by blast
    have k: "kept_store wa va" "kept wb vb" "kept wa va" using v by (simp_all add: delivered_def kept_store_def)
    have t: "in_time (w_clock vb) (w_clock va)"
      using in_time_sym [OF assms(7)] k by (simp add: kept_def)
    note other_way = meet_one_way [OF assms(1,2) n(1) node_kept [OF assms(5) k(1)] t wanted_kept [OF assms(9) k(2)]
        few_messages_grown [OF n(1,3) assms(11) k(2)]]
    have "?good y x" if d: "delivered c auth N sb sa MA sA usA msA osA (recent vb (msB @ ms')) (fst ` set (msB @ ms')) vb va x y" for x y
    proof -
      from d obtain us2 ms2 where g: "node c auth N sa sb MA sA (usA @ us2) (msA @ ms2) osA y" "kept_store vb x"
        "recent vb (msB @ ms') \<subseteq> fst ` set (msA @ ms2)" "fst ` set ms2 \<subseteq> fst ` set (msB @ ms')"
        unfolding delivered_def grown_def by blast
      have "recent wb msB \<subseteq> recent vb (msB @ ms')" using k(2) by (auto simp: recent_def kept_def)
      moreover have "represents (ss_env sa) (w_db y) (usA @ us2) (msA @ ms2) osA"
        "represents (ss_env sb) (w_db x) (usB @ us') (msB @ ms') osB"
        using g(1) node_kept [OF n(1) g(2)] by (simp_all add: node_def hosting_def)
      moreover have "fst ` set msA \<union> recent wb msB \<subseteq> fst ` set (msA @ ms2)"
        using calculation(1) g(3) unfolding set_append image_Un by blast
      moreover have "fst ` set msB \<union> recent wa msA \<subseteq> fst ` set (msB @ ms')"
        using n(2) unfolding set_append image_Un by blast
      moreover have "fst ` set (msA @ ms2) \<union> fst ` set (msB @ ms') \<subseteq> fst ` set msA \<union> fst ` set msB"
        using g(4) n(3) unfolding set_append image_Un by blast
      ultimately show ?thesis unfolding synchronised_def by blast
    qed
    then show "meet sa PassiveSyncing Idle sb newStateActiveSyncing Idle ?good va vb"
      using meet_sym [OF meet_mono [OF other_way]] assms(3,4) by simp
  qed
qed

text \<open>
  Two nodes synchronise: after the handshake each sends, in its turn, the messages it stored in
  the last thirty days, and fetches those of the other with the branches and the users it
  lacks. When the messages of both are well formed, acceptable to both and few enough for one
  query, both state machines get from the handshake to the idle state, each reading exactly
  what the other writes, and then each node has all it had, every recent message of the
  other, and nothing that neither had.
\<close>

theorem Nodes_synchronise:
  assumes "codec_ok c" "universe c auth N" "ss_active sa" "\<not> ss_active sb"
    and "node c auth N sa sb MA sA usA msA osA wa" "node c auth N sb sa MB sB usB msB osB wb"
    and "in_time (w_clock wa) (w_clock wb)" "wanted N wa" "wanted N wb"
    and "few_messages wa (msA @ msB) osA" "few_messages wb (msA @ msB) osB"
  shows "\<exists>pa pb wa' wb' usA' msA' usB' msB'.
    run_reach sa (newStateActiveSyncing, wa\<lparr>w_inbox := map Inr pb\<rparr>) (Running Idle, wa') \<and> w_outbox wa' = w_outbox wa @ pa \<and>
    run_reach sb (PassiveSyncing, wb\<lparr>w_inbox := map Inr pa\<rparr>) (Running Idle, wb') \<and> w_outbox wb' = w_outbox wb @ pb \<and>
    represents (ss_env sa) (w_db wa') usA' msA' osA \<and> represents (ss_env sb) (w_db wb') usB' msB' osB \<and>
    fst ` set msA \<union> recent wb msB \<subseteq> fst ` set msA' \<and> fst ` set msB \<union> recent wa msA \<subseteq> fst ` set msB' \<and>
    fst ` set msA' \<union> fst ` set msB' \<subseteq> fst ` set msA \<union> fst ` set msB"
proof -
  have "\<forall>x y. synchronised sa sb msA msB osA osB wa wb x y \<longrightarrow>
      synchronised sa sb msA msB osA osB wa wb (x\<lparr>w_inbox := []\<rparr>) (y\<lparr>w_inbox := []\<rparr>)"
    by (simp add: synchronised_def)
  from meet_runs [OF synchronise_meet [OF assms] this] show ?thesis
    unfolding synchronised_def by (elim exE conjE) (intro exI conjI; assumption)
qed

text \<open>One node has a thread with a reply to it; the other, which answers the connection, has nothing.\<close>

definition answering :: session where "answering = sent_to\<lparr>ss_active := False\<rparr>"

lemma answering_simps [simp]:
  "ss_codec answering = ss_codec sent_to" "ss_owner answering = ss_owner sent_to" "ss_signer answering = ss_signer sent_to"
  "ss_engine answering = ss_engine sent_to" "ss_profile_engine answering = ss_profile_engine sent_to"
  "ss_env answering = ss_env sent_to" "\<not> ss_active answering"
  by (simp_all add: answering_def)

lemma sent_codec_ok: "codec_ok sent_codec"
  by (simp add: codec_ok_def) (simp add: sent_codec_def toy_codec_def)

lemma sent_universe: "universe sent_codec (\<lambda>_. toy_user) {sent_root, sent_reply}"
proof -
  have parts: "uPubKey (user_content_of toy_user) = s_public emerge_signer" "uRegDate (user_content_of toy_user) = Epoch"
    "msg_sig sent_root = toy_sig" "msg_sig sent_reply = toy_sig"
    by (simp_all add: toy_user_def newUnsignedUser_def newUserContent_def Let_def sent_root_def sent_reply_def sent_def)
  have typed: "well_typed (EUser toy_user)" "well_typed (EMessage sent_root)" "well_typed (EMessage sent_reply)"
    by (simp_all add: well_typed_def sent_root_def sent_reply_def sent_def newUnsignedMessage_def toy_user_def
        newUnsignedUser_def Let_def)
  have good: "good_codec sent_codec (PUser toy_user)" "good_codec sent_codec (PMessage sent_root)"
    "good_codec sent_codec (PMessage sent_reply)" "good_codec sent_codec (PAnnounce i)" for i
    by (simp_all add: sent_codec_def)
  have sig: "Message_IsSigValid toy_env sent_root (s_public emerge_signer) = Ok True"
    "Message_IsSigValid toy_env sent_reply (s_public emerge_signer) = Ok True"
    by (simp_all add: Message_IsSigValid_def parts toy_Verify)
  have "transferable sent_codec (\<lambda>_. toy_user) sent_root" "transferable sent_codec (\<lambda>_. toy_user) sent_reply"
    unfolding transferable_def Let_def sent_sessions parts sent_ids
    by (simp_all add: good sig typed storable_sent storable_toy_user toy_user_valid toy_uid duration_defs del: good_codec.simps)
  moreover have "spaced {sent_root, sent_reply} m" if "m \<in> {sent_root, sent_reply}" for m
    using that by (auto simp: spaced_def MinMessagePostDelay_def duration_defs)
  moreover have "branch {sent_root, sent_reply} [sent_root]" "branch {sent_root, sent_reply} [sent_reply, sent_root]"
    by (simp_all add: branch_def MaxMessageDepth_def)
  ultimately show ?thesis unfolding universe_def by auto
qed

lemma sent_nodes:
  assumes "represents toy_env d us ms []" "closed_store (\<lambda>_. toy_user) {sent_root, sent_reply} us ms"
  shows "node sent_codec (\<lambda>_. toy_user) {sent_root, sent_reply} sent_from answering {replicate 32 1} [Some [''x'']] us ms []
      (sent_world d sent_pdb (ss_owner toy_session))"
    "node sent_codec (\<lambda>_. toy_user) {sent_root, sent_reply} answering sent_from {replicate 32 1} [Some [''x'']] us ms []
      (sent_world d sent_pdb toy_user)"
proof -
  have "linked answering (sent_world d sent_pdb (ss_owner toy_session))" "linked sent_from (sent_world d sent_pdb toy_user)"
    by (simp_all add: linked_def sent_sessions toy_session_def toy_user_def newUnsignedUser_def newUserContent_def Let_def)
  moreover have "trusted sent_codec answering" using sent_trusted(2) by (simp add: trusted_def)
  moreover have "ss_profile_engine sent_from = toy_profile_engine" by (simp add: sent_from_def toy_session_def)
  moreover from this have "dependable sent_from" "dependable answering"
    by (simp_all add: dependable_def sent_sessions) (simp_all add: toy_engine_def)
  moreover from calculation(4) have "hosting ss {replicate 32 1} [Some [''x'']] us ms [] (sent_world d sent_pdb u)"
    if "ss \<in> {sent_from, answering}" for ss u
    using that sent_subs assms(1)
    by (auto simp: hosting_def sent_sessions stable_def coherent_def moderator_set_def NewProfile_def)
      (simp_all add: sent_pdb_def empty_profile_database_def pdb_wf_def)
  moreover have "accepts {replicate 32 1} [Some [''x'']] [] {sent_root, sent_reply}"
    by (auto simp: accepts_def banned_by_def Covers_def ContainsTopic_def ContainsTag_def)
  ultimately show "node sent_codec (\<lambda>_. toy_user) {sent_root, sent_reply} sent_from answering {replicate 32 1} [Some [''x'']] us ms []
      (sent_world d sent_pdb (ss_owner toy_session))"
    "node sent_codec (\<lambda>_. toy_user) {sent_root, sent_reply} answering sent_from {replicate 32 1} [Some [''x'']] us ms []
      (sent_world d sent_pdb toy_user)"
    using assms(2) sent_trusted(1) by (simp_all add: node_def)
qed

lemma sent_store: "\<exists>d. represents toy_env d [(toy_user, Epoch)] [(sent_root, Epoch), (sent_reply, Epoch)] []"
proof -
  have r: "reliable toy_engine" by (rule faithful_reliable [OF faithful_toy])
  obtain d1 where d1: "represents toy_env d1 [(toy_user, Epoch)] [] []"
    using PutUser_represents [OF r represents_empty storable_toy_user, of Epoch] by (auto simp: user_ids_def empty_database_def)
  then obtain d2 where d2: "represents toy_env d2 [(toy_user, Epoch)] [(sent_root, Epoch)] []"
    using PutMessage_represents [OF r d1 storable_sent(1), of Epoch] by (auto simp: represents_ids [OF d1])
  then show ?thesis
    using PutMessage_represents [OF r d2 storable_sent(2), of Epoch] by (auto simp: represents_ids [OF d2])
qed

theorem Nodes_synchronise_witness:
  "\<exists>d pa pb wa' wb' usB' msB'. (\<exists>us. represents toy_env d us [(sent_root, Epoch), (sent_reply, Epoch)] []) \<and>
    run_reach sent_from (newStateActiveSyncing, sent_world d sent_pdb (ss_owner toy_session)\<lparr>w_inbox := map Inr pb\<rparr>)
      (Running Idle, wa') \<and> w_outbox wa' = pa \<and>
    run_reach answering (PassiveSyncing, sent_world empty_database sent_pdb toy_user\<lparr>w_inbox := map Inr pa\<rparr>)
      (Running Idle, wb') \<and> w_outbox wb' = pb \<and>
    represents toy_env (w_db wb') usB' msB' [] \<and> fst ` set msB' = {sent_root, sent_reply}"
proof -
  obtain d where d: "represents toy_env d [(toy_user, Epoch)] [(sent_root, Epoch), (sent_reply, Epoch)] []"
    using sent_store ..
  let ?wa = "sent_world d sent_pdb (ss_owner toy_session)" and ?wb = "sent_world empty_database sent_pdb toy_user"
  let ?N = "{sent_root, sent_reply}" and ?ms = "[(sent_root, Epoch), (sent_reply, Epoch)]"
  have na: "node sent_codec (\<lambda>_. toy_user) ?N sent_from answering {replicate 32 1} [Some [''x'']] [(toy_user, Epoch)] ?ms [] ?wa"
    by (rule sent_nodes(1) [OF d]) (auto simp: closed_store_def toy_uid)
  have nb: "node sent_codec (\<lambda>_. toy_user) ?N answering sent_from {replicate 32 1} [Some [''x'']] [] [] [] ?wb"
    by (rule sent_nodes(2) [OF represents_empty]) (simp add: closed_store_def)
  have time: "in_time (w_clock ?wa) (w_clock ?wb)" by (simp add: in_time_def Minute_def Second_def)
  have want: "wanted ?N ?wa" "wanted ?N ?wb"
    by (auto simp: wanted_def Covers_def ContainsTopic_def ContainsTag_def)
  have few: "few_messages ?wa (?ms @ []) []" "few_messages ?wb (?ms @ []) []"
    by (simp_all add: few_messages_def MaxSyncNumberOfMessages_def MaxSyncDuration_def zero_time_def Epoch_def duration_defs)
  have active: "ss_active sent_from" "\<not> ss_active answering" by (simp_all add: sent_from_def toy_session_def)
  have o: "w_outbox ?wa = []" "w_outbox ?wb = []" by (simp_all add: sent_world_def toy_world_def)
  have rec: "recent ?wa ?ms = ?N" by (auto simp: recent_def MaxSyncDuration_def duration_defs)
  have env: "ss_env sent_from = toy_env" "ss_env answering = toy_env" by (simp_all add: sent_sessions)
  from Nodes_synchronise [OF sent_codec_ok sent_universe active na nb time want few]
  show ?thesis unfolding o append_Nil rec env
    by (elim exE conjE) (intro exI conjI, rule d, assumption+, auto)
qed

end
