(* ===== verification/Meeting.thy ===== *)
theory Meeting
  imports Sync Handshake
begin

text \<open>
  Two nodes that have never met: from the connection through the handshake and the
  synchronisation to the idle state. Nothing is assumed of what one knows about the other; the
  handshake establishes it.
\<close>

section \<open>What a node says of itself\<close>

definition user_packet :: "session \<Rightarrow> time \<Rightarrow> packet" where
  "user_packet ss t = projr (NewPacket (ss_codec ss) PacketTypeUser ZeroID (PUser (ss_owner ss)) (ss_signer ss) t)"

abbreviation hello :: "subscriptions \<Rightarrow> payload" where "hello s \<equiv> PHello ProtocolVersion (Subs_Copy s)"

text \<open>A node with a valid user, of whose key it is the holder, and with valid subscriptions.\<close>

definition introduces :: "codec \<Rightarrow> session \<Rightarrow> subscriptions \<Rightarrow> bool" where
  "introduces c ss s \<longleftrightarrow> trusted c ss \<and> User_IsValid (codec_env c) (ss_owner ss) = Ok True \<and>
     storable_user (codec_env c) (ss_owner ss) \<and> uPubKey (user_content_of (ss_owner ss)) = s_public (ss_signer ss) \<and>
     good_codec c (PUser (ss_owner ss)) \<and> good_codec c (hello s) \<and> Subs_IsValid (Subs_Copy s)"

text \<open>
  A node before the handshake: it stores nothing that contradicts the other's user, has not
  banned it, has no history of it, and its pool has room for it.
\<close>

definition ready ::
  "codec \<Rightarrow> (entity_id \<Rightarrow> user) \<Rightarrow> message set \<Rightarrow> session \<Rightarrow> session \<Rightarrow> entity_id set \<Rightarrow> subscriptions
     \<Rightarrow> (user \<times> time) list \<Rightarrow> (message \<times> time) list \<Rightarrow> (operation \<times> time) list \<Rightarrow> world \<Rightarrow> bool" where
  "ready c auth N ss other M s us ms os w \<longleftrightarrow> introduces c ss s \<and> dependable ss \<and> w_writes w = [] \<and>
     hosting ss M s us ms os w \<and> closed_store auth N us ms \<and> accepts M s os N \<and>
     auth (user_id (ss_owner other)) = ss_owner other \<and> user_id (ss_owner other) \<notin> message_id ` N \<and>
     \<not> banned_by M os (user_id (ss_owner other)) \<and> (\<forall>w. ss_validate ss w = (True, w)) \<and>
     GetUserHistory (ss_profile_engine ss) (user_id (ss_owner other)) (pr_db (w_profile w)) = Err NoUserHistory"

lemma ready_simps [simp]:
  "ready c auth N ss other M s us ms os (w\<lparr>w_ticks := n\<rparr>) = ready c auth N ss other M s us ms os w"
  "ready c auth N ss other M s us ms os (w\<lparr>w_outbox := ob\<rparr>) = ready c auth N ss other M s us ms os w"
  "ready c auth N ss other M s us ms os (w\<lparr>w_inbox := ib\<rparr>) = ready c auth N ss other M s us ms os w"
  "ready c auth N ss other M s us ms os (snd (NewPeer ss w)) = ready c auth N ss other M s us ms os w"
  by (simp_all add: ready_def hosting_def NewPeer_def AttachObserver_def)

lemma ready_profile:
  assumes "ready c auth N ss other M s us ms os w" "stable (ss_profile_engine ss) M p" "pr_db p = pr_db (w_profile w)"
  shows "ready c auth N ss other M s us ms os (w\<lparr>w_profile := p\<rparr>)"
  using assms by (simp add: ready_def hosting_def)

section \<open>The steps of the handshake\<close>

lemma user_packet_facts:
  assumes "introduces c ss s"
  shows "NewPacket c PacketTypeUser ZeroID (PUser (ss_owner ss)) (ss_signer ss) t = Ok (user_packet ss t)"
    "VerifySig c (user_packet ss t) (uPubKey (user_content_of (ss_owner ss))) = Ok True"
    "DecodePayload c (user_packet ss t) = Ok (PUser (ss_owner ss))"
    "now - t \<le> 3 * Minute \<Longrightarrow> VerifyHeaderFull (user_packet ss t) (\<lambda>t. t = PacketTypeUser) ZeroID now = Ok ()"
proof -
  have c: "ss_codec ss = c" "good_signer (env_crypto (codec_env c)) (ss_signer ss)"
    and g: "good_codec c (PUser (ss_owner ss))" and key: "uPubKey (user_content_of (ss_owner ss)) = s_public (ss_signer ss)"
    using assms by (simp_all add: introduces_def trusted_def)
  obtain sig where "Sign (env_crypto (codec_env c)) (ss_signer ss) (json_body c \<lparr>b_type = PacketTypeUser,
      b_receiver = go_copy ZeroID ZeroID, b_date = t, b_payload = json_payload c (PUser (ss_owner ss))\<rparr>) = Ok sig"
    using assms unfolding introduces_def trusted_def by blast
  then have "\<exists>p. NewPacket c PacketTypeUser ZeroID (PUser (ss_owner ss)) (ss_signer ss) t = Ok p"
    by (simp add: NewPacket_def Let_def)
  then show p: "NewPacket c PacketTypeUser ZeroID (PUser (ss_owner ss)) (ss_signer ss) t = Ok (user_packet ss t)"
    by (auto simp: user_packet_def c)
  have z: "length ZeroID = IDLen" by (simp add: ZeroID_def)
  from NewPacket_delivered [OF c(2) g z, of t "user_packet ss t"] p
  show "VerifySig c (user_packet ss t) (uPubKey (user_content_of (ss_owner ss))) = Ok True"
    "DecodePayload c (user_packet ss t) = Ok (PUser (ss_owner ss))"
    "now - t \<le> 3 * Minute \<Longrightarrow> VerifyHeaderFull (user_packet ss t) (\<lambda>t. t = PacketTypeUser) ZeroID now = Ok ()"
    by (simp_all add: key VerifyHeaderFull_ok MaxTimeDiscrepancy_def)
qed

lemma sendUser_run:
  assumes "introduces c ss s" "w_writes w = []"
  shows "sendUser ss w = (Ok (), w\<lparr>w_ticks := w_ticks w + 1,
    w_outbox := w_outbox w @ [user_packet ss (w_clock w (w_ticks w))]\<rparr>)"
  using user_packet_facts(1) [OF assms(1)] assms
  unfolding sendUser_def by (intro send_intro) (simp_all add: introduces_def trusted_def)

lemma readAndProcessUser_run:
  assumes "ready c auth N ss other M s us ms os w" "introduces c other so" "w_clock w (w_ticks w) - t \<le> 3 * Minute"
  shows "\<exists>p. readAndProcessUser ss (w\<lparr>w_inbox := Inr (user_packet other t) # ib\<rparr>) =
      (Ok (ss_owner other), w\<lparr>w_inbox := ib, w_ticks := w_ticks w + 1, w_profile := p\<rparr>) \<and>
    ready c auth N ss other M s us ms os (w\<lparr>w_profile := p\<rparr>)"
proof -
  have x: "ss_codec ss = c" "reliable (ss_engine ss)" "preliable (ss_profile_engine ss)"
    "represents (ss_env ss) (w_db w) us ms os" "stable (ss_profile_engine ss) M (w_profile w)"
    "\<not> banned_by M os (user_id (ss_owner other))"
    using assms(1) by (auto simp: ready_def introduces_def trusted_def dependable_def hosting_def)
  obtain p where p: "IsUserBanned (ss_env ss) (ss_engine ss) (ss_profile_engine ss) (w_db w) (user_id (ss_owner other))
      (w_profile w) = (Ok False, p)" "stable (ss_profile_engine ss) M p"
    using IsUserBanned_ok [OF x(2,4,3,5), of "user_id (ss_owner other)"] x(6) by auto
  have "same_profile (w_profile w) p"
    using p(1) IsUserBanned_loop_keeps [OF _ same_profile_refl] by (auto simp: IsUserBanned_def split: sum.splits)
  then have "ready c auth N ss other M s us ms os (w\<lparr>w_profile := p\<rparr>)"
    by (intro ready_profile [OF assms(1) p(2)]) (simp add: same_profile_def)
  moreover have "User_IsValid (ss_env ss) (ss_owner other) = Ok True" using assms(2) x(1) by (simp add: introduces_def)
  ultimately show ?thesis
    using readAndProcessUser_intro [of "w\<lparr>w_inbox := Inr (user_packet other t) # ib\<rparr>" "user_packet other t" ib ss "ss_owner other" p]
      user_packet_facts(2-4) [OF assms(2)] assms(3) p(1) x(1)
    by (intro exI [of _ p]) simp
qed

lemma sendHello_run:
  assumes "ready c auth N ss other M s us ms os w" "introduces c other so"
  shows "\<exists>p. sendHello ss (ss_owner other) w = (Ok (), w\<lparr>w_ticks := w_ticks w + 1, w_profile := p,
      w_outbox := w_outbox w @ [packet_of ss other (hello s) (w_clock w (w_ticks w))]\<rparr>) \<and>
    ready c auth N ss other M s us ms os (w\<lparr>w_profile := p\<rparr>)"
proof -
  have t: "trusted c ss" "trusted c other" and st: "stable (ss_profile_engine ss) M (w_profile w)" and wr: "w_writes w = []"
    and s: "GetSubscriptions (ss_profile_engine ss) (pr_db (w_profile w)) = Ok s" and c: "ss_codec ss = c"
    using assms by (auto simp: ready_def introduces_def hosting_def trusted_def)
  have cache: "pr_subs (w_profile w) = [] \<or> GetSubscriptions (ss_profile_engine ss) (pr_db (w_profile w)) = Ok (pr_subs (w_profile w))"
    using st by (simp add: stable_def coherent_def)
  obtain p where p: "Profile_GetSubscriptions (ss_profile_engine ss) (w_profile w) = (Ok (Subs_Copy s), p)"
    "pr_subs p = [] \<or> GetSubscriptions (ss_profile_engine ss) (pr_db p) = Ok (pr_subs p)"
    "pr_db p = pr_db (w_profile w)" "selfID p = selfID (w_profile w)"
    using subs.get_coherent [OF cache s] by blast
  have "pr_moderators p = pr_moderators (w_profile w)"
    using p(1) by (auto simp: Profile_GetSubscriptions_def split: if_splits sum.splits)
  with p st have "stable (ss_profile_engine ss) M p"
    by (simp add: stable_def coherent_def moderator_set_def fetch_moderators_def)
  from ready_profile [OF assms(1) this p(3)] show ?thesis
    using send_intro [of ss PacketTypeHello "user_id (ss_owner other)" "hello s" "w\<lparr>w_profile := p\<rparr>"]
      packet_made [OF t, of "hello s"] p(1) c wr
    by (intro exI [of _ p]) (simp add: sendHello_def chain_def on_profile_def NewPayloadHello_def)
qed

lemma readAndProcessHello_run:
  assumes "introduces c ss s" "introduces c other so" "w_clock w (w_ticks w) - t \<le> 3 * Minute"
  shows "readAndProcessHello ss (ss_owner other) (w\<lparr>w_inbox := Inr (packet_of other ss (hello so) t) # ib\<rparr>) =
    (Ok (Subs_Copy so), w\<lparr>w_inbox := ib, w_ticks := w_ticks w + 1\<rparr>)"
proof -
  have t: "trusted c other" "trusted c ss" and g: "good_codec c (hello so)" "Subs_IsValid (Subs_Copy so)"
    and key: "uPubKey (user_content_of (ss_owner other)) = s_public (ss_signer other)" and c: "ss_codec ss = c"
    using assms(1,2) by (simp_all add: introduces_def trusted_def)
  show ?thesis
    using readAndProcessHello_intro [of "w\<lparr>w_inbox := Inr (packet_of other ss (hello so) t) # ib\<rparr>"]
      packet_accepted(2,3) [OF t g(1)] packet_accepted(4) [where f = "\<lambda>t. t = PacketTypeHello", OF t g(1)] assms(3) g(2) key c
    by simp
qed

lemma closed_store_user:
  assumes "closed_store auth N us ms" "auth (user_id u) = u" "user_id u \<notin> message_id ` N"
  shows "closed_store auth N (us @ [(u, t)]) ms"
  using assms unfolding closed_store_def by auto

text \<open>What the handshake leaves to the synchronisation: the other node is known, with its subscriptions.\<close>

definition met ::
  "codec \<Rightarrow> (entity_id \<Rightarrow> user) \<Rightarrow> message set \<Rightarrow> session \<Rightarrow> session \<Rightarrow> entity_id set \<Rightarrow> subscriptions \<Rightarrow> subscriptions
     \<Rightarrow> (user \<times> time) list \<Rightarrow> (message \<times> time) list \<Rightarrow> (operation \<times> time) list \<Rightarrow> world \<Rightarrow> world \<Rightarrow> bool" where
  "met c auth N ss other M s so us ms os w w' \<longleftrightarrow> (\<exists>us'. node c auth N ss other M s (us @ us') ms os w') \<and>
     w_user w' = Some (ss_owner other) \<and> w_subs w' = Subs_Copy so \<and> w_hist w' = None \<and> w_clock w' = w_clock w"

lemma finalize_run:
  assumes "ready c auth N ss other M s us ms os w" "introduces c other so"
  shows "\<exists>w'. finalize ss (ss_owner other) (Subs_Copy so) w = (Ok (), w') \<and> w_inbox w' = w_inbox w \<and>
    w_outbox w' = w_outbox w \<and> met c auth N ss other M s so us ms os w w'"
proof -
  let ?u = "ss_owner other"
  have x: "reliable (ss_engine ss)" "represents (ss_env ss) (w_db w) us ms os" "storable_user (ss_env ss) ?u"
    "w_writes w = []" "closed_store auth N us ms" "\<forall>w. ss_validate ss w = (True, w)"
    "Profile_GetUserHistory (ss_profile_engine ss) (user_id ?u) (w_profile w) = Err NoUserHistory"
    "uPubKey (user_content_of ?u) = s_public (ss_signer other)"
    using assms by (auto simp: ready_def introduces_def trusted_def dependable_def hosting_def Profile_GetUserHistory_def)
  note has = HasUser_reliable [OF x(1), of "user_id ?u" "w_db w", unfolded represents_ids [OF x(2)]]
  have node: "node c auth N ss other M s (us @ us') ms os w'"
    if "represents (ss_env ss) (w_db w') (us @ us') ms os" "w_profile w' = w_profile w" "w_writes w' = []" "w_user w' = Some ?u"
      "closed_store auth N (us @ us') ms" for us' w'
    using that assms(1) x(8) by (simp add: ready_def introduces_def node_def hosting_def linked_def)
  show ?thesis
  proof (cases "user_id ?u \<in> uids us")
    case True
    let ?w = "w\<lparr>w_user := Some ?u, w_subs := Subs_Copy so, w_hist := None\<rparr>"
    have "finalize ss ?u (Subs_Copy so) w = (Ok (), ?w)"
      using has True x(6,7) by (simp add: finalize_def chain_def on_db_def fatal_def or_fatal_def get_history_def)
    moreover have "node c auth N ss other M s (us @ []) ms os ?w" using x(2,4,5) by (intro node) simp_all
    ultimately show ?thesis unfolding met_def by (intro exI [of _ ?w] conjI exI [of _ "[]"]) simp_all
  next
    case False
    have "storable_new (ss_env ss) us ms (EUser ?u)" using x(3) False by (simp add: storable_new_def)
    from put_entity_run [OF x(1,2) this, of "Some (ss_chan ss)"] obtain st us' ms' where
      p: "put_entity ss (EUser ?u) (Some (ss_chan ss)) w = (Ok (), w\<lparr>w_ticks := w_ticks w + 1, w_storage := st\<rparr>)"
      "represents (ss_env ss) (st_db st) (us @ us') (ms @ ms') os" "map fst us' = [?u]" "ms' = []" by auto
    let ?w = "w\<lparr>w_ticks := w_ticks w + 1, w_storage := st, w_user := Some ?u, w_subs := Subs_Copy so, w_hist := None\<rparr>"
    have "finalize ss ?u (Subs_Copy so) w = (Ok (), ?w)"
      using has False p(1) x(6,7) by (simp add: finalize_def chain_def on_db_def fatal_def or_fatal_def get_history_def)
    moreover obtain t where us': "us' = [(?u, t)]" using p(3) by (auto simp: map_eq_Cons_conv)
    then have "closed_store auth N (us @ us') ms"
      using closed_store_user [OF x(5)] assms(1) by (simp add: ready_def)
    then have "node c auth N ss other M s (us @ us') ms os ?w" using p(2,4) x(4) by (intro node) simp_all
    ultimately show ?thesis unfolding met_def by (intro exI [of _ ?w] conjI exI [of _ us']) simp_all
  qed
qed

section \<open>The handshake\<close>

lemma ready_same:
  "ready c auth N ss other M s us ms os w \<Longrightarrow> w_storage w' = w_storage w \<Longrightarrow> w_profile w' = w_profile w \<Longrightarrow>
    w_writes w' = w_writes w \<Longrightarrow> ready c auth N ss other M s us ms os w'"
  by (simp add: ready_def hosting_def)

lemma active_handshake:
  assumes "ready c auth N ss other M s us ms os w" "introduces c other so" "ss_active ss"
    and "\<forall>i. w_clock w i - t1 \<le> 3 * Minute" "\<forall>i. w_clock w i - t2 \<le> 3 * Minute"
  shows "\<exists>w'. perform ss Handshaking (w\<lparr>w_inbox := map Inr [user_packet other t1, packet_of other ss (hello so) t2]\<rparr>) =
      (Ok newStateActiveSyncing, w') \<and> w_inbox w' = [] \<and>
    w_outbox w' = w_outbox w @ [user_packet ss (w_clock w (w_ticks w)), packet_of ss other (hello s) (w_clock w (w_ticks w + 2))] \<and>
    met c auth N ss other M s so us ms os w w'"
proof -
  let ?U = "user_packet other t1" and ?H = "packet_of other ss (hello so) t2"
  have i: "introduces c ss s" and wr: "w_writes w = []" using assms(1) by (simp_all add: ready_def)
  define w0 where "w0 = w\<lparr>w_inbox := map Inr [?U, ?H]\<rparr>"
  define w1 where "w1 = w0\<lparr>w_ticks := w_ticks w + 1, w_outbox := w_outbox w @ [user_packet ss (w_clock w (w_ticks w))]\<rparr>"
  have 1: "sendUser ss w0 = (Ok (), w1)" using sendUser_run [OF i, of w0] wr by (simp add: w0_def w1_def)
  have r1: "ready c auth N ss other M s us ms os w1"
    by (rule ready_same [OF assms(1)]) (simp_all add: w1_def w0_def)
  have c1: "w_clock w1 (w_ticks w1) - t1 \<le> 3 * Minute" using assms(4) by (simp add: w1_def w0_def)
  have in1: "w1\<lparr>w_inbox := Inr ?U # [Inr ?H]\<rparr> = w1" by (simp add: w1_def w0_def)
  from readAndProcessUser_run [OF r1 assms(2) c1, of "[Inr ?H]", unfolded in1] obtain p where
    p: "readAndProcessUser ss w1 = (Ok (ss_owner other), w1\<lparr>w_inbox := [Inr ?H], w_ticks := w_ticks w1 + 1, w_profile := p\<rparr>)"
    "ready c auth N ss other M s us ms os (w1\<lparr>w_profile := p\<rparr>)" by blast
  define w2 where "w2 = w1\<lparr>w_inbox := [Inr ?H], w_ticks := w_ticks w1 + 1, w_profile := p\<rparr>"
  have r2: "ready c auth N ss other M s us ms os w2"
    by (rule ready_same [OF p(2)]) (simp_all add: w2_def)
  from sendHello_run [OF r2 assms(2)] obtain q where
    q: "sendHello ss (ss_owner other) w2 = (Ok (), w2\<lparr>w_ticks := w_ticks w2 + 1, w_profile := q,
        w_outbox := w_outbox w2 @ [packet_of ss other (hello s) (w_clock w2 (w_ticks w2))]\<rparr>)"
    "ready c auth N ss other M s us ms os (w2\<lparr>w_profile := q\<rparr>)" by blast
  define w3 where "w3 = w2\<lparr>w_ticks := w_ticks w2 + 1, w_profile := q,
      w_outbox := w_outbox w2 @ [packet_of ss other (hello s) (w_clock w2 (w_ticks w2))]\<rparr>"
  define w4 where "w4 = w3\<lparr>w_inbox := [], w_ticks := w_ticks w3 + 1\<rparr>"
  have c3: "w_clock w3 (w_ticks w3) - t2 \<le> 3 * Minute" using assms(5) by (simp add: w3_def w2_def w1_def w0_def)
  have in3: "w3\<lparr>w_inbox := Inr ?H # []\<rparr> = w3" by (simp add: w3_def w2_def)
  have 4: "readAndProcessHello ss (ss_owner other) w3 = (Ok (Subs_Copy so), w4)"
    using readAndProcessHello_run [OF i assms(2) c3, of "[]", unfolded in3] by (simp add: w4_def)
  have r4: "ready c auth N ss other M s us ms os w4"
    by (rule ready_same [OF q(2)]) (simp_all add: w4_def w3_def)
  from finalize_run [OF r4 assms(2)] obtain w' where
    w': "finalize ss (ss_owner other) (Subs_Copy so) w4 = (Ok (), w')" "w_inbox w' = w_inbox w4" "w_outbox w' = w_outbox w4"
    "met c auth N ss other M s so us ms os w4 w'" by blast
  have "perform ss Handshaking w0 = (Ok newStateActiveSyncing, w')"
    using 1 p(1) [folded w2_def] q(1) [folded w3_def] 4 w'(1) assms(3) by (simp add: perform_Handshaking_def chain_def)
  moreover have "met c auth N ss other M s so us ms os w w'"
    using w'(4) by (simp add: met_def w4_def w3_def w2_def w1_def w0_def)
  moreover have "w_inbox w4 = []" "w_outbox w4 = w_outbox w @
      [user_packet ss (w_clock w (w_ticks w)), packet_of ss other (hello s) (w_clock w (w_ticks w + 2))]"
    by (simp_all add: w4_def w3_def w2_def w1_def w0_def)
  ultimately show ?thesis using w'(2,3) unfolding w0_def by auto
qed

lemma passive_handshake:
  assumes "ready c auth N ss other M s us ms os w" "introduces c other so" "\<not> ss_active ss"
    and "\<forall>i. w_clock w i - t1 \<le> 3 * Minute" "\<forall>i. w_clock w i - t2 \<le> 3 * Minute"
  shows "\<exists>w'. perform ss Handshaking (w\<lparr>w_inbox := map Inr [user_packet other t1, packet_of other ss (hello so) t2]\<rparr>) =
      (Ok PassiveSyncing, w') \<and> w_inbox w' = [] \<and>
    w_outbox w' = w_outbox w @ [user_packet ss (w_clock w (w_ticks w + 1)), packet_of ss other (hello s) (w_clock w (w_ticks w + 3))] \<and>
    met c auth N ss other M s so us ms os w w'"
proof -
  let ?U = "user_packet other t1" and ?H = "packet_of other ss (hello so) t2"
  have i: "introduces c ss s" and wr: "w_writes w = []" using assms(1) by (simp_all add: ready_def)
  define w0 where "w0 = w\<lparr>w_inbox := map Inr [?U, ?H]\<rparr>"
  have r0: "ready c auth N ss other M s us ms os w0" by (rule ready_same [OF assms(1)]) (simp_all add: w0_def)
  have c0: "w_clock w0 (w_ticks w0) - t1 \<le> 3 * Minute" using assms(4) by (simp add: w0_def)
  have in0: "w0\<lparr>w_inbox := Inr ?U # [Inr ?H]\<rparr> = w0" by (simp add: w0_def)
  from readAndProcessUser_run [OF r0 assms(2) c0, of "[Inr ?H]", unfolded in0] obtain p where
    p: "readAndProcessUser ss w0 = (Ok (ss_owner other), w0\<lparr>w_inbox := [Inr ?H], w_ticks := w_ticks w0 + 1, w_profile := p\<rparr>)"
    "ready c auth N ss other M s us ms os (w0\<lparr>w_profile := p\<rparr>)" by blast
  define w1 where "w1 = w0\<lparr>w_inbox := [Inr ?H], w_ticks := w_ticks w0 + 1, w_profile := p\<rparr>"
  define w2 where "w2 = w1\<lparr>w_ticks := w_ticks w1 + 1, w_outbox := w_outbox w1 @ [user_packet ss (w_clock w1 (w_ticks w1))]\<rparr>"
  have wr1: "w_writes w1 = []" using wr by (simp add: w1_def w0_def)
  have 2: "sendUser ss w1 = (Ok (), w2)" using sendUser_run [OF i wr1] by (simp add: w2_def)
  define w3 where "w3 = w2\<lparr>w_inbox := [], w_ticks := w_ticks w2 + 1\<rparr>"
  have c2: "w_clock w2 (w_ticks w2) - t2 \<le> 3 * Minute" using assms(5) by (simp add: w2_def w1_def w0_def)
  have in2: "w2\<lparr>w_inbox := Inr ?H # []\<rparr> = w2" by (simp add: w2_def w1_def)
  have 3: "readAndProcessHello ss (ss_owner other) w2 = (Ok (Subs_Copy so), w3)"
    using readAndProcessHello_run [OF i assms(2) c2, of "[]", unfolded in2] by (simp add: w3_def)
  have r3: "ready c auth N ss other M s us ms os w3"
    by (rule ready_same [OF p(2)]) (simp_all add: w3_def w2_def w1_def)
  from sendHello_run [OF r3 assms(2)] obtain q where
    q: "sendHello ss (ss_owner other) w3 = (Ok (), w3\<lparr>w_ticks := w_ticks w3 + 1, w_profile := q,
        w_outbox := w_outbox w3 @ [packet_of ss other (hello s) (w_clock w3 (w_ticks w3))]\<rparr>)"
    "ready c auth N ss other M s us ms os (w3\<lparr>w_profile := q\<rparr>)" by blast
  define w4 where "w4 = w3\<lparr>w_ticks := w_ticks w3 + 1, w_profile := q,
      w_outbox := w_outbox w3 @ [packet_of ss other (hello s) (w_clock w3 (w_ticks w3))]\<rparr>"
  have r4: "ready c auth N ss other M s us ms os w4"
    by (rule ready_same [OF q(2)]) (simp_all add: w4_def)
  from finalize_run [OF r4 assms(2)] obtain w' where
    w': "finalize ss (ss_owner other) (Subs_Copy so) w4 = (Ok (), w')" "w_inbox w' = w_inbox w4" "w_outbox w' = w_outbox w4"
    "met c auth N ss other M s so us ms os w4 w'" by blast
  note passive_handshake_intro [OF assms(3) p(1) [folded w1_def] 2 3 q(1) [folded w4_def] w'(1)]
  moreover have "met c auth N ss other M s so us ms os w w'"
    using w'(4) by (simp add: met_def w4_def w3_def w2_def w1_def w0_def)
  moreover have "w_inbox w4 = []" "w_outbox w4 = w_outbox w @
      [user_packet ss (w_clock w (w_ticks w + 1)), packet_of ss other (hello s) (w_clock w (w_ticks w + 3))]"
    by (simp_all add: w4_def w3_def w2_def w1_def w0_def eval_nat_numeral)
  ultimately show ?thesis using w'(2,3) unfolding w0_def by auto
qed

text \<open>With more input behind it, the handshake leaves the rest.\<close>

lemma blind_finalize:
  assumes "\<forall>w. ss_validate ss w = (True, w)"
  shows "blind (finalize ss u s)"
proof -
  have "blind (\<lambda>w. (Ok (), w\<lparr>w_user := Some u, w_subs := s\<rparr>))" "blind (\<lambda>w. case ss_validate ss w of (ok, w') \<Rightarrow> (Ok ok, w'))"
    "blind (get_history ss i)" "blind (\<lambda>w. (Ok (), w\<lparr>w_hist := h\<rparr>))" for i h
    using assms by (simp_all add: blind_def get_history_def)
  then show ?thesis unfolding finalize_def by (intro blind_steps blind_put_entity)
qed

lemma prefix_Handshaking:
  assumes "\<forall>w. ss_validate ss w = (True, w)"
  shows "prefix_run (perform ss Handshaking)"
proof -
  have send: "blind (send ss t i p)" for t i p unfolding send_def by (intro blind_steps blind_sending)
  then have said: "blind (sendUser ss)" unfolding sendUser_def by simp
  have greeted: "blind (sendHello ss u)" for u unfolding sendHello_def by (intro blind_steps send)
  have banned: "blind (\<lambda>w. fatal (on_profile (IsUserBanned (ss_env ss) (ss_engine ss) (ss_profile_engine ss) (w_db w) i)) w)" for i
    by (auto simp: blind_def fatal_def on_profile_def split: prod.split)
  have cases: "(\<And>u. blind (f u)) \<Longrightarrow> blind (case i of PUser u \<Rightarrow> f u | _ \<Rightarrow> stop Fatal)"
    "(\<And>v s. blind (g v s)) \<Longrightarrow> blind (case i of PHello v s \<Rightarrow> g v s | _ \<Rightarrow> stop Fatal)"
    for i and f :: "user \<Rightarrow> user act" and g :: "int \<Rightarrow> subscriptions \<Rightarrow> subscriptions act"
    by (cases i; simp add: blind_ret)+
  have user: "continues ib (readAndProcessUser ss) (readAndProcessUser ss)" for ib
    unfolding readAndProcessUser_def by (intro prefix_chain [OF prefix_Read] blind_prefix blind_steps blind_sending banned cases)
  have hello: "continues ib (readAndProcessHello ss u) (readAndProcessHello ss u)" for ib u
    unfolding readAndProcessHello_def by (intro prefix_chain [OF prefix_Read] blind_prefix blind_steps blind_sending cases)
  show ?thesis unfolding perform.simps perform_Handshaking_def
    by (intro allI prefix_if prefix_chain user hello blind_prefix said greeted blind_finalize [OF assms] blind_ret)
qed

lemma handshake_meet:
  assumes "ss_active sa" "\<not> ss_active sb" "in_time (w_clock wa) (w_clock wb)"
    and a: "ready c auth N sa sb MA sA usA msA osA wa" and b: "ready c auth N sb sa MB sB usB msB osB wb"
  shows "meet sa Handshaking newStateActiveSyncing sb Handshaking PassiveSyncing
    (\<lambda>x y. met c auth N sa sb MA sA sB usA msA osA wa x \<and> met c auth N sb sa MB sB sA usB msB osB wb y) wa wb"
proof -
  let ?a = "\<lambda>n. w_clock wa (w_ticks wa + n)" and ?b = "\<lambda>n. w_clock wb (w_ticks wb + n)"
  have i: "introduces c sa sA" "introduces c sb sB" using a b by (simp_all add: ready_def)
  have v: "\<forall>w. ss_validate sa w = (True, w)" "\<forall>w. ss_validate sb w = (True, w)" using a b by (simp_all add: ready_def)
  have time: "\<forall>i. w_clock wa i - ?b n \<le> 3 * Minute" "\<forall>i. w_clock wb i - ?a n \<le> 3 * Minute" for n
    using assms(3) by (auto simp: in_time_def abs_le_iff)
  from active_handshake [OF a i(2) assms(1) time(1) time(1), of 1 3] obtain wa' where
    A: "perform sa Handshaking (wa\<lparr>w_inbox := map Inr [user_packet sb (?b 1), packet_of sb sa (hello sB) (?b 3)]\<rparr>) =
        (Ok newStateActiveSyncing, wa')" "w_inbox wa' = []"
    "w_outbox wa' = w_outbox wa @ [user_packet sa (?a 0), packet_of sa sb (hello sA) (?a 2)]"
    "met c auth N sa sb MA sA sB usA msA osA wa wa'" by auto
  from passive_handshake [OF b i(1) assms(2) time(2) time(2), of 0 2] obtain wb' where
    B: "perform sb Handshaking (wb\<lparr>w_inbox := map Inr [user_packet sa (?a 0), packet_of sa sb (hello sA) (?a 2)]\<rparr>) =
        (Ok PassiveSyncing, wb')" "w_inbox wb' = []"
    "w_outbox wb' = w_outbox wb @ [user_packet sb (?b 1), packet_of sb sa (hello sB) (?b 3)]"
    "met c auth N sb sa MB sB sA usB msB osB wb wb'" by auto
  show ?thesis
    unfolding meet_def
    by (rule exI [of _ "[user_packet sa (?a 0), packet_of sa sb (hello sA) (?a 2)]"],
      rule exI [of _ "[user_packet sb (?b 1), packet_of sb sa (hello sB) (?b 3)]"], rule exI [of _ wa'], rule exI [of _ wb'])
      (use A(3,4) B(3,4) run_reach_leaves [OF A(1,2) prefix_Handshaking [OF v(1)]]
        run_reach_leaves [OF B(1,2) prefix_Handshaking [OF v(2)]] in blast)
qed

text \<open>Who was accepted is interested: the roots it would accept are covered by its subscriptions.\<close>

lemma met_wanted:
  assumes "met c auth N ss other M s so us ms os w w'" "accepts M' so os' N" "\<forall>t \<in> set so. wf_topic t"
  shows "wanted N w'"
  using assms by (auto simp: met_def wanted_def accepts_def Covers_Copy)

section \<open>Property\<close>


text \<open>One node has a thread with a reply to it; the other, of another user with another key, has nothing.\<close>

definition visitor_signer :: signer where
  "visitor_signer = \<lparr>s_public = \<lparr>pk_bits = 224, pk_x = 8, pk_y = 0\<rparr>, s_sign = (\<lambda>d. Some (8, 9))\<rparr>"

definition visitor_sig :: signature where "visitor_sig = replicate 27 0 @ [8] @ replicate 27 0 @ [9]"

definition visitor :: user where
  "visitor = \<lparr>user_unsigned = newUnsignedUser toy_env ''nick_2'' [] (s_public visitor_signer) 1 Epoch, user_sig = visitor_sig\<rparr>"

definition meet_codec :: codec where
  "meet_codec = sent_codec\<lparr>json_payload := (\<lambda>p. case p of PUser u \<Rightarrow> user_id u | _ \<Rightarrow> json_payload sent_codec p),
     parse_user := (\<lambda>b. Ok (if b = toy_id 8 then visitor else toy_user)),
     parse_hello := (\<lambda>_. Ok (1, [Some [''x'']]))\<rparr>"

definition meet_auth :: "entity_id \<Rightarrow> user" where "meet_auth i = (if i = toy_id 8 then visitor else toy_user)"

definition caller :: session where "caller = toy_session\<lparr>ss_codec := meet_codec, ss_owner := toy_user\<rparr>"
definition callee :: session where
  "callee = toy_session\<lparr>ss_codec := meet_codec, ss_owner := visitor, ss_signer := visitor_signer, ss_active := False\<rparr>"

lemma good_visitor_signer: "good_signer (env_crypto toy_env) visitor_signer"
  by (simp add: good_signer_def visitor_signer_def toy_env_def curveOrderByteLen_def)

lemma visitor_Sign: "Sign (env_crypto toy_env) visitor_signer d = Ok visitor_sig"
  by (simp add: Sign_def visitor_signer_def put_right_def curveOrderByteLen_def visitor_sig_def
      be_bytes.simps [of 8] be_bytes.simps [of 9] be_bytes.simps [of 0] go_copy_def)

lemma visitor_Emerge: "EmergeUser toy_env ''nick_2'' [] 1 visitor_signer Epoch = Ok visitor"
proof -
  have nick: "IsNicknameValid ''nick_2''"
    by (simp add: IsNicknameValid_def nickname_chars_def MaxUsernameLen_def)
  have pow: "Validate (env_crypto toy_env) (NewPowFinder d) 1" for d
    using toy_Validate [of d 1] by (simp add: Validate_def toy_env_def toy_crypto_def)
  show ?thesis using nick pow
    by (simp add: EmergeUser_def Let_def visitor_Sign visitor_def UnsignedUser_isValid_def newUnsignedUser_def
        newUserContent_def UserContent_ToID_def)
qed

lemma visitor_id: "user_id visitor = toy_id 8"
proof -
  have "EncodeToDER (env_crypto toy_env) (s_public visitor_signer) = [8]"
    by (simp add: EncodeToDER_def toy_env_def toy_crypto_def visitor_signer_def be_bytes.simps [of 8] be_bytes.simps [of 0])
  with EmergeUser_Ok(7) [OF visitor_Emerge good_visitor_signer] show ?thesis
    by (simp add: NewID_def) (simp add: toy_env_def toy_hash_single)
qed

lemma visitor_valid: "User_IsValid toy_env visitor = Ok True"
proof -
  have nick: "IsNicknameValid ''nick_2''"
    by (simp add: IsNicknameValid_def nickname_chars_def MaxUsernameLen_def)
  have pow: "Validate (env_crypto toy_env) (NewPowFinder d) 1" for d
    using toy_Validate [of d 1] by (simp add: Validate_def toy_env_def toy_crypto_def)
  show ?thesis using nick pow good_signer_Verify [OF good_visitor_signer visitor_Sign]
    by (simp add: User_IsValid_def Let_def visitor_def UnsignedUser_isValid_def newUnsignedUser_def
        newUserContent_def UserContent_ToID_def)
qed

lemma storable_visitor: "storable_user toy_env visitor"
proof -
  have "ParsePublicKeyFromDER (env_crypto toy_env) (EncodeToDER (env_crypto toy_env) (s_public visitor_signer))
      = Ok (s_public visitor_signer)"
    by (simp add: ParsePublicKeyFromDER_def EncodeToDER_def toy_env_def toy_crypto_def visitor_signer_def
        be_bytes.simps [of 8] be_bytes.simps [of 0] be_value_def)
  with EmergeUser_Ok [OF visitor_Emerge good_visitor_signer] show ?thesis by (simp add: storable_user_def)
qed

lemma meet_sessions [simp]:
  "ss_codec caller = meet_codec" "ss_codec callee = meet_codec" "ss_owner caller = toy_user" "ss_owner callee = visitor"
  "ss_signer caller = emerge_signer" "ss_signer callee = visitor_signer" "ss_engine caller = toy_engine"
  "ss_engine callee = toy_engine" "ss_profile_engine caller = toy_profile_engine" "ss_profile_engine callee = toy_profile_engine"
  "codec_env meet_codec = toy_env" "ss_active caller" "\<not> ss_active callee"
  "ss_validate caller = (\<lambda>w. (True, w))" "ss_validate callee = (\<lambda>w. (True, w))"
  by (simp_all add: caller_def callee_def toy_session_def meet_codec_def sent_codec_def toy_codec_def)

lemma meet_introduces:
  "introduces meet_codec caller [Some [''x'']]" "introduces meet_codec callee [Some [''x'']]"
proof -
  have c: "Subs_Copy [Some [''x'']] = [Some [''x'']]"
    by (simp add: Subs_Copy_def AddTopic_def Subs_Contains_def Topic_Copy_def)
  have v: "Subs_IsValid [Some [''x'']]" by (simp add: Subs_IsValid_def MaxSubscriptionLen_def toy_tag_valid)
  have k: "uPubKey (user_content_of toy_user) = s_public emerge_signer" "uPubKey (user_content_of visitor) = s_public visitor_signer"
    by (simp_all add: toy_user_def visitor_def newUnsignedUser_def newUserContent_def Let_def)
  have g: "good_codec meet_codec (PUser toy_user)" "good_codec meet_codec (PUser visitor)"
    "good_codec meet_codec (PHello ProtocolVersion [Some [''x'']])"
    by (simp_all add: meet_codec_def toy_uid visitor_id ProtocolVersion_def)
  show "introduces meet_codec caller [Some [''x'']]" "introduces meet_codec callee [Some [''x'']]"
    using v k g toy_Sign visitor_Sign toy_user_valid visitor_valid storable_toy_user storable_visitor
      good_emerge_signer good_visitor_signer
    by (simp_all add: introduces_def trusted_def c toy_uid visitor_id IDLen_def)
qed

lemma meet_universe: "universe meet_codec meet_auth {sent_root, sent_reply}"
proof -
  have parts: "meet_auth (toy_id 7) = toy_user" "uPubKey (user_content_of toy_user) = s_public emerge_signer"
    "uRegDate (user_content_of toy_user) = Epoch" "msg_sig sent_root = toy_sig" "msg_sig sent_reply = toy_sig"
    by (simp_all add: meet_auth_def toy_user_def newUnsignedUser_def newUserContent_def Let_def sent_root_def sent_reply_def
        sent_def)
  have typed: "well_typed (EUser toy_user)" "well_typed (EMessage sent_root)" "well_typed (EMessage sent_reply)"
    by (simp_all add: well_typed_def sent_root_def sent_reply_def sent_def newUnsignedMessage_def toy_user_def
        newUnsignedUser_def Let_def)
  have good: "good_codec meet_codec (PUser toy_user)" "good_codec meet_codec (PMessage sent_root)"
    "good_codec meet_codec (PMessage sent_reply)" "good_codec meet_codec (PAnnounce i)" for i
    by (simp_all add: meet_codec_def sent_codec_def toy_uid)
  have sig: "Message_IsSigValid toy_env sent_root (s_public emerge_signer) = Ok True"
    "Message_IsSigValid toy_env sent_reply (s_public emerge_signer) = Ok True"
    by (simp_all add: Message_IsSigValid_def parts toy_Verify)
  have "transferable meet_codec meet_auth sent_root" "transferable meet_codec meet_auth sent_reply"
    unfolding transferable_def Let_def meet_sessions sent_ids parts
    by (simp_all add: good sig typed storable_sent storable_toy_user toy_user_valid toy_uid duration_defs del: good_codec.simps)
  moreover have "spaced {sent_root, sent_reply} m" if "m \<in> {sent_root, sent_reply}" for m
    using that by (auto simp: spaced_def MinMessagePostDelay_def duration_defs)
  moreover have "branch {sent_root, sent_reply} [sent_root]" "branch {sent_root, sent_reply} [sent_reply, sent_root]"
    by (simp_all add: branch_def MaxMessageDepth_def)
  ultimately show ?thesis unfolding universe_def by auto
qed

lemma meet_codec_ok: "codec_ok meet_codec"
  by (simp add: codec_ok_def) (simp add: meet_codec_def sent_codec_def toy_codec_def)

lemma meet_ready:
  assumes "represents toy_env d us ms []" "closed_store meet_auth {sent_root, sent_reply} us ms"
    and "(ss, other) \<in> {(caller, callee), (callee, caller)}"
  shows "ready meet_codec meet_auth {sent_root, sent_reply} ss other {replicate 32 1} [Some [''x'']] us ms []
    (sent_world d sent_pdb toy_user)"
proof -
  have "dependable ss" using assms(3) by (auto simp: dependable_def) (simp_all add: toy_engine_def)
  moreover have "hosting ss {replicate 32 1} [Some [''x'']] us ms [] (sent_world d sent_pdb toy_user)"
    using assms(3) sent_subs assms(1)
    by (auto simp: hosting_def stable_def coherent_def moderator_set_def NewProfile_def)
      (simp_all add: sent_pdb_def empty_profile_database_def pdb_wf_def)
  moreover have "accepts {replicate 32 1} [Some [''x'']] [] {sent_root, sent_reply}"
    by (auto simp: accepts_def banned_by_def Covers_def ContainsTopic_def ContainsTag_def)
  moreover have "GetUserHistory toy_profile_engine i (pr_db (NewProfile sent_pdb j)) = Err NoUserHistory" for i j
    by (simp add: GetUserHistory_def toy_profile_engine_def sent_pdb_def empty_profile_database_def NewProfile_def)
  ultimately show ?thesis
    using assms(2,3) meet_introduces by (auto simp: ready_def meet_auth_def toy_uid visitor_id banned_by_def)
qed


end
