(* ===== verification/Crawler.thy ===== *)
theory Crawler
  imports Address
begin

text \<open>
  The crawler of the distributed hash table at work (\<open>p2p/dht_crawler.go\<close>): one goroutine asks the
  table for the addresses of every combination of tags, once per tick, another takes what the table
  found, and \<open>Stop\<close> waits for both. The table itself is a parameter: what it returns and
  when is arbitrary, and a call of it returns.
\<close>

section \<open>The parts\<close>

text \<open>SHA-1 and the functions of the DHT library.\<close>

record dht_library =
  dl_sha1 :: "gostring \<Rightarrow> 8 word list"
  dl_DecodeInfoHash :: "gostring \<Rightarrow> gostring option"
  dl_New_fails :: bool
  dl_Start_fails :: bool

definition lower_hex :: gostring where "lower_hex = ''0123456789abcdef''"

text \<open>The format \<open>%x\<close> of a slice of bytes.\<close>

definition hex_byte :: "8 word \<Rightarrow> gostring" where
  "hex_byte b = [lower_hex ! (unat b div 16), lower_hex ! (unat b mod 16)]"

definition calcInfoHash :: "dht_library \<Rightarrow> gostring \<Rightarrow> gostring result" where
  "calcInfoHash L s =
     (case dl_DecodeInfoHash L (concat (map hex_byte (dl_sha1 L s))) of None \<Rightarrow> Inl Fatal | Some ih \<Rightarrow> Ok ih)"

text \<open>
  The addresses of the host: \<open>None\<close> where the operating system refuses; an address that is neither
  a network nor a plain one is printed as nil.
\<close>

datatype net_addr = IPNet gostring | IPAddr gostring | Other_addr

fun ip_String :: "net_addr \<Rightarrow> gostring" where
  "ip_String (IPNet ip) = ip"
| "ip_String (IPAddr ip) = ip"
| "ip_String Other_addr = ''<nil>''"

definition localIPs :: "net_addr list option list option \<Rightarrow> gostring list" where
  "localIPs ifaces =
     (case ifaces of
        None \<Rightarrow> []
      | Some is \<Rightarrow> concat (map (\<lambda>i. case i of None \<Rightarrow> [] | Some addrs \<Rightarrow> map ip_String addrs) is))"

datatype requester = RQ_topics "topic list" | RQ_select | RQ_done
datatype drainer = DR_select | DR_addresses "gostring list" | DR_done

record crawl =
  cw_dc :: dht_crawler
  cw_requester :: requester
  cw_drainer :: drainer
  cw_stop :: bool
  cw_stopped :: bool
  cw_requests :: "(gostring \<times> int) list"
  cw_events :: "address_event list"
  cw_fault :: "fault option"

text \<open>The argument tells whether a consumer has been registered.\<close>

definition Crawler_Start :: "dht_library \<Rightarrow> bool \<Rightarrow> dht_crawler \<Rightarrow> crawl result" where
  "Crawler_Start L ac dc =
     (if \<not> ac then Inl Fatal
      else if dl_New_fails L then Inl Fatal
      else if dl_Start_fails L then Inl Fatal
      else Ok \<lparr>cw_dc = dc, cw_requester = RQ_topics (dc_subs dc), cw_drainer = DR_select, cw_stop = False, cw_stopped = False,
               cw_requests = [], cw_events = [], cw_fault = None\<rparr>)"

text \<open>The list in a file reports in a goroutine of its own; stopping it does nothing.\<close>

definition AddressList_Start :: "bool \<Rightarrow> (gostring \<times> bool) option \<Rightarrow> address_event list result" where
  "AddressList_Start ac file = (if \<not> ac then Inl Fatal else Ok (readAddresses file))"

text \<open>When a tick and the closed channel are both ready, \<open>select\<close> takes either.\<close>

inductive requestAddresses :: "dht_library \<Rightarrow> crawl \<Rightarrow> crawl \<Rightarrow> bool" for L where
  requests: "cw_requester s = RQ_topics (t # ts) \<Longrightarrow> calcInfoHash L (Topic_String t) = Ok ih \<Longrightarrow>
    requestAddresses L s (s\<lparr>cw_requester := RQ_topics ts, cw_requests := cw_requests s @ [(ih, dc_advPort (cw_dc s))]\<rparr>)"
| no_hash: "cw_requester s = RQ_topics (t # ts) \<Longrightarrow> calcInfoHash L (Topic_String t) = Inl f \<Longrightarrow>
    requestAddresses L s (s\<lparr>cw_fault := Some f\<rparr>)"
| requested: "cw_requester s = RQ_topics [] \<Longrightarrow> requestAddresses L s (s\<lparr>cw_requester := RQ_select\<rparr>)"
| ticks: "cw_requester s = RQ_select \<Longrightarrow> requestAddresses L s (s\<lparr>cw_requester := RQ_topics (dc_subs (cw_dc s))\<rparr>)"
| leaves_requests: "cw_requester s = RQ_select \<Longrightarrow> cw_stop s \<Longrightarrow> requestAddresses L s (s\<lparr>cw_requester := RQ_done\<rparr>)"

inductive drains :: "crawl \<Rightarrow> crawl \<Rightarrow> bool" where
  result: "cw_drainer s = DR_select \<Longrightarrow> drains s (s\<lparr>cw_drainer := DR_addresses as\<rparr>)"
| handles: "cw_drainer s = DR_addresses (a # as) \<Longrightarrow> handleNewAddress (localIPs ips) a (cw_dc s) = (Ok es, dc) \<Longrightarrow>
    drains s (s\<lparr>cw_dc := dc, cw_drainer := DR_addresses as, cw_events := cw_events s @ es\<rparr>)"
| handling_fails: "cw_drainer s = DR_addresses (a # as) \<Longrightarrow> handleNewAddress (localIPs ips) a (cw_dc s) = (Inl f, dc) \<Longrightarrow>
    drains s (s\<lparr>cw_dc := dc, cw_fault := Some f\<rparr>)"
| drained: "cw_drainer s = DR_addresses [] \<Longrightarrow> drains s (s\<lparr>cw_drainer := DR_select\<rparr>)"
| leaves_drain: "cw_drainer s = DR_select \<Longrightarrow> cw_stop s \<Longrightarrow> drains s (s\<lparr>cw_drainer := DR_done\<rparr>)"

text \<open>\<open>Stop\<close> closes the channel, once, and waits for the two goroutines.\<close>

inductive Crawler_Stop :: "crawl \<Rightarrow> crawl \<Rightarrow> bool" where
  closes: "\<not> cw_stop s \<Longrightarrow> Crawler_Stop s (s\<lparr>cw_stop := True\<rparr>)"
| waited: "cw_stop s \<Longrightarrow> cw_requester s = RQ_done \<Longrightarrow> cw_drainer s = DR_done \<Longrightarrow> \<not> cw_stopped s \<Longrightarrow>
    Crawler_Stop s (s\<lparr>cw_stopped := True\<rparr>)"

inductive crawl_step :: "dht_library \<Rightarrow> crawl \<Rightarrow> crawl \<Rightarrow> bool" for L where
  by_requester: "cw_fault s = None \<Longrightarrow> requestAddresses L s t \<Longrightarrow> crawl_step L s t"
| by_drainer: "cw_fault s = None \<Longrightarrow> drains s t \<Longrightarrow> crawl_step L s t"
| by_owner: "cw_fault s = None \<Longrightarrow> Crawler_Stop s t \<Longrightarrow> crawl_step L s t"

inductive_cases crawl_stepE: "crawl_step L s t"
inductive_cases requestAddressesE: "requestAddresses L s t"
inductive_cases drainsE: "drains s t"
inductive_cases Crawler_StopE: "Crawler_Stop s t"

section \<open>Hashes\<close>

text \<open>SHA-1 gives 20 bytes, and forty lower case digits are an info hash.\<close>

definition good_dht :: "dht_library \<Rightarrow> bool" where
  "good_dht L \<longleftrightarrow> (\<forall>s. length (dl_sha1 L s) = 20) \<and>
     (\<forall>s. length s = 40 \<longrightarrow> set s \<subseteq> set lower_hex \<longrightarrow> dl_DecodeInfoHash L s \<noteq> None)"

lemma hex_byte_digits: "set (hex_byte b) \<subseteq> set lower_hex"
proof -
  have "unat b < 16 * 16" using unsigned_less [of b] by simp
  then have "unat b div 16 < length lower_hex" "unat b mod 16 < length lower_hex"
    by (simp_all add: lower_hex_def less_mult_imp_div_less)
  then show ?thesis by (simp add: hex_byte_def)
qed

lemma length_hex: "length (concat (map hex_byte bs)) = 2 * length bs"
  by (induction bs) (simp_all add: hex_byte_def)

lemma calcInfoHash_ok:
  assumes "good_dht L"
  obtains ih where "calcInfoHash L s = Ok ih"
proof -
  let ?h = "concat (map hex_byte (dl_sha1 L s))"
  have "length ?h = 40" using assms by (simp add: length_hex good_dht_def)
  moreover have "set ?h \<subseteq> set lower_hex" using hex_byte_digits by auto
  ultimately have "dl_DecodeInfoHash L ?h \<noteq> None" using assms by (simp add: good_dht_def)
  with that show thesis by (auto simp: calcInfoHash_def)
qed

text \<open>What one round asks for.\<close>

definition round_requests :: "dht_library \<Rightarrow> int \<Rightarrow> topic list \<Rightarrow> (gostring \<times> int) list" where
  "round_requests L port ts =
     map (\<lambda>t. (case calcInfoHash L (Topic_String t) of Inr ih \<Rightarrow> ih | Inl _ \<Rightarrow> '''', port)) ts"

section \<open>The invariant\<close>

fun topics_left :: "requester \<Rightarrow> topic list" where
  "topics_left (RQ_topics ts) = ts"
| "topics_left _ = []"

definition crawl_inv :: "dht_library \<Rightarrow> dht_crawler \<Rightarrow> crawl \<Rightarrow> bool" where
  "crawl_inv L dc s \<longleftrightarrow> cw_fault s = None \<and> dc_subs (cw_dc s) = dc_subs dc \<and> dc_advPort (cw_dc s) = dc_advPort dc \<and>
     (\<exists>found. cw_events s = map AddressFound found \<and> distinct found \<and>
        (\<forall>a \<in> set found. Address_IsValid a \<and> a \<in> dc_processed (cw_dc s))) \<and>
     (\<exists>n asked. dc_subs dc = asked @ topics_left (cw_requester s) \<and>
        cw_requests s = concat (replicate n (round_requests L (dc_advPort dc) (dc_subs dc))) @
          round_requests L (dc_advPort dc) asked) \<and>
     (cw_stopped s \<longrightarrow> cw_stop s \<and> cw_requester s = RQ_done \<and> cw_drainer s = DR_done)"

lemma requester_inv:
  assumes "good_dht L" "crawl_inv L dc s" "requestAddresses L s t"
  shows "crawl_inv L dc t"
proof -
  obtain n asked where a: "dc_subs dc = asked @ topics_left (cw_requester s)"
    "cw_requests s = concat (replicate n (round_requests L (dc_advPort dc) (dc_subs dc))) @ round_requests L (dc_advPort dc) asked"
    using assms(2) unfolding crawl_inv_def by blast
  have "\<exists>n asked. dc_subs dc = asked @ topics_left (cw_requester t) \<and>
      cw_requests t = concat (replicate n (round_requests L (dc_advPort dc) (dc_subs dc))) @ round_requests L (dc_advPort dc) asked"
    using assms(3)
  proof cases
    case (requests topic ts ih)
    have "round_requests L (dc_advPort dc) (asked @ [topic]) = round_requests L (dc_advPort dc) asked @ [(ih, dc_advPort (cw_dc s))]"
      using requests(3) assms(2) by (simp add: round_requests_def crawl_inv_def)
    with requests a show ?thesis
      by (intro exI [of _ n] exI [of _ "asked @ [topic]"]) simp
  next
    case ticks
    then have "asked = dc_subs dc" using a(1) by simp
    with a ticks have "cw_requests t = concat (replicate (Suc n) (round_requests L (dc_advPort dc) (dc_subs dc)))"
      by (simp add: replicate_append_same [symmetric])
    then show ?thesis using ticks assms(2)
      by (intro exI [of _ "Suc n"] exI [of _ "[]"]) (simp add: round_requests_def crawl_inv_def)
  qed (use a in auto)
  moreover have "cw_fault t = None" using assms(3)
  proof cases
    case (no_hash topic ts f)
    from calcInfoHash_ok [OF assms(1), of "Topic_String topic"] no_hash(3) show ?thesis by auto
  qed (use assms(2) in \<open>auto simp: crawl_inv_def\<close>)
  moreover from assms(3,2) have "cw_dc t = cw_dc s \<and> cw_events t = cw_events s \<and> cw_stopped t = cw_stopped s \<and>
      cw_stop t = cw_stop s \<and> cw_drainer t = cw_drainer s \<and> \<not> cw_stopped s"
    by cases (auto simp: crawl_inv_def)
  ultimately show ?thesis using assms(2) by (simp add: crawl_inv_def)
qed

lemma drainer_inv:
  assumes "crawl_inv L dc s" "drains s t"
  shows "crawl_inv L dc t"
proof -
  obtain found where f: "cw_events s = map AddressFound found" "distinct found"
    "\<forall>a \<in> set found. Address_IsValid a \<and> a \<in> dc_processed (cw_dc s)"
    using assms(1) unfolding crawl_inv_def by blast
  from assms(2) have "\<exists>found. cw_events t = map AddressFound found \<and> distinct found \<and>
      (\<forall>a \<in> set found. Address_IsValid a \<and> a \<in> dc_processed (cw_dc t))"
  proof cases
    case (handles a as ips es dc')
    from handles(3) f show ?thesis unfolding handles(1)
      by (cases "es = []"; intro exI [of _ "if es = [] then found else found @ [a]"])
        (auto simp: handleNewAddress_eq split: if_splits)
  next
    case (handling_fails a as ips f dc')
    then show ?thesis by (auto simp: handleNewAddress_eq split: if_splits)
  qed (use f in auto)
  moreover have "cw_fault t = None \<and> dc_subs (cw_dc t) = dc_subs (cw_dc s) \<and> dc_advPort (cw_dc t) = dc_advPort (cw_dc s)"
    using assms(2,1) by cases (auto simp: handleNewAddress_eq crawl_inv_def split: if_splits)
  moreover have "cw_requester t = cw_requester s \<and> cw_requests t = cw_requests s \<and> cw_stopped t = cw_stopped s \<and>
      cw_stop t = cw_stop s \<and> \<not> cw_stopped s"
    using assms(2,1) by cases (auto simp: crawl_inv_def)
  ultimately show ?thesis using assms(1) by (simp add: crawl_inv_def)
qed

lemma owner_inv: "crawl_inv L dc s \<Longrightarrow> Crawler_Stop s t \<Longrightarrow> crawl_inv L dc t"
  by (erule Crawler_StopE) (simp_all add: crawl_inv_def)

lemma crawl_inv_step:
  assumes "good_dht L" "crawl_inv L dc s" "crawl_step L s t"
  shows "crawl_inv L dc t"
  using assms(3) by (rule crawl_stepE) (use assms(1,2) in \<open>blast intro: requester_inv drainer_inv owner_inv\<close>)+

interpretation crawling: invariant
  "\<lambda>s. good_dht L \<and> dc_processed dc = {} \<and> Crawler_Start L ac dc = Ok s" "crawl_step L"
  "\<lambda>s. good_dht L \<and> crawl_inv L dc s" for L dc ac
proof
  fix s assume "good_dht L \<and> dc_processed dc = {} \<and> Crawler_Start L ac dc = Ok s"
  then show "good_dht L \<and> crawl_inv L dc s"
    by (auto simp: Crawler_Start_def crawl_inv_def round_requests_def split: if_splits)
qed (auto intro: crawl_inv_step)

section \<open>Stopping\<close>

abbreviation crawls :: "dht_library \<Rightarrow> crawl \<Rightarrow> crawl \<Rightarrow> bool" where "crawls L \<equiv> (crawl_step L)\<^sup>*\<^sup>*"

text \<open>Draining one result in steps is \<open>drainAddresses\<close>, when the addresses of the host stay the same.\<close>

lemma drain_run:
  assumes "cw_fault s = None" "cw_drainer s = DR_addresses as" "drainAddresses (localIPs ips) as (cw_dc s) = (Ok es, dc)"
  shows "crawls L s (s\<lparr>cw_dc := dc, cw_drainer := DR_select, cw_events := cw_events s @ es\<rparr>)"
  using assms
proof (induction as arbitrary: s es)
  case Nil
  then have "crawl_step L s (s\<lparr>cw_drainer := DR_select\<rparr>)" by (intro by_drainer drained) simp_all
  with Nil show ?case by (cases s) (auto simp: r_into_rtranclp)
next
  case (Cons a as)
  from Cons.prems(3) obtain es1 dc1 es2 where h: "handleNewAddress (localIPs ips) a (cw_dc s) = (Ok es1, dc1)"
    "drainAddresses (localIPs ips) as dc1 = (Ok es2, dc)" "es = es1 @ es2"
    by (auto split: prod.splits sum.splits)
  let ?t = "s\<lparr>cw_dc := dc1, cw_drainer := DR_addresses as, cw_events := cw_events s @ es1\<rparr>"
  have "crawl_step L s ?t" using Cons.prems(1,2) h(1) by (intro by_drainer handles)
  also have "crawls L ?t (?t\<lparr>cw_dc := dc, cw_drainer := DR_select, cw_events := cw_events ?t @ es2\<rparr>)"
    using Cons.IH [of ?t es2] Cons.prems(1) h(2) by simp
  finally show ?case using h(3) by simp
qed

lemma drainer_ends:
  assumes "cw_fault s = None" "cw_stop s"
  shows "\<exists>t. crawls L s t \<and> cw_drainer t = DR_done \<and> cw_requester t = cw_requester s \<and> cw_stop t \<and> cw_fault t = None \<and>
    cw_stopped t = cw_stopped s"
proof -
  have end_at: "\<exists>t. crawls L u t \<and> cw_drainer t = DR_done \<and> cw_requester t = cw_requester u \<and> cw_stop t \<and> cw_fault t = None \<and>
    cw_stopped t = cw_stopped u" if "cw_fault u = None" "cw_stop u" "cw_drainer u = DR_select" for u
    using that by (intro exI [of _ "u\<lparr>cw_drainer := DR_done\<rparr>"]) (auto intro: by_drainer leaves_drain)
  show ?thesis
  proof (cases "cw_drainer s")
    case (DR_addresses as)
    obtain es dc where "drainAddresses (localIPs None) as (cw_dc s) = (Ok es, dc)"
      using crawler_hands_on_once [of "localIPs None" as "cw_dc s"] by blast
    from drain_run [OF assms(1) DR_addresses this] end_at [of "s\<lparr>cw_dc := dc, cw_drainer := DR_select, cw_events := cw_events s @ es\<rparr>"] assms
    show ?thesis by (auto intro: rtranclp_trans)
  qed (use assms end_at in auto)
qed

lemma requester_ends:
  assumes "good_dht L" "cw_fault s = None" "cw_stop s"
  shows "\<exists>t. crawls L s t \<and> cw_requester t = RQ_done \<and> cw_drainer t = cw_drainer s \<and> cw_stop t \<and> cw_fault t = None \<and>
    cw_stopped t = cw_stopped s"
proof -
  let ?ends = "\<lambda>u. \<exists>t. crawls L u t \<and> cw_requester t = RQ_done \<and> cw_drainer t = cw_drainer u \<and> cw_stop t \<and>
    cw_fault t = None \<and> cw_stopped t = cw_stopped u"
  have sel: "?ends u" if "cw_fault u = None" "cw_stop u" "cw_requester u = RQ_select" for u
    using that by (intro exI [of _ "u\<lparr>cw_requester := RQ_done\<rparr>"]) (auto intro: by_requester leaves_requests)
  have top: "?ends u" if "cw_fault u = None" "cw_stop u" "cw_requester u = RQ_topics ts" for u ts
    using that
  proof (induction ts arbitrary: u)
    case Nil
    then have "crawl_step L u (u\<lparr>cw_requester := RQ_select\<rparr>)" by (intro by_requester requested)
    with sel [of "u\<lparr>cw_requester := RQ_select\<rparr>"] Nil show ?case
      by (auto intro: converse_rtranclp_into_rtranclp)
  next
    case (Cons x ts)
    obtain ih where ih: "calcInfoHash L (Topic_String x) = Ok ih" by (rule calcInfoHash_ok [OF assms(1)])
    let ?v = "u\<lparr>cw_requester := RQ_topics ts, cw_requests := cw_requests u @ [(ih, dc_advPort (cw_dc u))]\<rparr>"
    have "crawl_step L u ?v" using Cons.prems ih by (intro by_requester requests)
    with Cons.IH [of ?v] Cons.prems show ?case by (auto intro: converse_rtranclp_into_rtranclp)
  qed
  show ?thesis using assms(2,3) sel top by (cases "cw_requester s") auto
qed

lemma stopping_ends:
  assumes "good_dht L" "cw_fault s = None" "cw_stop s"
  shows "\<exists>t. crawls L s t \<and> cw_stopped t"
proof -
  obtain u where u: "crawls L s u" "cw_requester u = RQ_done" "cw_stop u" "cw_fault u = None"
    using requester_ends [OF assms] by blast
  obtain v where v: "crawls L u v" "cw_drainer v = DR_done" "cw_requester v = RQ_done" "cw_stop v" "cw_fault v = None"
    using drainer_ends [OF u(4,3), of L] u(2) by auto
  show ?thesis
  proof (cases "cw_stopped v")
    case False
    then have "crawl_step L v (v\<lparr>cw_stopped := True\<rparr>)" using v by (intro by_owner waited)
    with u(1) v(1) have "crawls L s (v\<lparr>cw_stopped := True\<rparr>)" by (meson rtranclp.rtrancl_into_rtrancl rtranclp_trans)
    then show ?thesis by force
  qed (use u(1) v(1) in \<open>auto intro: rtranclp_trans\<close>)
qed

lemma stopped_still:
  assumes "crawl_inv L dc s" "cw_stopped s"
  shows "\<not> crawl_step L s t"
proof
  have d: "cw_requester s = RQ_done" "cw_drainer s = DR_done" "cw_stop s" using assms by (simp_all add: crawl_inv_def)
  assume "crawl_step L s t"
  then show False
    by (rule crawl_stepE) (use d assms(2) in \<open>auto elim: requestAddressesE drainsE Crawler_StopE\<close>)
qed

section \<open>Properties\<close>

text \<open>
  C37. The crawler asks and tells in order: whatever the table returns and whenever the clock ticks,
  once started it never faults; what it has asked for is, over and over, every combination
  of tags of the subscriptions in turn, each with the port the node can be reached at; what it has
  told its consumer are well-formed addresses, none of them twice; and once
  \<open>Stop\<close> has closed the channel both goroutines can get to their end, after which nothing happens.
\<close>

theorem Crawler_asks_and_tells:
  assumes "good_dht L" "NewDHTCrawler port subs = Ok dc" "Crawler_Start L ac dc = Ok s0" "(crawl_step L)\<^sup>*\<^sup>* s0 s"
  shows "cw_fault s = None \<and>
    (\<exists>combinations n asked rest. ToCombinations subs = Ok combinations \<and> combinations = asked @ rest \<and>
       cw_requests s = concat (replicate n (round_requests L port combinations)) @ round_requests L port asked) \<and>
    (\<exists>found. cw_events s = map AddressFound found \<and> distinct found \<and> (\<forall>a \<in> set found. Address_IsValid a)) \<and>
    (cw_stop s \<longrightarrow> (\<exists>t. (crawl_step L)\<^sup>*\<^sup>* s t \<and> cw_stopped t)) \<and> (cw_stopped s \<longrightarrow> (\<forall>t. \<not> crawl_step L s t))"
proof -
  obtain c where c: "ToCombinations subs = Ok c" "dc = \<lparr>dc_advPort = port, dc_subs = c, dc_processed = {}\<rparr>"
    using assms(2) by (auto simp: NewDHTCrawler_def bind_result_def split: sum.splits)
  with assms have inv: "crawl_inv L dc s" using crawling.reachable_holds [of L s0 s dc ac] by simp
  then have "cw_fault s = None" by (simp add: crawl_inv_def)
  moreover have "\<exists>combinations n asked rest. ToCombinations subs = Ok combinations \<and> combinations = asked @ rest \<and>
      cw_requests s = concat (replicate n (round_requests L port combinations)) @ round_requests L port asked"
    using inv c unfolding crawl_inv_def by auto
  moreover have "\<exists>found. cw_events s = map AddressFound found \<and> distinct found \<and> (\<forall>a \<in> set found. Address_IsValid a)"
    using inv unfolding crawl_inv_def by blast
  ultimately show ?thesis using stopping_ends [OF assms(1)] stopped_still [OF inv] by blast
qed

section \<open>Witness\<close>

definition toy_dht :: dht_library where
  "toy_dht = \<lparr>dl_sha1 = (\<lambda>_. replicate 20 0), dl_DecodeInfoHash = Some, dl_New_fails = False, dl_Start_fails = False\<rparr>"

theorem Crawler_asks_and_tells_witness:
  "\<exists>dc s0 s t. NewDHTCrawler 8004 [Some [''x'']] = Ok dc \<and> Crawler_Start toy_dht True dc = Ok s0 \<and>
     crawls toy_dht s0 s \<and> length (cw_requests s) = 1 \<and> cw_events s = [AddressFound ''a:1''] \<and>
     crawls toy_dht s t \<and> cw_stopped t"
proof -
  let ?dc = "\<lparr>dc_advPort = 8004, dc_subs = [Some [''x'']], dc_processed = {}\<rparr>"
  have combos: "ToCombinations [Some [''x'']] = Ok [Some [''x'']]" by code_simp
  then have dc: "NewDHTCrawler 8004 [Some [''x'']] = Ok ?dc" by (simp add: NewDHTCrawler_def)
  obtain s0 where s0: "Crawler_Start toy_dht True ?dc = Ok s0" by (simp add: Crawler_Start_def toy_dht_def)
  then have parts: "cw_fault s0 = None" "cw_drainer s0 = DR_select" "cw_events s0 = []" "cw_requests s0 = []" "cw_dc s0 = ?dc"
    "cw_requester s0 = RQ_topics [Some [''x'']]" "\<not> cw_stop s0"
    by (auto simp: Crawler_Start_def toy_dht_def)
  have good: "good_dht toy_dht" by (simp add: good_dht_def toy_dht_def)
  obtain ih where ih: "calcInfoHash toy_dht (Topic_String (Some [''x''])) = Ok ih" by (rule calcInfoHash_ok [OF good])
  have "Address_IsValid ''a:1''"
    unfolding IsValid_Domain lang_Domain
    by (intro exI [of _ "''a''"] exI [of _ "''1''"]) (simp add: good_port_def digits_def good_label_def alnum_def)
  then have h: "handleNewAddress (localIPs None) ''a:1'' ?dc = (Ok [AddressFound ''a:1''], ?dc\<lparr>dc_processed := {''a:1''}\<rparr>)"
    by (auto simp: handleNewAddress_eq isAddressLocal_def localIPs_def split: sum.splits fault.splits if_splits)
  define s1 where "s1 = s0\<lparr>cw_requester := RQ_topics [], cw_requests := cw_requests s0 @ [(ih, dc_advPort (cw_dc s0))]\<rparr>"
  define s2 where "s2 = s1\<lparr>cw_drainer := DR_addresses [''a:1'']\<rparr>"
  define s3 where "s3 = s2\<lparr>cw_dc := ?dc\<lparr>dc_processed := {''a:1''}\<rparr>, cw_drainer := DR_addresses [], cw_events := cw_events s2 @ [AddressFound ''a:1'']\<rparr>"
  define s4 where "s4 = s3\<lparr>cw_stop := True\<rparr>"
  have st1: "crawl_step toy_dht s0 s1" unfolding s1_def using parts ih by (intro by_requester requests)
  have st2: "crawl_step toy_dht s1 s2" unfolding s2_def using parts by (intro by_drainer result) (simp_all add: s1_def)
  have st3: "crawl_step toy_dht s2 s3" unfolding s3_def using parts h by (intro by_drainer handles [where ips = None]) (simp_all add: s1_def s2_def)
  have st4: "crawl_step toy_dht s3 s4" unfolding s4_def using parts by (intro by_owner closes) (simp_all add: s1_def s2_def s3_def)
  note run = rtranclp.rtrancl_into_rtrancl [OF rtranclp.rtrancl_into_rtrancl [OF rtranclp.rtrancl_into_rtrancl
    [OF r_into_rtranclp [of "crawl_step toy_dht", OF st1] st2] st3] st4]
  from Crawler_asks_and_tells [OF good dc s0 run] obtain t where "crawls toy_dht s4 t" "cw_stopped t" by (auto simp: s4_def)
  then show ?thesis using dc s0 run parts by (intro exI [of _ ?dc] exI [of _ s0] exI [of _ s4] exI [of _ t]) (simp add: s1_def s2_def s3_def s4_def)
qed

end
