(* ===== verification/Pool.thy ===== *)
theory Pool
  imports Packet "HOL-Library.Multiset"
begin

text \<open>
  The peer pool (\<open>p2p/peer_pool.go\<close>): the locked list of peers, the goroutine that appends a
  peer for every new connection, the one that removes and closes peers that are gone, the
  validation every peer asks for at the end of its handshake, and the shutdown. A peer is a
  pointer, here a natural number into a heap. Every locked or atomic operation is one step.
\<close>

section \<open>The list of peers\<close>

type_synonym peer_ref = nat

definition Append :: "peer_ref \<Rightarrow> peer_ref list \<Rightarrow> peer_ref list" where
  "Append p pl = pl @ [p]"

fun ref_index :: "peer_ref \<Rightarrow> peer_ref list \<Rightarrow> nat option" where
  "ref_index p [] = None"
| "ref_index p (q # qs) = (if q = p then Some 0 else map_option Suc (ref_index p qs))"

text \<open>The element is swapped with the last one and the slice is cut.\<close>

definition Remove :: "peer_ref \<Rightarrow> peer_ref list \<Rightarrow> peer_ref list \<times> bool" where
  "Remove p pl =
     (case ref_index p pl of
        None \<Rightarrow> (pl, False)
      | Some i \<Rightarrow>
          (let j = length pl - 1 in (take j (pl[j := pl ! i, i := pl ! j]), True)))"

text \<open>
  \<open>ListPeers\<close> allocates the result by one locked call, \<open>Len\<close>, and fills it by another, \<open>Range\<close>;
  between them the list may change. An entry that is not filled is a nil pointer, and an
  index out of range is a panic.
\<close>

fun ListPeers_fill :: "('a \<Rightarrow> 'i) \<Rightarrow> nat \<Rightarrow> 'a list \<Rightarrow> 'i option list \<Rightarrow> 'i option list result" where
  "ListPeers_fill info i [] res = Ok res"
| "ListPeers_fill info i (p # ps) res =
     (if i < length res then ListPeers_fill info (Suc i) ps (res[i := Some (info p)]) else Inl Panic)"

definition ListPeers :: "('a \<Rightarrow> 'i) \<Rightarrow> 'a list \<Rightarrow> 'a list \<Rightarrow> 'i option list result" where
  "ListPeers info at_Len at_Range = ListPeers_fill info 0 at_Range (replicate (length at_Len) None)"

section \<open>State\<close>

text \<open>
  How far the goroutine of a peer is with \<open>ValidatePeer\<close>. \<open>Handshaked\<close> is after \<open>p.User\<close> is set,
  \<open>Validating\<close> holds the peers of the copied list still to visit, \<open>Matched\<close> the other peer of
  the same user.
\<close>

datatype phase =
    Handshake | Handshaked | Validating "peer_ref list" | Matched peer_ref
  | Adding peer_ref "gostring list" | Clearing | Accepted | Rejected

record pool_peer =
  pp_user :: "entity_id option"
  pp_conn :: connection
  pp_phase :: phase
  pp_gone :: bool
  pp_closed :: bool

datatype watcher = W_select | W_range "peer_ref list" | W_remove peer_ref "peer_ref list"
  | W_close peer_ref "peer_ref list" | W_stopped

text \<open>
  \<open>pl_new\<close> is the peer \<open>watchNewConnections\<close> has created and not yet appended; \<open>pl_closing\<close> the
  peers \<open>Stop\<close> has still to close, once it has copied the list.
\<close>

record pool =
  pl_peers :: "peer_ref list"
  pl_heap :: "peer_ref \<rightharpoonup> pool_peer"
  pl_new :: "peer_ref option"
  pl_intake :: bool
  pl_watcher :: watcher
  pl_closing :: "peer_ref list option"
  pl_fault :: "fault option"

definition NewPeerPool :: pool where
  "NewPeerPool = \<lparr>pl_peers = [], pl_heap = Map.empty, pl_new = None, pl_intake = True,
     pl_watcher = W_select, pl_closing = None, pl_fault = None\<rparr>"

text \<open>\<open>Peer.Close\<close> closes the channel \<open>stopChan\<close>; closing a closed channel is a panic.\<close>

definition close_peer :: "peer_ref \<Rightarrow> pool \<Rightarrow> pool" where
  "close_peer p s =
     (case pl_heap s p of
        None \<Rightarrow> s\<lparr>pl_fault := Some Panic\<rparr>
      | Some r \<Rightarrow> if pp_closed r then s\<lparr>pl_fault := Some Panic\<rparr>
                  else s\<lparr>pl_heap := (pl_heap s)(p \<mapsto> r\<lparr>pp_closed := True\<rparr>)\<rparr>)"

definition set_phase :: "peer_ref \<Rightarrow> pool_peer \<Rightarrow> phase \<Rightarrow> pool \<Rightarrow> pool" where
  "set_phase p r ph s = s\<lparr>pl_heap := (pl_heap s)(p \<mapsto> r\<lparr>pp_phase := ph\<rparr>)\<rparr>"

section \<open>The goroutines\<close>

inductive watchNewConnections :: "pool \<Rightarrow> pool \<Rightarrow> bool" where
  creates: "pl_new s = None \<Longrightarrow> pl_intake s \<Longrightarrow> pl_heap s p = None \<Longrightarrow>
    watchNewConnections s (s\<lparr>pl_new := Some p, pl_heap := (pl_heap s)(p \<mapsto>
      \<lparr>pp_user = None, pp_conn = c, pp_phase = Handshake, pp_gone = False, pp_closed = False\<rparr>)\<rparr>)"
| appends: "pl_new s = Some p \<Longrightarrow>
    watchNewConnections s (s\<lparr>pl_new := None, pl_peers := Append p (pl_peers s)\<rparr>)"

inductive watchGonePeers :: "pool \<Rightarrow> pool \<Rightarrow> bool" where
  tick: "pl_watcher s = W_select \<Longrightarrow> watchGonePeers s (s\<lparr>pl_watcher := W_range (pl_peers s)\<rparr>)"
| stays: "pl_watcher s = W_range (p # ps) \<Longrightarrow> pl_heap s p = Some r \<Longrightarrow> \<not> pp_gone r \<Longrightarrow>
    watchGonePeers s (s\<lparr>pl_watcher := W_range ps\<rparr>)"
| is_gone: "pl_watcher s = W_range (p # ps) \<Longrightarrow> pl_heap s p = Some r \<Longrightarrow> pp_gone r \<Longrightarrow>
    watchGonePeers s (s\<lparr>pl_watcher := W_remove p ps\<rparr>)"
| removes: "pl_watcher s = W_remove p ps \<Longrightarrow>
    watchGonePeers s (s\<lparr>pl_watcher := W_close p ps, pl_peers := fst (Remove p (pl_peers s))\<rparr>)"
| closes_gone: "pl_watcher s = W_close p ps \<Longrightarrow>
    watchGonePeers s ((close_peer p s)\<lparr>pl_watcher := W_range ps\<rparr>)"
| all_watched: "pl_watcher s = W_range [] \<Longrightarrow> watchGonePeers s (s\<lparr>pl_watcher := W_select\<rparr>)"
| watcher_stops: "pl_watcher s = W_select \<Longrightarrow> \<not> pl_intake s \<Longrightarrow>
    watchGonePeers s (s\<lparr>pl_watcher := W_stopped\<rparr>)"

text \<open>
  The goroutine of a peer. With \<open>prompt\<close> a handshake does not end before the peer is in the
  list; the code starts the goroutine first and appends the peer afterwards, so nothing but
  the time a handshake takes makes it so.
\<close>

inductive ValidatePeer :: "bool \<Rightarrow> pool \<Rightarrow> pool \<Rightarrow> bool" for prompt where
  handshaked: "pl_heap s p = Some r \<Longrightarrow> pp_phase r = Handshake \<Longrightarrow> \<not> pp_gone r \<Longrightarrow>
    (prompt \<longrightarrow> pl_new s \<noteq> Some p) \<Longrightarrow>
    ValidatePeer prompt s (set_phase p (r\<lparr>pp_user := Some u\<rparr>) Handshaked s)"
| copies_list: "pl_heap s p = Some r \<Longrightarrow> pp_phase r = Handshaked \<Longrightarrow>
    ValidatePeer prompt s (set_phase p r (Validating (pl_peers s)) s)"
| visits_other: "pl_heap s p = Some r \<Longrightarrow> pp_phase r = Validating (q # qs) \<Longrightarrow> pl_heap s q = Some rq \<Longrightarrow>
    \<not> (pp_user rq \<noteq> None \<and> pp_user rq = pp_user r \<and> q \<noteq> p) \<Longrightarrow>
    ValidatePeer prompt s (set_phase p r (Validating qs) s)"
| visits_same: "pl_heap s p = Some r \<Longrightarrow> pp_phase r = Validating (q # qs) \<Longrightarrow> pl_heap s q = Some rq \<Longrightarrow>
    pp_user rq \<noteq> None \<and> pp_user rq = pp_user r \<and> q \<noteq> p \<Longrightarrow>
    ValidatePeer prompt s (set_phase p r (Matched q) s)"
| takes_addresses: "pl_heap s p = Some r \<Longrightarrow> pp_phase r = Matched q \<Longrightarrow>
    ValidatePeer prompt s (set_phase p r (Adding q (Addresses (pp_conn r))) s)"
| adds_them: "pl_heap s p = Some r \<Longrightarrow> pp_phase r = Adding q as \<Longrightarrow> pl_heap s q = Some rq \<Longrightarrow> q \<noteq> p \<Longrightarrow>
    ValidatePeer prompt s (set_phase p r Clearing
      (s\<lparr>pl_heap := (pl_heap s)(q \<mapsto> rq\<lparr>pp_conn := AddAddresses as (pp_conn rq)\<rparr>)\<rparr>))"
| clears_own: "pl_heap s p = Some r \<Longrightarrow> pp_phase r = Clearing \<Longrightarrow>
    ValidatePeer prompt s (set_phase p (r\<lparr>pp_conn := ClearAddresses (pp_conn r)\<rparr>) Rejected s)"
| all_differ: "pl_heap s p = Some r \<Longrightarrow> pp_phase r = Validating [] \<Longrightarrow>
    ValidatePeer prompt s (set_phase p r Accepted s)"

text \<open>A state that fails ends the peer's loop and raises its flag; a rejected peer always fails.\<close>

inductive peer_fails :: "pool \<Rightarrow> pool \<Rightarrow> bool" where
  fails: "pl_heap s p = Some r \<Longrightarrow> pp_phase r \<in> {Handshake, Accepted, Rejected} \<Longrightarrow>
    peer_fails s (s\<lparr>pl_heap := (pl_heap s)(p \<mapsto> r\<lparr>pp_gone := True\<rparr>)\<rparr>)"

text \<open>\<open>Stop\<close> ends the intake, waits for both workers, copies the list and closes every peer of it.\<close>

inductive Stop :: "pool \<Rightarrow> pool \<Rightarrow> bool" where
  ends_intake: "Stop s (s\<lparr>pl_intake := False\<rparr>)"
| copies_peers: "\<not> pl_intake s \<Longrightarrow> pl_new s = None \<Longrightarrow> pl_watcher s = W_stopped \<Longrightarrow> pl_closing s = None \<Longrightarrow>
    Stop s (s\<lparr>pl_closing := Some (pl_peers s)\<rparr>)"
| closes_peer: "pl_closing s = Some (ps @ p # qs) \<Longrightarrow>
    Stop s ((close_peer p s)\<lparr>pl_closing := Some (ps @ qs)\<rparr>)"

inductive pool_step :: "bool \<Rightarrow> pool \<Rightarrow> pool \<Rightarrow> bool" for prompt where
  new_connections: "pl_fault s = None \<Longrightarrow> watchNewConnections s t \<Longrightarrow> pool_step prompt s t"
| gone_peers: "pl_fault s = None \<Longrightarrow> watchGonePeers s t \<Longrightarrow> pool_step prompt s t"
| validation: "pl_fault s = None \<Longrightarrow> ValidatePeer prompt s t \<Longrightarrow> pool_step prompt s t"
| failure: "pl_fault s = None \<Longrightarrow> peer_fails s t \<Longrightarrow> pool_step prompt s t"
| shutdown: "pl_fault s = None \<Longrightarrow> Stop s t \<Longrightarrow> pool_step prompt s t"

section \<open>Lemmas on the list\<close>

lemma ref_index_None: "ref_index p pl = None \<longleftrightarrow> p \<notin> set pl"
  by (induction pl) auto

lemma ref_index_Some: "ref_index p pl = Some i \<Longrightarrow> i < length pl \<and> pl ! i = p"
  by (induction pl arbitrary: i) (auto split: if_splits)

lemma mset_Remove: "mset (fst (Remove p pl)) = mset pl - {#p#}"
proof (cases "ref_index p pl")
  case None
  then have "p \<notin> set pl" by (simp add: ref_index_None)
  with None show ?thesis by (simp add: Remove_def)
next
  case (Some i)
  then have i: "i < length pl" "pl ! i = p" using ref_index_Some by auto
  define j where "j = length pl - 1"
  define sw where "sw = pl[j := pl ! i, i := pl ! j]"
  have j: "j < length pl" and len: "length sw = Suc j" using i by (auto simp: j_def sw_def)
  have "sw ! j = p" using i j by (cases "i = j") (auto simp: sw_def)
  then have "sw = take j sw @ [p]" using len by (metis lessI take_Suc_conv_app_nth take_all order_refl)
  then have "mset sw = mset (take j sw) + {#p#}" by (metis mset_append mset_single_iff mset.simps)
  moreover have "mset sw = mset pl" unfolding sw_def using i(1) j by (rule mset_swap)
  ultimately have "mset (take j sw) = mset pl - {#p#}" by (metis add_diff_cancel_right')
  then show ?thesis using Some by (simp add: Remove_def Let_def sw_def j_def)
qed

lemma Remove_found: "snd (Remove p pl) \<longleftrightarrow> p \<in> set pl"
  using ref_index_None [of p pl] by (auto simp: Remove_def Let_def split: option.splits)

lemma set_Remove: "set (fst (Remove p pl)) \<subseteq> set pl"
  by (metis in_diffD mset_Remove set_mset_mset subsetI)

lemma distinct_Remove:
  assumes "distinct pl"
  shows "distinct (fst (Remove p pl))" "set (fst (Remove p pl)) = set pl - {p}"
proof -
  have "mset (fst (Remove p pl)) = mset (remove1 p pl)" by (simp add: mset_Remove)
  then show "distinct (fst (Remove p pl))" "set (fst (Remove p pl)) = set pl - {p}"
    using assms by (metis distinct_remove1 mset_eq_imp_distinct_iff, metis mset_eq_setD set_remove1_eq)
qed

lemma ListPeers_fill_eq:
  "ListPeers_fill info i ps (map Some xs @ replicate n None) =
     (if length ps \<le> n then Ok (map Some (xs @ map info ps) @ replicate (n - length ps) None) else Inl Panic)"
  if "i = length xs"
  using that
proof (induction ps arbitrary: i xs n)
  case (Cons p ps)
  show ?case
  proof (cases n)
    case (Suc m)
    have "(map Some xs @ replicate n None)[i := Some (info p)] = map Some (xs @ [info p]) @ replicate m None"
      using Cons.prems Suc by (simp add: list_update_append)
    with Cons.IH [of "Suc i" "xs @ [info p]" m] Cons.prems Suc show ?thesis by simp
  qed (use Cons.prems in simp)
qed simp

section \<open>Who is closed\<close>

definition alive :: "(peer_ref \<rightharpoonup> pool_peer) \<Rightarrow> peer_ref \<Rightarrow> bool" where
  "alive h p \<longleftrightarrow> (case h p of None \<Rightarrow> False | Some r \<Rightarrow> \<not> pp_closed r)"

fun watcher_ok :: "watcher \<Rightarrow> pool \<Rightarrow> bool" where
  "watcher_ok (W_range ps) s \<longleftrightarrow> distinct ps \<and> set ps \<subseteq> set (pl_peers s)"
| "watcher_ok (W_remove p ps) s \<longleftrightarrow> distinct (p # ps) \<and> set (p # ps) \<subseteq> set (pl_peers s)"
| "watcher_ok (W_close p ps) s \<longleftrightarrow> distinct (p # ps) \<and> set ps \<subseteq> set (pl_peers s) \<and>
     p \<notin> set (pl_peers s) \<and> pl_new s \<noteq> Some p \<and> alive (pl_heap s) p"
| "watcher_ok _ s \<longleftrightarrow> True"

definition pool_inv :: "pool \<Rightarrow> bool" where
  "pool_inv s \<longleftrightarrow> pl_fault s = None \<and> distinct (pl_peers s) \<and>
     (\<forall>p. pl_new s = Some p \<longrightarrow> p \<notin> set (pl_peers s) \<and> alive (pl_heap s) p) \<and>
     watcher_ok (pl_watcher s) s \<and>
     (case pl_closing s of
        None \<Rightarrow> \<forall>p \<in> set (pl_peers s). alive (pl_heap s) p
      | Some ps \<Rightarrow> distinct ps \<and> (\<forall>p \<in> set ps. alive (pl_heap s) p) \<and>
          (\<forall>p \<in> set (pl_peers s). pl_heap s p \<noteq> None) \<and>
          \<not> pl_intake s \<and> pl_new s = None \<and> pl_watcher s = W_stopped)"

lemma alive_upd [simp]:
  "alive (h(p \<mapsto> r)) q \<longleftrightarrow> (if q = p then \<not> pp_closed r else alive h q)"
  by (simp add: alive_def)

lemma alive_Some: "h p = Some r \<Longrightarrow> alive h p \<longleftrightarrow> \<not> pp_closed r"
  by (simp add: alive_def)

lemma alive_not_None: "alive h p \<Longrightarrow> h p \<noteq> None"
  by (auto simp: alive_def split: option.splits)

lemma set_phase_simps [simp]:
  "pl_peers (set_phase p r ph s) = pl_peers s" "pl_new (set_phase p r ph s) = pl_new s"
  "pl_intake (set_phase p r ph s) = pl_intake s" "pl_watcher (set_phase p r ph s) = pl_watcher s"
  "pl_closing (set_phase p r ph s) = pl_closing s" "pl_fault (set_phase p r ph s) = pl_fault s"
  "pl_heap (set_phase p r ph s) = (pl_heap s)(p \<mapsto> r\<lparr>pp_phase := ph\<rparr>)"
  by (simp_all add: set_phase_def)

lemma close_alive:
  "alive (pl_heap s) p \<Longrightarrow> \<exists>r. pl_heap s p = Some r \<and>
     close_peer p s = s\<lparr>pl_heap := (pl_heap s)(p \<mapsto> r\<lparr>pp_closed := True\<rparr>)\<rparr>"
  by (auto simp: alive_def close_peer_def split: option.splits)

text \<open>Steps of the peers leave the bookkeeping of the pool alone: who is alive stays the same.\<close>

lemma pool_inv_heap:
  assumes "pool_inv s" "t = s\<lparr>pl_heap := h\<rparr>" "\<And>p. alive h p = alive (pl_heap s) p"
    "\<And>p. (h p = None) = (pl_heap s p = None)"
  shows "pool_inv t"
  using assms by (cases "pl_watcher s") (auto simp: pool_inv_def split: option.splits)

lemma pool_inv_phase:
  assumes "pool_inv s" "pl_heap s p = Some r" "pp_closed r' = pp_closed r"
  shows "pool_inv (set_phase p r' ph s)"
  by (rule pool_inv_heap [OF assms(1) set_phase_def]) (auto simp: assms alive_Some)

lemma pool_inv_new:
  assumes "pool_inv s" "watchNewConnections s t"
  shows "pool_inv t"
  using assms(2,1)
proof cases
  case (creates p c)
  then have "p \<notin> set (pl_peers s)"
    using assms(1) by (auto simp: pool_inv_def dest: alive_not_None split: option.splits)
  with creates assms(1) show ?thesis
    by (cases "pl_watcher s") (auto simp: pool_inv_def alive_not_None split: option.splits)
next
  case (appends p)
  with assms(1) show ?thesis
    by (cases "pl_watcher s") (auto simp: pool_inv_def Append_def split: option.splits)
qed

lemma pool_inv_gone:
  assumes "pool_inv s" "watchGonePeers s t"
  shows "pool_inv t"
  using assms(2,1)
proof cases
  case (removes p ps)
  with assms(1) have "distinct (pl_peers s)" "p \<notin> set ps" by (auto simp: pool_inv_def)
  with removes assms(1) show ?thesis
    by (auto simp: pool_inv_def distinct_Remove split: option.splits)
next
  case (closes_gone p ps)
  with assms(1) have "alive (pl_heap s) p" by (simp add: pool_inv_def)
  from close_alive [OF this] obtain r where "close_peer p s = s\<lparr>pl_heap := (pl_heap s)(p \<mapsto> r\<lparr>pp_closed := True\<rparr>)\<rparr>"
    by blast
  with closes_gone assms(1) show ?thesis by (auto simp: pool_inv_def split: option.splits)
qed (auto simp: pool_inv_def split: option.splits)

lemma pool_inv_validate:
  assumes "pool_inv s" "ValidatePeer b s t"
  shows "pool_inv t"
  using assms(2,1)
proof cases
  case (adds_them p r q as rq)
  have "pool_inv (s\<lparr>pl_heap := (pl_heap s)(q \<mapsto> rq\<lparr>pp_conn := AddAddresses as (pp_conn rq)\<rparr>)\<rparr>)"
    by (rule pool_inv_heap [OF assms(1) refl]) (auto simp: adds_them alive_Some)
  then show ?thesis unfolding adds_them(1) by (rule pool_inv_phase) (use adds_them in auto)
qed (auto intro: pool_inv_phase)

lemma pool_inv_fails:
  assumes "pool_inv s" "peer_fails s t"
  shows "pool_inv t"
  using assms(2)
proof cases
  case (fails p r)
  show ?thesis by (rule pool_inv_heap [OF assms(1) fails(1)]) (auto simp: fails alive_Some)
qed

lemma pool_inv_stop:
  assumes "pool_inv s" "Stop s t"
  shows "pool_inv t"
  using assms(2,1)
proof cases
  case (closes_peer ps p qs)
  with assms(1) have "alive (pl_heap s) p" by (simp add: pool_inv_def)
  from close_alive [OF this] obtain r where "pl_heap s p = Some r"
    "close_peer p s = s\<lparr>pl_heap := (pl_heap s)(p \<mapsto> r\<lparr>pp_closed := True\<rparr>)\<rparr>" by blast
  with closes_peer assms(1) show ?thesis by (auto simp: pool_inv_def)
next
  case ends_intake
  with assms(1) show ?thesis
    by (cases "pl_watcher s") (auto simp: pool_inv_def split: option.splits)
qed (auto simp: pool_inv_def dest: alive_not_None)

interpretation pool: invariant "\<lambda>s. s = NewPeerPool" "pool_step b" pool_inv for b
proof
  show "pool_inv t" if "pool_inv s" "pool_step b s t" for s t
    using that(2,1)
    by cases (blast intro: pool_inv_new pool_inv_gone pool_inv_validate pool_inv_fails pool_inv_stop)+
qed (simp add: pool_inv_def NewPeerPool_def)

section \<open>One peer per user\<close>

text \<open>\<open>p\<close> has looked at \<open>q\<close>, or at all the peers it had to, and has not been stopped by it.\<close>

definition passed :: "(peer_ref \<rightharpoonup> pool_peer) \<Rightarrow> peer_ref \<Rightarrow> peer_ref \<Rightarrow> bool" where
  "passed h p q \<longleftrightarrow>
     (case h p of None \<Rightarrow> False
      | Some r \<Rightarrow> (case pp_phase r of Accepted \<Rightarrow> True | Validating qs \<Rightarrow> q \<notin> set qs | _ \<Rightarrow> False))"

definition same_user :: "(peer_ref \<rightharpoonup> pool_peer) \<Rightarrow> peer_ref \<Rightarrow> peer_ref \<Rightarrow> bool" where
  "same_user h p q \<longleftrightarrow> (\<exists>r rq u. h p = Some r \<and> h q = Some rq \<and> pp_user r = Some u \<and> pp_user rq = Some u)"

definition unique_inv :: "pool \<Rightarrow> bool" where
  "unique_inv s \<longleftrightarrow> pool_inv s \<and>
     (\<forall>p r. pl_new s = Some p \<longrightarrow> pl_heap s p = Some r \<longrightarrow> pp_user r = None \<and> pp_phase r = Handshake) \<and>
     (\<forall>p \<in> set (pl_peers s). \<forall>q \<in> set (pl_peers s). p \<noteq> q \<longrightarrow> same_user (pl_heap s) p q \<longrightarrow>
        \<not> (passed (pl_heap s) p q \<and> passed (pl_heap s) q p))"

lemma passed_upd:
  "passed (h(x \<mapsto> r)) p q \<longleftrightarrow>
     (if p = x then (case pp_phase r of Accepted \<Rightarrow> True | Validating qs \<Rightarrow> q \<notin> set qs | _ \<Rightarrow> False)
      else passed h p q)"
  by (simp add: passed_def)

lemma same_user_sym: "same_user h p q \<Longrightarrow> same_user h q p"
  unfolding same_user_def by metis

lemma same_user_upd:
  assumes "h x = Some r" "pp_user r' = pp_user r"
  shows "same_user (h(x \<mapsto> r')) p q = same_user h p q"
  using assms by (auto simp: same_user_def)

lemma passed_same_phase:
  assumes "h x = Some r" "pp_phase r' = pp_phase r"
  shows "passed (h(x \<mapsto> r')) p q = passed h p q"
  using assms by (auto simp: passed_def)

text \<open>Fewer peers, or peers that have passed fewer others, keep the invariant.\<close>

lemma unique_inv_less:
  assumes "unique_inv s" "pool_inv t" "set (pl_peers t) \<subseteq> set (pl_peers s)" "pl_new t = pl_new s"
    "\<And>p q. same_user (pl_heap t) p q \<Longrightarrow> passed (pl_heap t) p q \<Longrightarrow> passed (pl_heap t) q p \<Longrightarrow>
       same_user (pl_heap s) p q \<and> passed (pl_heap s) p q \<and> passed (pl_heap s) q p"
    "\<And>p r. pl_new s = Some p \<Longrightarrow> pl_heap t p = Some r \<Longrightarrow>
       \<exists>r'. pl_heap s p = Some r' \<and> pp_user r = pp_user r' \<and> pp_phase r = pp_phase r'"
  shows "unique_inv t"
  unfolding unique_inv_def
proof (intro conjI allI impI ballI)
  show "pool_inv t" by fact
next
  fix p r assume "pl_new t = Some p" "pl_heap t p = Some r"
  with assms(4,6) obtain r' where "pl_new s = Some p" "pl_heap s p = Some r'" "pp_user r = pp_user r'"
    "pp_phase r = pp_phase r'" by metis
  with assms(1) show "pp_user r = None" "pp_phase r = Handshake" by (auto simp: unique_inv_def)
next
  fix p q assume *: "p \<in> set (pl_peers t)" "q \<in> set (pl_peers t)" "p \<noteq> q" "same_user (pl_heap t) p q"
  show "\<not> (passed (pl_heap t) p q \<and> passed (pl_heap t) q p)"
  proof
    assume "passed (pl_heap t) p q \<and> passed (pl_heap t) q p"
    with assms(5) * have "same_user (pl_heap s) p q" "passed (pl_heap s) p q" "passed (pl_heap s) q p" by blast+
    with assms(1,3) * show False unfolding unique_inv_def by blast
  qed
qed

lemma unique_new:
  assumes "unique_inv s" "watchNewConnections s t" "pool_inv t"
  shows "unique_inv t"
  using assms(2)
proof cases
  case (creates p c)
  have "p \<notin> set (pl_peers s)"
    using assms(1) creates(4) by (auto simp: unique_inv_def pool_inv_def dest: alive_not_None split: option.splits)
  then have p: "x \<noteq> p" if "x \<in> set (pl_peers s)" for x using that by blast
  have h: "same_user (pl_heap t) x y = same_user (pl_heap s) x y" "passed (pl_heap t) x y = passed (pl_heap s) x y"
    if "x \<noteq> p" "y \<noteq> p" for x y
    using that by (simp_all add: creates(1) same_user_def passed_def)
  have "pl_peers t = pl_peers s" by (simp add: creates(1))
  moreover have "pp_user r = None \<and> pp_phase r = Handshake" if "pl_new t = Some x" "pl_heap t x = Some r" for x r
    using that by (auto simp: creates(1))
  ultimately show ?thesis using assms(1,3) p h unfolding unique_inv_def by metis
next
  case (appends p)
  have "\<not> same_user (pl_heap s) p q" "\<not> same_user (pl_heap s) q p" for q
    using assms(1) appends unfolding unique_inv_def same_user_def by auto
  with appends assms(1,3) show ?thesis unfolding unique_inv_def by (auto simp: Append_def)
qed

lemma unique_gone:
  assumes "unique_inv s" "watchGonePeers s t" "pool_inv t"
  shows "unique_inv t"
  using assms(2)
proof cases
  case (removes p ps)
  show ?thesis by (rule unique_inv_less [OF assms(1,3)]) (use removes set_Remove in auto)
next
  case (closes_gone p ps)
  from assms(1) closes_gone have "alive (pl_heap s) p" by (auto simp: unique_inv_def pool_inv_def)
  from close_alive [OF this] obtain r where r: "pl_heap s p = Some r"
    "close_peer p s = s\<lparr>pl_heap := (pl_heap s)(p \<mapsto> r\<lparr>pp_closed := True\<rparr>)\<rparr>" by blast
  show ?thesis
    by (rule unique_inv_less [OF assms(1,3)])
      (use closes_gone r in \<open>auto simp: same_user_upd [of "pl_heap s", OF r(1)] passed_same_phase [of "pl_heap s", OF r(1)] split: if_splits\<close>)
qed (use assms in \<open>auto intro: unique_inv_less\<close>)

lemma unique_phase:
  assumes "unique_inv s" "pl_heap s p = Some r" "pl_new s \<noteq> Some p" "pool_inv (set_phase p r' ph s)"
    "pp_user r' = pp_user r"
    "\<And>q. same_user (pl_heap s) p q \<Longrightarrow> p \<noteq> q \<Longrightarrow> q \<in> set (pl_peers s) \<Longrightarrow>
       passed (pl_heap (set_phase p r' ph s)) p q \<Longrightarrow> passed (pl_heap s) p q"
  shows "unique_inv (set_phase p r' ph s)"
proof -
  have su: "same_user (pl_heap (set_phase p r' ph s)) x y = same_user (pl_heap s) x y" for x y
    using assms(2,5) by (auto simp: same_user_def)
  have pa: "passed (pl_heap s) x y" if "same_user (pl_heap s) x y" "x \<noteq> y" "y \<in> set (pl_peers s)"
      "passed (pl_heap (set_phase p r' ph s)) x y" for x y
    using that assms(6) by (cases "x = p") (auto simp: passed_upd)
  show ?thesis
    unfolding unique_inv_def su
    using assms(1,3,4) pa same_user_sym unfolding unique_inv_def by (auto; metis)
qed

text \<open>A change of one peer that leaves its user and its phase as they are.\<close>

lemma unique_same:
  assumes "unique_inv s" "pl_heap s p = Some r" "pp_user r' = pp_user r" "pp_phase r' = pp_phase r"
    "t = s\<lparr>pl_heap := (pl_heap s)(p \<mapsto> r')\<rparr>" "pool_inv t"
  shows "unique_inv t"
  by (rule unique_inv_less [OF assms(1,6)])
    (use assms(2-5) in \<open>auto simp: same_user_upd [of "pl_heap s", OF assms(2,3)]
       passed_same_phase [of "pl_heap s", OF assms(2,4)] split: if_splits\<close>)

lemma unique_validate:
  assumes "unique_inv s" "ValidatePeer True s t" "pool_inv t"
  shows "unique_inv t"
proof -
  have new: "pl_new s \<noteq> Some p" if "pl_heap s p = Some r" "pp_phase r \<noteq> Handshake" for p r
    using assms(1) that unfolding unique_inv_def by metis
  have new_phase: "pp_phase r = Handshake" if "pl_new s = Some p" "pl_heap s p = Some r" for p r
    using assms(1) that unfolding unique_inv_def by metis
  show ?thesis
    using assms(2)
  proof cases
    case (handshaked p r u)
    show ?thesis
      by (rule unique_inv_less [OF assms(1,3)])
        (use handshaked in \<open>auto simp: passed_upd same_user_def split: if_splits\<close>)
  next
    case (visits_other p r q qs rq)
    have "pp_phase r \<noteq> Handshake" by (simp add: visits_other)
    then show ?thesis unfolding visits_other(1)
      by (intro unique_phase [OF assms(1)]) (use visits_other new assms(3) in
        \<open>auto simp: passed_def same_user_def\<close>)
  next
    case (adds_them p r q as rq)
    let ?s1 = "s\<lparr>pl_heap := (pl_heap s)(q \<mapsto> rq\<lparr>pp_conn := AddAddresses as (pp_conn rq)\<rparr>)\<rparr>"
    have pool: "pool_inv s" using assms(1) by (simp add: unique_inv_def)
    have "pool_inv ?s1"
      by (rule pool_inv_heap [OF pool refl]) (auto simp: adds_them alive_Some)
    then have "unique_inv ?s1"
      by (intro unique_same [OF assms(1) adds_them(4) _ _ refl]) auto
    moreover have "pp_phase r \<noteq> Handshake" by (simp add: adds_them)
    ultimately show ?thesis unfolding adds_them(1)
      by (elim unique_phase) (use adds_them new assms(3) in \<open>auto simp: passed_upd\<close>)
  next
    case (copies_list p r)
    have "pp_phase r \<noteq> Handshake" by (simp add: copies_list)
    then show ?thesis unfolding copies_list(1)
      by (intro unique_phase [OF assms(1)]) (use copies_list new assms(3) in \<open>auto simp: passed_def\<close>)
  qed (use assms in \<open>auto intro!: unique_phase dest: new_phase simp: passed_def\<close>)
qed

lemma unique_fails:
  assumes "unique_inv s" "peer_fails s t" "pool_inv t"
  shows "unique_inv t"
  using assms(2)
proof cases
  case (fails p r)
  show ?thesis by (rule unique_same [OF assms(1) fails(2) _ _ fails(1) assms(3)]) simp_all
qed

lemma unique_stop:
  assumes "unique_inv s" "Stop s t" "pool_inv t"
  shows "unique_inv t"
  using assms(2)
proof cases
  case (closes_peer ps p qs)
  from assms(1) closes_peer have "alive (pl_heap s) p" by (auto simp: unique_inv_def pool_inv_def)
  from close_alive [OF this] obtain r where r: "pl_heap s p = Some r"
    "close_peer p s = s\<lparr>pl_heap := (pl_heap s)(p \<mapsto> r\<lparr>pp_closed := True\<rparr>)\<rparr>" by blast
  show ?thesis
    by (rule unique_inv_less [OF assms(1,3)])
      (use closes_peer r in \<open>auto simp: same_user_upd [of "pl_heap s", OF r(1)]
         passed_same_phase [of "pl_heap s", OF r(1)] split: if_splits\<close>)
qed (use assms in \<open>auto intro: unique_inv_less\<close>)

interpretation unique: invariant "\<lambda>s. s = NewPeerPool" "pool_step True" unique_inv
proof
  show "unique_inv t" if "unique_inv s" "pool_step True s t" for s t
  proof -
    have "pool_inv s" using that(1) by (simp add: unique_inv_def)
    then have "pool_inv t" using pool.step_keeps that(2) by blast
    with that show ?thesis
      by (auto elim!: pool_step.cases intro: unique_new unique_gone unique_validate unique_fails unique_stop)
  qed
qed (simp add: unique_inv_def pool.init_holds NewPeerPool_def)

section \<open>Properties\<close>

lemma new_first:
  "watchNewConnections s t \<Longrightarrow> pl_fault s = None \<Longrightarrow> (pool_step b)\<^sup>*\<^sup>* t v \<Longrightarrow> (pool_step b)\<^sup>*\<^sup>* s v"
  by (blast intro: new_connections converse_rtranclp_into_rtranclp)

lemma validate_first:
  "ValidatePeer b s t \<Longrightarrow> pl_fault s = None \<Longrightarrow> (pool_step b)\<^sup>*\<^sup>* t v \<Longrightarrow> (pool_step b)\<^sup>*\<^sup>* s v"
  by (blast intro: validation converse_rtranclp_into_rtranclp)

text \<open>
  Removing a peer from the pool takes out exactly that peer, once, whatever its position and
  whatever the order it leaves the others in, and reports whether it was there.
\<close>

theorem Remove_exactly_one:
  "mset (fst (Remove p pl)) = mset pl - {#p#} \<and> (snd (Remove p pl) \<longleftrightarrow> p \<in> set pl)"
  using mset_Remove Remove_found by blast

text \<open>
  Listing the peers is right when nothing happens between its two locked calls; a peer that is
  removed between them leaves a nil entry at the end, and one that is appended makes the
  process panic.
\<close>

theorem ListPeers_outcome:
  "ListPeers info at_Len at_Range =
     (if length at_Range \<le> length at_Len
      then Ok (map (Some \<circ> info) at_Range @ replicate (length at_Len - length at_Range) None)
      else Inl Panic)"
  using ListPeers_fill_eq [of 0 "[]" info at_Range "length at_Len"] by (simp add: ListPeers_def)

text \<open>
  C24. The life of a peer ends once: in every interleaving of new connections, handshakes, failures,
  the watcher and a shutdown no peer is closed a second time (which would panic on the
  closed channel), and until the shutdown every peer of the list is still to be closed.
\<close>

theorem Peers_closed_once:
  assumes "(pool_step prompt)\<^sup>*\<^sup>* NewPeerPool s"
  shows "pl_fault s = None \<and> distinct (pl_peers s) \<and>
    (pl_closing s = None \<longrightarrow> list_all (alive (pl_heap s)) (pl_peers s))"
  using pool.reachable_holds [OF assms refl] by (auto simp: pool_inv_def list_all_iff)

text \<open>Peers of the list whose validation ended well, for one user.\<close>

definition validated :: "pool \<Rightarrow> entity_id \<Rightarrow> peer_ref list" where
  "validated s u = filter (\<lambda>p. case pl_heap s p of None \<Rightarrow> False
     | Some r \<Rightarrow> pp_phase r = Accepted \<and> pp_user r = Some u) (pl_peers s)"

text \<open>
  C23. One connection per user: if handshakes end after their peers are in the list, then
  in every interleaving at most one peer of the list has passed the validation for a given
  user, however the validations overlap.
\<close>

theorem One_peer_per_user:
  assumes "(pool_step True)\<^sup>*\<^sup>* NewPeerPool s"
  shows "length (validated s u) \<le> 1"
proof -
  have inv: "unique_inv s" by (rule unique.reachable_holds [OF assms refl])
  then have "distinct (validated s u)" by (simp add: unique_inv_def pool_inv_def validated_def)
  moreover have "p = q" if *: "p \<in> set (validated s u)" "q \<in> set (validated s u)" for p q
  proof (rule ccontr)
    assume "p \<noteq> q"
    moreover have "same_user (pl_heap s) p q" "passed (pl_heap s) p q" "passed (pl_heap s) q p"
      using * by (auto simp: validated_def same_user_def passed_def split: option.splits)
    ultimately show False using * inv unfolding unique_inv_def validated_def by auto
  qed
  ultimately have "card (set (validated s u)) \<le> Suc 0"
    by (auto simp: card_le_Suc0_iff_eq)
  then show ?thesis using distinct_card [OF \<open>distinct (validated s u)\<close>] by simp
qed

text \<open>
  The order of the two statements that create and append a peer matters: without the assumption
  that a handshake outlasts them there is an interleaving that leaves two validated peers of
  one user in the list.
\<close>

theorem Late_append_admits_two:
  "\<exists>s. (pool_step False)\<^sup>*\<^sup>* NewPeerPool s \<and> length (validated s u) = 2"
proof -
  let ?c = "NewConnection ''10.0.0.1:8004'' True"
  let ?h = "\<lambda>us ph. \<lparr>pp_user = us, pp_conn = ?c, pp_phase = ph, pp_gone = False, pp_closed = False\<rparr>"
  let ?t = "NewPeerPool\<lparr>pl_peers := [0, 1], pl_heap := [0 \<mapsto> ?h (Some u) Accepted, 1 \<mapsto> ?h (Some u) Accepted]\<rparr>"
  have "(pool_step False)\<^sup>*\<^sup>* NewPeerPool ?t"
    unfolding NewPeerPool_def
    apply (rule new_first [OF creates [where p = 0 and c = ?c]]; simp)
    apply (rule new_first [OF appends [where p = 0]]; simp add: Append_def)
    apply (rule new_first [OF creates [where p = 1 and c = ?c]]; simp)
    apply (rule validate_first [OF handshaked [where p = 1 and u = u and r = "?h None Handshake"]]; simp add: set_phase_def)
    apply (rule validate_first [OF copies_list [where p = 1 and r = "?h (Some u) Handshaked"]]; simp add: set_phase_def)
    apply (rule validate_first [OF visits_other [where p = 1 and q = 0 and qs = "[]"
          and r = "?h (Some u) (Validating [0])" and rq = "?h None Handshake"]]; simp add: set_phase_def)
    apply (rule validate_first [OF all_differ [where p = 1 and r = "?h (Some u) (Validating [])"]]; simp add: set_phase_def)
    apply (rule validate_first [OF handshaked [where p = 0 and u = u and r = "?h None Handshake"]]; simp add: set_phase_def)
    apply (rule validate_first [OF copies_list [where p = 0 and r = "?h (Some u) Handshaked"]]; simp add: set_phase_def)
    apply (rule validate_first [OF visits_other [where p = 0 and q = 0 and qs = "[]"
          and r = "?h (Some u) (Validating [0])" and rq = "?h (Some u) (Validating [0])"]]; simp add: set_phase_def)
    apply (rule validate_first [OF all_differ [where p = 0 and r = "?h (Some u) (Validating [])"]]; simp add: set_phase_def)
    apply (rule new_first [OF appends [where p = 1]]; simp add: Append_def)
    apply (simp add: fun_upd_twist)
    done
  moreover have "length (validated ?t u) = 2" by (simp add: validated_def NewPeerPool_def)
  ultimately show ?thesis by blast
qed

text \<open>A run in which one peer connects and passes its validation.\<close>

definition toy_pool :: pool where
  "toy_pool = NewPeerPool\<lparr>pl_peers := [0], pl_heap := [0 \<mapsto>
     \<lparr>pp_user = Some ZeroID, pp_conn = NewConnection ''10.0.0.1:8004'' True, pp_phase = Accepted,
      pp_gone = False, pp_closed = False\<rparr>]\<rparr>"

lemma toy_pool_run: "(pool_step True)\<^sup>*\<^sup>* NewPeerPool toy_pool"
proof -
  let ?c = "NewConnection ''10.0.0.1:8004'' True"
  let ?h = "\<lambda>us ph. \<lparr>pp_user = us, pp_conn = ?c, pp_phase = ph, pp_gone = False, pp_closed = False\<rparr>"
  show ?thesis
    unfolding NewPeerPool_def toy_pool_def
    apply (rule new_first [OF creates [where p = 0 and c = ?c]]; simp)
    apply (rule new_first [OF appends [where p = 0]]; simp add: Append_def)
    apply (rule validate_first [OF handshaked [where p = 0 and u = ZeroID and r = "?h None Handshake"]]; simp add: set_phase_def)
    apply (rule validate_first [OF copies_list [where p = 0 and r = "?h (Some ZeroID) Handshaked"]]; simp add: set_phase_def)
    apply (rule validate_first [OF visits_other [where p = 0 and q = 0 and qs = "[]"
          and r = "?h (Some ZeroID) (Validating [0])" and rq = "?h (Some ZeroID) (Validating [0])"]]; simp add: set_phase_def)
    apply (rule validate_first [OF all_differ [where p = 0 and r = "?h (Some ZeroID) (Validating [])"]]; simp add: set_phase_def)
    done
qed

theorem Peers_closed_once_witness: "pl_fault toy_pool = None \<and> alive (pl_heap toy_pool) 0"
  using Peers_closed_once [OF toy_pool_run] by (simp add: toy_pool_def NewPeerPool_def)

theorem One_peer_per_user_witness:
  "length (validated toy_pool ZeroID) \<le> 1 \<and> set (validated toy_pool ZeroID) = {0}"
  using One_peer_per_user [OF toy_pool_run] by (simp add: validated_def toy_pool_def NewPeerPool_def)

end
