(* ===== verification/Keys.thy ===== *)
theory Keys
  imports Account
begin

text \<open>
  Keys in files (\<open>crypto/private_key.go\<close>, and what \<open>public_key.go\<close> and \<open>signer.go\<close> add to it): the
  forms of a key the owner keeps on disk. PEM, the ASN.1 form of a private key and the generator are
  functions of Go's library, a parameter; a private key is what signs with it.
\<close>

section \<open>Keys\<close>

record key_library =
  kl_GenerateKey :: "signer option"
  kl_ParseECPrivateKey :: "bytes \<Rightarrow> signer option"
  kl_MarshalECPrivateKey :: "signer \<Rightarrow> bytes option"
  kl_pem_Decode :: "bytes \<Rightarrow> (gostring \<times> bytes) option"
  kl_pem_EncodeToMemory :: "gostring \<Rightarrow> bytes \<Rightarrow> bytes"

definition NewPrivateKey :: "key_library \<Rightarrow> signer option" where
  "NewPrivateKey kl = kl_GenerateKey kl"

definition ParsePrivateKeyFromDER :: "key_library \<Rightarrow> bytes \<Rightarrow> signer result" where
  "ParsePrivateKeyFromDER kl der = (case kl_ParseECPrivateKey kl der of None \<Rightarrow> Err Parsing | Some key \<Rightarrow> Ok key)"

text \<open>Text without a PEM block decodes to a nil block, whose type is then read.\<close>

definition ParsePrivateKeyFromPEM :: "key_library \<Rightarrow> bytes \<Rightarrow> signer result" where
  "ParsePrivateKeyFromPEM kl encodedKey =
     (case kl_pem_Decode kl encodedKey of
        None \<Rightarrow> Inl Panic
      | Some (typ, der) \<Rightarrow> if typ \<noteq> ''EC PRIVATE KEY'' then Err Parsing else ParsePrivateKeyFromDER kl der)"

definition PrivateKey_EncodeToDER :: "key_library \<Rightarrow> signer \<Rightarrow> bytes result" where
  "PrivateKey_EncodeToDER kl key = (case kl_MarshalECPrivateKey kl key of None \<Rightarrow> Inl Fatal | Some der \<Rightarrow> Ok der)"

definition PrivateKey_EncodeToPEM :: "key_library \<Rightarrow> signer \<Rightarrow> bytes result" where
  "PrivateKey_EncodeToPEM kl key =
     bind_result (PrivateKey_EncodeToDER kl key) (\<lambda>der. Ok (kl_pem_EncodeToMemory kl ''EC PRIVATE KEY'' der))"

definition PrivateKey_Public :: "signer \<Rightarrow> pubkey" where
  "PrivateKey_Public key = s_public key"

definition ParsePublicKeyFromPEM :: "key_library \<Rightarrow> crypto \<Rightarrow> bytes \<Rightarrow> pubkey result" where
  "ParsePublicKeyFromPEM kl cr encodedKey =
     (case kl_pem_Decode kl encodedKey of
        None \<Rightarrow> Inl Panic
      | Some (typ, der) \<Rightarrow> if typ \<noteq> ''EC PUBLIC KEY'' then Err Parsing else ParsePublicKeyFromDER cr der)"

definition PublicKey_EncodeToPEM :: "key_library \<Rightarrow> crypto \<Rightarrow> pubkey \<Rightarrow> bytes" where
  "PublicKey_EncodeToPEM kl cr key = kl_pem_EncodeToMemory kl ''EC PUBLIC KEY'' (EncodeToDER cr key)"

definition NewSigner :: "signer \<Rightarrow> signer" where
  "NewSigner privkey = privkey"

definition Signer_Public :: "signer \<Rightarrow> pubkey" where
  "Signer_Public s = PrivateKey_Public s"

section \<open>A host that keeps keys so\<close>

text \<open>A key of the curve P-224 is always encodable; for any other \<open>EncodeToPEM\<close> ends the process.\<close>

definition keyed :: "key_library \<Rightarrow> host \<Rightarrow> host" where
  "keyed kl h = h\<lparr>h_NewPrivateKey := NewPrivateKey kl,
     h_EncodeToPEM := (\<lambda>key. case PrivateKey_EncodeToPEM kl key of Inr pem \<Rightarrow> pem | Inl _ \<Rightarrow> []),
     h_ParsePrivateKeyFromPEM := ParsePrivateKeyFromPEM kl\<rparr>"

text \<open>The documented behaviour of the library: what it encodes it decodes.\<close>

definition good_keys :: "key_library \<Rightarrow> bool" where
  "good_keys kl \<longleftrightarrow>
     (\<forall>typ \<in> {''EC PRIVATE KEY'', ''EC PUBLIC KEY''}. \<forall>der. kl_pem_Decode kl (kl_pem_EncodeToMemory kl typ der) = Some (typ, der)) \<and>
     (\<forall>key. kl_GenerateKey kl = Some key \<longrightarrow>
        (\<exists>der. kl_MarshalECPrivateKey kl key = Some der \<and> kl_ParseECPrivateKey kl der = Some key))"

lemma PrivateKey_PEM_roundtrip:
  assumes "good_keys kl" "NewPrivateKey kl = Some key"
  obtains pem where "PrivateKey_EncodeToPEM kl key = Ok pem" "ParsePrivateKeyFromPEM kl pem = Ok key"
  using assms
  by (auto simp: good_keys_def NewPrivateKey_def PrivateKey_EncodeToPEM_def PrivateKey_EncodeToDER_def
      ParsePrivateKeyFromPEM_def ParsePrivateKeyFromDER_def)

lemma PublicKey_PEM_roundtrip:
  assumes "good_keys kl" "ParsePublicKeyFromDER cr (EncodeToDER cr key) = Ok key"
  shows "ParsePublicKeyFromPEM kl cr (PublicKey_EncodeToPEM kl cr key) = Ok key"
  using assms by (simp add: good_keys_def PublicKey_EncodeToPEM_def ParsePublicKeyFromPEM_def)

text \<open>A file without a PEM block crashes the program; a block of the other kind is an error.\<close>

lemma key_files_refused:
  "kl_pem_Decode kl bs = None \<Longrightarrow> ParsePrivateKeyFromPEM kl bs = Inl Panic \<and> ParsePublicKeyFromPEM kl cr bs = Inl Panic"
  "good_keys kl \<Longrightarrow> ParsePrivateKeyFromPEM kl (PublicKey_EncodeToPEM kl cr key) = Err Parsing"
  by (simp_all add: ParsePrivateKeyFromPEM_def ParsePublicKeyFromPEM_def PublicKey_EncodeToPEM_def good_keys_def)

section \<open>Properties\<close>

text \<open>
  C25. Registration and login fit together: after \<open>Register\<close> succeeded with a generated key, which it
  writes to a PEM file, opening the owner under the same nickname succeeds, with that very key
  read back from the file as its signer, a user that every peer finds valid under that nickname
  and key, an empty list of other moderators and exactly the subscriptions asked for.
\<close>

theorem Register_then_New:
  assumes "good_keys kl" "Register (keyed kl h) env eng pe dir nick info s dk = (Ok (), dk')" "good_host h'"
    "NewPrivateKey kl = Some key" "good_signer (env_crypto env) key" "reliable eng" "preliable pe"
    "ParsePublicKeyFromDER (env_crypto env) (EncodeToDER (env_crypto env) (s_public key)) = Ok (s_public key)"
  shows "\<exists>ow. OwnerNew (keyed kl h') env eng pe dir nick dk' = Ok ow \<and> ow_Signer ow = NewSigner key \<and>
    User_IsValid env (ow_User ow) = Ok True \<and> uNickname (user_content_of (ow_User ow)) = nick \<and>
    uPubKey (user_content_of (ow_User ow)) = Signer_Public (ow_Signer ow) \<and>
    moderator_set (ow_Profile ow) = {user_id (ow_User ow)} \<and>
    Subscriptions (pr_db (ow_Profile ow)) = map Topic_String s"
proof -
  obtain pem where "PrivateKey_EncodeToPEM kl key = Ok pem" "ParsePrivateKeyFromPEM kl pem = Ok key"
    using PrivateKey_PEM_roundtrip [OF assms(1,4)] .
  then have "h_ParsePrivateKeyFromPEM (keyed kl h') (h_EncodeToPEM (keyed kl h) key) = Ok key" by (simp add: keyed_def)
  moreover have "h_NewPrivateKey (keyed kl h) = Some key" "good_host (keyed kl h')"
    using assms(3,4) by (simp_all add: keyed_def good_host_def)
  ultimately show ?thesis
    using Register_opens [OF assms(2) _ _ _ assms(5-8)] by (auto simp: NewSigner_def Signer_Public_def PrivateKey_Public_def)
qed

section \<open>Witness\<close>

definition toy_keys :: key_library where
  "toy_keys = \<lparr>kl_GenerateKey = Some emerge_signer, kl_ParseECPrivateKey = (\<lambda>_. Some emerge_signer),
     kl_MarshalECPrivateKey = (\<lambda>_. Some [1]),
     kl_pem_Decode = (\<lambda>bs. case bs of [] \<Rightarrow> None | b # der \<Rightarrow> Some (if b = 0 then ''EC PRIVATE KEY'' else ''EC PUBLIC KEY'', der)),
     kl_pem_EncodeToMemory = (\<lambda>typ der. (if typ = ''EC PRIVATE KEY'' then 0 else 1) # der)\<rparr>"

theorem Register_then_New_witness:
  "\<exists>dk' ow. Register (keyed toy_keys toy_host) toy_env toy_engine toy_profile_engine ''home'' ''nick_1'' [] [Some [''x'']] Map.empty =
       (Ok (), dk') \<and>
     OwnerNew (keyed toy_keys toy_host) toy_env toy_engine toy_profile_engine ''home'' ''nick_1'' dk' = Ok ow \<and>
     ow_Signer ow = emerge_signer \<and> Subscriptions (pr_db (ow_Profile ow)) = [''x'']"
proof -
  have good: "good_keys toy_keys" by (simp add: good_keys_def toy_keys_def)
  have new: "NewPrivateKey toy_keys = Some emerge_signer" by (simp add: NewPrivateKey_def toy_keys_def)
  from toy_put_user obtain d where d: "PutUser toy_env toy_engine toy_user Epoch empty_database = (Ok (), d)" by blast
  have r: "reliable toy_engine" using faithful_toy by (simp add: faithful_def)
  obtain dk' where reg: "Register (keyed toy_keys toy_host) toy_env toy_engine toy_profile_engine ''home'' ''nick_1'' []
      [Some [''x'']] Map.empty = (Ok (), dk')"
    using d r new
    by (simp add: Register_def Register_keys_def Register_entities_def Register_profile_def keyed_def toy_host_def
        toy_EmergeUser entity_file_def profile_file_def empty_dir_def OpenEntityDatabase_reliable
        OpenProfileDatabase_reliable PutEntity_def NewStorage_def NewProfile_def empty_profile_database_def
        Profile_PutSubscription_def PutSubscription_def Let_def)
  have "good_host toy_host" by (simp add: good_host_def toy_host_def)
  from Register_then_New [OF good reg this new good_emerge_signer r preliable_toy toy_key_parses] reg show ?thesis
    by (auto simp: NewSigner_def Topic_String_def)
qed

end
