(* ===== verification/Session.thy ===== *)
theory Session
  imports Client
begin

text \<open>
  Sessions of the web front end (\<open>cmd/dscuss-web/controller\<close>: \<open>session.go\<close>,
  \<open>session_pool.go\<close>, \<open>sessions.go\<close>) and the query encoding of \<open>net/url\<close>. Sessions are pointers: the
  pool maps identifiers to references, and a request that is being served holds one.
\<close>

section \<open>Query encoding\<close>

definition hex_digits :: gostring where "hex_digits = ''0123456789ABCDEF''"

definition unhex :: "char \<Rightarrow> nat option" where
  "unhex c =
     (let n = of_char c :: nat
      in if 48 \<le> n \<and> n \<le> 57 then Some (n - 48)
         else if 65 \<le> n \<and> n \<le> 70 then Some (n - 55)
         else if 97 \<le> n \<and> n \<le> 102 then Some (n - 87)
         else None)"

definition unreserved :: gostring where
  "unreserved = ''ABCDEFGHIJKLMNOPQRSTUVWXYZabcdefghijklmnopqrstuvwxyz0123456789-_.~''"

definition escape_char :: "char \<Rightarrow> gostring" where
  "escape_char c =
     (if c = CHR '' '' then ''+''
      else if c \<in> set unreserved then [c]
      else let n = of_char c :: nat in [CHR ''%'', hex_digits ! (n div 16), hex_digits ! (n mod 16)])"

definition QueryEscape :: "gostring \<Rightarrow> gostring" where
  "QueryEscape s = concat (map escape_char s)"

fun QueryUnescape :: "gostring \<Rightarrow> gostring option" where
  "QueryUnescape [] = Some []"
| "QueryUnescape (c # cs) =
     (if c = CHR ''%'' then
        (case cs of
           a # b # rest \<Rightarrow>
             (case (unhex a, unhex b) of
                (Some x, Some y) \<Rightarrow> map_option ((#) (char_of (16 * x + y))) (QueryUnescape rest)
              | _ \<Rightarrow> None)
         | _ \<Rightarrow> None)
      else map_option ((#) (if c = CHR ''+'' then CHR '' '' else c)) (QueryUnescape cs))"

lemma unhex_digit: "i < 16 \<Longrightarrow> unhex (hex_digits ! i) = Some i"
proof -
  have "\<forall>i \<in> set [0..<16]. unhex (hex_digits ! i) = Some i" by code_simp
  then show "i < 16 \<Longrightarrow> unhex (hex_digits ! i) = Some i" by simp
qed

lemma of_char_div16 [simp]: "(of_char c :: nat) div 16 < 16"
proof -
  have "(of_char c :: nat) mod 256 < 256" by (rule mod_less_divisor) simp
  then have "(of_char c :: nat) < 16 * 16" by (simp only: of_char_mod_256)
  then show ?thesis by (rule less_mult_imp_div_less)
qed

lemma QueryUnescape_escape_char:
  "QueryUnescape (escape_char c @ s) = map_option ((#) c) (QueryUnescape s)"
proof (cases "c = CHR '' '' \<or> c \<in> set unreserved")
  case True
  then have "c = CHR '' '' \<or> (c \<in> set unreserved \<and> c \<noteq> CHR ''%'' \<and> c \<noteq> CHR ''+'')"
    by (auto simp: unreserved_def)
  then show ?thesis by (auto simp: escape_char_def)
next
  case False
  then show ?thesis
    by (auto simp: escape_char_def Let_def unhex_digit mult_div_mod_eq)
qed

lemma QueryUnescape_Escape [simp]: "QueryUnescape (QueryEscape s) = Some s"
  by (induction s) (simp_all add: QueryEscape_def QueryUnescape_escape_char)

lemma QueryUnescape_plain:
  "CHR ''%'' \<notin> set s \<Longrightarrow> QueryUnescape s = Some (map (\<lambda>c. if c = CHR ''+'' then CHR '' '' else c) s)"
  by (induction s) auto

section \<open>Sessions\<close>

record session =
  se_ID :: gostring
  se_IsAuthenticated :: bool
  se_CSRFToken :: gostring
  se_CreatedDate :: time
  se_UpdatedDate :: time

definition sessionIDLength :: nat where "sessionIDLength = 32"
definition csrfTokenLength :: nat where "csrfTokenLength = 32"
definition maxSessionLife :: duration where "maxSessionLife = 200 * Hour"

definition Authenticate :: "gostring \<Rightarrow> user \<Rightarrow> gostring \<Rightarrow> gostring \<Rightarrow> session \<Rightarrow> gostring option \<times> session" where
  "Authenticate password u user pass s =
     (if \<not> (user = uNickname (user_content_of u) \<and> pass = password)
      then (Some ''Incorrect username or password'', s)
      else (None, s\<lparr>se_IsAuthenticated := True\<rparr>))"

section \<open>The pool\<close>

type_synonym session_ref = nat
type_synonym session_pool = "(gostring \<times> session_ref) list"
type_synonym session_heap = "session_ref \<Rightarrow> session"

text \<open>The order of the list is the order in which the map happens to be iterated.\<close>

definition newSessionPool :: session_pool where "newSessionPool = []"

definition pool_add :: "gostring \<Rightarrow> session_ref \<Rightarrow> session_pool \<Rightarrow> session_pool result" where
  "pool_add i s ss = (if map_of ss i \<noteq> None then Inl Fatal else Ok ((i, s) # ss))"

definition pool_load :: "gostring \<Rightarrow> session_pool \<Rightarrow> session_ref option" where
  "pool_load i ss = map_of ss i"

definition removeSession :: "session_heap \<Rightarrow> gostring \<Rightarrow> session_pool \<Rightarrow> session_pool" where
  "removeSession heap i ss =
     (if \<exists>(k, s) \<in> set ss. se_ID (heap s) = i then filter (\<lambda>(k, s). k \<noteq> i) ss else ss)"

text \<open>Each session is compared with a reading of the clock of its own.\<close>

fun removeExpired_loop ::
  "session_heap \<Rightarrow> (gostring \<Rightarrow> time) \<Rightarrow> session_pool \<Rightarrow> session_pool \<Rightarrow> session_pool" where
  "removeExpired_loop heap now [] ss = ss"
| "removeExpired_loop heap now ((i, s) # tmp) ss =
     removeExpired_loop heap now tmp
       (if se_UpdatedDate (heap s) < now i - maxSessionLife then removeSession heap (se_ID (heap s)) ss else ss)"

definition removeExpiredSessions :: "session_heap \<Rightarrow> (gostring \<Rightarrow> time) \<Rightarrow> session_pool \<Rightarrow> session_pool" where
  "removeExpiredSessions heap now ss = removeExpired_loop heap now ss ss"

definition newRandString :: "bytes option \<Rightarrow> gostring result" where
  "newRandString b = (case b of None \<Rightarrow> Inl Fatal | Some b \<Rightarrow> Ok (b64_encode True url_alphabet b))"

section \<open>Requests\<close>

text \<open>
  A request as \<open>net/http\<close> hands it to a handler: \<open>rq_FormValue\<close> and \<open>rq_PostFormValue\<close> are the
  methods of the same names, \<open>rq_Query\<close> are the parameters of the URL.
\<close>

record request =
  rq_Method :: gostring
  rq_Path :: gostring
  rq_RawQuery :: gostring
  rq_Query :: "(gostring \<times> gostring) list"
  rq_FormValue :: "gostring \<Rightarrow> gostring"
  rq_PostFormValue :: "gostring \<Rightarrow> gostring"
  rq_Cookie :: "gostring option"

definition query_len :: "request \<Rightarrow> nat" where
  "query_len r = length (remdups (map fst (rq_Query r)))"

definition query_get :: "request \<Rightarrow> gostring \<Rightarrow> gostring" where
  "query_get r k = (case map_of (rq_Query r) k of None \<Rightarrow> '''' | Some v \<Rightarrow> v)"

text \<open>What opening a session reads: the clock, the random source and a new address.\<close>

record moment =
  mo_check :: time
  mo_touch :: time
  mo_expire :: "gostring \<Rightarrow> time"
  mo_created :: time
  mo_updated :: time
  mo_rand_id :: "bytes option"
  mo_rand_token :: "bytes option"
  mo_ref :: session_ref

text \<open>The session named by the cookie, unless it has been idle for too long.\<close>

definition live_session :: "moment \<Rightarrow> request \<Rightarrow> session_pool \<Rightarrow> session_heap \<Rightarrow> session_ref option" where
  "live_session mo r ss heap =
     (case rq_Cookie r of
        None \<Rightarrow> None
      | Some sessionID \<Rightarrow>
          (case pool_load sessionID ss of
             None \<Rightarrow> None
           | Some s \<Rightarrow> if mo_check mo - maxSessionLife < se_UpdatedDate (heap s) then Some s else None))"

datatype set_cookies = No_cookies | Set_cookies gostring gostring | Clear_cookies

definition OpenSession ::
  "moment \<Rightarrow> request \<Rightarrow> session_pool \<Rightarrow> session_heap
     \<Rightarrow> (session_ref \<times> set_cookies) result \<times> session_pool \<times> session_heap" where
  "OpenSession mo r ss heap =
     (case live_session mo r ss heap of
        Some s \<Rightarrow> (Ok (s, No_cookies), ss, heap(s := (heap s)\<lparr>se_UpdatedDate := mo_touch mo\<rparr>))
      | None \<Rightarrow>
          let ss1 = removeExpiredSessions heap (mo_expire mo) ss
          in (case (newRandString (mo_rand_id mo), newRandString (mo_rand_token mo)) of
                (Inr i, Inr tok) \<Rightarrow>
                  let s = \<lparr>se_ID = i, se_IsAuthenticated = False, se_CSRFToken = tok,
                           se_CreatedDate = mo_created mo, se_UpdatedDate = mo_updated mo\<rparr>
                  in (case pool_add i (mo_ref mo) ss1 of
                        Inl err \<Rightarrow> (Inl err, ss1, heap)
                      | Inr ss2 \<Rightarrow> (Ok (mo_ref mo, Set_cookies i tok), ss2, heap(mo_ref mo := s)))
              | _ \<Rightarrow> (Inl Fatal, ss1, heap)))"

definition CloseSession :: "request \<Rightarrow> session_heap \<Rightarrow> session_pool \<Rightarrow> set_cookies \<times> session_pool" where
  "CloseSession r heap ss =
     (Clear_cookies, case rq_Cookie r of None \<Rightarrow> ss | Some sessionID \<Rightarrow> removeSession heap sessionID ss)"

section \<open>A pool in good order\<close>

definition pool_ok :: "session_pool \<Rightarrow> session_heap \<Rightarrow> bool" where
  "pool_ok ss heap \<longleftrightarrow> distinct (map fst ss) \<and> distinct (map snd ss) \<and> (\<forall>(k, s) \<in> set ss. se_ID (heap s) = k)"

definition expired :: "session_heap \<Rightarrow> (gostring \<Rightarrow> time) \<Rightarrow> gostring \<times> session_ref \<Rightarrow> bool" where
  "expired heap now = (\<lambda>(k, s). se_UpdatedDate (heap s) < now k - maxSessionLife)"

lemma pool_ok_empty [simp]: "pool_ok newSessionPool heap"
  by (simp add: pool_ok_def newSessionPool_def)

lemma pool_ok_filter: "pool_ok ss heap \<Longrightarrow> pool_ok (filter P ss) heap"
  by (auto simp: pool_ok_def distinct_map_filter)

lemma removeSession_filter:
  "\<forall>(k, s) \<in> set ss. se_ID (heap s) = k \<Longrightarrow> removeSession heap i ss = filter (\<lambda>(k, s). k \<noteq> i) ss"
  by (auto simp: removeSession_def intro!: filter_True [symmetric])

lemma removeExpired_loop_filter:
  "\<forall>(k, s) \<in> set ss. se_ID (heap s) = k \<Longrightarrow> \<forall>(k, s) \<in> set tmp. se_ID (heap s) = k \<Longrightarrow>
   removeExpired_loop heap now tmp ss = filter (\<lambda>(k, s). \<forall>s'. (k, s') \<in> set tmp \<longrightarrow> \<not> expired heap now (k, s')) ss"
proof (induction heap now tmp ss rule: removeExpired_loop.induct)
  case (2 heap now i s tmp ss)
  let ?ss = "if se_UpdatedDate (heap s) < now i - maxSessionLife then removeSession heap (se_ID (heap s)) ss else ss"
  have "\<forall>(k, s) \<in> set ?ss. se_ID (heap s) = k"
    using 2(2) by (auto simp: removeSession_filter)
  moreover have "?ss = filter (\<lambda>(k, s'). k = i \<longrightarrow> \<not> expired heap now (i, s)) ss"
    using 2(2,3) by (auto simp: removeSession_filter expired_def intro!: filter_cong filter_True [symmetric])
  ultimately show ?case using 2(1) 2(3)
    by (auto intro!: filter_cong)
qed simp

lemma removeExpiredSessions_filter:
  assumes "pool_ok ss heap"
  shows "removeExpiredSessions heap now ss = filter (\<lambda>ks. \<not> expired heap now ks) ss"
proof -
  have "(\<forall>s'. (k, s') \<in> set ss \<longrightarrow> \<not> expired heap now (k, s')) \<longleftrightarrow> \<not> expired heap now (k, s)"
    if "(k, s) \<in> set ss" for k s
    using assms that by (auto simp: pool_ok_def dest: eq_key_imp_eq_value)
  with assms show ?thesis
    by (auto simp: removeExpiredSessions_def pool_ok_def removeExpired_loop_filter intro!: filter_cong)
qed

lemma pool_ok_load: "pool_ok ss heap \<Longrightarrow> pool_load k ss = Some s \<longleftrightarrow> (k, s) \<in> set ss"
  by (simp add: pool_load_def pool_ok_def)

lemma live_session_pooled:
  "live_session mo r ss heap = Some s \<Longrightarrow> \<exists>k. rq_Cookie r = Some k \<and> (k, s) \<in> set ss"
  by (auto simp: live_session_def pool_load_def split: option.splits if_splits dest: map_of_SomeD)

lemma pool_ok_touch:
  "pool_ok ss heap \<Longrightarrow> se_ID s' = se_ID (heap s) \<Longrightarrow> pool_ok ss (heap(s := s'))"
  by (auto simp: pool_ok_def)

text \<open>What opening a session can give.\<close>

lemma OpenSession_cases:
  assumes "OpenSession mo r ss heap = (res, ss', heap')"
  obtains (live) s where "live_session mo r ss heap = Some s" "res = Ok (s, No_cookies)" "ss' = ss"
      "heap' = heap(s := (heap s)\<lparr>se_UpdatedDate := mo_touch mo\<rparr>)"
  | (fresh) i tok s where "live_session mo r ss heap = None" "res = Ok (mo_ref mo, Set_cookies i tok)"
      "ss' = (i, mo_ref mo) # removeExpiredSessions heap (mo_expire mo) ss"
      "map_of (removeExpiredSessions heap (mo_expire mo) ss) i = None" "heap' = heap(mo_ref mo := s)"
      "se_ID s = i" "se_CSRFToken s = tok" "\<not> se_IsAuthenticated s" "se_UpdatedDate s = mo_updated mo"
  | (fatal) "live_session mo r ss heap = None" "res = Inl Fatal" "heap' = heap"
      "ss' = removeExpiredSessions heap (mo_expire mo) ss"
proof (cases "live_session mo r ss heap")
  case (Some s)
  with assms show ?thesis by (intro live [of s]) (auto simp: OpenSession_def)
next
  case None
  let ?ss = "removeExpiredSessions heap (mo_expire mo) ss"
  consider i tok where "newRandString (mo_rand_id mo) = Inr i" "newRandString (mo_rand_token mo) = Inr tok"
      "map_of ?ss i = None"
    | "\<forall>i tok. newRandString (mo_rand_id mo) = Inr i \<longrightarrow> newRandString (mo_rand_token mo) = Inr tok \<longrightarrow>
         map_of ?ss i \<noteq> None"
    by blast
  then show ?thesis
  proof cases
    case (1 i tok)
    with assms None show ?thesis
      by (intro fresh [of i tok, OF None]) (auto simp: OpenSession_def pool_add_def Let_def)
  next
    case 2
    with assms None show ?thesis
      by (intro fatal) (auto simp: OpenSession_def pool_add_def Let_def split: sum.splits)
  qed
qed

lemma pool_ok_OpenSession:
  assumes "OpenSession mo r ss heap = (res, ss', heap')" "pool_ok ss heap" "mo_ref mo \<notin> snd ` set ss"
  shows "pool_ok ss' heap'"
  using assms(1)
proof (cases rule: OpenSession_cases)
  case (live s)
  with assms(2) show ?thesis by (auto intro: pool_ok_touch)
next
  case (fresh i tok s)
  have "pool_ok (removeExpiredSessions heap (mo_expire mo) ss) heap'"
    using assms(2,3) fresh(5)
    by (force simp: removeExpiredSessions_filter pool_ok_def distinct_map_filter image_iff)
  with assms fresh show ?thesis
    by (auto simp: pool_ok_def removeExpiredSessions_filter map_of_eq_None_iff)
qed (use assms(2) in \<open>simp add: removeExpiredSessions_filter pool_ok_filter\<close>)

end
