(* ===== verification/Web.thy ===== *)
theory Web
  imports Session
begin

text \<open>
  The handlers of the web front end (\<open>cmd/dscuss-web/controller\<close>): the data they show and one
  definition per handler. A handler works on a turn: the session of the request, the
  process behind the site and the replies written so far, of which the first one counts
  and later ones are still written. A page is its template
  and the data given to it; what the templates make of them is in \<open>Pages\<close>.
\<close>

section \<open>The site\<close>

text \<open>\<open>si_RFC3339\<close> is \<open>Format(time.RFC3339)\<close>.\<close>

record site =
  si_rt :: runtime
  si_handle :: handle_ref
  si_password :: gostring
  si_RFC3339 :: "time \<Rightarrow> gostring"

text \<open>
  What a handler finds when it runs: the clock when an entity is made and when it is
  stored, the connected peers, and the address of a handle allocated by a new login.
\<close>

record serving =
  sv_clock :: "time \<times> time \<times> time"
  sv_now :: time
  sv_peers :: "peer_info option list result"
  sv_new :: handle_ref

section \<open>What is shown\<close>

record web_user =
  wu_ID :: gostring
  wu_ShortID :: gostring
  wu_Nickname :: gostring
  wu_Info :: gostring
  wu_RegDate :: gostring

record web_message =
  wm_ID :: gostring
  wm_ShortID :: gostring
  wm_Subject :: gostring
  wm_Text :: gostring
  wm_DateWritten :: gostring
  wm_AuthorName :: gostring
  wm_AuthorID :: gostring
  wm_AuthorShortID :: gostring

record root_message =
  rm_Message :: web_message
  rm_Topic :: gostring

record web_thread =
  wt_Root :: root_message
  wt_Replies :: "web_message list"

record web_operation =
  wo_ID :: gostring
  wo_ShortID :: gostring
  wo_Type :: gostring
  wo_Reason :: gostring
  wo_Comment :: gostring
  wo_DatePerformed :: gostring
  wo_AuthorName :: gostring
  wo_AuthorID :: gostring
  wo_AuthorShortID :: gostring

record web_peer =
  wp_Nickname :: gostring
  wp_ID :: gostring
  wp_LocalAddr :: gostring
  wp_RemoteAddr :: gostring
  wp_AssociatedAddrs :: gostring
  wp_Subscriptions :: gostring
  wp_State :: gostring

record peer_history =
  ph_ID :: gostring
  ph_Disconnected :: gostring
  ph_Subscriptions :: gostring

definition zero_user :: web_user where
  "zero_user = \<lparr>wu_ID = '''', wu_ShortID = '''', wu_Nickname = '''', wu_Info = '''', wu_RegDate = ''''\<rparr>"

definition zero_message :: web_message where
  "zero_message = \<lparr>wm_ID = '''', wm_ShortID = '''', wm_Subject = '''', wm_Text = '''', wm_DateWritten = '''',
     wm_AuthorName = '''', wm_AuthorID = '''', wm_AuthorShortID = ''''\<rparr>"

definition zero_thread :: web_thread where
  "zero_thread = \<lparr>wt_Root = \<lparr>rm_Message = zero_message, rm_Topic = ''''\<rparr>, wt_Replies = []\<rparr>"

definition userName :: "site \<Rightarrow> process \<Rightarrow> entity_id \<Rightarrow> gostring result" where
  "userName st p i = shown_nickname (ask_handle (si_handle st) (ApiGetUser (si_rt st) i) p)"

definition User_Assign :: "site \<Rightarrow> user \<Rightarrow> web_user" where
  "User_Assign st u = \<lparr>wu_ID = ID_String (user_id u), wu_ShortID = Shorten (user_id u),
     wu_Nickname = uNickname (user_content_of u), wu_Info = uInfo (user_content_of u),
     wu_RegDate = si_RFC3339 st (uRegDate (user_content_of u))\<rparr>"

definition Message_Assign :: "site \<Rightarrow> process \<Rightarrow> message \<Rightarrow> web_message result" where
  "Message_Assign st p m =
     (let c = message_content_of m
      in bind_result (userName st p (mAuthorID c)) (\<lambda>name. Ok
           \<lparr>wm_ID = ID_String (message_id m), wm_ShortID = Shorten (message_id m), wm_Subject = mSubject c,
            wm_Text = mText c, wm_DateWritten = si_RFC3339 st (mDateWritten c), wm_AuthorName = name,
            wm_AuthorID = ID_String (mAuthorID c), wm_AuthorShortID = Shorten (mAuthorID c)\<rparr>))"

definition RootMessage_Assign :: "site \<Rightarrow> process \<Rightarrow> message \<Rightarrow> root_message result" where
  "RootMessage_Assign st p m =
     bind_result (Message_Assign st p m)
       (\<lambda>wm. Ok \<lparr>rm_Message = wm, rm_Topic = Topic_String (mTopic (message_content_of m))\<rparr>)"

definition Operation_Assign :: "site \<Rightarrow> process \<Rightarrow> operation \<Rightarrow> web_operation result" where
  "Operation_Assign st p e =
     (let c = operation_content_of e
      in bind_result (userName st p (oAuthorID c)) (\<lambda>name. Ok
           \<lparr>wo_ID = ID_String (operation_id e), wo_ShortID = Shorten (operation_id e),
            wo_Type = OperationType_String (oType c), wo_Reason = OperationReason_String (oReason c),
            wo_Comment = oComment c, wo_DatePerformed = si_RFC3339 st (oDatePerformed c), wo_AuthorName = name,
            wo_AuthorID = ID_String (oAuthorID c), wo_AuthorShortID = Shorten (oAuthorID c)\<rparr>))"

definition Peer_Assign :: "peer_info \<Rightarrow> web_peer" where
  "Peer_Assign i = \<lparr>wp_Nickname = pi_Nickname i, wp_ID = pi_ID i, wp_LocalAddr = pi_LocalAddr i,
     wp_RemoteAddr = pi_RemoteAddr i, wp_AssociatedAddrs = join comma (pi_AssociatedAddrs i),
     wp_Subscriptions = join newline (pi_Subscriptions i), wp_State = pi_State i\<rparr>"

definition PeerHistory_Assign :: "site \<Rightarrow> user_history \<Rightarrow> peer_history" where
  "PeerHistory_Assign st uh = \<lparr>ph_ID = ID_String (h_id uh), ph_Disconnected = si_RFC3339 st (h_disconnected uh),
     ph_Subscriptions = join newline (StringSlice (h_subs uh))\<rparr>"

section \<open>Replies\<close>

record common_data =
  cd_CSRF :: gostring
  cd_Owner :: web_user
  cd_NodeName :: gostring
  cd_PageTitle :: gostring
  cd_Topic :: gostring
  cd_CurrentURL :: gostring
  cd_ShowLogin :: bool
  cd_IsWritingPermitted :: bool

datatype page =
    Login_page gostring gostring
  | Board_page "root_message list"
  | Thread_page bool gostring web_thread
  | Create_page gostring gostring gostring
  | Reply_page root_message web_message gostring gostring bool gostring
  | Profile_page "web_user list" "gostring list" gostring
  | Remove_page web_message gostring gostring gostring
  | Ban_page web_user gostring gostring gostring
  | Operations_page "web_operation list"
  | User_page web_user
  | Peers_page "web_peer list"
  | History_page "peer_history list"

datatype reply =
    NotFound
  | BadRequest gostring
  | Forbidden
  | ServerError
  | Redirect gostring
  | Cookies set_cookies
  | Rendered common_data page
  | Static gostring

record turn =
  tn_session :: session
  tn_proc :: process
  tn_out :: "reply list"

type_synonym handler = "site \<Rightarrow> serving \<Rightarrow> request \<Rightarrow> turn \<Rightarrow> unit result \<times> turn"

definition say :: "reply \<Rightarrow> turn \<Rightarrow> unit result \<times> turn" where
  "say r t = (Ok (), t\<lparr>tn_out := tn_out t @ [r]\<rparr>)"

text \<open>A call on the process, and a call that only reads it.\<close>

definition in_turn :: "(process \<Rightarrow> 'a result \<times> process) \<Rightarrow> turn \<Rightarrow> 'a result \<times> turn" where
  "in_turn f t = (case f (tn_proc t) of (r, p) \<Rightarrow> (r, t\<lparr>tn_proc := p\<rparr>))"

definition asks :: "(process \<Rightarrow> 'a result) \<Rightarrow> turn \<Rightarrow> 'a result \<times> turn" where
  "asks f t = (f (tn_proc t), t)"

definition panic :: "turn \<Rightarrow> unit result \<times> turn" where
  "panic t = (Inl Panic, t)"

definition isPost :: "request \<Rightarrow> bool" where
  "isPost r \<longleftrightarrow> rq_Method r = ''POST''"

text \<open>The configuration of the site; nothing reads \<open>AllowReadOnlyMode\<close>.\<close>

record web_config =
  wc_NodeName :: gostring
  wc_AllowReadOnlyMode :: bool

definition web_defaultConfig :: web_config where
  "web_defaultConfig = \<lparr>wc_NodeName = ''Dscuss demo'', wc_AllowReadOnlyMode = True\<rparr>"

definition web_config_New :: web_config where
  "web_config_New = web_defaultConfig"

definition readCommonData :: "site \<Rightarrow> request \<Rightarrow> turn \<Rightarrow> common_data result" where
  "readCommonData st r t =
     (let s = tn_session t;
          url = (if rq_RawQuery r \<noteq> '''' then rq_Path r @ ''?'' @ rq_RawQuery r else rq_Path r);
          cd = \<lparr>cd_CSRF = se_CSRFToken s, cd_Owner = zero_user, cd_NodeName = wc_NodeName web_config_New, cd_PageTitle = '''',
                cd_Topic = '''', cd_CurrentURL = (if rq_Path r \<noteq> '''' then QueryEscape url else ''/''),
                cd_ShowLogin = (rq_Path r \<noteq> '''' \<longrightarrow> Truncate url 6 \<noteq> ''/login''), cd_IsWritingPermitted = False\<rparr>
      in if se_IsAuthenticated s
         then bind_result (ask_handle (si_handle st) (\<lambda>ow. Ok (GetLoggedUser ow)) (tn_proc t))
                (\<lambda>u. Ok (cd\<lparr>cd_Owner := User_Assign st u, cd_IsWritingPermitted := True\<rparr>))
         else Ok cd)"

definition render :: "site \<Rightarrow> request \<Rightarrow> gostring \<Rightarrow> gostring \<Rightarrow> page \<Rightarrow> turn \<Rightarrow> unit result \<times> turn" where
  "render st r title topic data t =
     exec (readCommonData st r t, t) (\<lambda>cd. say (Rendered (cd\<lparr>cd_PageTitle := title, cd_Topic := topic\<rparr>) data))"

definition wrong_number :: reply where "wrong_number = BadRequest ''Wrong number of query parameters''"

definition not_encoded :: reply where "not_encoded = BadRequest '' is not a valid URL-encoded string.''"

section \<open>Logging in\<close>

definition MaxPasswordLen :: nat where "MaxPasswordLen = 64"

definition login_redirect :: "request \<Rightarrow> gostring" where
  "login_redirect r =
     (let next = rq_FormValue r ''next''
      in case (if isPost r then QueryUnescape next else Some next) of
           None \<Rightarrow> ''/''
         | Some u \<Rightarrow> if u = '''' \<or> hd u \<noteq> CHR ''/'' then ''/'' else u)"

definition handleLogin :: handler where
  "handleLogin st sv r t =
     (let form = (\<lambda>msg. render st r ''Owner authentication'' '''' (Login_page (QueryEscape (login_redirect r)) msg))
      in if 1 < query_len r then say wrong_number t
         else if se_IsAuthenticated (tn_session t) then say (Redirect (login_redirect r)) t
         else if isPost r then
           (let user = rq_PostFormValue r ''username''; pass = rq_PostFormValue r ''password''
            in if MaxUsernameLen < length user \<or> MaxPasswordLen < length pass
               then form ''Specified username or password is too long.'' t
               else exec (asks (ask_handle (si_handle st) (\<lambda>ow. Ok (GetLoggedUser ow))) t) (\<lambda>u t.
                 (case Authenticate (si_password st) u user pass (tn_session t) of
                    (Some err, s) \<Rightarrow> form err (t\<lparr>tn_session := s\<rparr>)
                  | (None, s) \<Rightarrow> say (Redirect (login_redirect r)) (t\<lparr>tn_session := s\<rparr>))))
         else form '''' t)"

section \<open>Reading\<close>

definition boardSize :: int where "boardSize = 10"

definition board_uri :: "gostring \<Rightarrow> bool" where
  "board_uri p \<longleftrightarrow> p = ''/board'' \<or>
     Truncate p 12 = ''/boardtopic='' \<and> set (drop 12 p) \<subseteq> set ''abcdefghijklmnopqrstuvwxyz,''"

definition handleBoard :: handler where
  "handleBoard st sv r t =
     (let topicStr = query_get r ''topic'';
          show = (\<lambda>topic. call (in_turn (on_handle (si_handle st)
                     (if topic \<noteq> None then ListTopic (si_rt st) topic 0 boardSize
                      else ListBoard (si_rt st) 0 boardSize)) t)
                   (\<lambda>res t. case res of
                      Inl err \<Rightarrow> panic t
                    | Inr messages \<Rightarrow>
                        exec (asks (\<lambda>p. map_result (RootMessage_Assign st p) messages) t)
                          (\<lambda>threads. render st r ''Board'' topicStr (Board_page threads))))
      in if 1 < query_len r then say wrong_number t
         else if \<not> board_uri (rq_Path r) then say NotFound t
         else if topicStr = '''' then show None
         else (case NewTopic topicStr of
                 Inl (Error e) \<Rightarrow> say (BadRequest (''Unacceptable topic: '' @ error_text e @ ''.'')) t
               | Inl f \<Rightarrow> (Inl f, t)
               | Inr topic \<Rightarrow> show topic))"

definition ThreadComposer_Handle :: "site \<Rightarrow> process \<Rightarrow> (web_thread result) viewing_handler" where
  "ThreadComposer_Handle st p n acc =
     (True, bind_result acc (\<lambda>t.
        if IsRoot n then bind_result (RootMessage_Assign st p (Msg (here n))) (\<lambda>rm. Ok (t\<lparr>wt_Root := rm\<rparr>))
        else bind_result (Message_Assign st p (Msg (here n))) (\<lambda>wm. Ok (t\<lparr>wt_Replies := wt_Replies t @ [wm]\<rparr>))))"

definition handleThread :: handler where
  "handleThread st sv r t =
     (let idStr = query_get r ''id''
      in if query_len r \<noteq> 1 then say wrong_number t
         else (case ID_ParseString ZeroID idStr of
                 Inl err \<Rightarrow> say (BadRequest (idStr @ '' is not a valid entity ID.'')) t
               | Inr tid \<Rightarrow>
                   call (in_turn (on_handle (si_handle st) (ListThread (si_rt st) tid)) t)
                     (\<lambda>res t. case res of
                        Inl err \<Rightarrow> panic t
                      | Inr node \<Rightarrow>
                          exec (asks (\<lambda>p. View (ThreadComposer_Handle st p) (map_option (\<lambda>n. At n None) node)
                                  (Ok zero_thread)) t)
                            (\<lambda>th. render st r (wm_Subject (rm_Message (wt_Root th))) (rm_Topic (wt_Root th))
                               (Thread_page (node \<noteq> None) idStr th)))))"

text \<open>
  \<open>NotFoundHandler\<close> without a return: the handler goes on with a nil user or message, whose
  first field is a nil dereference.
\<close>

definition found :: "error + 'a \<Rightarrow> turn \<Rightarrow> ('a \<Rightarrow> turn \<Rightarrow> unit result \<times> turn) \<Rightarrow> unit result \<times> turn" where
  "found res t k =
     (case res of
        Inl e \<Rightarrow> if e = NoSuchEntity then exec (say NotFound t) (\<lambda>_. panic) else panic t
      | Inr x \<Rightarrow> k x t)"

definition not_an_ID :: "gostring \<Rightarrow> reply" where
  "not_an_ID s = BadRequest ([CHR 0x27] @ s @ [CHR 0x27] @ '' is not a valid entity ID.'')"

definition handleUser :: handler where
  "handleUser st sv r t =
     (let uidStr = query_get r ''id''
      in if query_len r \<noteq> 1 then say wrong_number t
         else (case ID_ParseString ZeroID uidStr of
                 Inl err \<Rightarrow> say (not_an_ID uidStr) t
               | Inr uid \<Rightarrow>
                   call (asks (ask_handle (si_handle st) (ApiGetUser (si_rt st) uid)) t) (\<lambda>res t.
                     found res t (\<lambda>ent. let u = User_Assign st ent in
                       render st r (''Profile of '' @ wu_Nickname u @ ''-'' @ wu_ShortID u) '''' (User_page u)))))"

definition handleListPeers :: handler where
  "handleListPeers st sv r t =
     (if \<not> se_IsAuthenticated (tn_session t) then say Forbidden t
      else if query_len r \<noteq> 0 then say wrong_number t
      else exec (bind_result (sv_peers sv) sort_by_nickname, t)
             (\<lambda>peers. render st r ''Connected peers'' '''' (Peers_page (map Peer_Assign peers))))"

definition handlePeerHistory :: handler where
  "handlePeerHistory st sv r t =
     (if \<not> se_IsAuthenticated (tn_session t) then say Forbidden t
      else if query_len r \<noteq> 0 then say wrong_number t
      else exec (asks (ask_handle (si_handle st) (ListUserHistory (si_rt st))) t)
             (\<lambda>hh. render st r ''Peer history'' '''' (History_page (map (PeerHistory_Assign st) hh))))"

text \<open>Here too the handler goes on after \<open>NotFoundHandler\<close>, with no operations.\<close>

definition handleListOperations :: handler where
  "handleListOperations st sv r t =
     (let idStr = query_get r ''id''; entType = query_get r ''type'';
          list = (\<lambda>get what i. call (asks (ask_handle (si_handle st) (get (si_rt st) i)) t) (\<lambda>res t.
             let show = (\<lambda>ents. exec (asks (\<lambda>p. map_result (Operation_Assign st p) ents) t) (\<lambda>ops.
                    render st r (''Operations on '' @ what @ '' #'' @ Shorten i) '''' (Operations_page ops)))
             in case res of
                  Inl e \<Rightarrow> if e = NoSuchEntity
                           then exec (say NotFound t) (\<lambda>_. render st r (''Operations on '' @ what @ '' #'' @ Shorten i)
                                  '''' (Operations_page []))
                           else panic t
                | Inr ents \<Rightarrow> show ents))
      in if query_len r \<noteq> 2 then say wrong_number t
         else (case ID_ParseString ZeroID idStr of
                 Inl err \<Rightarrow> say (not_an_ID idStr) t
               | Inr i \<Rightarrow>
                   if entType = ''user'' then list ListOperationsOnUser ''user'' i
                   else if entType = ''msg'' then list ListOperationsOnMessage ''message'' i
                   else say (BadRequest ([CHR 0x27] @ entType @ [CHR 0x27] @ '' is not a valid entity type.'')) t))"

section \<open>Writing\<close>

text \<open>
  For a posted form the result of decoding a value once more is a variable of an inner
  block: it can fail, but the value used afterwards is the one as it came.
\<close>

definition decodes :: "request \<Rightarrow> gostring \<Rightarrow> bool" where
  "decodes r s \<longleftrightarrow> isPost r \<longrightarrow> QueryUnescape s \<noteq> None"

definition bad_subject :: gostring where "bad_subject = ''Specified subject is unacceptable: empty or too long.''"
definition bad_text :: gostring where "bad_text = ''Specified message text is unacceptable: empty or too long.''"
definition bad_comment :: gostring where "bad_comment = ''Specified comment is too long.''"

definition handleCreateThread :: handler where
  "handleCreateThread st sv r t =
     (let topic = rq_FormValue r ''topic'';
          subj = rq_PostFormValue r ''subject'';
          txt = rq_PostFormValue r ''text'';
          form = (\<lambda>s x msg. render st r ''Start new dscussion'' topic (Create_page s x msg))
      in if 1 < query_len r then say wrong_number t
         else if \<not> se_IsAuthenticated (tn_session t) then say Forbidden t
         else if \<not> decodes r topic then say not_encoded t
         else if \<not> isPost r then form '''' '''' '''' t
         else call (NewTopic topic, t) (\<lambda>res t. case res of
                Inl e \<Rightarrow> form '''' '''' (''Specified topic is unacceptable: '' @ error_text e) t
              | Inr tpc \<Rightarrow>
                  if subj = '''' \<or> MaxMessageSubjectLen < length subj then form subj txt bad_subject t
                  else if txt = '''' \<or> MaxMessageTextLen < length txt then form subj txt bad_text t
                  else call (in_turn (handle_message (si_handle st)
                              (\<lambda>ow. NewThread (si_rt st) subj txt tpc (sv_clock sv) ow)) t) (\<lambda>res t. case res of
                         Inl e \<Rightarrow> form subj txt (''Error making new dscussion: '' @ error_text e @ ''.'') t
                       | Inr thread \<Rightarrow>
                           call (in_turn (on_handle (si_handle st) (PostEntity (si_rt st) (EMessage thread) (sv_now sv))) t)
                             (\<lambda>res t. case res of
                                Inl e \<Rightarrow> form subj txt (''Error posting new dscussion: '' @ error_text e @ ''.'') t
                              | Inr _ \<Rightarrow> say (Redirect ''/board'') t))))"

text \<open>The root of the message a handler works on; every error of the walk is a panic.\<close>

definition with_root ::
  "site \<Rightarrow> message \<Rightarrow> turn \<Rightarrow> (message \<Rightarrow> turn \<Rightarrow> unit result \<times> turn) \<Rightarrow> unit result \<times> turn" where
  "with_root st m t k =
     call (asks (ask_handle (si_handle st) (GetRootMessage (si_rt st) m)) t)
       (\<lambda>res t. case res of Inl e \<Rightarrow> panic t | Inr root \<Rightarrow> k root t)"

definition thread_url :: "message \<Rightarrow> gostring" where
  "thread_url root = ''/thread?id='' @ QueryEscape (ID_String (message_id root))"

definition reply_form ::
  "site \<Rightarrow> serving \<Rightarrow> request \<Rightarrow> entity_id \<Rightarrow> message \<Rightarrow> message \<Rightarrow> root_message \<Rightarrow> web_message
     \<Rightarrow> turn \<Rightarrow> unit result \<times> turn" where
  "reply_form st sv r pid m root rm pm t =
     (let subj = rq_PostFormValue r ''subject'';
          txt = rq_PostFormValue r ''text'';
          form = (\<lambda>s x msg. render st r (''Reply to '' @ wm_Subject (rm_Message rm)) (rm_Topic rm)
                    (Reply_page rm pm s x (IsReply m) msg))
      in if \<not> isPost r then form '''' '''' '''' t
         else if subj = '''' \<or> MaxMessageSubjectLen < length subj then form subj txt bad_subject t
         else if txt = '''' \<or> MaxMessageTextLen < length txt then form subj txt bad_text t
         else call (in_turn (handle_message (si_handle st)
                     (\<lambda>ow. NewReply (si_rt st) subj txt pid (sv_clock sv) ow)) t) (\<lambda>res t. case res of
                Inl e \<Rightarrow> form subj txt (''Error making new reply: '' @ error_text e @ ''.'') t
              | Inr rplMsg \<Rightarrow>
                  call (in_turn (on_handle (si_handle st) (PostEntity (si_rt st) (EMessage rplMsg) (sv_now sv))) t)
                    (\<lambda>res t. case res of
                       Inl e \<Rightarrow> form subj txt (''Error posting new reply: '' @ error_text e @ ''.'') t
                     | Inr _ \<Rightarrow> say (Redirect (''/thread?id='' @ QueryEscape (wm_ID (rm_Message rm)))) t)))"

definition handleReplyThread :: handler where
  "handleReplyThread st sv r t =
     (let pidStr = rq_FormValue r ''id''
      in if 1 < query_len r then say wrong_number t
         else if \<not> se_IsAuthenticated (tn_session t) then say Forbidden t
         else if \<not> decodes r pidStr then say not_encoded t
         else (case ID_ParseString ZeroID pidStr of
                 Inl err \<Rightarrow> say (not_an_ID pidStr) t
               | Inr pid \<Rightarrow>
                   call (asks (ask_handle (si_handle st) (ApiGetMessage (si_rt st) pid)) t) (\<lambda>res t.
                     found res t (\<lambda>m t.
                       exec (asks (\<lambda>p. Message_Assign st p m) t) (\<lambda>pm t.
                       with_root st m t (\<lambda>root t.
                       exec (asks (\<lambda>p. RootMessage_Assign st p root) t) (\<lambda>rm t.
                       reply_form st sv r pid m root rm pm t)))))))"

text \<open>The end both moderating handlers share: check the form, make the operation, post it.\<close>

definition post_operation ::
  "site \<Rightarrow> serving \<Rightarrow> request \<Rightarrow> int \<Rightarrow> entity_id \<Rightarrow> gostring
     \<Rightarrow> (gostring \<Rightarrow> gostring \<Rightarrow> gostring \<Rightarrow> turn \<Rightarrow> unit result \<times> turn) \<Rightarrow> turn \<Rightarrow> unit result \<times> turn" where
  "post_operation st sv r typ tid next form t =
     (let reasonStr = rq_PostFormValue r ''reason'';
          comment = rq_PostFormValue r ''comment''
      in if MaxOperationCommentLen < length comment then form reasonStr comment bad_comment t
         else (case OperationReason_ParseString reasonStr of
                 Inl err \<Rightarrow> say (BadRequest (reasonStr @ '' is not a valid operation reason.'')) t
               | Inr reason \<Rightarrow>
                   call (in_turn (handle_operation (si_handle st)
                          (\<lambda>ow. NewOperation (si_rt st) typ reason comment tid (sv_clock sv) ow)) t) (\<lambda>res t. case res of
                     Inl e \<Rightarrow> panic t
                   | Inr oper \<Rightarrow>
                       call (in_turn (on_handle (si_handle st) (PostEntity (si_rt st) (EOperation oper) (sv_now sv))) t)
                         (\<lambda>res t. case res of Inl e \<Rightarrow> panic t | Inr _ \<Rightarrow> say (Redirect next) t))))"

definition handleBanUser :: handler where
  "handleBanUser st sv r t =
     (let tidStr = rq_FormValue r ''id''
      in if 1 < query_len r then say wrong_number t
         else if \<not> se_IsAuthenticated (tn_session t) then say Forbidden t
         else if \<not> decodes r tidStr then say not_encoded t
         else (case ID_ParseString ZeroID tidStr of
                 Inl err \<Rightarrow> say (not_an_ID tidStr) t
               | Inr tid \<Rightarrow>
                   call (asks (ask_handle (si_handle st) (ApiGetUser (si_rt st) tid)) t) (\<lambda>res t.
                     found res t (\<lambda>u t.
                       let tg = User_Assign st u;
                           form = (\<lambda>reason comment msg.
                             render st r (''Banning user '' @ wu_Nickname tg @ ''-'' @ wu_ShortID tg) ''''
                               (Ban_page tg reason comment msg))
                       in if isPost r then post_operation st sv r OperationTypeBanUser tid ''/board'' form t
                          else form '''' '''' '''' t))))"

definition handleRemoveMessage :: handler where
  "handleRemoveMessage st sv r t =
     (let tidStr = rq_FormValue r ''id''
      in if 1 < query_len r then say wrong_number t
         else if \<not> se_IsAuthenticated (tn_session t) then say Forbidden t
         else if \<not> decodes r tidStr then say not_encoded t
         else (case ID_ParseString ZeroID tidStr of
                 Inl err \<Rightarrow> say (not_an_ID tidStr) t
               | Inr tid \<Rightarrow>
                   call (asks (ask_handle (si_handle st) (ApiGetMessage (si_rt st) tid)) t) (\<lambda>res t.
                     found res t (\<lambda>m t.
                       exec (asks (\<lambda>p. Message_Assign st p m) t) (\<lambda>tg t.
                       with_root st m t (\<lambda>root t.
                         let form = (\<lambda>reason comment msg.
                               render st r (''Removing message #'' @ wm_ShortID tg)
                                 (Topic_String (mTopic (message_content_of root)))
                                 (Remove_page tg reason comment msg))
                         in if isPost r
                            then post_operation st sv r OperationTypeRemoveMessage tid (thread_url root) form t
                            else form '''' '''' '''' t))))))"

section \<open>The profile\<close>

definition shown_moderators :: "site \<Rightarrow> entity_id list \<Rightarrow> process \<Rightarrow> web_user list result" where
  "shown_moderators st mm p =
     map_result (\<lambda>mdr. case ask_handle (si_handle st) (ApiGetUser (si_rt st) mdr) p of
        Inl (Error e) \<Rightarrow> Inl Panic
      | Inl f \<Rightarrow> Inl f
      | Inr u \<Rightarrow> Ok (User_Assign st u)) mm"

definition handleProfile :: handler where
  "handleProfile st sv r t =
     (if \<not> se_IsAuthenticated (tn_session t) then say Forbidden t
      else if query_len r \<noteq> 0 then say wrong_number t
      else exec (in_turn (on_handle (si_handle st) (ListSubscriptions (si_rt st))) t) (\<lambda>ss t.
           exec (in_turn (on_handle (si_handle st) (ListModerators (si_rt st))) t) (\<lambda>mm t.
           exec (asks (shown_moderators st mm) t) (\<lambda>moders t.
           exec (if isPost r then say (Redirect ''/board'') t else (Ok (), t)) (\<lambda>_ t.
           render st r ''Node owner's profile'' ''''
             (Profile_page moders (map Topic_String ss) '''') t)))))"

text \<open>Here the decoded value replaces the one that came, which was decoded already.\<close>

definition handleAddModerator :: handler where
  "handleAddModerator st sv r t =
     (if query_len r \<noteq> 0 then say wrong_number t
      else if \<not> se_IsAuthenticated (tn_session t) then say Forbidden t
      else (case QueryUnescape (rq_FormValue r ''id'') of
              None \<Rightarrow> say not_encoded t
            | Some idStr \<Rightarrow>
                (case ID_ParseString ZeroID idStr of
                   Inl err \<Rightarrow> say (not_an_ID idStr) t
                 | Inr i \<Rightarrow>
                     call (in_turn (on_handle (si_handle st) (AddModerator (si_rt st) i)) t) (\<lambda>res t. case res of
                       Inl e \<Rightarrow>
                         if e = AlreadyModerator
                         then exec (say (BadRequest (''Can't add new moderator: '' @ error_text e @ ''.'')) t)
                                (\<lambda>_. say (Redirect ''/profile''))
                         else panic t
                     | Inr _ \<Rightarrow> say (Redirect ''/profile'') t))))"

definition handleDelModerator :: handler where
  "handleDelModerator st sv r t =
     (let idStr = query_get r ''id''
      in if query_len r \<noteq> 1 then say wrong_number t
         else if \<not> se_IsAuthenticated (tn_session t) then say Forbidden t
         else (case ID_ParseString ZeroID idStr of
                 Inl err \<Rightarrow> say (BadRequest (idStr @ '' is not a valid entity ID.'')) t
               | Inr mid \<Rightarrow>
                   call (in_turn (on_handle (si_handle st) (RemoveModerator (si_rt st) mid)) t)
                     (\<lambda>res t. case res of Inl e \<Rightarrow> panic t | Inr _ \<Rightarrow> say (Redirect ''/profile'') t)))"

definition relogin_and_return :: "site \<Rightarrow> serving \<Rightarrow> turn \<Rightarrow> unit result \<times> turn" where
  "relogin_and_return st sv t =
     call (in_turn (Relogin (si_rt st) (si_handle st) (sv_new sv)) t)
       (\<lambda>res t. case res of Inl e \<Rightarrow> panic t | Inr _ \<Rightarrow> say (Redirect ''/profile'') t)"

text \<open>What both subscription handlers do with the outcome of their change.\<close>

definition after_change ::
  "site \<Rightarrow> serving \<Rightarrow> gostring \<Rightarrow> unit result \<times> turn \<Rightarrow> unit result \<times> turn" where
  "after_change st sv topicStr rt =
     call rt (\<lambda>res t. case res of
       Inl e \<Rightarrow>
         if e = AlreadySubscribed
         then exec (say (BadRequest (''Can't add topic '' @ [CHR 0x27] @ topicStr @
                   [CHR 0x27] @ '': '' @ error_text e)) t) (\<lambda>_. relogin_and_return st sv)
         else panic t
     | Inr _ \<Rightarrow> relogin_and_return st sv t)"

definition handleSubscribe :: handler where
  "handleSubscribe st sv r t =
     (if query_len r \<noteq> 0 then say wrong_number t
      else if \<not> se_IsAuthenticated (tn_session t) then say Forbidden t
      else (case QueryUnescape (rq_FormValue r ''topic'') of
              None \<Rightarrow> say not_encoded t
            | Some topicStr \<Rightarrow>
                call (NewTopic topicStr, t) (\<lambda>res t. case res of
                  Inl e \<Rightarrow> say (BadRequest (topicStr @ '' is not a valid topic string.'')) t
                | Inr topic \<Rightarrow>
                    after_change st sv topicStr (in_turn (on_handle (si_handle st) (Subscribe (si_rt st) topic)) t))))"

definition handleUnsubscribe :: handler where
  "handleUnsubscribe st sv r t =
     (let topicStr = query_get r ''topic''
      in if query_len r \<noteq> 1 then say wrong_number t
         else if \<not> se_IsAuthenticated (tn_session t) then say Forbidden t
         else call (NewTopic topicStr, t) (\<lambda>res t.
                if (case res of Inl e \<Rightarrow> True | Inr topic \<Rightarrow> topic = None)
                then say (BadRequest ''Empty topic string is not acceptable.'') t
                else (case res of
                        Inl e \<Rightarrow> say (BadRequest (topicStr @ '' is not a valid URL-encoded string.'')) t
                      | Inr topic \<Rightarrow>
                          after_change st sv topicStr
                            (in_turn (on_handle (si_handle st) (Unsubscribe (si_rt st) topic)) t))))"

end
