(* ===== verification/Site.thy ===== *)
theory Site
  imports Web
begin

text \<open>
  The site (\<open>makeHandler\<close>, \<open>InitHandlers\<close>, \<open>LogoutHandler\<close>, \<open>RootHandler\<close>, the routes of
  \<open>cmd/dscuss-web/main.go\<close>): requests are served concurrently, so a run interleaves the
  opening of sessions, the handlers and what the peers do to the owner. A handler runs in
  one step, as if it were atomic.
\<close>

section \<open>Serving a request\<close>

definition routes :: "(gostring \<times> handler) list" where
  "routes =
     [(''/login'', handleLogin), (''/board'', handleBoard), (''/profile'', handleProfile),
      (''/thread'', handleThread), (''/thread/create'', handleCreateThread),
      (''/thread/reply'', handleReplyThread), (''/moder/add'', handleAddModerator),
      (''/moder/del'', handleDelModerator), (''/sub/add'', handleSubscribe), (''/sub/del'', handleUnsubscribe),
      (''/user'', handleUser), (''/oper/del'', handleRemoveMessage), (''/oper/ban'', handleBanUser),
      (''/oper/list'', handleListOperations), (''/peer/list'', handleListPeers),
      (''/peer/history'', handlePeerHistory)]"

text \<open>
  The closure \<open>makeHandler\<close> returns, after its session has been opened: the check of the
  token, the handler, and the recovery from a panic. The other faults end the process or
  never return.
\<close>

definition checked :: "handler \<Rightarrow> handler" where
  "checked fn st sv r t =
     (if isPost r \<and> rq_PostFormValue r ''csrf'' \<noteq> se_CSRFToken (tn_session t) then say Forbidden t
      else fn st sv r t)"

definition serve :: "handler \<Rightarrow> site \<Rightarrow> serving \<Rightarrow> request \<Rightarrow> turn \<Rightarrow> unit result \<times> turn" where
  "serve fn st sv r t =
     (case checked fn st sv r t of
        (Inl Panic, t') \<Rightarrow> say ServerError t'
      | (Inl (Error e), t') \<Rightarrow> say ServerError t'
      | rt \<Rightarrow> rt)"

definition LogoutHandler :: "request \<Rightarrow> session_heap \<Rightarrow> session_pool \<Rightarrow> reply list \<times> session_pool" where
  "LogoutHandler r heap ss =
     (if rq_Path r \<noteq> ''/logout'' then ([NotFound], ss)
      else (case CloseSession r heap ss of (ck, ss') \<Rightarrow> ([Cookies ck, Redirect ''/''], ss')))"

definition RootHandler :: "request \<Rightarrow> reply list" where
  "RootHandler r = (if rq_Path r \<noteq> ''/'' then [NotFound] else [Redirect ''/board''])"

definition static_reply :: "request \<Rightarrow> reply list" where
  "static_reply r =
     (if rq_Path r = ''/static/dscuss.css'' then [Static ''text/css'']
      else if rq_Path r = ''/static/dscuss.js'' then [Static ''text/javascript'']
      else RootHandler r)"

section \<open>Runs\<close>

record web =
  wb_ss :: session_pool
  wb_heap :: session_heap
  wb_proc :: process
  wb_open :: "nat \<rightharpoonup> request \<times> session_ref"
  wb_down :: "fault option"

datatype event =
    Accepted nat request session_ref set_cookies
  | Served request session_ref "reply list"
  | LoggedOut request "reply list"
  | Answered request "reply list"
  | Crashed request
  | Background

definition in_use :: "web \<Rightarrow> session_ref set" where
  "in_use w = snd ` set (wb_ss w) \<union> snd ` ran (wb_open w)"

inductive web_step :: "site \<Rightarrow> web \<Rightarrow> event \<Rightarrow> web \<Rightarrow> bool" for st where
  accepts: "wb_down w = None \<Longrightarrow> map_of routes (rq_Path r) \<noteq> None \<Longrightarrow> IsValid (Some (si_handle st)) (wb_proc w) \<Longrightarrow>
    wb_open w n = None \<Longrightarrow> mo_ref mo \<notin> in_use w \<Longrightarrow>
    OpenSession mo r (wb_ss w) (wb_heap w) = (Ok (s, ck), ss', heap') \<Longrightarrow>
    web_step st w (Accepted n r s ck) (w\<lparr>wb_ss := ss', wb_heap := heap', wb_open := (wb_open w)(n \<mapsto> (r, s))\<rparr>)"
| cannot_open: "wb_down w = None \<Longrightarrow> map_of routes (rq_Path r) \<noteq> None \<Longrightarrow> IsValid (Some (si_handle st)) (wb_proc w) \<Longrightarrow>
    OpenSession mo r (wb_ss w) (wb_heap w) = (Inl f, ss', heap') \<Longrightarrow>
    web_step st w (Crashed r) (w\<lparr>wb_ss := ss', wb_heap := heap', wb_down := Some f\<rparr>)"
| no_handle: "wb_down w = None \<Longrightarrow> map_of routes (rq_Path r) \<noteq> None \<Longrightarrow> \<not> IsValid (Some (si_handle st)) (wb_proc w) \<Longrightarrow>
    web_step st w (Answered r [ServerError]) w"
| serves: "wb_down w = None \<Longrightarrow> wb_open w n = Some (r, s) \<Longrightarrow> map_of routes (rq_Path r) = Some fn \<Longrightarrow>
    serve fn st sv r \<lparr>tn_session = wb_heap w s, tn_proc = wb_proc w, tn_out = []\<rparr> = (res, t) \<Longrightarrow>
    web_step st w (Served r s (tn_out t))
      (w\<lparr>wb_heap := (wb_heap w)(s := tn_session t), wb_proc := tn_proc t, wb_open := (wb_open w)(n := None),
         wb_down := (case res of Inl f \<Rightarrow> Some f | Inr _ \<Rightarrow> None)\<rparr>)"
| logs_out: "wb_down w = None \<Longrightarrow> rq_Path r = ''/logout'' \<Longrightarrow> LogoutHandler r (wb_heap w) (wb_ss w) = (outs, ss') \<Longrightarrow>
    web_step st w (LoggedOut r outs) (w\<lparr>wb_ss := ss'\<rparr>)"
| static: "wb_down w = None \<Longrightarrow> map_of routes (rq_Path r) = None \<Longrightarrow> rq_Path r \<noteq> ''/logout'' \<Longrightarrow>
    web_step st w (Answered r (static_reply r)) w"
| background: "wb_down w = None \<Longrightarrow> ps_handles (wb_proc w) (si_handle st) = Some h \<Longrightarrow>
    owner_op (si_rt st) (lh_owner h) ow \<Longrightarrow>
    web_step st w Background (w\<lparr>wb_proc := with_owner (si_handle st) ow (wb_proc w)\<rparr>)"

inductive_cases web_stepE: "web_step st w e w'"

text \<open>A run with the state before each of its events.\<close>

inductive web_run :: "site \<Rightarrow> web \<Rightarrow> (web \<times> event) list \<Rightarrow> web \<Rightarrow> bool" for st where
  starts: "web_run st w [] w"
| goes_on: "web_run st w tr v \<Longrightarrow> web_step st v e u \<Longrightarrow> web_run st w (tr @ [(v, e)]) u"

text \<open>\<open>InitHandlers\<close>: a site that has just been started.\<close>

definition InitHandlers :: "process \<Rightarrow> session_heap \<Rightarrow> web" where
  "InitHandlers p heap = \<lparr>wb_ss = newSessionPool, wb_heap = heap, wb_proc = p, wb_open = Map.empty, wb_down = None\<rparr>"

section \<open>What handlers do to the process\<close>

text \<open>A reader may only fill the caches of the profile.\<close>

definition reads :: "site \<Rightarrow> process \<Rightarrow> process \<Rightarrow> bool" where
  "reads st p q \<longleftrightarrow> p = q \<or> (\<exists>h prof. ps_handles p (si_handle st) = Some h \<and>
     pr_db prof = pr_db (ow_Profile (lh_owner h)) \<and> selfID prof = selfID (ow_Profile (lh_owner h)) \<and>
     q = with_owner (si_handle st) ((lh_owner h)\<lparr>ow_Profile := prof\<rparr>) p)"

text \<open>A writer works through the operations of the handle, and may log in again.\<close>

inductive works1 :: "site \<Rightarrow> process \<Rightarrow> process \<Rightarrow> bool" for st where
  operates: "ps_handles p (si_handle st) = Some h \<Longrightarrow> owner_op (si_rt st) (lh_owner h) ow \<Longrightarrow>
    works1 st p (with_owner (si_handle st) ow p)"
| makes_message: "works1 st p (p\<lparr>ps_lastMsg := t\<rparr>)"
| makes_operation: "works1 st p (p\<lparr>ps_lastOper := t\<rparr>)"
| logs_in_again: "Relogin (si_rt st) (si_handle st) new p = (r, q) \<Longrightarrow> works1 st p q"

abbreviation works :: "site \<Rightarrow> process \<Rightarrow> process \<Rightarrow> bool" where "works st \<equiv> (works1 st)\<^sup>*\<^sup>*"

definition turns :: "(process \<Rightarrow> process \<Rightarrow> bool) \<Rightarrow> turn \<Rightarrow> turn \<Rightarrow> bool" where
  "turns R t u \<longleftrightarrow> tn_session u = tn_session t \<and> R (tn_proc t) (tn_proc u)"

lemma with_owner_simps [simp]:
  "ps_handles (with_owner l ow p) l = map_option (\<lambda>h. h\<lparr>lh_owner := ow\<rparr>) (ps_handles p l)"
  "with_owner l ow' (with_owner l ow p) = with_owner l ow' p"
  "ps_login (with_owner l ow p) = ps_login p" "ps_disk (with_owner l ow p) = ps_disk p"
  "ps_dir (with_owner l ow p) = ps_dir p" "ps_cfg (with_owner l ow p) = ps_cfg p"
  "ps_lastMsg (with_owner l ow p) = ps_lastMsg p" "ps_lastOper (with_owner l ow p) = ps_lastOper p"
  by (simp_all add: with_owner_def option.map_comp comp_def)

lemma reads_refl: "reads st p p" by (simp add: reads_def)

lemma reads_trans:
  assumes "reads st p q" "reads st q u"
  shows "reads st p u"
proof (cases "p = q \<or> q = u")
  case True
  with assms show ?thesis by auto
next
  case False
  with assms(1) obtain h prof where *: "ps_handles p (si_handle st) = Some h"
      "pr_db prof = pr_db (ow_Profile (lh_owner h))" "selfID prof = selfID (ow_Profile (lh_owner h))"
      "q = with_owner (si_handle st) ((lh_owner h)\<lparr>ow_Profile := prof\<rparr>) p"
    by (auto simp: reads_def)
  with False assms(2) obtain prof' where "pr_db prof' = pr_db prof" "selfID prof' = selfID prof"
      "u = with_owner (si_handle st) ((lh_owner h)\<lparr>ow_Profile := prof'\<rparr>) p"
    by (auto simp: reads_def)
  with * show ?thesis by (auto simp: reads_def)
qed

interpretation reading: effect "turns (reads st)" for st
  by unfold_locales (auto simp: turns_def intro: reads_refl reads_trans)

interpretation working: effect "turns (works st)" for st
  by unfold_locales (auto simp: turns_def intro: rtranclp_trans)

text \<open>The calls handlers make.\<close>

lemma turns_say [simp]: "turns R t (snd (say x t)) \<longleftrightarrow> R (tn_proc t) (tn_proc t)"
  by (simp add: turns_def say_def)

lemma turns_in_turn: "R (tn_proc t) (snd (f (tn_proc t))) \<Longrightarrow> turns R t (snd (in_turn f t))"
  by (auto simp: turns_def in_turn_def split: prod.split)

lemma turns_asks [simp]: "turns R t (snd (asks f t)) \<longleftrightarrow> R (tn_proc t) (tn_proc t)"
  by (simp add: turns_def asks_def)

lemma turns_panic [simp]: "turns R t (snd (panic t)) \<longleftrightarrow> R (tn_proc t) (tn_proc t)"
  by (simp add: turns_def panic_def)

lemma turns_render [simp]: "R (tn_proc t) (tn_proc t) \<Longrightarrow> turns R t (snd (render st r title topic data t))"
  by (simp add: turns_def render_def exec_def say_def split: sum.split)

definition quiet :: "(owner \<Rightarrow> 'a result \<times> owner) \<Rightarrow> bool" where
  "quiet f \<longleftrightarrow> (\<forall>ow r ow'. f ow = (r, ow') \<longrightarrow>
     ow' = ow\<lparr>ow_Profile := ow_Profile ow'\<rparr> \<and> same_profile (ow_Profile ow) (ow_Profile ow'))"

lemma on_handle_reads: "quiet f \<Longrightarrow> reads st p (snd (on_handle (si_handle st) f p))"
  unfolding quiet_def reads_def on_handle_def same_profile_def
  by (auto split: option.split prod.split) metis

lemma quiet_on_profile_of:
  "(\<And>p r p'. f p = (r, p') \<Longrightarrow> same_profile p p') \<Longrightarrow> quiet (on_profile_of f)"
  by (auto simp: quiet_def on_profile_of_def split: prod.splits)

lemma moderated_keeps:
  "moderated rt mm ow = (r, ow') \<Longrightarrow>
     ow' = ow\<lparr>ow_Profile := ow_Profile ow'\<rparr> \<and> same_profile (ow_Profile ow) (ow_Profile ow')"
  by (auto simp: moderated_def split: sum.splits prod.splits dest: ModerateMessages_keeps [OF _ same_profile_refl])

lemma quiet_ops [simp]:
  "quiet (ListBoard rt offset limit)" "quiet (ListTopic rt tpc offset limit)" "quiet (ListThread rt i)"
  "quiet (ListSubscriptions rt)" "quiet (ListModerators rt)"
proof -
  show "quiet (ListBoard rt offset limit)" "quiet (ListTopic rt tpc offset limit)"
    unfolding quiet_def ListBoard_def ListTopic_def by (auto split: if_splits dest: moderated_keeps)
  show "quiet (ListThread rt i)"
    unfolding quiet_def ListThread_def
    by (auto split: option.splits sum.splits prod.splits dest: ModerateThread_keeps [OF _ same_profile_refl])
  show "quiet (ListSubscriptions rt)" "quiet (ListModerators rt)"
    unfolding ListSubscriptions_def ListModerators_def same_profile_def
    by (auto intro!: quiet_on_profile_of simp: same_profile_def dest: subs.get_keeps moderators.get_keeps)
qed

lemmas reads_steps = reading.effects turns_in_turn on_handle_reads
lemmas outcome_splits = if_splits sum.splits option.splits fault.splits

lemma reading_found:
  "(\<And>x t. turns (reads st) t (snd (k x t))) \<Longrightarrow> turns (reads st) t (snd (found res t k))"
  by (auto simp: found_def reads_refl intro!: reads_steps split: sum.split)

lemma readers_read:
  "turns (reads st) t (snd (handleBoard st sv r t))" "turns (reads st) t (snd (handleThread st sv r t))"
  "turns (reads st) t (snd (handleUser st sv r t))" "turns (reads st) t (snd (handleListPeers st sv r t))"
  "turns (reads st) t (snd (handlePeerHistory st sv r t))"
  "turns (reads st) t (snd (handleListOperations st sv r t))" "turns (reads st) t (snd (handleProfile st sv r t))"
proof -
  show "turns (reads st) t (snd (handleBoard st sv r t))"
    by (auto simp: handleBoard_def Let_def reads_refl intro!: reads_steps split: outcome_splits)
  show "turns (reads st) t (snd (handleThread st sv r t))"
    by (auto simp: handleThread_def Let_def reads_refl intro!: reads_steps split: outcome_splits)
  show "turns (reads st) t (snd (handleUser st sv r t))"
    by (auto simp: handleUser_def Let_def reads_refl intro!: reads_steps reading_found split: outcome_splits)
  show "turns (reads st) t (snd (handleListPeers st sv r t))"
    by (auto simp: handleListPeers_def reads_refl intro!: reads_steps)
  show "turns (reads st) t (snd (handlePeerHistory st sv r t))"
    by (auto simp: handlePeerHistory_def reads_refl intro!: reads_steps)
  show "turns (reads st) t (snd (handleListOperations st sv r t))"
    by (auto simp: handleListOperations_def Let_def reads_refl intro!: reads_steps split: outcome_splits)
  show "turns (reads st) t (snd (handleProfile st sv r t))"
    by (auto simp: handleProfile_def reads_refl intro!: reads_steps split: outcome_splits)
qed

lemma on_handle_works:
  "(\<And>ow. owner_op (si_rt st) ow (snd (f ow))) \<Longrightarrow> works st p (snd (on_handle (si_handle st) f p))"
  unfolding on_handle_def
  by (auto split: option.split prod.split) (metis operates r_into_rtranclp snd_conv)

lemma handle_message_works: "works st p (snd (handle_message (si_handle st) f p))"
  by (auto simp: handle_message_def split: option.split prod.split intro: makes_message)

lemma handle_operation_works: "works st p (snd (handle_operation (si_handle st) f p))"
  by (auto simp: handle_operation_def split: option.split prod.split intro: makes_operation)

lemma Relogin_works: "works st p (snd (Relogin (si_rt st) (si_handle st) new p))"
  by (metis logs_in_again prod.collapse r_into_rtranclp)

lemma PostEntity_op: "owner_op rt ow (snd (PostEntity rt e now ow))"
  by (auto simp: PostEntity_def split: prod.split intro: stores)

lemmas works_steps = working.effects turns_in_turn on_handle_works handle_message_works handle_operation_works
  Relogin_works PostEntity_op subscribes unsubscribes adds_moderator removes_moderator lists_subscriptions
  lists_moderators lists_board lists_topic lists_thread

lemma working_found:
  "(\<And>x t. turns (works st) t (snd (k x t))) \<Longrightarrow> turns (works st) t (snd (found res t k))"
  by (auto simp: found_def intro!: works_steps split: sum.split)

lemma working_with_root:
  "(\<And>x t. turns (works st) t (snd (k x t))) \<Longrightarrow> turns (works st) t (snd (with_root st m t k))"
  by (auto simp: with_root_def intro!: works_steps split: sum.split)

lemma working_forms:
  "turns (works st) t (snd (reply_form st sv r pid m root rm pm t))"
  "(\<And>a b c t. turns (works st) t (snd (form a b c t))) \<Longrightarrow>
     turns (works st) t (snd (post_operation st sv r typ tid next form t))"
  "turns (works st) t (snd (relogin_and_return st sv t))"
proof -
  show "turns (works st) t (snd (reply_form st sv r pid m root rm pm t))"
    by (auto simp: reply_form_def Let_def intro!: works_steps split: outcome_splits)
  show "(\<And>a b c t. turns (works st) t (snd (form a b c t))) \<Longrightarrow>
     turns (works st) t (snd (post_operation st sv r typ tid next form t))"
    by (auto simp: post_operation_def Let_def intro!: works_steps split: outcome_splits)
  show "turns (works st) t (snd (relogin_and_return st sv t))"
    by (auto simp: relogin_and_return_def intro!: works_steps split: outcome_splits)
qed

lemma working_after_change: "turns (works st) t (snd rt) \<Longrightarrow> turns (works st) t (snd (after_change st sv s rt))"
  unfolding after_change_def
  by (auto intro!: works_steps working_forms split: outcome_splits)

lemma writers_work:
  "turns (works st) t (snd (handleCreateThread st sv r t))" "turns (works st) t (snd (handleReplyThread st sv r t))"
  "turns (works st) t (snd (handleBanUser st sv r t))" "turns (works st) t (snd (handleRemoveMessage st sv r t))"
  "turns (works st) t (snd (handleAddModerator st sv r t))" "turns (works st) t (snd (handleDelModerator st sv r t))"
  "turns (works st) t (snd (handleSubscribe st sv r t))" "turns (works st) t (snd (handleUnsubscribe st sv r t))"
proof -
  show "turns (works st) t (snd (handleCreateThread st sv r t))"
    by (auto simp: handleCreateThread_def Let_def intro!: works_steps split: outcome_splits)
  show "turns (works st) t (snd (handleReplyThread st sv r t))"
    by (auto simp: handleReplyThread_def Let_def intro!: works_steps working_found working_with_root working_forms
        split: outcome_splits)
  show "turns (works st) t (snd (handleBanUser st sv r t))"
    by (auto simp: handleBanUser_def Let_def intro!: works_steps working_found working_forms split: outcome_splits)
  show "turns (works st) t (snd (handleRemoveMessage st sv r t))"
    by (auto simp: handleRemoveMessage_def Let_def intro!: works_steps working_found working_with_root working_forms
        split: outcome_splits)
  show "turns (works st) t (snd (handleAddModerator st sv r t))"
    by (auto simp: handleAddModerator_def intro!: works_steps split: outcome_splits)
  show "turns (works st) t (snd (handleDelModerator st sv r t))"
    by (auto simp: handleDelModerator_def Let_def intro!: works_steps split: outcome_splits)
  show "turns (works st) t (snd (handleSubscribe st sv r t))"
    by (auto simp: handleSubscribe_def intro!: works_steps working_after_change split: outcome_splits)
  show "turns (works st) t (snd (handleUnsubscribe st sv r t))"
    by (auto simp: handleUnsubscribe_def Let_def intro!: works_steps working_after_change split: outcome_splits)
qed

lemma readers_work:
  "turns (works st) t (snd (handleBoard st sv r t))" "turns (works st) t (snd (handleThread st sv r t))"
  "turns (works st) t (snd (handleUser st sv r t))" "turns (works st) t (snd (handleListPeers st sv r t))"
  "turns (works st) t (snd (handlePeerHistory st sv r t))"
  "turns (works st) t (snd (handleListOperations st sv r t))" "turns (works st) t (snd (handleProfile st sv r t))"
proof -
  show "turns (works st) t (snd (handleBoard st sv r t))"
    by (auto simp: handleBoard_def Let_def intro!: works_steps split: outcome_splits)
  show "turns (works st) t (snd (handleThread st sv r t))"
    by (auto simp: handleThread_def Let_def intro!: works_steps split: outcome_splits)
  show "turns (works st) t (snd (handleUser st sv r t))"
    by (auto simp: handleUser_def Let_def intro!: works_steps working_found split: outcome_splits)
  show "turns (works st) t (snd (handleListPeers st sv r t))"
    by (auto simp: handleListPeers_def intro!: works_steps)
  show "turns (works st) t (snd (handlePeerHistory st sv r t))"
    by (auto simp: handlePeerHistory_def intro!: works_steps)
  show "turns (works st) t (snd (handleListOperations st sv r t))"
    by (auto simp: handleListOperations_def Let_def intro!: works_steps split: outcome_splits)
  show "turns (works st) t (snd (handleProfile st sv r t))"
    by (auto simp: handleProfile_def intro!: works_steps split: outcome_splits)
qed

text \<open>Without an authenticated session a writer only refuses.\<close>

lemma writers_refuse:
  assumes "\<not> se_IsAuthenticated (tn_session t)"
    "fn \<in> {handleCreateThread, handleReplyThread, handleBanUser, handleRemoveMessage, handleAddModerator,
       handleDelModerator, handleSubscribe, handleUnsubscribe, handleProfile, handleListPeers, handlePeerHistory}"
  shows "fn st sv r t = say Forbidden t \<or> fn st sv r t = say wrong_number t"
  using assms
  by (auto simp: handleCreateThread_def handleReplyThread_def handleBanUser_def handleRemoveMessage_def
      handleAddModerator_def handleDelModerator_def handleSubscribe_def handleUnsubscribe_def handleProfile_def
      handleListPeers_def handlePeerHistory_def Let_def)

text \<open>The one handler that changes a session.\<close>

definition credentials :: "site \<Rightarrow> process \<Rightarrow> request \<Rightarrow> bool" where
  "credentials st p r \<longleftrightarrow> isPost r \<and> rq_Path r = ''/login'' \<and> rq_PostFormValue r ''password'' = si_password st \<and>
     (\<exists>h. ps_handles p (si_handle st) = Some h \<and>
          rq_PostFormValue r ''username'' = uNickname (user_content_of (ow_User (lh_owner h))))"

lemma say_parts [simp]:
  "fst (say x t) = Ok ()" "tn_session (snd (say x t)) = tn_session t" "tn_proc (snd (say x t)) = tn_proc t"
  "tn_out (snd (say x t)) = tn_out t @ [x]"
  by (simp_all add: say_def)

lemma render_parts [simp]:
  "tn_session (snd (render st r title topic data t)) = tn_session t"
  "tn_proc (snd (render st r title topic data t)) = tn_proc t"
  by (simp_all add: render_def exec_def split: sum.split)

lemma handleLogin_effect:
  assumes "handleLogin st sv r t = (res, u)" "rq_Path r = ''/login''"
  shows "tn_proc u = tn_proc t \<and> (tn_session u = tn_session t \<or>
    credentials st (tn_proc t) r \<and> tn_session u = (tn_session t)\<lparr>se_IsAuthenticated := True\<rparr>)"
proof -
  have "tn_proc (snd (handleLogin st sv r t)) = tn_proc t \<and> (tn_session (snd (handleLogin st sv r t)) = tn_session t \<or>
    credentials st (tn_proc t) r \<and> tn_session (snd (handleLogin st sv r t)) = (tn_session t)\<lparr>se_IsAuthenticated := True\<rparr>)"
    using assms(2)
    by (auto simp: handleLogin_def Let_def exec_def asks_def Authenticate_def ask_handle_def GetLoggedUser_def
        credentials_def split: sum.splits option.splits prod.splits)
  with assms(1) show ?thesis by simp
qed

lemma routed:
  assumes "map_of routes p = Some fn" "p \<noteq> ''/login''"
  shows "turns (works st) t (snd (fn st sv r t))"
    "\<not> se_IsAuthenticated (tn_session t) \<Longrightarrow> turns (reads st) t (snd (fn st sv r t))"
proof -
  show "turns (works st) t (snd (fn st sv r t))"
    using assms by (auto simp: routes_def intro: writers_work readers_work split: if_splits)
  assume "\<not> se_IsAuthenticated (tn_session t)"
  moreover have "turns (reads st) t (snd (say x t))" for x by (simp add: reads_refl)
  ultimately show "turns (reads st) t (snd (fn st sv r t))"
    using writers_refuse [of t fn st sv r] assms readers_read
    by (fastforce simp: routes_def split: if_splits)
qed

lemma serve_unfold:
  "\<exists>outs. snd (serve fn st sv r t) = (snd (checked fn st sv r t))\<lparr>tn_out := tn_out (snd (checked fn st sv r t)) @ outs\<rparr>"
  by (auto simp: serve_def say_def split: prod.split sum.split fault.split intro: exI [of _ "[]"])

lemma serve_parts [simp]:
  "tn_session (snd (serve fn st sv r t)) = tn_session (snd (checked fn st sv r t))"
  "tn_proc (snd (serve fn st sv r t)) = tn_proc (snd (checked fn st sv r t))"
  using serve_unfold [of fn st sv r t] by auto

lemma serve_session:
  assumes "map_of routes (rq_Path r) = Some fn"
  shows "tn_session (snd (serve fn st sv r t)) = tn_session t \<or>
    credentials st (tn_proc t) r \<and> rq_PostFormValue r ''csrf'' = se_CSRFToken (tn_session t) \<and>
    tn_session (snd (serve fn st sv r t)) = (tn_session t)\<lparr>se_IsAuthenticated := True\<rparr>"
proof (cases "isPost r \<and> rq_PostFormValue r ''csrf'' \<noteq> se_CSRFToken (tn_session t)")
  case False
  show ?thesis
  proof (cases "rq_Path r = ''/login''")
    case True
    with assms have "fn = handleLogin" by (simp add: routes_def)
    with handleLogin_effect [OF prod.collapse [symmetric] True, of st sv t] False show ?thesis
      by (auto simp: checked_def credentials_def)
  next
    case no_login: False
    from routed(1) [OF assms no_login, of st t sv r] False show ?thesis by (auto simp: checked_def turns_def)
  qed
qed (simp add: checked_def)

text \<open>A session that is authenticated was opened by a request with the credentials of the site.\<close>

lemma authenticated_by_password:
  assumes "web_run st (InitHandlers p heap) tr w" "\<forall>s. \<not> se_IsAuthenticated (heap s)"
    "se_IsAuthenticated (wb_heap w s)"
  shows "\<exists>v r outs. (v, Served r s outs) \<in> set tr \<and> credentials st (wb_proc v) r \<and>
    rq_PostFormValue r ''csrf'' = se_CSRFToken (wb_heap w s)"
  using assms(1,3)
proof (induction "InitHandlers p heap" tr w arbitrary: s)
  case starts
  with assms(2) show ?case by (simp add: InitHandlers_def)
next
  case (goes_on tr v e u)
  let ?seen = "\<lambda>tr w s. \<exists>v r outs. (v, Served r s outs) \<in> set tr \<and> credentials st (wb_proc v) r \<and>
    rq_PostFormValue r ''csrf'' = se_CSRFToken (wb_heap w s)"
  have old: "?seen (tr @ [(v, e)]) u s"
    if "se_IsAuthenticated (wb_heap v s)" "se_CSRFToken (wb_heap u s) = se_CSRFToken (wb_heap v s)"
    using goes_on.hyps(2) [OF that(1)] that(2) by fastforce
  from goes_on.hyps(3) show ?case
  proof cases
    case (accepts r n mo s' ck ss' heap')
    from accepts(8) show ?thesis
    proof (cases rule: OpenSession_cases)
      case (fresh i tok s'')
      with goes_on.prems accepts have "s \<noteq> mo_ref mo" by auto
      with fresh accepts goes_on.prems old show ?thesis by auto
    qed (use accepts goes_on.prems old in \<open>auto split: if_splits\<close>)
  next
    case (cannot_open r mo f ss' heap')
    from cannot_open(6) have "heap' = wb_heap v" by (cases rule: OpenSession_cases) auto
    with cannot_open goes_on.prems old show ?thesis by auto
  next
    case (serves n r s' fn sv res t)
    let ?t = "\<lparr>tn_session = wb_heap v s', tn_proc = wb_proc v, tn_out = []\<rparr>"
    have change: "tn_session t = wb_heap v s' \<or> credentials st (wb_proc v) r \<and>
        rq_PostFormValue r ''csrf'' = se_CSRFToken (wb_heap v s') \<and>
        tn_session t = (wb_heap v s')\<lparr>se_IsAuthenticated := True\<rparr>"
      using serve_session [OF serves(5), of st sv ?t] serves(6) by simp
    show ?thesis
    proof (cases "s = s' \<and> tn_session t \<noteq> wb_heap v s'")
      case True
      with change serves(1,2) show ?thesis
        by (intro exI [of _ v] exI [of _ r] exI [of _ "tn_out t"]) auto
    next
      case False
      with serves(2) have "wb_heap u s = wb_heap v s" by auto
      with old goes_on.prems show ?thesis by simp
    qed
  qed (use goes_on.prems old in auto)
qed

section \<open>Properties\<close>

text \<open>
  C15. Only the password opens the site: whatever the interleaving of requests, a session that is
  authenticated was the session of an earlier request to log in that was posted with the
  site's password, the nickname of the node's owner and the token of this very session.
\<close>

theorem Session_authenticated_by_password:
  assumes "web_run st (InitHandlers p heap) tr w" "\<forall>s. \<not> se_IsAuthenticated (heap s)"
    "se_IsAuthenticated (wb_heap w s)"
  shows "\<exists>v r outs. (v, Served r s outs) \<in> set tr \<and> credentials st (wb_proc v) r \<and>
    rq_PostFormValue r ''csrf'' = se_CSRFToken (wb_heap w s)"
  by (rule authenticated_by_password [OF assms])

text \<open>
  C17. Strangers cannot change the node: serving a request whose session is not authenticated leaves
  everything of the process as it was, except that reading may fill the caches of the profile:
  the login, the disk, the stored entities, the moderators and subscriptions, the user and key.
\<close>

theorem Anonymous_requests_only_read:
  assumes "web_step st w (Served r s outs) w'" "\<not> se_IsAuthenticated (wb_heap w s)"
  shows "reads st (wb_proc w) (wb_proc w') \<and> wb_ss w' = wb_ss w"
  using assms(1)
proof cases
  case (serves n fn sv res t)
  let ?t = "\<lparr>tn_session = wb_heap w s, tn_proc = wb_proc w, tn_out = []\<rparr>"
  have "reads st (wb_proc w) (tn_proc (snd (serve fn st sv r ?t)))"
  proof (cases "isPost r \<and> rq_PostFormValue r ''csrf'' \<noteq> se_CSRFToken (wb_heap w s)")
    case False
    show ?thesis
    proof (cases "rq_Path r = ''/login''")
      case True
      with serves(5) have "fn = handleLogin" by (simp add: routes_def)
      with handleLogin_effect [OF prod.collapse [symmetric] True, of st sv ?t] False show ?thesis
        by (simp add: checked_def reads_refl)
    next
      case no_login: False
      from routed(2) [OF serves(5) no_login, of ?t st sv r] assms(2) False show ?thesis
        by (auto simp: checked_def turns_def)
    qed
  qed (simp add: checked_def reads_refl)
  with serves show ?thesis by auto
qed

text \<open>
  A form needs the token: a request posted without the token of its session is answered with
  \<open>403 Forbidden\<close> and changes neither sessions nor process, whatever page it is for.
\<close>

theorem Posted_without_token:
  assumes "web_step st w (Served r s outs) w'" "isPost r" "rq_PostFormValue r ''csrf'' \<noteq> se_CSRFToken (wb_heap w s)"
  shows "outs = [Forbidden] \<and> wb_proc w' = wb_proc w \<and> wb_heap w' = wb_heap w \<and> wb_ss w' = wb_ss w \<and> wb_down w' = None"
  using assms(1)
proof cases
  case (serves n fn sv res t)
  with assms(2,3) show ?thesis by (auto simp: serve_def checked_def say_def)
qed

end
