(* ===== verification/SiteSafety.thy ===== *)
theory SiteSafety
  imports Site
begin

text \<open>
  Properties of the site over its runs: the pool of sessions, what a cookie gives access to,
  single pages end to end, and the node behind the site.
\<close>

section \<open>The pool in every interleaving\<close>

definition pool_inv :: "web \<Rightarrow> bool" where
  "pool_inv w \<longleftrightarrow> pool_ok (wb_ss w) (wb_heap w)"

lemma serve_ID:
  "map_of routes (rq_Path r) = Some fn \<Longrightarrow> se_ID (tn_session (snd (serve fn st sv r t))) = se_ID (tn_session t)"
  using serve_session [of r fn st sv t] by auto

lemma LogoutHandler_ok: "LogoutHandler r heap ss = (outs, ss') \<Longrightarrow> pool_ok ss heap \<Longrightarrow> pool_ok ss' heap"
  by (auto simp: LogoutHandler_def CloseSession_def removeSession_def intro: pool_ok_filter split: option.splits if_splits)

interpretation site_pool: invariant "\<lambda>w. \<exists>p heap. w = InitHandlers p heap" "\<lambda>w w'. \<exists>e. web_step st w e w'" pool_inv
  for st
proof
  fix w w'
  assume ok: "pool_inv w" and "\<exists>e. web_step st w e w'"
  then obtain e where "web_step st w e w'" by blast
  then show "pool_inv w'"
  proof cases
    case (accepts r n mo s ck ss' heap')
    with ok show ?thesis by (auto simp: pool_inv_def in_use_def intro: pool_ok_OpenSession)
  next
    case (cannot_open r mo f ss' heap')
    from cannot_open(6) have "heap' = wb_heap w" "ss' = removeExpiredSessions (wb_heap w) (mo_expire mo) (wb_ss w)"
      by (cases rule: OpenSession_cases, auto)+
    with cannot_open ok show ?thesis by (simp add: pool_inv_def removeExpiredSessions_filter pool_ok_filter)
  next
    case (serves n r s fn sv res t)
    from serve_ID [OF serves(5), of st sv "\<lparr>tn_session = wb_heap w s, tn_proc = wb_proc w, tn_out = []\<rparr>"] serves(6)
    have "se_ID (tn_session t) = se_ID (wb_heap w s)" by simp
    with serves ok show ?thesis by (auto simp: pool_inv_def intro: pool_ok_touch)
  next
    case (logs_out r outs ss')
    with ok show ?thesis by (auto simp: pool_inv_def intro: LogoutHandler_ok)
  qed (use ok in \<open>simp_all add: pool_inv_def\<close>)
qed (auto simp: pool_inv_def InitHandlers_def)

lemma web_run_steps: "web_run st w tr w' \<Longrightarrow> (\<lambda>w w'. \<exists>e. web_step st w e w')\<^sup>*\<^sup>* w w'"
  by (induction rule: web_run.induct) (auto intro: rtranclp.rtrancl_into_rtrancl)

lemma web_run_pool: "web_run st (InitHandlers p heap) tr w \<Longrightarrow> pool_ok (wb_ss w) (wb_heap w)"
  using site_pool.reachable_holds [OF web_run_steps] by (fastforce simp: pool_inv_def)

section \<open>Properties\<close>

text \<open>
  C18. What a cookie gives: in every reachable state opening a session for a request finds the one
  session of the pool its cookie names, provided it was used within the last 200 hours, and
  leaves its rights and its token alone; any other request gets a session of its own that is not
  authenticated, under the identifier and token it is told, and the sessions that
  had expired are gone from the pool.
\<close>

theorem Session_opened:
  assumes "web_run st (InitHandlers p heap) tr w" "mo_ref mo \<notin> in_use w"
    "OpenSession mo r (wb_ss w) (wb_heap w) = (Ok (s, ck), ss', heap')"
  shows "(if \<exists>k x. rq_Cookie r = Some k \<and> (k, x) \<in> set (wb_ss w) \<and>
              mo_check mo - maxSessionLife < se_UpdatedDate (wb_heap w x)
          then rq_Cookie r = Some (se_ID (wb_heap w s)) \<and> (se_ID (wb_heap w s), s) \<in> set (wb_ss w) \<and> ss' = wb_ss w \<and>
               ck = No_cookies \<and> se_IsAuthenticated (heap' s) = se_IsAuthenticated (wb_heap w s) \<and>
               se_CSRFToken (heap' s) = se_CSRFToken (wb_heap w s)
          else s \<notin> in_use w \<and> \<not> se_IsAuthenticated (heap' s) \<and>
               ck = Set_cookies (se_ID (heap' s)) (se_CSRFToken (heap' s)) \<and>
               set ss' = insert (se_ID (heap' s), s) {ks \<in> set (wb_ss w). \<not> expired (wb_heap w) (mo_expire mo) ks}) \<and>
    pool_ok ss' heap' \<and> (\<forall>x. x \<noteq> s \<longrightarrow> heap' x = wb_heap w x)"
proof -
  have ok: "pool_ok (wb_ss w) (wb_heap w)" by (rule web_run_pool [OF assms(1)])
  have iff: "live_session mo r (wb_ss w) (wb_heap w) = Some x \<longleftrightarrow>
      (\<exists>k. rq_Cookie r = Some k \<and> (k, x) \<in> set (wb_ss w) \<and> mo_check mo - maxSessionLife < se_UpdatedDate (wb_heap w x))" for x
    unfolding pool_ok_load [OF ok, symmetric] by (auto simp: live_session_def split: option.splits)
  have ok': "pool_ok ss' heap'" using assms(2,3) ok by (auto simp: in_use_def intro: pool_ok_OpenSession)
  from assms(3) show ?thesis
  proof (cases rule: OpenSession_cases)
    case (live x)
    with iff [of x] ok obtain k where k: "rq_Cookie r = Some k" "(k, s) \<in> set (wb_ss w)" "se_ID (wb_heap w s) = k"
      "mo_check mo - maxSessionLife < se_UpdatedDate (wb_heap w s)"
      by (auto simp: pool_ok_def)
    with live ok' show ?thesis by auto
  next
    case (fresh i tok x)
    with iff have none: "\<not> (\<exists>k x. rq_Cookie r = Some k \<and> (k, x) \<in> set (wb_ss w) \<and>
        mo_check mo - maxSessionLife < se_UpdatedDate (wb_heap w x))" by auto
    with fresh ok' assms(2) ok show ?thesis unfolding if_not_P [OF none]
      by (auto simp: removeExpiredSessions_filter)
  qed simp
qed

section \<open>Single pages\<close>

lemma ID_String_chars: "CHR ''%'' \<notin> set (ID_String i)" "CHR '' '' \<notin> set (ID_String i)"
  using std_encode_chars [of i] by (auto simp: ID_String_def std_alphabet_def)

lemma ID_ParseString_space: "CHR '' '' \<in> set s \<Longrightarrow> \<exists>e. ID_ParseString i s = Err e"
  using std_decode_chars [of s]
  by (cases "std_decode s") (auto simp: ID_ParseString_def strip_newlines_def std_alphabet_def)

lemma on_handle_Some:
  "ps_handles p l = Some h \<Longrightarrow> f (lh_owner h) = (r, ow) \<Longrightarrow> on_handle l f p = (r, with_owner l ow p)"
  by (simp add: on_handle_def)

lemma serve_checked:
  "\<not> isPost r \<or> rq_PostFormValue r ''csrf'' = se_CSRFToken (tn_session t) \<Longrightarrow> fn st sv r t = (Ok (), u) \<Longrightarrow>
   serve fn st sv r t = (Ok (), u)"
  by (auto simp: serve_def checked_def)

text \<open>
  C35. Following a link can dismiss a moderator: the page \<open>/moder/del\<close> acts on the identifier in its
  query, so a request that is not posted needs no token; with the cookie of an authenticated
  session it takes the moderator off the list, whatever page the link was on.
\<close>

theorem Moderator_removed_by_link:
  assumes "preliable (rt_pe (si_rt st))" "ps_handles (tn_proc t) (si_handle st) = Some h"
    "coherent (rt_pe (si_rt st)) (ow_Profile (lh_owner h))" "se_IsAuthenticated (tn_session t)" "\<not> isPost r"
    "rq_Query r = [(''id'', ID_String i)]" "length i = IDLen"
    "i \<in> moderator_set (ow_Profile (lh_owner h))" "i \<noteq> selfID (ow_Profile (lh_owner h))"
  shows "\<exists>u h'. serve handleDelModerator st sv r t = (Ok (), u) \<and> tn_out u = tn_out t @ [Redirect ''/profile''] \<and>
    ps_handles (tn_proc u) (si_handle st) = Some h' \<and>
    moderator_set (ow_Profile (lh_owner h')) = moderator_set (ow_Profile (lh_owner h)) - {i}"
proof -
  obtain res prof where m: "Profile_RemoveModerator (rt_pe (si_rt st)) i (ow_Profile (lh_owner h)) = (res, prof)"
    by fastforce
  with RemoveModerator_ok [OF assms(1,3), of i] assms(8,9) have
    ok: "res = Ok ()" "moderator_set prof = moderator_set (ow_Profile (lh_owner h)) - {i}" by auto
  have "on_handle (si_handle st) (RemoveModerator (si_rt st) i) (tn_proc t) =
      (Ok (), with_owner (si_handle st) ((lh_owner h)\<lparr>ow_Profile := prof\<rparr>) (tn_proc t))"
    using m ok(1) by (intro on_handle_Some [OF assms(2)]) (simp add: RemoveModerator_def on_profile_of_def)
  with assms(4-7) have "handleDelModerator st sv r t =
      say (Redirect ''/profile'') (t\<lparr>tn_proc := with_owner (si_handle st) ((lh_owner h)\<lparr>ow_Profile := prof\<rparr>) (tn_proc t)\<rparr>)"
    by (simp add: handleDelModerator_def query_get_def query_len_def in_turn_def)
  from serve_checked [where fn = handleDelModerator, OF _ this [unfolded say_def]] assms(2,5) ok(2) show ?thesis by simp
qed

text \<open>
  The form for moderators decodes the identifier it was given once too often: a known user
  becomes a moderator exactly if the text of their identifier has no plus sign; otherwise
  the same text with spaces for the plus signs is refused as no identifier, and nothing changes.
\<close>

theorem Moderator_added_without_plus:
  assumes "sound_runtime (si_rt st)" "ps_handles (tn_proc t) (si_handle st) = Some h"
    "good_owner (si_rt st) (lh_owner h) us ms os" "se_IsAuthenticated (tn_session t)"
    "rq_PostFormValue r ''csrf'' = se_CSRFToken (tn_session t)" "rq_Query r = []" "rq_FormValue r ''id'' = ID_String i"
    "length i = IDLen" "i \<in> (user_id \<circ> fst) ` set us" "i \<notin> moderator_set (ow_Profile (lh_owner h))"
  shows "if CHR ''+'' \<in> set (ID_String i)
    then serve handleAddModerator st sv r t =
           say (not_an_ID (map (\<lambda>c. if c = CHR ''+'' then CHR '' '' else c) (ID_String i))) t
    else \<exists>u h'. serve handleAddModerator st sv r t = (Ok (), u) \<and> tn_out u = tn_out t @ [Redirect ''/profile''] \<and>
           ps_handles (tn_proc u) (si_handle st) = Some h' \<and>
           moderator_set (ow_Profile (lh_owner h')) = insert i (moderator_set (ow_Profile (lh_owner h)))"
proof (cases "CHR ''+'' \<in> set (ID_String i)")
  case True
  let ?s = "map (\<lambda>c. if c = CHR ''+'' then CHR '' '' else c) (ID_String i)"
  have "QueryUnescape (ID_String i) = Some ?s" by (simp add: QueryUnescape_plain ID_String_chars)
  moreover obtain e where "ID_ParseString ZeroID ?s = Err e"
    using ID_ParseString_space [of ?s ZeroID] True by (auto simp: image_iff)
  ultimately have "handleAddModerator st sv r t = say (not_an_ID ?s) t"
    using assms(4,6,7) by (simp add: handleAddModerator_def query_len_def)
  from serve_checked [where fn = handleAddModerator, OF _ this [unfolded say_def]] assms(5) True show ?thesis by (simp add: say_def)
next
  case False
  let ?pe = "rt_pe (si_rt st)"
  have "QueryUnescape (ID_String i) = Some (map (\<lambda>c. if c = CHR ''+'' then CHR '' '' else c) (ID_String i))"
    by (simp add: QueryUnescape_plain ID_String_chars)
  also have "map (\<lambda>c. if c = CHR ''+'' then CHR '' '' else c) (ID_String i) = ID_String i"
    using False by (auto intro: map_idI)
  finally have same: "QueryUnescape (ID_String i) = Some (ID_String i)" .
  obtain res prof where m: "Profile_PutModerator ?pe i (ow_Profile (lh_owner h)) = (res, prof)" by fastforce
  with PutModerator_ok [of ?pe "ow_Profile (lh_owner h)" i] assms(1,3,8,10) have
    ok: "res = Ok ()" "moderator_set prof = insert i (moderator_set (ow_Profile (lh_owner h)))"
    by (auto simp: sound_runtime_def good_owner_def)
  have rep: "represents (rt_env (si_rt st)) (ow_db (lh_owner h)) us ms os" using assms(3) by (simp add: good_owner_def)
  have "HasUser (rt_eng (si_rt st)) i (ow_db (lh_owner h)) = Ok True"
    using assms(1,9) by (simp add: HasUser_reliable faithful_reliable sound_runtime_def represents_ids [OF rep])
  with m ok(1) have "AddModerator (si_rt st) i (lh_owner h) = (Ok (), (lh_owner h)\<lparr>ow_Profile := prof\<rparr>)"
    by (simp add: AddModerator_def on_profile_of_def)
  from on_handle_Some [where f = "AddModerator (si_rt st) i", OF assms(2) this] assms(4,6-8) same
  have "handleAddModerator st sv r t =
      say (Redirect ''/profile'') (t\<lparr>tn_proc := with_owner (si_handle st) ((lh_owner h)\<lparr>ow_Profile := prof\<rparr>) (tn_proc t)\<rparr>)"
    by (simp add: handleAddModerator_def query_len_def in_turn_def)
  from serve_checked [where fn = handleAddModerator, OF _ this [unfolded say_def]] assms(2,5) ok(2) False show ?thesis by simp
qed

lemma EmergeMessage_content:
  "EmergeMessage env s x a p sg tpc clock lastMsg = (Ok m, l) \<Longrightarrow>
     mSubject (message_content_of m) = s \<and> mText (message_content_of m) = x \<and> mTopic (message_content_of m) = tpc \<and>
     mAuthorID (message_content_of m) = a"
  by (auto simp: EmergeMessage_def Let_def bind_result_eq_Inr newUnsignedMessage_def newMessageContent_def
      split: prod.splits if_splits)

text \<open>
  C33. A thread started from the form is stored: for an authenticated session, the token and fields
  within their bounds, a message the entity layer makes and the store does not have yet, the reply
  is a redirect to the board, and the store then holds, besides what it held, a message
  with the subject and text of the form, its topic, and the owner as its author.
\<close>

theorem Thread_started_from_form:
  assumes "sound_runtime (si_rt st)" "ps_handles (tn_proc t) (si_handle st) = Some h"
    "good_owner (si_rt st) (lh_owner h) us ms os" "se_IsAuthenticated (tn_session t)" "isPost r"
    "rq_PostFormValue r ''csrf'' = se_CSRFToken (tn_session t)" "query_len r \<le> 1"
    "NewTopic (rq_FormValue r ''topic'') = Ok tpc" "QueryUnescape (rq_FormValue r ''topic'') \<noteq> None"
    "0 < length (rq_PostFormValue r ''subject'')" "length (rq_PostFormValue r ''subject'') \<le> MaxMessageSubjectLen"
    "0 < length (rq_PostFormValue r ''text'')" "length (rq_PostFormValue r ''text'') \<le> MaxMessageTextLen"
    "NewThread (si_rt st) (rq_PostFormValue r ''subject'') (rq_PostFormValue r ''text'') tpc (sv_clock sv) (lh_owner h)
       (ps_lastMsg (tn_proc t)) = (Ok m, written)"
    "storable_message (rt_env (si_rt st)) m" "message_id m \<notin> (message_id \<circ> fst) ` set ms"
  shows "\<exists>u h'. serve handleCreateThread st sv r t = (Ok (), u) \<and> tn_out u = tn_out t @ [Redirect ''/board''] \<and>
    ps_handles (tn_proc u) (si_handle st) = Some h' \<and> good_owner (si_rt st) (lh_owner h') us (ms @ [(m, sv_now sv)]) os \<and>
    mSubject (message_content_of m) = rq_PostFormValue r ''subject'' \<and>
    mText (message_content_of m) = rq_PostFormValue r ''text'' \<and> mTopic (message_content_of m) = tpc \<and>
    mAuthorID (message_content_of m) = user_id (ow_User (lh_owner h)) \<and> ps_lastMsg (tn_proc u) = written"
proof -
  obtain ow' where post: "PostEntity (si_rt st) (EMessage m) (sv_now sv) (lh_owner h) = (Ok (), ow')"
    "good_owner (si_rt st) ow' us (ms @ [(m, sv_now sv)]) os"
    using Post_message [OF assms(1,3,15,16)] by blast
  let ?p = "(tn_proc t)\<lparr>ps_lastMsg := written\<rparr>"
  let ?u = "t\<lparr>tn_proc := with_owner (si_handle st) ow' ?p\<rparr>"
  have made: "handle_message (si_handle st) (\<lambda>ow. NewThread (si_rt st) (rq_PostFormValue r ''subject'')
      (rq_PostFormValue r ''text'') tpc (sv_clock sv) ow) (tn_proc t) = (Ok m, ?p)"
    using assms(2,14) by (simp add: handle_message_def)
  have "ps_handles ?p (si_handle st) = Some h" using assms(2) by simp
  from on_handle_Some [where f = "PostEntity (si_rt st) (EMessage m) (sv_now sv)", OF this post(1)] made assms(4-13)
  have "handleCreateThread st sv r t = say (Redirect ''/board'') ?u"
    by (auto simp: handleCreateThread_def decodes_def in_turn_def Let_def)
  from serve_checked [where fn = handleCreateThread, OF _ this [unfolded say_def]] assms(2,6) post(2)
    EmergeMessage_content [OF assms(14) [unfolded NewThread_def]]
  show ?thesis by simp
qed

section \<open>The node behind the site\<close>

text \<open>The owner logged in through the handle, with the files it came from.\<close>

definition node_ok :: "site \<Rightarrow> gostring \<Rightarrow> user \<Rightarrow> signer \<Rightarrow> process \<Rightarrow> bool" where
  "node_ok st nick u sg p \<longleftrightarrow> IsValid (Some (si_handle st)) p \<longrightarrow>
     (\<exists>h ud pem. ps_handles p (si_handle st) = Some h \<and> lh_userDir h = Join (ps_dir p) nick \<and>
        ps_disk p (Join (ps_dir p) nick) = Some ud \<and> ud_privkey ud = Some pem \<and>
        h_ParsePrivateKeyFromPEM (rt_host (si_rt st)) pem = Ok sg \<and> knows_self (si_rt st) (lh_owner h) \<and>
        ow_Signer (lh_owner h) = sg \<and> ow_User (lh_owner h) = u \<and> uNickname (user_content_of u) = nick)"

definition sound_site :: "site \<Rightarrow> bool" where
  "sound_site st \<longleftrightarrow> reliable (rt_eng (si_rt st)) \<and> preliable (rt_pe (si_rt st)) \<and> good_host (rt_host (si_rt st))"

lemma Login_opened:
  assumes "OwnerNew (rt_host rt) (rt_env rt) (rt_eng rt) (rt_pe rt) (ps_dir p) nick (ps_disk p) = Ok ow"
    "Login rt nick new p = (Ok l, q)"
  shows "\<exists>h. l = new \<and> ps_login q = Some new \<and> ps_handles q new = Some h \<and> lh_userDir h = Join (ps_dir p) nick \<and>
    ow_User (lh_owner h) = ow_User ow \<and> ow_Signer (lh_owner h) = ow_Signer ow \<and> ow_Storage (lh_owner h) = ow_Storage ow \<and>
    ps_dir q = ps_dir p \<and> ps_disk q = ps_disk p"
  using assms by (auto simp: Login_def split: if_splits option.splits sum.splits prod.splits)

lemma Relogin_node:
  assumes "sound_site st" "node_ok st nick u sg p" "Relogin (si_rt st) (si_handle st) new p = (r, q)"
  shows "node_ok st nick u sg q"
proof (cases "IsValid (Some (si_handle st)) p")
  case True
  let ?l = "si_handle st" and ?rt = "si_rt st"
  from True assms(2) obtain h ud pem where h: "ps_handles p ?l = Some h" "lh_userDir h = Join (ps_dir p) nick"
    "ps_disk p (Join (ps_dir p) nick) = Some ud" "ud_privkey ud = Some pem"
    "h_ParsePrivateKeyFromPEM (rt_host ?rt) pem = Ok sg" "knows_self ?rt (lh_owner h)" "ow_Signer (lh_owner h) = sg"
    "ow_User (lh_owner h) = u" "uNickname (user_content_of u) = nick"
    by (auto simp: node_ok_def)
  have login: "ps_login p = Some ?l" using True by (simp add: IsValid_def)
  from Logout_opens [OF login h(1-4) _ h(6), of] assms(1) h(5,7,8) obtain p1 where
    p1: "Logout ?l p = (Ok (), p1)" "ps_login p1 = None" "ps_dir p1 = ps_dir p"
      "ps_disk p1 (Join (ps_dir p) nick) = Some (ud\<lparr>ud_entity := Some (ow_db (lh_owner h)),
         ud_profile := Some (pr_db (ow_Profile (lh_owner h)))\<rparr>)"
      "OwnerNew (rt_host ?rt) (rt_env ?rt) (rt_eng ?rt) (rt_pe ?rt) (ps_dir p1) nick (ps_disk p1) =
         Ok \<lparr>ow_User = u, ow_Storage = NewStorage (ow_db (lh_owner h)),
             ow_Profile = NewProfile (pr_db (ow_Profile (lh_owner h))) (user_id u), ow_Signer = sg\<rparr>"
    by (auto simp: sound_site_def)
  show ?thesis
  proof (cases "Login ?rt nick new p1")
    case (Pair r1 p2)
    show ?thesis
    proof (cases r1)
      case (Inl e)
      with Pair assms(3) h(1,8,9) p1(1) have "q = p2" by (auto simp: Relogin_def Let_def)
      with Login_err [OF Pair [unfolded Inl]] p1(2) show ?thesis by (simp add: node_ok_def IsValid_def)
    next
      case (Inr l)
      from Login_opened [OF p1(5) Pair [unfolded Inr]] obtain h' where
        h': "l = new" "ps_handles p2 new = Some h'" "lh_userDir h' = Join (ps_dir p1) nick"
          "ow_User (lh_owner h') = u" "ow_Signer (lh_owner h') = sg"
          "ow_db (lh_owner h') = ow_db (lh_owner h)" "ps_dir p2 = ps_dir p1" "ps_disk p2 = ps_disk p1"
        by (auto simp: NewStorage_def)
      from Pair Inr assms(3) h(1,8,9) p1(1) h'(1) have
        "q = p2\<lparr>ps_handles := (ps_handles p2)(?l := ps_handles p2 new), ps_login := Some ?l\<rparr>"
        by (auto simp: Relogin_def Let_def)
      moreover have "knows_self ?rt (lh_owner h')"
        using h(6-8) h'(4-6) by (simp add: knows_self_def)
      ultimately show ?thesis using h h' p1(3,4) by (simp add: node_ok_def)
    qed
  qed
next
  case False
  then have "Logout (si_handle st) p = (Inl Fatal, p)" by (simp add: Logout_def)
  with assms(3) have "q = p" by (auto simp: Relogin_def Let_def split: option.splits)
  with False show ?thesis by (simp add: node_ok_def)
qed

lemma works1_node:
  assumes "sound_site st" "works1 st p q" "node_ok st nick u sg p"
  shows "node_ok st nick u sg q"
  using assms(2)
proof cases
  case (operates h ow)
  have "reliable (rt_eng (si_rt st))" using assms(1) by (simp add: sound_site_def)
  with operates assms(3) owner_op_frame [OF operates(3)] owner_op_knows [OF _ operates(3)] show ?thesis
    by (auto simp: node_ok_def IsValid_def)
next
  case (logs_in_again new r)
  with Relogin_node [OF assms(1,3)] show ?thesis by simp
qed (use assms(3) in \<open>auto simp: node_ok_def IsValid_def\<close>)

lemma works_node: "works st p q \<Longrightarrow> sound_site st \<Longrightarrow> node_ok st nick u sg p \<Longrightarrow> node_ok st nick u sg q"
  by (induction rule: rtranclp_induct) (auto intro: works1_node)

lemma served_works:
  assumes "map_of routes (rq_Path r) = Some fn"
  shows "works st (tn_proc t) (tn_proc (snd (serve fn st sv r t)))"
proof (cases "rq_Path r = ''/login''")
  case True
  with assms have "fn = handleLogin" by (simp add: routes_def)
  with handleLogin_effect [OF prod.collapse [symmetric] True, of st sv t] show ?thesis by (simp add: checked_def)
next
  case False
  from routed(1) [OF assms False, of st t sv r] show ?thesis by (simp add: checked_def turns_def)
qed

interpretation site_node: invariant "\<lambda>w. sound_site st \<and> node_ok st nick u sg (wb_proc w)"
  "\<lambda>w w'. \<exists>e. web_step st w e w'" "\<lambda>w. sound_site st \<and> node_ok st nick u sg (wb_proc w)"
  for st nick u sg
proof
  fix w w'
  assume ok: "sound_site st \<and> node_ok st nick u sg (wb_proc w)" and "\<exists>e. web_step st w e w'"
  then obtain e where "web_step st w e w'" by blast
  then have "works st (wb_proc w) (wb_proc w')"
  proof cases
    case (serves n r s fn sv res t)
    with served_works [OF serves(5), of st "\<lparr>tn_session = wb_heap w s, tn_proc = wb_proc w, tn_out = []\<rparr>" sv]
    show ?thesis by simp
  next
    case (background h ow)
    then show ?thesis by (auto intro: operates)
  qed simp_all
  with ok works_node show "sound_site st \<and> node_ok st nick u sg (wb_proc w')" by blast
qed

lemma Login_node:
  assumes "Login (si_rt st) nick (si_handle st) p = (Ok l, p1)" "ps_handles p1 (si_handle st) = Some h"
    "uNickname (user_content_of (ow_User (lh_owner h))) = nick"
  shows "node_ok st nick (ow_User (lh_owner h)) (ow_Signer (lh_owner h)) p1"
proof (rule Login_Ok [OF assms(1)])
  fix ud pem ow0 and prof :: profile and aps cp
  assume "ps_disk p1 = ps_disk p" "ps_dir p1 = ps_dir p" "ps_disk p (Join (ps_dir p) nick) = Some ud"
    "ud_privkey ud = Some pem" "h_ParsePrivateKeyFromPEM (rt_host (si_rt st)) pem = Ok (ow_Signer ow0)"
    "knows_self (si_rt st) ow0"
    "ps_handles p1 (si_handle st) = Some \<lparr>lh_owner = ow0, lh_userDir = Join (ps_dir p) nick, lh_aps = aps, lh_cp = cp,
       lh_running = True\<rparr>"
  with assms(2,3) show ?thesis by (auto simp: node_ok_def)
qed

text \<open>
  C19. The site keeps the node: after a login by the nickname of the user, whatever requests are
  served in whatever order and whatever the peers do meanwhile, as long as the handle is valid,
  logging out succeeds and opening the owner again gives the same user and key, with
  the databases as the last request left them. This includes the requests that log out and in
  again themselves.
\<close>

theorem Site_keeps_node:
  assumes "Login (si_rt st) nick (si_handle st) p = (Ok l, p1)" "ps_handles p1 (si_handle st) = Some h"
    "uNickname (user_content_of (ow_User (lh_owner h))) = nick" "sound_site st"
    "web_run st (InitHandlers p1 heap) tr w" "IsValid (Some (si_handle st)) (wb_proc w)"
  shows "\<exists>h' q ow. ps_handles (wb_proc w) (si_handle st) = Some h' \<and> Logout (si_handle st) (wb_proc w) = (Ok (), q) \<and>
    OwnerNew (rt_host (si_rt st)) (rt_env (si_rt st)) (rt_eng (si_rt st)) (rt_pe (si_rt st)) (ps_dir q) nick (ps_disk q) = Ok ow \<and>
    ow_User ow = ow_User (lh_owner h) \<and> ow_Signer ow = ow_Signer (lh_owner h) \<and>
    ow_db ow = ow_db (lh_owner h') \<and> pr_db (ow_Profile ow) = pr_db (ow_Profile (lh_owner h'))"
proof -
  have "node_ok st nick (ow_User (lh_owner h)) (ow_Signer (lh_owner h)) (wb_proc (InitHandlers p1 heap))"
    using Login_node [OF assms(1-3)] by (simp add: InitHandlers_def)
  with site_node.run_keeps [OF web_run_steps [OF assms(5)]] assms(4) have
    "node_ok st nick (ow_User (lh_owner h)) (ow_Signer (lh_owner h)) (wb_proc w)" by blast
  with assms(6) obtain h' ud pem where h': "ps_handles (wb_proc w) (si_handle st) = Some h'"
    "lh_userDir h' = Join (ps_dir (wb_proc w)) nick" "ps_disk (wb_proc w) (Join (ps_dir (wb_proc w)) nick) = Some ud"
    "ud_privkey ud = Some pem" "h_ParsePrivateKeyFromPEM (rt_host (si_rt st)) pem = Ok (ow_Signer (lh_owner h))"
    "knows_self (si_rt st) (lh_owner h')" "ow_Signer (lh_owner h') = ow_Signer (lh_owner h)"
    "ow_User (lh_owner h') = ow_User (lh_owner h)"
    by (auto simp: node_ok_def)
  have "ps_login (wb_proc w) = Some (si_handle st)" using assms(6) by (simp add: IsValid_def)
  from Logout_opens [OF this h'(1-4) _ h'(6)] h'(1,5,7,8) assms(4) show ?thesis
    by (auto simp: sound_site_def NewStorage_def NewProfile_def)
qed

section \<open>Witnesses\<close>

definition toy_site :: site where
  "toy_site = \<lparr>si_rt = toy_rt, si_handle = 0, si_password = ''pw'', si_RFC3339 = (\<lambda>_. [])\<rparr>"

definition toy_request :: "gostring \<Rightarrow> gostring \<Rightarrow> (gostring \<times> gostring) list \<Rightarrow> (gostring \<Rightarrow> gostring) \<Rightarrow> request" where
  "toy_request meth path query form = \<lparr>rq_Method = meth, rq_Path = path, rq_RawQuery = [], rq_Query = query,
     rq_FormValue = form, rq_PostFormValue = form, rq_Cookie = Some ''''\<rparr>"

definition toy_session :: "bool \<Rightarrow> session" where
  "toy_session a = \<lparr>se_ID = '''', se_IsAuthenticated = a, se_CSRFToken = '''', se_CreatedDate = 0, se_UpdatedDate = 0\<rparr>"

definition toy_turn :: "owner \<Rightarrow> turn" where
  "toy_turn ow = \<lparr>tn_session = toy_session True, tn_proc = site_process ow, tn_out = []\<rparr>"

definition toy_serving :: serving where
  "toy_serving = \<lparr>sv_clock = (Hour, Hour, Hour), sv_now = Hour, sv_peers = Ok [], sv_new = 1\<rparr>"

definition toy_moment :: moment where
  "toy_moment = \<lparr>mo_check = 0, mo_touch = 0, mo_expire = (\<lambda>_. 0), mo_created = 0, mo_updated = 0,
     mo_rand_id = Some [], mo_rand_token = Some [], mo_ref = 0\<rparr>"

definition toy_web :: "bool \<Rightarrow> owner \<Rightarrow> request \<Rightarrow> web" where
  "toy_web a ow r = \<lparr>wb_ss = [('''', 0)], wb_heap = (\<lambda>_. toy_session a), wb_proc = site_process ow,
     wb_open = [0 \<mapsto> (r, 0)], wb_down = None\<rparr>"

definition toy_login_request :: request where
  "toy_login_request = toy_request ''POST'' ''/login'' []
     (\<lambda>k. if k = ''username'' then ''nick_1'' else if k = ''password'' then ''pw'' else '''')"

lemmas toy_site_defs = toy_site_def toy_handle_def site_process_def toy_request_def toy_session_def toy_turn_def
  toy_serving_def toy_moment_def toy_web_def toy_login_request_def

lemma toy_serves:
  assumes "map_of routes (rq_Path r) = Some fn"
  shows "\<exists>outs w'. web_step toy_site (toy_web a ow r) (Served r 0 outs) w'"
  using serves [of "toy_web a ow r" 0 r 0 fn toy_site toy_serving, OF _ _ assms prod.collapse [symmetric]]
  by (auto simp: toy_web_def)

text \<open>A run in which the owner logs in.\<close>

lemma toy_login_run:
  assumes "ps_login p = Some 0" "ps_handles p 0 = Some h" "uNickname (user_content_of (ow_User (lh_owner h))) = ''nick_1''"
  shows "\<exists>tr w. web_run toy_site (InitHandlers p (\<lambda>_. toy_session False)) tr w \<and> wb_proc w = p \<and>
    wb_ss w = [('''', 0)] \<and> wb_heap w 0 = toy_session True \<and> wb_open w = Map.empty \<and> wb_down w = None"
proof -
  let ?w0 = "InitHandlers p (\<lambda>_. toy_session False)"
  let ?w1 = "?w0\<lparr>wb_ss := [('''', 0)], wb_heap := (\<lambda>_. toy_session False)(0 := toy_session False),
    wb_open := (wb_open ?w0)(0 \<mapsto> (toy_login_request, 0))\<rparr>"
  let ?t = "\<lparr>tn_session = wb_heap ?w1 0, tn_proc = wb_proc ?w1, tn_out = []\<rparr>"
  have route: "map_of routes (rq_Path toy_login_request) = Some handleLogin"
    by (simp add: toy_login_request_def toy_request_def routes_def)
  have "OpenSession toy_moment toy_login_request (wb_ss ?w0) (wb_heap ?w0) =
      (Ok (0, Set_cookies '''' ''''), [('''', 0)], (\<lambda>_. toy_session False)(0 := toy_session False))"
    by (simp add: OpenSession_def live_session_def pool_load_def InitHandlers_def newSessionPool_def
        removeExpiredSessions_def newRandString_def pool_add_def toy_site_defs)
  then have "web_step toy_site ?w0 (Accepted 0 toy_login_request 0 (Set_cookies '''' '''')) ?w1"
    using route assms(1)
    by (intro accepts [of _ _ _ _ toy_moment]) (auto simp: InitHandlers_def in_use_def newSessionPool_def IsValid_def toy_site_def toy_moment_def)
  moreover have "serve handleLogin toy_site toy_serving toy_login_request ?t =
      (Ok (), ?t\<lparr>tn_session := toy_session True, tn_out := [Redirect ''/'']\<rparr>)"
    using assms(2,3)
    by (simp add: serve_def checked_def handleLogin_def isPost_def query_len_def toy_login_request_def toy_request_def
        toy_session_def toy_site_def InitHandlers_def asks_def ask_handle_def GetLoggedUser_def Authenticate_def
        MaxUsernameLen_def MaxPasswordLen_def login_redirect_def say_def)
  from serves [of ?w1 0, OF _ _ route this] have "web_step toy_site ?w1 (Served toy_login_request 0 [Redirect ''/''])
      (?w1\<lparr>wb_heap := (wb_heap ?w1)(0 := toy_session True), wb_open := (wb_open ?w1)(0 := None)\<rparr>)"
    by (simp add: InitHandlers_def)
  ultimately show ?thesis
    by (intro exI conjI) (rule goes_on [OF goes_on [OF starts]], assumption, assumption, simp_all add: InitHandlers_def)
qed

theorem Session_authenticated_by_password_witness:
  "\<exists>tr w v r outs. web_run toy_site (InitHandlers (site_process (toy_owner empty_database)) (\<lambda>_. toy_session False)) tr w \<and>
     (v, Served r 0 outs) \<in> set tr \<and> credentials toy_site (wb_proc v) r"
proof -
  obtain tr w where run: "web_run toy_site (InitHandlers (site_process (toy_owner empty_database)) (\<lambda>_. toy_session False)) tr w"
    "wb_heap w 0 = toy_session True"
    using toy_login_run [OF toy_site_process(1,2)] toy_site_process(3,4) by metis
  with Session_authenticated_by_password [OF run(1), of 0] show ?thesis by (fastforce simp: toy_session_def)
qed

theorem Anonymous_requests_only_read_witness:
  "\<exists>outs w'. web_step toy_site (toy_web False (toy_owner empty_database) (toy_request ''GET'' ''/board'' [] (\<lambda>_. [])))
       (Served (toy_request ''GET'' ''/board'' [] (\<lambda>_. [])) 0 outs) w' \<and>
     reads toy_site (site_process (toy_owner empty_database)) (wb_proc w')"
proof -
  let ?r = "toy_request ''GET'' ''/board'' [] (\<lambda>_. [])"
  let ?w = "toy_web False (toy_owner empty_database) ?r"
  have "map_of routes (rq_Path ?r) = Some handleBoard" by (simp add: toy_request_def routes_def)
  from toy_serves [OF this, of False "toy_owner empty_database"] obtain outs w'
    where w': "web_step toy_site ?w (Served ?r 0 outs) w'" by blast
  with Anonymous_requests_only_read [OF w'] show ?thesis by (auto simp: toy_web_def toy_session_def)
qed

theorem Posted_without_token_witness:
  "\<exists>outs w'. web_step toy_site (toy_web True (toy_owner empty_database) (toy_request ''POST'' ''/moder/add'' [] (\<lambda>_. ''x'')))
       (Served (toy_request ''POST'' ''/moder/add'' [] (\<lambda>_. ''x'')) 0 outs) w' \<and> outs = [Forbidden]"
proof -
  let ?r = "toy_request ''POST'' ''/moder/add'' [] (\<lambda>_. ''x'')"
  let ?w = "toy_web True (toy_owner empty_database) ?r"
  have "map_of routes (rq_Path ?r) = Some handleAddModerator" by (simp add: toy_request_def routes_def)
  from toy_serves [OF this, of True "toy_owner empty_database"] obtain outs w'
    where w': "web_step toy_site ?w (Served ?r 0 outs) w'" by blast
  with Posted_without_token [OF w'] show ?thesis by (auto simp: toy_web_def toy_session_def toy_request_def isPost_def)
qed

theorem Session_opened_witness:
  "\<exists>(w :: web) s ck ss' heap'. OpenSession (toy_moment\<lparr>mo_ref := 1, mo_check := Hour\<rparr>) (toy_request ''GET'' ''/board'' [] (\<lambda>_. []))
       (wb_ss w) (wb_heap w) = (Ok (s, ck), ss', heap') \<and> se_IsAuthenticated (heap' s) \<and> pool_ok ss' heap'"
proof -
  let ?r = "toy_request ''GET'' ''/board'' [] (\<lambda>_. [])" and ?mo = "toy_moment\<lparr>mo_ref := 1, mo_check := Hour\<rparr>"
  obtain tr w where run: "web_run toy_site (InitHandlers (site_process (toy_owner empty_database)) (\<lambda>_. toy_session False)) tr w"
    "wb_ss w = [('''', 0)]" "wb_heap w 0 = toy_session True" "wb_open w = Map.empty"
    using toy_login_run [OF toy_site_process(1,2)] toy_site_process(3,4) by metis
  have opened: "OpenSession ?mo ?r (wb_ss w) (wb_heap w) =
      (Ok (0, No_cookies), wb_ss w, (wb_heap w)(0 := (toy_session True)\<lparr>se_UpdatedDate := 0\<rparr>))"
    using run(2,3) by (simp add: OpenSession_def live_session_def pool_load_def toy_request_def toy_moment_def
        toy_session_def maxSessionLife_def duration_defs)
  have "mo_ref ?mo \<notin> in_use w" using run(2,4) by (simp add: in_use_def toy_moment_def)
  from Session_opened [OF run(1) this opened] have
    "se_IsAuthenticated (((wb_heap w)(0 := (toy_session True)\<lparr>se_UpdatedDate := 0\<rparr>)) 0) \<and>
     pool_ok (wb_ss w) ((wb_heap w)(0 := (toy_session True)\<lparr>se_UpdatedDate := 0\<rparr>))"
    by (simp add: toy_session_def)
  with opened show ?thesis
    by (intro exI [of _ w] exI [of _ 0] exI [of _ No_cookies] exI [of _ "wb_ss w"]
        exI [of _ "(wb_heap w)(0 := (toy_session True)\<lparr>se_UpdatedDate := 0\<rparr>)"]) simp
qed

definition toy_moderated :: owner where
  "toy_moderated = (toy_owner empty_database)\<lparr>ow_Profile :=
     snd (Profile_PutModerator toy_profile_engine (replicate 32 2) (ow_Profile (toy_owner empty_database)))\<rparr>"

lemma toy_coherent: "coherent toy_profile_engine (NewProfile empty_profile_database i)"
  using pdb_wf_empty by (simp add: coherent_def NewProfile_def) (simp add: empty_profile_database_def)

theorem Moderator_removed_by_link_witness:
  "\<exists>u h'. serve handleDelModerator toy_site toy_serving
       (toy_request ''GET'' ''/moder/del'' [(''id'', ID_String (replicate 32 2))] (\<lambda>_. [])) (toy_turn toy_moderated) = (Ok (), u) \<and>
     ps_handles (tn_proc u) 0 = Some h' \<and> moderator_set (ow_Profile (lh_owner h')) = {toy_id 7}"
proof -
  let ?i = "replicate 32 2 :: entity_id" and ?p = "NewProfile empty_profile_database (user_id toy_user)"
    and ?r = "toy_request ''GET'' ''/moder/del'' [(''id'', ID_String (replicate 32 2))] (\<lambda>_. [])"
  have ne: "?i \<noteq> toy_id 7" by (simp add: toy_id_def numeral_eq_Suc)
  have m: "moderator_set ?p = {toy_id 7}"
    by (simp add: moderator_set_def NewProfile_def empty_profile_database_def toy_uid)
  from PutModerator_ok [OF preliable_toy toy_coherent, of ?i "user_id toy_user"] m ne obtain p' where
    p': "Profile_PutModerator toy_profile_engine ?i ?p = (Ok (), p')" "moderator_set p' = {?i, toy_id 7}"
      "coherent toy_profile_engine p'"
    by (auto simp: IDLen_def split: prod.splits)
  then have ow: "ow_Profile toy_moderated = p'" by (simp add: toy_moderated_def toy_owner_def)
  have "selfID p' = toy_id 7"
    using p'(1) by (auto simp: Profile_PutModerator_def NewProfile_def toy_uid split: if_splits prod.splits)
  with ow p'(2) have i: "?i \<in> moderator_set (ow_Profile (lh_owner (toy_handle toy_moderated)))"
    "?i \<noteq> selfID (ow_Profile (lh_owner (toy_handle toy_moderated)))" using ne by (simp_all add: toy_handle_def)
  have "preliable (rt_pe (si_rt toy_site))"
    "ps_handles (tn_proc (toy_turn toy_moderated)) (si_handle toy_site) = Some (toy_handle toy_moderated)"
    "coherent (rt_pe (si_rt toy_site)) (ow_Profile (lh_owner (toy_handle toy_moderated)))"
    "se_IsAuthenticated (tn_session (toy_turn toy_moderated))" "\<not> isPost ?r" "rq_Query ?r = [(''id'', ID_String ?i)]"
    "length ?i = IDLen"
    using p'(3) ow by (simp_all add: toy_site_def toy_rt_parts preliable_toy toy_turn_def toy_site_process toy_handle_def
        toy_session_def toy_request_def isPost_def IDLen_def)
  from Moderator_removed_by_link [OF this i, of toy_serving] ow p'(2) ne show ?thesis
    by (auto simp: toy_handle_def toy_site_def)
qed

text \<open>An owner who is not the user of the store.\<close>

definition toy_stranger :: user where
  "toy_stranger = toy_user\<lparr>user_unsigned := (user_unsigned toy_user)\<lparr>uu_desc := \<lparr>d_type = TypeUser, d_id = toy_id 8\<rparr>\<rparr>\<rparr>"

definition toy_other_owner :: "entity_database \<Rightarrow> owner" where
  "toy_other_owner d = (toy_owner d)\<lparr>ow_User := toy_stranger, ow_Profile := NewProfile empty_profile_database (toy_id 8)\<rparr>"

lemma toy_id_text: "CHR ''+'' \<notin> set (ID_String (toy_id 7))"
proof -
  have "toy_id 7 = [7, 1, 1, 1, 1, 1, 1, 1, 1, 1, 1, 1, 1, 1, 1, 1, 1, 1, 1, 1, 1, 1, 1, 1, 1, 1, 1, 1, 1, 1, 1, 1]"
    by (simp add: toy_id_def numeral_eq_Suc)
  then show ?thesis by (simp add: ID_String_def std_encode_def group24_def std_alphabet_def Let_def)
qed

theorem Moderator_added_without_plus_witness:
  "\<exists>d u h'. serve handleAddModerator toy_site toy_serving
       (toy_request ''POST'' ''/moder/add'' [] (\<lambda>k. if k = ''id'' then ID_String (toy_id 7) else '''')) (toy_turn (toy_other_owner d))
       = (Ok (), u) \<and>
     ps_handles (tn_proc u) 0 = Some h' \<and> moderator_set (ow_Profile (lh_owner h')) = {toy_id 7, toy_id 8}"
proof -
  let ?r = "toy_request ''POST'' ''/moder/add'' [] (\<lambda>k. if k = ''id'' then ID_String (toy_id 7) else '''')"
  obtain d where d: "good_owner toy_rt (toy_owner d) [(toy_user, 0)] [(toy_root, 5)] []"
    using toy_owner_good by blast
  then have good: "good_owner (si_rt toy_site) (lh_owner (toy_handle (toy_other_owner d))) [(toy_user, 0)] [(toy_root, 5)] []"
    using toy_coherent by (simp add: good_owner_def toy_other_owner_def toy_stranger_def user_id_def NewProfile_def
        toy_rt_parts toy_site_def toy_handle_def)
  have m: "moderator_set (ow_Profile (lh_owner (toy_handle (toy_other_owner d)))) = {toy_id 8}"
    by (simp add: toy_handle_def toy_other_owner_def moderator_set_def NewProfile_def empty_profile_database_def)
  have f: "sound_runtime (si_rt toy_site)"
    "ps_handles (tn_proc (toy_turn (toy_other_owner d))) (si_handle toy_site) = Some (toy_handle (toy_other_owner d))"
    "se_IsAuthenticated (tn_session (toy_turn (toy_other_owner d)))"
    "rq_PostFormValue ?r ''csrf'' = se_CSRFToken (tn_session (toy_turn (toy_other_owner d)))" "rq_Query ?r = []"
    "rq_FormValue ?r ''id'' = ID_String (toy_id 7)" "length (toy_id 7) = IDLen"
    "toy_id 7 \<in> (user_id \<circ> fst) ` set [(toy_user, 0)]"
    by (simp_all add: toy_site_def sound_toy toy_turn_def toy_site_process toy_session_def toy_request_def IDLen_def toy_uid)
  have "toy_id 7 \<notin> moderator_set (ow_Profile (lh_owner (toy_handle (toy_other_owner d))))" unfolding m by simp
  from Moderator_added_without_plus [where sv = toy_serving, OF f(1,2) good f(3-8) this] show ?thesis
    unfolding if_not_P [OF toy_id_text] m by (auto simp: toy_site_def)
qed

theorem Thread_started_from_form_witness:
  "\<exists>d u h' m. serve handleCreateThread toy_site toy_serving
       (toy_request ''POST'' ''/thread/create'' []
         (\<lambda>k. if k = ''subject'' then ''b'' else if k = ''text'' then ''t'' else if k = ''topic'' then ''x'' else ''''))
       (toy_turn (toy_owner d)) = (Ok (), u) \<and>
     tn_out u = [Redirect ''/board''] \<and> ps_handles (tn_proc u) 0 = Some h' \<and>
     good_owner toy_rt (lh_owner h') [(toy_user, 0)] [(toy_root, 5), (m, Hour)] [] \<and> mSubject (message_content_of m) = ''b''"
proof -
  let ?r = "toy_request ''POST'' ''/thread/create'' []
         (\<lambda>k. if k = ''subject'' then ''b'' else if k = ''text'' then ''t'' else if k = ''topic'' then ''x'' else '''')"
  obtain d where d: "good_owner toy_rt (toy_owner d) [(toy_user, 0)] [(toy_root, 5)] []"
    using toy_owner_good by blast
  let ?um = "newUnsignedMessage toy_env ''b'' ''t'' (user_id toy_user) ZeroID Hour (Some [''x''])"
  let ?m = "\<lparr>msg_unsigned = ?um, msg_sig = toy_sig\<rparr>"
  have valid: "UnsignedMessage_isValid toy_env ?um"
    using toy_tag_valid by (simp add: UnsignedMessage_isValid_def newUnsignedMessage_def newMessageContent_def Let_def toy_uid
        ID_IsZero_def MaxMessageSubjectLen_def MaxMessageTextLen_def)
  then have made: "NewThread (si_rt toy_site) (rq_PostFormValue ?r ''subject'') (rq_PostFormValue ?r ''text'') (Some [''x''])
      (sv_clock toy_serving) (lh_owner (toy_handle (toy_owner d))) (ps_lastMsg (tn_proc (toy_turn (toy_owner d)))) = (Ok ?m, Hour)"
    by (simp add: toy_site_def toy_request_def toy_serving_def toy_handle_def toy_turn_def site_process_def toy_process_def NewThread_def EmergeMessage_def Let_def time_sub_def MinMessagePostDelay_def duration_defs toy_Sign
        toy_rt_parts toy_owner_def)
  have mid: "message_id ?m = toy_id 98"
    by (simp add: message_id_def newUnsignedMessage_def newMessageContent_def Let_def MessageContent_ToID_def
        NewID_def toy_env_def toy_hash_single)
  have store: "storable_message (rt_env (si_rt toy_site)) ?m"
    using valid mid toy_tag_valid by (simp add: toy_site_def toy_rt_parts storable_message_def newUnsignedMessage_def newMessageContent_def
        Let_def toy_uid IDLen_def)
  have good: "good_owner (si_rt toy_site) (lh_owner (toy_handle (toy_owner d))) [(toy_user, 0)] [(toy_root, 5)] []"
    using d by (simp add: toy_site_def toy_handle_def)
  have f: "sound_runtime (si_rt toy_site)"
    "ps_handles (tn_proc (toy_turn (toy_owner d))) (si_handle toy_site) = Some (toy_handle (toy_owner d))"
    "se_IsAuthenticated (tn_session (toy_turn (toy_owner d)))" "isPost ?r"
    "rq_PostFormValue ?r ''csrf'' = se_CSRFToken (tn_session (toy_turn (toy_owner d)))" "query_len ?r \<le> 1"
    "NewTopic (rq_FormValue ?r ''topic'') = Ok (Some [''x''])" "QueryUnescape (rq_FormValue ?r ''topic'') \<noteq> None"
    "0 < length (rq_PostFormValue ?r ''subject'')" "length (rq_PostFormValue ?r ''subject'') \<le> MaxMessageSubjectLen"
    "0 < length (rq_PostFormValue ?r ''text'')" "length (rq_PostFormValue ?r ''text'') \<le> MaxMessageTextLen"
    using toy_tag_valid
    by (simp_all add: toy_site_def sound_toy toy_turn_def toy_site_process toy_session_def toy_request_def isPost_def
        query_len_def NewTopic_def comma_def MaxMessageSubjectLen_def MaxMessageTextLen_def)
  have "message_id ?m \<notin> (message_id \<circ> fst) ` set [(toy_root, 5)]" using mid by (simp add: toy_message_ids)
  from Thread_started_from_form [OF f(1,2) good f(3-12) made store this] obtain u h' where
    "serve handleCreateThread toy_site toy_serving ?r (toy_turn (toy_owner d)) = (Ok (), u)"
    "tn_out u = tn_out (toy_turn (toy_owner d)) @ [Redirect ''/board'']"
    "ps_handles (tn_proc u) (si_handle toy_site) = Some h'"
    "good_owner (si_rt toy_site) (lh_owner h') [(toy_user, 0)] ([(toy_root, 5)] @ [(?m, sv_now toy_serving)]) []"
    "mSubject (message_content_of ?m) = rq_PostFormValue ?r ''subject''" by blast
  then show ?thesis
    by (intro exI [of _ d] exI [of _ u] exI [of _ h'] exI [of _ ?m] conjI)
      (simp_all add: toy_turn_def toy_site_def toy_serving_def toy_request_def)
qed

theorem Site_keeps_node_witness:
  "\<exists>dk p1 tr w h' q ow. Login toy_rt ''nick_1'' 0 (toy_process dk) = (Ok 0, p1) \<and> tr \<noteq> [] \<and>
     web_run toy_site (InitHandlers p1 (\<lambda>_. toy_session False)) tr w \<and>
     ps_handles (wb_proc w) 0 = Some h' \<and> Logout 0 (wb_proc w) = (Ok (), q) \<and>
     OwnerNew toy_host toy_env toy_engine toy_profile_engine (ps_dir q) ''nick_1'' (ps_disk q) = Ok ow \<and>
     ow_db ow = ow_db (lh_owner h')"
proof -
  obtain dk p1 h where l: "Login toy_rt ''nick_1'' 0 (toy_process dk) = (Ok 0, p1)" "ps_handles p1 0 = Some h"
    "uNickname (user_content_of (ow_User (lh_owner h))) = ''nick_1''"
    using toy_login by blast
  have login: "ps_login p1 = Some 0" by (rule Login_Ok [OF l(1)])
  obtain tr w where run: "web_run toy_site (InitHandlers p1 (\<lambda>_. toy_session False)) tr w" "wb_proc w = p1"
    "wb_ss w = [('''', 0)]"
    using toy_login_run [OF login l(2,3)] by blast
  have "tr \<noteq> []"
  proof
    assume "tr = []"
    with run(1) have "w = InitHandlers p1 (\<lambda>_. toy_session False)" by (cases rule: web_run.cases) auto
    with run(3) show False by (simp add: InitHandlers_def newSessionPool_def)
  qed
  have parts: "si_rt toy_site = toy_rt" "si_handle toy_site = 0" by (simp_all add: toy_site_def)
  have "sound_site toy_site" "IsValid (Some (si_handle toy_site)) (wb_proc w)"
    using login run(2) by (simp_all add: sound_site_def parts toy_rt_parts faithful_reliable [OF faithful_toy]
        preliable_toy good_host_def toy_host_def IsValid_def)
  from Site_keeps_node [of toy_site, unfolded parts, OF l this(1) run(1) this(2) [unfolded parts]] l(1) run(1) \<open>tr \<noteq> []\<close>
  show ?thesis unfolding toy_rt_parts by blast
qed

end
