(* ===== verification/Pages.thy ===== *)
theory Pages
  imports SiteSafety
begin

text \<open>
  The templates of the site (\<open>cmd/dscuss-web/view\<close>): what a page shows of the data it is given, and
  what it offers, its links and its forms with the fields they are filled in with. Labels and
  layout that are the same on every page are left out, as is the escaping of texts and attributes,
  which a browser undoes. The escaping of values in links is modelled, since what they
  lead to depends on it.
\<close>

section \<open>Values in links\<close>

text \<open>
  \<open>html/template\<close> escapes a value in the query of a link: everything but the unreserved characters, or,
  when the value is a \<open>template.URL\<close>, only what must not occur in a URL at all.
\<close>

definition lower_hex :: gostring where "lower_hex = ''0123456789abcdef''"

definition url_reserved :: gostring where
  "url_reserved = [CHR ''!'', CHR ''#'', CHR ''$'', CHR ''&'', CHR ''*'', CHR ''+'', CHR '','', CHR ''/'',
     CHR '':'', CHR '';'', CHR ''='', CHR ''?'', CHR ''@'', CHR 0x5B, CHR 0x5D]"

fun process_url :: "bool \<Rightarrow> gostring \<Rightarrow> gostring" where
  "process_url norm [] = []"
| "process_url norm (c # cs) =
     (if c \<in> set unreserved \<or> norm \<and> c \<in> set url_reserved \<or>
         norm \<and> c = CHR ''%'' \<and> 2 \<le> length cs \<and> unhex (cs ! 0) \<noteq> None \<and> unhex (cs ! 1) \<noteq> None then [c]
      else let n = of_char c :: nat in [CHR ''%'', lower_hex ! (n div 16), lower_hex ! (n mod 16)])
     @ process_url norm cs"

section \<open>What a page is made of\<close>

datatype field =
    Hidden gostring gostring
  | Entry gostring gostring
  | Area gostring gostring
  | Select gostring "gostring list"
  | Submit gostring gostring

text \<open>A link has a path and parameters as they are written; what is inside a form follows it.\<close>

datatype element =
    Value gostring
  | Notice gostring
  | Anchor gostring gostring
  | Link gostring "(gostring \<times> gostring) list"
  | Form gostring "field list"

abbreviation param :: "gostring \<Rightarrow> gostring \<Rightarrow> gostring \<times> gostring" where
  "param k v \<equiv> (k, process_url False v)"

definition shown_if :: "gostring \<Rightarrow> element list" where
  "shown_if msg = (if msg \<noteq> '''' then [Value msg] else [])"

text \<open>Every form begins with the token of the session.\<close>

definition csrf :: "common_data \<Rightarrow> field" where "csrf cd = Hidden ''csrf'' (cd_CSRF cd)"

section \<open>The frame of every page\<close>

definition base_html :: "common_data \<Rightarrow> element list \<Rightarrow> element list" where
  "base_html cd content =
     [Value (cd_NodeName cd)] @ shown_if (cd_PageTitle cd)
     @ [Link ''/'' [], Value (cd_NodeName cd)]
     @ (if cd_Topic cd \<noteq> '''' then [Link ''/board'' [param ''topic'' (cd_Topic cd)], Value (cd_Topic cd)] else [])
     @ (if wu_Nickname (cd_Owner cd) \<noteq> ''''
        then [Link ''/profile'' [], Value (wu_Nickname (cd_Owner cd)), Value (wu_ShortID (cd_Owner cd)),
              Link ''/peer/list'' [], Link ''/logout'' []]
        else if cd_ShowLogin cd then [Link ''/login'' [(''next'', process_url True (cd_CurrentURL cd))]] else [])
     @ content"

section \<open>The pages\<close>

definition login_html :: "common_data \<Rightarrow> gostring \<Rightarrow> gostring \<Rightarrow> element list" where
  "login_html cd nxt msg =
     [Value (cd_PageTitle cd),
      Form ''/login'' [csrf cd, Hidden ''next'' nxt, Entry ''username'' '''', Entry ''password'' '''', Submit '''' ''Login'']]
     @ shown_if msg"

definition author_html :: "web_message \<Rightarrow> element list" where
  "author_html m = [Link ''/user'' [param ''id'' (wm_AuthorID m)], Value (wm_AuthorName m), Value (wm_AuthorShortID m),
     Value (wm_DateWritten m)]"

definition row_html :: "common_data \<Rightarrow> root_message \<Rightarrow> element list" where
  "row_html cd rm =
     (let m = rm_Message rm
      in [Anchor ''thread-'' (wm_ID m), Link ''/thread'' [param ''id'' (wm_ID m)], Value (wm_Subject m)]
         @ (if cd_Topic cd = '''' then [Link ''/board'' [param ''topic'' (rm_Topic rm)], Value (rm_Topic rm)] else [])
         @ [Value (wm_Text m), Value (wm_AuthorName m), Value (wm_AuthorShortID m), Value (wm_DateWritten m)])"

definition board_html :: "common_data \<Rightarrow> root_message list \<Rightarrow> element list" where
  "board_html cd threads =
     (if cd_IsWritingPermitted cd
      then [Link ''/thread/create'' (if cd_Topic cd \<noteq> '''' then [param ''topic'' (cd_Topic cd)] else [])] else [])
     @ (if cd_Topic cd \<noteq> '''' then [Notice ''topic'', Value (cd_Topic cd)] else [Notice ''all topics''])
     @ (if threads \<noteq> [] then concat (map (row_html cd) threads) else [Notice ''No threads to show.''])"

text \<open>What a writer can do with a message; the root of a thread is addressed by the identifier of the query.\<close>

definition message_links :: "common_data \<Rightarrow> gostring \<Rightarrow> gostring \<Rightarrow> element list" where
  "message_links cd i author =
     (if cd_IsWritingPermitted cd
      then [Link ''/thread/reply'' [param ''id'' i], Link ''/oper/ban'' [param ''id'' author],
            Link ''/oper/del'' [param ''id'' i], Link ''/oper/list'' [(''type'', ''msg''), param ''id'' i]]
      else [])"

definition reply_row_html :: "common_data \<Rightarrow> web_message \<Rightarrow> element list" where
  "reply_row_html cd m =
     [Anchor ''message-'' (wm_ID m), Value (wm_Subject m), Value (wm_Text m)]
     @ author_html m @ message_links cd (wm_ID m) (wm_AuthorID m)"

definition thread_html :: "common_data \<Rightarrow> bool \<Rightarrow> gostring \<Rightarrow> web_thread \<Rightarrow> element list" where
  "thread_html cd isFound i th =
     (let m = rm_Message (wt_Root th)
      in (if cd_IsWritingPermitted cd then [Link ''/thread/reply'' [param ''id'' i]] else [])
         @ (if isFound
            then [Link ''/thread'' [param ''id'' i], Value (wm_Subject m), Value (wm_Text m)]
                 @ author_html m @ message_links cd i (wm_AuthorID m)
            else [Notice ''Requested thread was not found.'', Link ''/oper/list'' [(''type'', ''msg''), param ''id'' i]])
         @ (if wt_Replies th \<noteq> [] then concat (map (reply_row_html cd) (wt_Replies th))
            else [Notice ''No replies to show.'']))"

definition thread_create_html :: "common_data \<Rightarrow> gostring \<Rightarrow> gostring \<Rightarrow> gostring \<Rightarrow> element list" where
  "thread_create_html cd subj txt msg =
     [Value (cd_PageTitle cd),
      Form ''/thread/create'' [csrf cd, Entry ''topic'' (cd_Topic cd), Entry ''subject'' subj, Area ''text'' txt,
        Submit ''action'' ''Start'']]
     @ shown_if msg"

text \<open>The subject is filled in anew each time, the text as it was posted.\<close>

definition thread_reply_html ::
  "common_data \<Rightarrow> root_message \<Rightarrow> web_message \<Rightarrow> gostring \<Rightarrow> bool \<Rightarrow> gostring \<Rightarrow> element list" where
  "thread_reply_html cd rm parent txt showSubj msg =
     (let root = rm_Message rm
      in [Link ''/thread'' [param ''id'' (wm_ID root)], Value (wm_Subject root),
          Form ''/thread/reply'' [csrf cd, Hidden ''id'' (wm_ID parent), Entry ''subject'' (''Re: '' @ wm_Subject parent),
            Area ''text'' txt, Submit ''action'' ''Submit reply'']]
         @ (if showSubj then [Value (wm_Subject parent)] else [])
         @ [Value (wm_Text parent)] @ author_html parent @ shown_if msg)"

definition user_rows :: "web_user \<Rightarrow> element list" where
  "user_rows u = [Value (wu_ID u), Value (wu_Nickname u), Value (wu_Info u), Value (wu_RegDate u)]"

definition profile_html :: "common_data \<Rightarrow> web_user list \<Rightarrow> gostring list \<Rightarrow> gostring \<Rightarrow> element list" where
  "profile_html cd moders ss msg =
     [Value (cd_PageTitle cd)] @ user_rows (cd_Owner cd)
     @ [Form ''/sub/add'' [csrf cd, Entry ''topic'' '''', Submit ''action'' ''Subscribe'']]
     @ concat (map (\<lambda>s. [Value s, Link ''/sub/del'' [param ''topic'' s]]) ss)
     @ [Form ''/moder/add'' [csrf cd, Entry ''id'' '''', Submit ''action'' ''Add'']]
     @ concat (map (\<lambda>m. [Link ''/user'' [param ''id'' (wu_ID m)], Value (wu_Nickname m), Value (wu_ShortID m),
          Link ''/moder/del'' [param ''id'' (wu_ID m)]]) moders)
     @ shown_if msg"

text \<open>
  The comment of both moderating forms is taken from a field \<open>Reply\<close> that these pages are
  not given, so it is always empty.
\<close>

definition oper_form :: "common_data \<Rightarrow> gostring \<Rightarrow> gostring \<Rightarrow> element" where
  "oper_form cd action i = Form action [csrf cd, Hidden ''id'' i,
     Select ''reason'' [''SPAM'', ''Offtopic'', ''Abuse'', ''Duplicate''], Area ''comment'' '''',
     Submit ''action'' ''Submit reply'']"

definition oper_del_html :: "common_data \<Rightarrow> web_message \<Rightarrow> gostring \<Rightarrow> element list" where
  "oper_del_html cd m msg =
     [Value (cd_PageTitle cd), oper_form cd ''/oper/del'' (wm_ID m), Value (wm_Subject m), Value (wm_Text m)]
     @ author_html m @ shown_if msg"

definition oper_ban_html :: "common_data \<Rightarrow> web_user \<Rightarrow> gostring \<Rightarrow> element list" where
  "oper_ban_html cd u msg =
     [Value (cd_PageTitle cd), oper_form cd ''/oper/ban'' (wu_ID u)] @ user_rows u @ shown_if msg"

definition oper_list_html :: "common_data \<Rightarrow> web_operation list \<Rightarrow> element list" where
  "oper_list_html cd ops =
     [Value (cd_PageTitle cd)]
     @ (if ops \<noteq> []
        then concat (map (\<lambda>e. [Anchor ''operation-'' (wo_ID e), Value (wo_Type e), Value (wo_Reason e)]
               @ shown_if (wo_Comment e)
               @ [Link ''/user'' [param ''id'' (wo_AuthorID e)], Value (wo_AuthorName e), Value (wo_AuthorShortID e),
                  Value (wo_DatePerformed e)]) ops)
        else [Notice ''No operations to show.''])"

definition user_html :: "common_data \<Rightarrow> web_user \<Rightarrow> element list" where
  "user_html cd u = [Value (cd_PageTitle cd)] @ user_rows u
     @ [Link ''/oper/list'' [(''type'', ''user''), param ''id'' (wu_ID u)]]"

definition peer_list_html :: "common_data \<Rightarrow> web_peer list \<Rightarrow> element list" where
  "peer_list_html cd peers =
     [Value (cd_PageTitle cd)]
     @ (if peers \<noteq> []
        then concat (map (\<lambda>p. [Anchor ''peer-'' (wp_ID p), Value (wp_Nickname p), Value (wp_ID p), Value (wp_State p),
               Value (wp_LocalAddr p), Value (wp_RemoteAddr p), Value (wp_AssociatedAddrs p), Value (wp_Subscriptions p)]) peers)
        else [Notice ''There are no peers connected.''])
     @ [Link ''/peer/history'' []]"

definition peer_history_html :: "common_data \<Rightarrow> peer_history list \<Rightarrow> element list" where
  "peer_history_html cd hist =
     [Value (cd_PageTitle cd)]
     @ (if hist \<noteq> []
        then concat (map (\<lambda>h. [Anchor ''peer-'' (ph_ID h), Value (ph_ID h), Value (ph_Disconnected h),
               Value (ph_Subscriptions h)]) hist)
        else [Notice ''There are no history records.''])"

text \<open>\<open>Render\<close>: the template of each page.\<close>

fun content_html :: "common_data \<Rightarrow> page \<Rightarrow> element list" where
  "content_html cd (Login_page nxt msg) = login_html cd nxt msg"
| "content_html cd (Board_page threads) = board_html cd threads"
| "content_html cd (Thread_page isFound i th) = thread_html cd isFound i th"
| "content_html cd (Create_page subj txt msg) = thread_create_html cd subj txt msg"
| "content_html cd (Reply_page rm parent subj txt showSubj msg) = thread_reply_html cd rm parent txt showSubj msg"
| "content_html cd (Profile_page moders ss msg) = profile_html cd moders ss msg"
| "content_html cd (Remove_page m reason comment msg) = oper_del_html cd m msg"
| "content_html cd (Ban_page u reason comment msg) = oper_ban_html cd u msg"
| "content_html cd (Operations_page ops) = oper_list_html cd ops"
| "content_html cd (User_page u) = user_html cd u"
| "content_html cd (Peers_page peers) = peer_list_html cd peers"
| "content_html cd (History_page hist) = peer_history_html cd hist"

definition Render :: "common_data \<Rightarrow> page \<Rightarrow> element list" where
  "Render cd pg = base_html cd (content_html cd pg)"

section \<open>What a browser makes of them\<close>

text \<open>Following a link; \<open>net/url\<close> drops parameters that cannot be decoded.\<close>

definition decoded :: "(gostring \<times> gostring) list \<Rightarrow> (gostring \<times> gostring) list" where
  "decoded ps = concat (map (\<lambda>(k, v). case QueryUnescape v of None \<Rightarrow> [] | Some s \<Rightarrow> [(k, s)]) ps)"

definition raw_query :: "(gostring \<times> gostring) list \<Rightarrow> gostring" where
  "raw_query ps = join (CHR ''&'') (map (\<lambda>(k, v). k @ ''='' @ v) ps)"

definition value_of :: "(gostring \<times> gostring) list \<Rightarrow> gostring \<Rightarrow> gostring" where
  "value_of kvs k = (case map_of kvs k of None \<Rightarrow> '''' | Some v \<Rightarrow> v)"

definition follow :: "gostring \<Rightarrow> (gostring \<times> gostring) list \<Rightarrow> gostring option \<Rightarrow> request" where
  "follow path ps ck = \<lparr>rq_Method = ''GET'', rq_Path = path, rq_RawQuery = raw_query ps, rq_Query = decoded ps,
     rq_FormValue = value_of (decoded ps), rq_PostFormValue = (\<lambda>_. ''''), rq_Cookie = ck\<rparr>"

text \<open>
  Submitting a form: hidden fields and the button as they are, the others as the user
  leaves them.
\<close>

fun submitted :: "(gostring \<Rightarrow> gostring) \<Rightarrow> field \<Rightarrow> gostring \<times> gostring" where
  "submitted typed (Hidden k v) = (k, v)"
| "submitted typed (Submit k v) = (k, v)"
| "submitted typed (Entry k v) = (k, typed k)"
| "submitted typed (Area k v) = (k, typed k)"
| "submitted typed (Select k vs) = (k, typed k)"

definition submit :: "gostring \<Rightarrow> field list \<Rightarrow> (gostring \<Rightarrow> gostring) \<Rightarrow> gostring option \<Rightarrow> request" where
  "submit action fs typed ck =
     (let v = value_of (map (submitted typed) fs)
      in \<lparr>rq_Method = ''POST'', rq_Path = action, rq_RawQuery = '''', rq_Query = [],
          rq_FormValue = v, rq_PostFormValue = v, rq_Cookie = ck\<rparr>)"

lemma submit_parts [simp]:
  "isPost (submit action fs typed ck)" "rq_Path (submit action fs typed ck) = action" "rq_Query (submit action fs typed ck) = []"
  "rq_FormValue (submit action fs typed ck) = value_of (map (submitted typed) fs)"
  "rq_PostFormValue (submit action fs typed ck) = value_of (map (submitted typed) fs)"
  by (simp_all add: submit_def Let_def isPost_def)

lemma follow_parts [simp]:
  "\<not> isPost (follow path ps ck)" "rq_Path (follow path ps ck) = path" "rq_Query (follow path ps ck) = decoded ps"
  "rq_FormValue (follow path ps ck) = value_of (decoded ps)"
  by (simp_all add: follow_def isPost_def)

text \<open>The requests a page offers.\<close>

inductive offers :: "element list \<Rightarrow> request \<Rightarrow> bool" for es where
  link: "Link path ps \<in> set es \<Longrightarrow> offers es (follow path ps ck)"
| form: "Form action fs \<in> set es \<Longrightarrow> offers es (submit action fs typed ck)"

section \<open>What the handlers answer\<close>

definition closed_routes :: "gostring list" where
  "closed_routes = [''/profile'', ''/thread/create'', ''/thread/reply'', ''/moder/add'', ''/moder/del'', ''/sub/add'',
     ''/sub/del'', ''/oper/del'', ''/oper/ban'', ''/peer/list'', ''/peer/history'']"

fun open_page :: "page \<Rightarrow> bool" where
  "open_page (Login_page nxt msg) = True"
| "open_page (Board_page threads) = True"
| "open_page (Thread_page isFound i th) = True"
| "open_page (Operations_page ops) = True"
| "open_page (User_page u) = True"
| "open_page _ = False"

definition current_url :: "request \<Rightarrow> gostring" where
  "current_url r = (if rq_RawQuery r \<noteq> '''' then rq_Path r @ ''?'' @ rq_RawQuery r else rq_Path r)"

text \<open>
  A page carries the token of the session and the address of the request it is made for, and is one the session may see; a session
  that is authenticated is never refused.
\<close>

fun fair_reply :: "request \<Rightarrow> session \<Rightarrow> reply \<Rightarrow> bool" where
  "fair_reply r s (Rendered cd pg) \<longleftrightarrow> cd_CSRF cd = se_CSRFToken s \<and> cd_IsWritingPermitted cd = se_IsAuthenticated s \<and>
     cd_CurrentURL cd = (if rq_Path r \<noteq> '''' then QueryEscape (current_url r) else ''/'') \<and>
     (se_IsAuthenticated s \<or> wu_Nickname (cd_Owner cd) = '''' \<and> open_page pg)"
| "fair_reply r s Forbidden = False"
| "fair_reply r s _ = True"

definition fair :: "request \<Rightarrow> session \<Rightarrow> turn \<Rightarrow> turn \<Rightarrow> bool" where
  "fair r s t u \<longleftrightarrow> (tn_session t = s \<longrightarrow> tn_session u = s \<and>
     (\<exists>new. tn_out u = tn_out t @ new \<and> (\<forall>x \<in> set new. fair_reply r s x)))"

interpretation answering_fairly: effect "fair r s" for r s
proof
  show "fair r s t t" for t by (simp add: fair_def)
  show "fair r s t v" if "fair r s t u" "fair r s u v" for t u v
  proof (cases "tn_session t = s")
    case True
    with that(1) obtain xs where u: "tn_session u = s" "tn_out u = tn_out t @ xs" "\<forall>x \<in> set xs. fair_reply r s x"
      by (auto simp: fair_def)
    with that(2) obtain ys where "tn_session v = s" "tn_out v = tn_out u @ ys" "\<forall>x \<in> set ys. fair_reply r s x"
      by (auto simp: fair_def)
    with u show ?thesis unfolding fair_def by (intro impI conjI exI [of _ "xs @ ys"]) auto
  qed (simp add: fair_def)
qed

lemma fair_say: "(tn_session t = s \<Longrightarrow> fair_reply r s x) \<Longrightarrow> fair r s t (snd (say x t))"
  by (simp add: fair_def say_def)

lemma fair_silent: "fair r s t (snd (in_turn f t))" "fair r s t (snd (asks g t))" "fair r s t (snd (panic t))"
  by (auto simp: fair_def in_turn_def asks_def panic_def split: prod.split)

lemma readCommonData_fair:
  "readCommonData st r t = Ok cd \<Longrightarrow> fair_reply r (tn_session t) (Rendered (cd\<lparr>cd_PageTitle := title, cd_Topic := topic\<rparr>) pg) \<longleftrightarrow>
     se_IsAuthenticated (tn_session t) \<or> open_page pg"
  by (auto simp: readCommonData_def current_url_def Let_def bind_result_eq_Inr zero_user_def split: if_splits)

lemma fair_render:
  "se_IsAuthenticated s \<or> open_page pg \<Longrightarrow> fair r s t (snd (render st r title topic pg t))"
  using readCommonData_fair [of st r t]
  by (auto simp: render_def exec_def fair_def say_def split: sum.split simp del: fair_reply.simps(1))

lemmas fair_steps = answering_fairly.effects fair_silent fair_render fair_say

lemma fair_found: "(\<And>x t. fair r s t (snd (k x t))) \<Longrightarrow> fair r s t (snd (found res t k))"
  by (auto simp: found_def intro!: fair_steps split: sum.split)

lemma fair_with_root: "(\<And>x t. fair r s t (snd (k x t))) \<Longrightarrow> fair r s t (snd (with_root st m t k))"
  by (auto simp: with_root_def intro!: fair_steps split: sum.split)

lemma replies_fair [simp]: "fair_reply r s wrong_number" "fair_reply r s not_encoded" "fair_reply r s (not_an_ID i)"
  by (simp_all add: wrong_number_def not_encoded_def not_an_ID_def)

lemma open_fair:
  "fair r s t (snd (handleBoard st sv r t))" "fair r s t (snd (handleThread st sv r t))"
  "fair r s t (snd (handleUser st sv r t))" "fair r s t (snd (handleListOperations st sv r t))"
proof -
  show "fair r s t (snd (handleBoard st sv r t))"
    by (auto simp: handleBoard_def Let_def intro!: fair_steps split: outcome_splits)
  show "fair r s t (snd (handleThread st sv r t))"
    by (auto simp: handleThread_def Let_def intro!: fair_steps split: outcome_splits)
  show "fair r s t (snd (handleUser st sv r t))"
    by (auto simp: handleUser_def Let_def intro!: fair_steps fair_found split: outcome_splits)
  show "fair r s t (snd (handleListOperations st sv r t))"
    by (auto simp: handleListOperations_def Let_def intro!: fair_steps split: outcome_splits)
qed

lemma fair_parts:
  assumes "se_IsAuthenticated s"
  shows "fair r s t (snd (reply_form st sv r pid m root rm pm t))"
    "(\<And>a b c t. fair r s t (snd (form a b c t))) \<Longrightarrow> fair r s t (snd (post_operation st sv r typ tid nxt form t))"
    "fair r s t (snd rt) \<Longrightarrow> fair r s t (snd (after_change st sv str rt))"
proof -
  show "fair r s t (snd (reply_form st sv r pid m root rm pm t))"
    using assms by (auto simp: reply_form_def Let_def intro!: fair_steps split: outcome_splits)
  show "(\<And>a b c t. fair r s t (snd (form a b c t))) \<Longrightarrow> fair r s t (snd (post_operation st sv r typ tid nxt form t))"
    using assms by (auto simp: post_operation_def Let_def intro!: fair_steps split: outcome_splits)
  have "fair r s t (snd (relogin_and_return st sv t))" for t
    by (auto simp: relogin_and_return_def intro!: fair_steps split: outcome_splits)
  then show "fair r s t (snd rt) \<Longrightarrow> fair r s t (snd (after_change st sv str rt))"
    unfolding after_change_def by (auto intro!: fair_steps split: outcome_splits)
qed

lemma closed_fair:
  assumes "se_IsAuthenticated s"
  shows "fair r s t (snd (handleProfile st sv r t))" "fair r s t (snd (handleListPeers st sv r t))"
    "fair r s t (snd (handlePeerHistory st sv r t))" "fair r s t (snd (handleCreateThread st sv r t))"
    "fair r s t (snd (handleReplyThread st sv r t))" "fair r s t (snd (handleBanUser st sv r t))"
    "fair r s t (snd (handleRemoveMessage st sv r t))" "fair r s t (snd (handleAddModerator st sv r t))"
    "fair r s t (snd (handleDelModerator st sv r t))" "fair r s t (snd (handleSubscribe st sv r t))"
    "fair r s t (snd (handleUnsubscribe st sv r t))"
proof -
  note steps = fair_steps fair_found fair_with_root fair_parts [OF assms]
  show "fair r s t (snd (handleProfile st sv r t))"
    using assms by (auto simp: handleProfile_def intro!: steps split: outcome_splits)
  show "fair r s t (snd (handleListPeers st sv r t))"
    using assms by (auto simp: handleListPeers_def intro!: steps)
  show "fair r s t (snd (handlePeerHistory st sv r t))"
    using assms by (auto simp: handlePeerHistory_def intro!: steps)
  show "fair r s t (snd (handleCreateThread st sv r t))"
    using assms by (auto simp: handleCreateThread_def Let_def intro!: steps split: outcome_splits)
  show "fair r s t (snd (handleReplyThread st sv r t))"
    using assms by (auto simp: handleReplyThread_def Let_def intro!: steps split: outcome_splits)
  show "fair r s t (snd (handleBanUser st sv r t))"
    using assms by (auto simp: handleBanUser_def Let_def intro!: steps split: outcome_splits)
  show "fair r s t (snd (handleRemoveMessage st sv r t))"
    using assms by (auto simp: handleRemoveMessage_def Let_def intro!: steps split: outcome_splits)
  show "fair r s t (snd (handleAddModerator st sv r t))"
    using assms by (auto simp: handleAddModerator_def intro!: steps split: outcome_splits)
  show "fair r s t (snd (handleDelModerator st sv r t))"
    using assms by (auto simp: handleDelModerator_def Let_def intro!: steps split: outcome_splits)
  show "fair r s t (snd (handleSubscribe st sv r t))"
    using assms by (auto simp: handleSubscribe_def intro!: steps split: outcome_splits)
  show "fair r s t (snd (handleUnsubscribe st sv r t))"
    using assms by (auto simp: handleUnsubscribe_def Let_def intro!: steps split: outcome_splits)
qed

text \<open>The login page is for everyone; what it answers is fair for the session as it was before.\<close>

lemma handleLogin_fair:
  assumes "tn_out t = []"
  shows "\<forall>x \<in> set (tn_out (snd (handleLogin st sv r t))). fair_reply r (tn_session t) x"
proof -
  have page: "\<forall>x \<in> set (tn_out (snd (render st r title topic (Login_page nxt msg) (t\<lparr>tn_session := tn_session t\<rparr>)))).
      fair_reply r (tn_session t) x" for title topic nxt msg
    using fair_render [where s = "tn_session t" and t = t and pg = "Login_page nxt msg"] assms by (auto simp: fair_def)
  then have same: "\<forall>x \<in> set (tn_out (snd (render st r title topic (Login_page nxt msg) t))). fair_reply r (tn_session t) x"
    for title topic nxt msg by simp
  show ?thesis
    unfolding handleLogin_def Let_def exec_def asks_def Authenticate_def
    using page same assms by (simp add: say_def split: sum.split prod.split)
qed

text \<open>Every request that gets past the check of its token.\<close>

lemma served_by:
  assumes "web_step st w (Served r s outs) w'" "isPost r \<longrightarrow> rq_PostFormValue r ''csrf'' = se_CSRFToken (wb_heap w s)"
  shows "\<exists>fn sv extra. map_of routes (rq_Path r) = Some fn \<and> set extra \<subseteq> {ServerError} \<and>
    outs = tn_out (snd (fn st sv r \<lparr>tn_session = wb_heap w s, tn_proc = wb_proc w, tn_out = []\<rparr>)) @ extra"
  using assms(1)
proof cases
  case (serves n fn sv res t)
  let ?t = "\<lparr>tn_session = wb_heap w s, tn_proc = wb_proc w, tn_out = []\<rparr>"
  have c: "checked fn st sv r ?t = fn st sv r ?t" using assms(2) by (auto simp: checked_def)
  have "\<exists>extra. tn_out t = tn_out (snd (fn st sv r ?t)) @ extra \<and> set extra \<subseteq> {ServerError}"
    using serves(6) by (auto simp: serve_def c say_def split: prod.splits sum.splits fault.splits)
  with serves(1,5) show ?thesis by blast
qed

lemma served_fair:
  assumes "web_step st w (Served r s outs) w'" "isPost r \<longrightarrow> rq_PostFormValue r ''csrf'' = se_CSRFToken (wb_heap w s)"
    and "se_IsAuthenticated (wb_heap w s) \<or> rq_Path r \<notin> set closed_routes"
  shows "\<forall>x \<in> set outs. fair_reply r (wb_heap w s) x"
proof -
  let ?t = "\<lparr>tn_session = wb_heap w s, tn_proc = wb_proc w, tn_out = []\<rparr>"
  from served_by [OF assms(1,2)] obtain fn sv extra where fn: "map_of routes (rq_Path r) = Some fn"
    "set extra \<subseteq> {ServerError}" "outs = tn_out (snd (fn st sv r ?t)) @ extra" by blast
  have "\<forall>x \<in> set (tn_out (snd (fn st sv r ?t))). fair_reply r (wb_heap w s) x"
  proof (cases "rq_Path r = ''/login''")
    case True
    with fn(1) have "fn = handleLogin" by (simp add: routes_def)
    with handleLogin_fair [of ?t st sv r] show ?thesis by simp
  next
    case False
    with fn(1) have "fair r (wb_heap w s) ?t (snd (fn st sv r ?t))"
      using assms(3) open_fair closed_fair by (auto simp: routes_def closed_routes_def split: if_splits)
    then show ?thesis by (auto simp: fair_def)
  qed
  with fn(2,3) show ?thesis by (auto dest!: subsetD)
qed

lemma Closed_to_strangers:
  assumes "web_step st w (Served r s outs) w'" "\<not> se_IsAuthenticated (wb_heap w s)" "rq_Path r \<in> set closed_routes"
  shows "outs = [Forbidden] \<or> outs = [wrong_number]"
  using assms(1)
proof cases
  case (serves n fn sv res t)
  let ?t = "\<lparr>tn_session = wb_heap w s, tn_proc = wb_proc w, tn_out = []\<rparr>"
  from serves(5) assms(3) have "fn \<in> {handleCreateThread, handleReplyThread, handleBanUser, handleRemoveMessage,
      handleAddModerator, handleDelModerator, handleSubscribe, handleUnsubscribe, handleProfile, handleListPeers, handlePeerHistory}"
    by (auto simp: routes_def closed_routes_def split: if_splits)
  from writers_refuse [OF _ this, of ?t st sv r] assms(2)
  have "fn st sv r ?t = say Forbidden ?t \<or> fn st sv r ?t = say wrong_number ?t" by simp
  with serves(1,6) show ?thesis by (auto simp: serve_def checked_def say_def split: if_splits)
qed

section \<open>What a page offers\<close>

lemmas html_defs = base_html_def login_html_def author_html_def row_html_def board_html_def message_links_def
  reply_row_html_def thread_html_def thread_create_html_def thread_reply_html_def user_rows_def profile_html_def
  oper_form_def oper_del_html_def oper_ban_html_def oper_list_html_def user_html_def peer_list_html_def
  peer_history_html_def shown_if_def

text \<open>Every form carries the token of the page; an open page of a stranger has at most the form to log in.\<close>

lemma Render_forms:
  assumes "Form action fs \<in> set (Render cd pg)"
  shows "\<exists>rest. fs = csrf cd # rest" "open_page pg \<Longrightarrow> action = ''/login''"
  using assms by (cases pg; auto simp: Render_def html_defs Let_def split: if_splits)+

lemma Render_links:
  assumes "Link path ps \<in> set (Render cd pg)" "open_page pg" "\<not> cd_IsWritingPermitted cd" "wu_Nickname (cd_Owner cd) = ''''"
  shows "path \<notin> set closed_routes"
  using assms by (cases pg; auto simp: Render_def html_defs Let_def closed_routes_def split: if_splits)

text \<open>
  C34. A page offers nothing that is refused: whatever page the site has shown in a session, no link on it and no form on
  it, however it is filled in, is answered with \<open>403 Forbidden\<close> while the session keeps its token and is
  as authenticated as it was. Strangers are shown no link or form that only the owner may use,
  and every form carries the token it is checked for.
\<close>

theorem Pages_offer_nothing_refused:
  assumes "web_step st w (Served r s outs) w1" "Rendered cd pg \<in> set outs"
    and "offers (Render cd pg) r'" "web_step st v (Served r' s' outs') v'"
    and "se_CSRFToken (wb_heap v s') = se_CSRFToken (wb_heap w s)"
    and "se_IsAuthenticated (wb_heap v s') = se_IsAuthenticated (wb_heap w s)"
  shows "Forbidden \<notin> set outs'"
proof -
  have "outs = [Forbidden]" if "isPost r" "rq_PostFormValue r ''csrf'' \<noteq> se_CSRFToken (wb_heap w s)"
    using Posted_without_token [OF assms(1) that] by simp
  with assms(2) have own: "isPost r \<longrightarrow> rq_PostFormValue r ''csrf'' = se_CSRFToken (wb_heap w s)" by force
  have "fair_reply r (wb_heap w s) (Rendered cd pg)"
  proof (cases "se_IsAuthenticated (wb_heap w s) \<or> rq_Path r \<notin> set closed_routes")
    case True
    from served_fair [OF assms(1) own this] assms(2) show ?thesis by blast
  next
    case False
    with Closed_to_strangers [OF assms(1)] assms(2) show ?thesis by (auto simp: wrong_number_def)
  qed
  then have cd: "cd_CSRF cd = se_CSRFToken (wb_heap w s)" "cd_IsWritingPermitted cd = se_IsAuthenticated (wb_heap w s)"
    "cd_CurrentURL cd = (if rq_Path r \<noteq> '''' then QueryEscape (current_url r) else ''/'')"
    "se_IsAuthenticated (wb_heap w s) \<or> wu_Nickname (cd_Owner cd) = '''' \<and> open_page pg" by simp_all
  from assms(3) have "isPost r' \<longrightarrow> rq_PostFormValue r' ''csrf'' = se_CSRFToken (wb_heap v s')"
    and "se_IsAuthenticated (wb_heap v s') \<or> rq_Path r' \<notin> set closed_routes"
  proof (atomize (full), cases)
    case (link path ps ck)
    with Render_links [OF link(2)] cd(2,4) assms(6)
    show "(isPost r' \<longrightarrow> rq_PostFormValue r' ''csrf'' = se_CSRFToken (wb_heap v s')) \<and>
      (se_IsAuthenticated (wb_heap v s') \<or> rq_Path r' \<notin> set closed_routes)"
      by auto
  next
    case (form action fs typed ck)
    from Render_forms(1) [OF form(2)] obtain rest where "fs = csrf cd # rest" ..
    with form(1) have "rq_PostFormValue r' ''csrf'' = se_CSRFToken (wb_heap v s')"
      by (simp add: csrf_def value_of_def cd(1) assms(5))
    moreover have "se_IsAuthenticated (wb_heap v s') \<or> rq_Path r' \<notin> set closed_routes"
      using Render_forms(2) [OF form(2)] cd(4) assms(6) form(1) by (auto simp: closed_routes_def)
    ultimately show "(isPost r' \<longrightarrow> rq_PostFormValue r' ''csrf'' = se_CSRFToken (wb_heap v s')) \<and>
      (se_IsAuthenticated (wb_heap v s') \<or> rq_Path r' \<notin> set closed_routes)" by simp
  qed
  from served_fair [OF assms(4) this] show ?thesis by fastforce
qed

section \<open>Values in links, seen from the other end\<close>

lemma unhex_lower: "i < 16 \<Longrightarrow> unhex (lower_hex ! i) = Some i"
proof -
  have "\<forall>i \<in> set [0..<16]. unhex (lower_hex ! i) = Some i" by code_simp
  then show "i < 16 \<Longrightarrow> unhex (lower_hex ! i) = Some i" by simp
qed

lemma hex_unreserved: "i < 16 \<Longrightarrow> hex_digits ! i \<in> set unreserved"
proof -
  have "\<forall>i \<in> set [0..<16]. hex_digits ! i \<in> set unreserved" by code_simp
  then show "i < 16 \<Longrightarrow> hex_digits ! i \<in> set unreserved" by simp
qed

lemma QueryUnescape_process: "QueryUnescape (process_url False s) = Some s"
proof (induction s)
  case (Cons c s)
  have "c \<noteq> CHR ''%'' \<and> c \<noteq> CHR ''+''" if "c \<in> set unreserved"
    using that by (auto simp: unreserved_def)
  with Cons show ?case by (auto simp: Let_def unhex_lower)
qed simp

text \<open>What the site puts into a link arrives.\<close>

lemma param_arrives: "decoded [param k v] = [(k, v)]" "decoded [param k v, param k' v'] = [(k, v), (k', v')]"
  by (simp_all add: decoded_def QueryUnescape_process)

lemma process_url_escaped: "process_url True (QueryEscape s) = QueryEscape s"
proof -
  have "process_url True (escape_char c @ t) = escape_char c @ process_url True t" for c t
    by (simp add: escape_char_def Let_def url_reserved_def unhex_digit hex_unreserved)
  then show ?thesis by (induction s) (simp_all add: QueryEscape_def)
qed

section \<open>Logging in and coming back\<close>

lemma login_link:
  "Link ''/login'' ps \<in> set (Render cd pg) \<Longrightarrow> ps = [(''next'', process_url True (cd_CurrentURL cd))]"
  by (cases pg; auto simp: Render_def html_defs Let_def split: if_splits)

lemma login_form:
  "Form ''/login'' fs \<in> set (Render cd (Login_page nxt msg)) \<Longrightarrow>
    fs = [csrf cd, Hidden ''next'' nxt, Entry ''username'' '''', Entry ''password'' '''', Submit '''' ''Login'']"
  by (auto simp: Render_def html_defs split: if_splits)

lemma login_asked:
  assumes "\<not> se_IsAuthenticated (tn_session t)" "tn_out t = []" "\<not> isPost r" "query_len r \<le> 1"
    and "Rendered cd pg \<in> set (tn_out (snd (handleLogin st sv r t)))"
  shows "\<exists>msg. pg = Login_page (QueryEscape (login_redirect r)) msg"
  using assms by (auto simp: handleLogin_def Let_def render_def exec_def say_def split: sum.splits)

lemma login_posted:
  assumes "\<not> se_IsAuthenticated (tn_session t)" "isPost r" "query_len r \<le> 1"
    and "ps_handles (tn_proc t) (si_handle st) = Some h" "rq_PostFormValue r ''password'' = si_password st"
    and "rq_PostFormValue r ''username'' = uNickname (user_content_of (ow_User (lh_owner h)))"
    and "length (rq_PostFormValue r ''username'') \<le> MaxUsernameLen" "length (si_password st) \<le> MaxPasswordLen"
  shows "handleLogin st sv r t = say (Redirect (login_redirect r))
    (t\<lparr>tn_session := (tn_session t)\<lparr>se_IsAuthenticated := True\<rparr>\<rparr>)"
  using assms
  by (simp add: handleLogin_def Let_def asks_def ask_handle_def GetLoggedUser_def exec_def Authenticate_def)


section \<open>Witnesses\<close>

definition stranger_at :: "request \<Rightarrow> web" where
  "stranger_at r = toy_web False (toy_owner empty_database) r"

lemma stranger_parts [simp]:
  "wb_heap (stranger_at r) s = SiteSafety.toy_session False" "wb_proc (stranger_at r) = site_process (toy_owner empty_database)"
  "wb_down (stranger_at r) = None" "wb_open (stranger_at r) 0 = Some (r, 0)"
  by (simp_all add: stranger_at_def toy_web_def)

lemma stranger_served:
  assumes "map_of routes (rq_Path r) = Some fn"
    and "serve fn toy_site toy_serving r \<lparr>tn_session = SiteSafety.toy_session False, tn_proc = site_process (toy_owner empty_database), tn_out = []\<rparr> = (res, t)"
  shows "\<exists>w. web_step toy_site (stranger_at r) (Served r 0 (tn_out t)) w"
  using serves [of "stranger_at r" 0 r 0 fn toy_site toy_serving, OF _ _ assms(1)] assms(2) by simp blast

lemma toy_board:
  "on_handle 0 (ListBoard toy_rt 0 boardSize) (site_process (toy_owner empty_database)) =
    (Ok [], with_owner 0 (toy_owner empty_database) (site_process (toy_owner empty_database)))"
  by (simp add: on_handle_def site_process_def ListBoard_def boardSize_def toy_rt_def toy_owner_def toy_handle_def moderated_def
      GetRootMessages_def NewStorage_def toy_engine_def empty_database_def by_date_def page_def scanMessageRows_def)

definition stranger_data :: "request \<Rightarrow> gostring \<Rightarrow> common_data" where
  "stranger_data r title = \<lparr>cd_CSRF = '''', cd_Owner = zero_user, cd_NodeName = ''Dscuss demo'', cd_PageTitle = title, cd_Topic = '''',
     cd_CurrentURL = QueryEscape (current_url r), cd_ShowLogin = (Truncate (current_url r) 6 \<noteq> ''/login''),
     cd_IsWritingPermitted = False\<rparr>"

lemma stranger_render:
  assumes "rq_Path r \<noteq> ''''" "tn_session t = SiteSafety.toy_session False"
  shows "render toy_site r title '''' pg t = say (Rendered (stranger_data r title) pg) t"
  using assms
  by (simp add: render_def exec_def readCommonData_def Let_def stranger_data_def current_url_def SiteSafety.toy_session_def
      web_config_New_def web_defaultConfig_def)

lemma stranger_board:
  assumes "rq_Path r = ''/board''" "rq_Query r = []" "\<not> isPost r"
  shows "\<exists>w. web_step toy_site (stranger_at r) (Served r 0 [Rendered (stranger_data r ''Board'') (Board_page [])]) w"
proof -
  let ?t = "\<lparr>tn_session = SiteSafety.toy_session False, tn_proc = site_process (toy_owner empty_database), tn_out = []\<rparr>"
  let ?u = "\<lparr>tn_session = SiteSafety.toy_session False, tn_proc = with_owner 0 (toy_owner empty_database) (site_process (toy_owner empty_database)),
      tn_out = []\<rparr>"
  have "handleBoard toy_site toy_serving r ?t = render toy_site r ''Board'' '''' (Board_page []) ?u"
    using assms(1,2) toy_board
    by (simp add: handleBoard_def Let_def query_get_def query_len_def board_uri_def in_turn_def call_def asks_def exec_def
        toy_site_def)
  then have "serve handleBoard toy_site toy_serving r ?t =
      (Ok (), ?u\<lparr>tn_out := [Rendered (stranger_data r ''Board'') (Board_page [])]\<rparr>)"
    using stranger_render [of r ?u] assms(1,3) by (simp add: serve_def checked_def say_def)
  from stranger_served [OF _ this] assms(1) show ?thesis by (simp add: routes_def)
qed

lemma stranger_login:
  assumes "rq_Path r = ''/login''" "query_len r \<le> 1" "\<not> isPost r"
  shows "\<exists>w. web_step toy_site (stranger_at r)
    (Served r 0 [Rendered (stranger_data r ''Owner authentication'') (Login_page (QueryEscape (login_redirect r)) '''')]) w"
proof -
  let ?t = "\<lparr>tn_session = SiteSafety.toy_session False, tn_proc = site_process (toy_owner empty_database), tn_out = []\<rparr>"
  have "serve handleLogin toy_site toy_serving r ?t =
      (Ok (), ?t\<lparr>tn_out := [Rendered (stranger_data r ''Owner authentication'') (Login_page (QueryEscape (login_redirect r)) '''')]\<rparr>)"
    using stranger_render [of r ?t] assms
    by (simp add: serve_def checked_def handleLogin_def Let_def say_def SiteSafety.toy_session_def)
  from stranger_served [OF _ this] assms(1) show ?thesis by (simp add: routes_def)
qed

definition at_board :: request where
  "at_board = toy_request ''GET'' ''/board'' [] (\<lambda>_. '''')"

definition to_login :: request where
  "to_login = follow ''/login'' [(''next'', process_url True (QueryEscape ''/board''))] None"

definition login_fields :: "field list" where
  "login_fields = [Hidden ''csrf'' '''', Hidden ''next'' (QueryEscape ''/board''), Entry ''username'' '''',
     Entry ''password'' '''', Submit '''' ''Login'']"

definition typing :: "gostring \<Rightarrow> gostring" where
  "typing k = (if k = ''username'' then ''nick_1'' else ''pw'')"

definition board_shown :: "element list" where
  "board_shown = Render (stranger_data at_board ''Board'') (Board_page [])"

definition login_shown :: "element list" where
  "login_shown = Render (stranger_data to_login ''Owner authentication'') (Login_page (QueryEscape ''/board'') '''')"

lemma at_board_parts [simp]:
  "rq_Path at_board = ''/board''" "rq_Query at_board = []" "\<not> isPost at_board" "current_url at_board = ''/board''"
  by (simp_all add: at_board_def toy_request_def isPost_def current_url_def)

lemma to_login_parts: "login_redirect to_login = ''/board''" "query_len to_login = 1" "rq_Path to_login = ''/login''" "\<not> isPost to_login"
  by (simp_all add: to_login_def login_redirect_def Let_def process_url_escaped decoded_def value_of_def query_len_def)

lemma board_link: "Link ''/login'' [(''next'', process_url True (QueryEscape ''/board''))] \<in> set board_shown"
  by (simp add: board_shown_def Render_def html_defs stranger_data_def zero_user_def Truncate_def)

lemma login_shown_form: "Form ''/login'' login_fields \<in> set login_shown"
  by (simp add: login_shown_def Render_def html_defs stranger_data_def login_fields_def csrf_def)

lemma stranger_steps:
  "\<exists>w. web_step toy_site (stranger_at at_board) (Served at_board 0 [Rendered (stranger_data at_board ''Board'') (Board_page [])]) w"
  "\<exists>w. web_step toy_site (stranger_at to_login)
    (Served to_login 0 [Rendered (stranger_data to_login ''Owner authentication'') (Login_page (QueryEscape ''/board'') '''')]) w"
  "\<exists>outs w. web_step toy_site (stranger_at (submit ''/login'' login_fields typing None))
    (Served (submit ''/login'' login_fields typing None) 0 outs) w"
proof -
  show "\<exists>w. web_step toy_site (stranger_at at_board) (Served at_board 0 [Rendered (stranger_data at_board ''Board'') (Board_page [])]) w"
    by (rule stranger_board) simp_all
  show "\<exists>w. web_step toy_site (stranger_at to_login)
    (Served to_login 0 [Rendered (stranger_data to_login ''Owner authentication'') (Login_page (QueryEscape ''/board'') '''')]) w"
    using stranger_login [of to_login] by (simp add: to_login_parts)
  show "\<exists>outs w. web_step toy_site (stranger_at (submit ''/login'' login_fields typing None))
    (Served (submit ''/login'' login_fields typing None) 0 outs) w"
    unfolding stranger_at_def by (rule toy_serves [of _ handleLogin]) (simp add: routes_def)
qed

theorem Pages_offer_nothing_refused_witness:
  "\<exists>outs w. web_step toy_site (stranger_at (submit ''/login'' login_fields typing None))
     (Served (submit ''/login'' login_fields typing None) 0 outs) w \<and> Forbidden \<notin> set outs"
proof -
  from stranger_steps(2) obtain w1 where shown: "web_step toy_site (stranger_at to_login)
    (Served to_login 0 [Rendered (stranger_data to_login ''Owner authentication'') (Login_page (QueryEscape ''/board'') '''')]) w1" ..
  from stranger_steps(3) obtain outs w where posted: "web_step toy_site (stranger_at (submit ''/login'' login_fields typing None))
    (Served (submit ''/login'' login_fields typing None) 0 outs) w" by blast
  from Pages_offer_nothing_refused [OF shown list.set_intros(1) _ posted] offers.form [OF login_shown_form] posted
  show ?thesis by (auto simp: login_shown_def)
qed


end
