(* ===== verification/Cli.thy ===== *)
theory Cli
  imports Client
begin

text \<open>
  The command line client (\<open>cmd/dscuss-cli/main.go\<close>): one definition per command, over the
  global login handle, the process and the terminal. The shell library reads the input;
  what it answers to a read is an arbitrary list of texts, and what the commands print is
  collected.
\<close>

section \<open>The terminal\<close>

record cli =
  cl_handle :: "handle_ref option"
  cl_proc :: process
  cl_in :: "gostring list"
  cl_out :: "gostring list"
  cl_prompt :: bool

text \<open>What a command finds when it runs.\<close>

record cli_env =
  ce_rt :: runtime
  ce_RFC3339 :: "time \<Rightarrow> gostring"
  ce_clock :: "time \<times> time \<times> time"
  ce_now :: time
  ce_peers :: "peer_info option list result"
  ce_new :: handle_ref
  ce_GoVersion :: gostring

type_synonym command = "cli_env \<Rightarrow> gostring list \<Rightarrow> cli \<Rightarrow> unit result \<times> cli"

definition Print :: "gostring \<Rightarrow> cli \<Rightarrow> unit result \<times> cli" where
  "Print s c = (Ok (), c\<lparr>cl_out := cl_out c @ [s]\<rparr>)"

definition Println :: "gostring \<Rightarrow> cli \<Rightarrow> unit result \<times> cli" where
  "Println s = Print (s @ [newline])"

fun Print_all :: "gostring list \<Rightarrow> cli \<Rightarrow> unit result \<times> cli" where
  "Print_all [] c = (Ok (), c)"
| "Print_all (s # ss) c = exec (Print s c) (\<lambda>_. Print_all ss)"

definition ReadLine :: "cli \<Rightarrow> gostring result \<times> cli" where
  "ReadLine c = (case cl_in c of [] \<Rightarrow> (Ok '''', c) | l # ls \<Rightarrow> (Ok l, c\<lparr>cl_in := ls\<rparr>))"

definition TrimSuffix :: "gostring \<Rightarrow> gostring \<Rightarrow> gostring" where
  "TrimSuffix s suf =
     (if length suf \<le> length s \<and> drop (length s - length suf) s = suf then take (length s - length suf) s else s)"

definition TrimRight_newlines :: "gostring \<Rightarrow> gostring" where
  "TrimRight_newlines s = rev (dropWhile (\<lambda>c. c = CHR 0x0A \<or> c = CHR 0x0D) (rev s))"

text \<open>What \<open>ReadMultiLines\<close> of the shell delivers is one text of the input.\<close>

definition readMultiLines :: "gostring \<Rightarrow> cli \<Rightarrow> gostring result \<times> cli" where
  "readMultiLines prompt c =
     (case ReadLine (snd (Print (prompt @ '' and end with 'DSC': '' @ [newline]) c)) of
        (r, c') \<Rightarrow> (bind_result r (\<lambda>text. Ok (TrimRight_newlines (TrimSuffix text ''DSC''))), c'))"

definition in_cli :: "(process \<Rightarrow> 'a result \<times> process) \<Rightarrow> cli \<Rightarrow> 'a result \<times> cli" where
  "in_cli f c = (case f (cl_proc c) of (r, p) \<Rightarrow> (r, c\<lparr>cl_proc := p\<rparr>))"

definition asks_cli :: "(process \<Rightarrow> 'a result) \<Rightarrow> cli \<Rightarrow> 'a result \<times> cli" where
  "asks_cli f c = (f (cl_proc c), c)"

text \<open>\<open>c.ShowPrompt(false); defer c.ShowPrompt(true)\<close>\<close>

definition without_prompt :: "(cli \<Rightarrow> unit result \<times> cli) \<Rightarrow> cli \<Rightarrow> unit result \<times> cli" where
  "without_prompt f c = (case f (c\<lparr>cl_prompt := False\<rparr>) of (r, c') \<Rightarrow> (r, c'\<lparr>cl_prompt := True\<rparr>))"

text \<open>The guards most commands start with.\<close>

definition logged_in :: "gostring \<Rightarrow> (handle_ref \<Rightarrow> cli \<Rightarrow> unit result \<times> cli) \<Rightarrow> cli \<Rightarrow> unit result \<times> cli" where
  "logged_in msg f c = (case cl_handle c of None \<Rightarrow> Println msg c | Some l \<Rightarrow> f l c)"

definition not_logged_in :: gostring where "not_logged_in = ''You are not logged in.''"

definition usage :: "gostring \<Rightarrow> bool \<Rightarrow> (cli \<Rightarrow> unit result \<times> cli) \<Rightarrow> cli \<Rightarrow> unit result \<times> cli" where
  "usage help ok f c = (if ok then f c else Println help c)"

definition with_ID :: "gostring \<Rightarrow> (entity_id \<Rightarrow> cli \<Rightarrow> unit result \<times> cli) \<Rightarrow> cli \<Rightarrow> unit result \<times> cli" where
  "with_ID s f c =
     (case ID_ParseString ZeroID s of
        Inl err \<Rightarrow> Println (s @ '' is not a valid entity ID.'') c
      | Inr i \<Rightarrow> f i c)"

definition userSummary :: "cli_env \<Rightarrow> handle_ref \<Rightarrow> process \<Rightarrow> entity_id \<Rightarrow> gostring result" where
  "userSummary e l p i =
     bind_result (shown_nickname (ask_handle l (ApiGetUser (ce_rt e) i) p))
       (\<lambda>nick. Ok (nick @ '' ('' @ ID_String i @ '')''))"

definition Message_String :: "message \<Rightarrow> gostring" where
  "Message_String m = Shorten (message_id m) @ '' ('' @
     map (\<lambda>c. if c = newline then CHR '' '' else c) (Truncate (mText (message_content_of m)) 24) @ '')''"

section \<open>Registering, logging in and out\<close>

definition doRegister :: command where
  "doRegister e args c =
     (if cl_handle c \<noteq> None then Println (''You need to 'logout' before registering new user.'') c
      else without_prompt (\<lambda>c.
        exec (Print ''Nickname: '' c) (\<lambda>_ c.
        exec (ReadLine c) (\<lambda>username c.
        if username = '''' then Println ''You must specify a nickname.'' c
        else
        exec (Print ''Enter some additional info: '' c) (\<lambda>_ c.
        exec (ReadLine c) (\<lambda>info c.
        exec (readMultiLines (''Enter list of topics you are interested in. '' @
                ''Each topic is a set of comma separated tags.'') c) (\<lambda>subsStr c.
        if subsStr = '''' then Println ''Error: user subscriptions can not be nil.'' c
        else
        call (ReadString subsStr, c) (\<lambda>res c. case res of
          Inl err \<Rightarrow> Print (''Specified subscriptions are unacceptable: '' @ error_text err) c
        | Inr s \<Rightarrow>
        exec (Print_all [''Registering new user. Do not interrupt the process.'' @ [newline],
               ''Otherwise you'll have to remove the user directory manually.'' @ [newline]] c) (\<lambda>_ c.
        call (in_cli (ApiRegister (ce_rt e) username info s) c) (\<lambda>res c. case res of
          Inl err \<Rightarrow> Println (''Could not register new user: '' @ error_text err @ ''.'') c
        | Inr _ \<Rightarrow>
        exec (Println ''User registered successfully.'' c) (\<lambda>_ c.
        Print (''Edit '' @ Join (ps_dir (cl_proc c)) AddressListFileName @
           '' in your favorite editor if you want to customize peer addresses.'' @ [newline]) c)))))))))) c)"

text \<open>The global handle is assigned whatever the login returned: nil together with an error.\<close>

definition doLogin :: command where
  "doLogin e args c =
     (if cl_handle c \<noteq> None
      then Println (''You are already logged into the network. You need to 'logout' before logging in as another user.'') c
      else usage ''<nickname>, login as user <nickname>'' (length args = 1) (\<lambda>c.
        call (in_cli (Login (ce_rt e) (args ! 0) (ce_new e)) c) (\<lambda>res c. case res of
          Inl err \<Rightarrow> Print (''Failed to log in as '' @ args ! 0 @ '': '' @ error_text err @ [newline]) (c\<lparr>cl_handle := None\<rparr>)
        | Inr l \<Rightarrow> (Ok (), c\<lparr>cl_handle := Some l\<rparr>))) c)"

definition doLogout :: command where
  "doLogout e args =
     logged_in not_logged_in (\<lambda>l. usage ''logout from the network'' (args = []) (\<lambda>c.
       exec (Println ''Logging out...'' c) (\<lambda>_ c.
       exec (in_cli (Logout l) c) (\<lambda>_ c. (Ok (), c\<lparr>cl_handle := None\<rparr>)))))"

section \<open>Lists\<close>

definition tab :: gostring where "tab = [CHR 0x09]"

definition indented :: "gostring list \<Rightarrow> gostring list" where
  "indented ts = map (\<lambda>(j, t). (if j = 0 then t else tab @ tab @ tab @ t) @ [newline]) (zip [0..<length ts] ts)"

definition printPeerInfo :: "nat \<Rightarrow> peer_info \<Rightarrow> bool \<Rightarrow> gostring list" where
  "printPeerInfo i p verbose =
     (if verbose then
        (if i \<noteq> 0 then [[newline]] else []) @
        [''PEER #'' @ dec i @ [newline],
         ''Nickname:'' @ tab @ tab @ pi_Nickname p @ [newline],
         ''ID:'' @ tab @ tab @ tab @ pi_ID p @ [newline],
         ''LocalAddr:'' @ tab @ tab @ pi_LocalAddr p @ [newline],
         ''RemoteAddr:'' @ tab @ tab @ pi_RemoteAddr p @ [newline],
         ''AssociatedAddrs:'' @ tab @ join comma (pi_AssociatedAddrs p) @ [newline],
         ''Subscriptions:'' @ tab @ tab] @ indented (pi_Subscriptions p) @
        [''State:'' @ tab @ tab @ tab @ pi_State p @ [newline]]
      else [pi_Nickname p @ ''-'' @ pi_ShortID p @ '' ('' @ pi_RemoteAddr p @ '') is '' @ pi_State p @ [newline]])"

definition numbered :: "(nat \<Rightarrow> 'a \<Rightarrow> gostring list) \<Rightarrow> 'a list \<Rightarrow> gostring list" where
  "numbered f xs = concat (map (\<lambda>(i, x). f i x) (zip [0..<length xs] xs))"

definition doListPeers :: command where
  "doListPeers e args =
     logged_in not_logged_in (\<lambda>l. usage ''list connected peers'' (length args \<le> 1) (\<lambda>c.
       if args \<noteq> [] \<and> args ! 0 \<noteq> ''full'' then Print (''Unknown parameter '' @ [CHR 0x27] @ args ! 0 @ [CHR 0x27] @ [newline]) c
       else exec (bind_result (ce_peers e) (\<lambda>peers. if peers = [] then Ok [] else sort_by_nickname peers), c) (\<lambda>peers c.
         if peers = [] then Print (''There are no peers connected'' @ [newline]) c
         else exec (Print (if 1 < length peers then ''There are '' @ dec (length peers) @ '' connected peers:'' @ [newline]
                           else ''There is one connected peer:'' @ [newline]) c)
                (\<lambda>_. Print_all (numbered (\<lambda>i p. printPeerInfo i p (args \<noteq> [])) peers)))))"

definition printHistoryRecord :: "cli_env \<Rightarrow> nat \<Rightarrow> user_history \<Rightarrow> gostring list" where
  "printHistoryRecord e i hr =
     (if i \<noteq> 0 then [[newline]] else []) @
     [''PEER #'' @ dec i @ [newline],
      ''ID:'' @ tab @ tab @ tab @ ID_String (h_id hr) @ [newline],
      ''Disconnected:'' @ tab @ tab @ ce_RFC3339 e (h_disconnected hr) @ [newline],
      ''Subscriptions:'' @ tab @ tab] @ indented (map Topic_String (h_subs hr))"

definition doListHistory :: command where
  "doListHistory e args =
     logged_in not_logged_in (\<lambda>l. usage ''list history of users'' (args = []) (\<lambda>c.
       exec (asks_cli (ask_handle l (ListUserHistory (ce_rt e))) c) (\<lambda>h c.
         if h = [] then Print (''History is empty'' @ [newline]) c
         else Print_all (numbered (printHistoryRecord e) h) c)))"

definition board_entry :: "cli_env \<Rightarrow> handle_ref \<Rightarrow> process \<Rightarrow> topic \<Rightarrow> nat \<Rightarrow> message \<Rightarrow> gostring list result" where
  "board_entry e l p topic i msg =
     (let c = message_content_of msg
      in bind_result (userSummary e l p (mAuthorID c)) (\<lambda>author. Ok
           ((if i \<noteq> 0 then [[newline]] else []) @
            [''#'' @ dec i @ '' by '' @ author @ '', '' @ ce_RFC3339 e (mDateWritten c) @ [newline],
             ''ID: '' @ ID_String (message_id msg) @ [newline]] @
            (if topic = None then [''Topic: '' @ Topic_String (mTopic c) @ [newline]] else []) @
            [''Subject: '' @ mSubject c @ [newline], mText c @ [newline]])))"

definition doListBoard :: command where
  "doListBoard e args =
     logged_in not_logged_in (\<lambda>l. usage ''[topic], list a particular topic or all threads on the board'' (length args \<le> 1)
       (without_prompt (\<lambda>c.
         call (if length args = 1 then NewTopic (args ! 0) else Ok None, c) (\<lambda>res c. case res of
           Inl err \<Rightarrow> Println (''Unacceptable topic: '' @ error_text err @ ''.'') c
         | Inr topic \<Rightarrow>
         call (in_cli (on_handle l (if topic \<noteq> None then ListTopic (ce_rt e) topic 0 10 else ListBoard (ce_rt e) 0 10)) c)
           (\<lambda>res c. case res of
             Inl err \<Rightarrow> Println (''Can't list board: '' @ error_text err @ ''.'') c
           | Inr messages \<Rightarrow>
             exec (asks_cli (\<lambda>p. map_result (\<lambda>(i, m). board_entry e l p topic i m)
                      (zip [0..<length messages] messages)) c)
               (\<lambda>entries. Print_all (concat entries)))))))"

section \<open>Threads\<close>

definition composeIndentation :: "located \<Rightarrow> gostring" where
  "composeIndentation n = replicate (4 * Depth n) CHR '' ''"

definition thread_entry :: "cli_env \<Rightarrow> gostring \<Rightarrow> located \<Rightarrow> gostring list" where
  "thread_entry e author n =
     (let m = Msg (here n); c = message_content_of m; ind = composeIndentation n
      in [if IsRoot n then ''Topic: '' @ Topic_String (mTopic c) @ [newline] else [newline],
          ind @ ''Subject: '' @ mSubject c @ [newline],
          ind @ concat (map (\<lambda>x. if x = newline then newline # ind else [x]) (mText c)) @ [newline],
          ind @ ''by '' @ author @ '', '' @ ce_RFC3339 e (mDateWritten c) @ [newline],
          ind @ ''ID: '' @ ID_String (message_id m) @ [newline]])"

text \<open>The state of the visitor is what has been printed, or the fault that ended the walk.\<close>

definition ThreadPrinter_Handle :: "cli_env \<Rightarrow> handle_ref \<Rightarrow> process \<Rightarrow> (gostring list result) viewing_handler" where
  "ThreadPrinter_Handle e l p n printed =
     (True, bind_result printed (\<lambda>ls.
        bind_result (userSummary e l p (mAuthorID (message_content_of (Msg (here n)))))
          (\<lambda>author. Ok (ls @ thread_entry e author n))))"

definition doListThread :: command where
  "doListThread e args =
     logged_in not_logged_in (\<lambda>l. usage ''<id>, display a particular thread'' (length args = 1)
       (without_prompt (with_ID (args ! 0) (\<lambda>tid c.
         call (in_cli (on_handle l (ListThread (ce_rt e) tid)) c) (\<lambda>res c. case res of
           Inl err \<Rightarrow> Println (''Can't list thread: '' @ error_text err @ ''.'') c
         | Inr t \<Rightarrow>
             exec (asks_cli (\<lambda>p. View (ThreadPrinter_Handle e l p) (map_option (\<lambda>n. At n None) t) (Ok [])) c)
               Print_all)))))"

text \<open>Subject and text, which may not be empty.\<close>

definition read_message ::
  "gostring \<Rightarrow> (gostring \<Rightarrow> gostring \<Rightarrow> cli \<Rightarrow> unit result \<times> cli) \<Rightarrow> cli \<Rightarrow> unit result \<times> cli" where
  "read_message what f c =
     exec (Print (''Enter '' @ what @ '' subject: '') c) (\<lambda>_ c.
     exec (ReadLine c) (\<lambda>subj c.
     if subj = '''' then Println ''Error: subject can not be empty.'' c
     else exec (readMultiLines ''Enter message text'' c) (\<lambda>txt c.
       if txt = '''' then Println ''Error: message text can not be empty.'' c
       else f subj txt c)))"

text \<open>Making a message and posting it; \<open>what\<close> and \<open>What\<close> name it in the texts.\<close>

definition make_and_post ::
  "cli_env \<Rightarrow> handle_ref \<Rightarrow> gostring \<Rightarrow> gostring \<Rightarrow> (owner \<Rightarrow> time \<Rightarrow> message result \<times> time) \<Rightarrow> cli \<Rightarrow> unit result \<times> cli" where
  "make_and_post e l what What emerge c =
     call (in_cli (handle_message l emerge) c) (\<lambda>res c. case res of
       Inl err \<Rightarrow> Println (''Error making new '' @ what @ '': '' @ error_text err @ ''.'') c
     | Inr m \<Rightarrow>
         call (in_cli (on_handle l (PostEntity (ce_rt e) (EMessage m) (ce_now e))) c) (\<lambda>res c. case res of
           Inl err \<Rightarrow> Println (''Error posting new '' @ what @ '': '' @ error_text err @ ''.'') c
         | Inr _ \<Rightarrow> Println (What @ '' '' @ [CHR 0x27] @ Message_String m @ [CHR 0x27] @ '' created successfully.'') c))"

definition doMakeThread :: command where
  "doMakeThread e args =
     without_prompt (logged_in not_logged_in (\<lambda>l. usage ''start a new thread'' (args = []) (\<lambda>c.
       exec (Print ''Enter thread topic: '' c) (\<lambda>_ c.
       exec (ReadLine c) (\<lambda>topicStr c.
       call (NewTopic topicStr, c) (\<lambda>res c. case res of
         Inl err \<Rightarrow> Println (''Unacceptable topic: '' @ error_text err @ ''.'') c
       | Inr topic \<Rightarrow>
           read_message ''thread'' (\<lambda>subj txt. make_and_post e l ''thread'' ''Thread''
             (\<lambda>ow. NewThread (ce_rt e) subj txt topic (ce_clock e) ow)) c))))))"

definition doMakeReply :: command where
  "doMakeReply e args =
     without_prompt (logged_in not_logged_in (\<lambda>l. usage ''<id>, publish a new reply to message <id>'' (length args = 1)
       (with_ID (args ! 0) (\<lambda>pid.
         read_message ''reply'' (\<lambda>subj txt. make_and_post e l ''reply'' ''Reply''
           (\<lambda>ow. NewReply (ce_rt e) subj txt pid (ce_clock e) ow))))))"

section \<open>The profile\<close>

definition relogin_hint :: gostring where
  "relogin_hint = ''In order to apply changes you need to logout and login back again.''"

definition with_topic :: "gostring \<Rightarrow> (topic \<Rightarrow> cli \<Rightarrow> unit result \<times> cli) \<Rightarrow> cli \<Rightarrow> unit result \<times> cli" where
  "with_topic s f c =
     call (NewTopic s, c) (\<lambda>res c. case res of
       Inl err \<Rightarrow> Println (''Unacceptable topic: '' @ error_text err @ ''.'') c
     | Inr topic \<Rightarrow> f topic c)"

definition doSubscribe :: command where
  "doSubscribe e args =
     logged_in not_logged_in (\<lambda>l. usage ''<topic>. subscribe to <topic>'' (length args = 1)
       (with_topic (args ! 0) (\<lambda>topic c.
         call (in_cli (on_handle l (Subscribe (ce_rt e) topic)) c) (\<lambda>res c. case res of
           Inl err \<Rightarrow> Print (''Error subscribing to '' @ Topic_String topic @ '': '' @ error_text err @ [newline]) c
         | Inr _ \<Rightarrow> Println relogin_hint c))))"

definition doUnsubscribe :: command where
  "doUnsubscribe e args =
     logged_in not_logged_in (\<lambda>l. usage ''<topic>, unsubscribe from <topic>'' (length args = 1)
       (with_topic (args ! 0) (\<lambda>topic c.
         call (in_cli (on_handle l (Unsubscribe (ce_rt e) topic)) c) (\<lambda>res c. case res of
           Inl err \<Rightarrow> Print (''Failed to unsubscribe from '' @ Topic_String topic @ '': '' @ error_text err @ [newline]) c
         | Inr _ \<Rightarrow> Println relogin_hint c))))"

definition doListSubscriptions :: command where
  "doListSubscriptions e args =
     logged_in not_logged_in (\<lambda>l. usage ''list the current user's subscriptions'' (args = []) (\<lambda>c.
       exec (in_cli (on_handle l (ListSubscriptions (ce_rt e))) c) (\<lambda>s. Print (Subs_String s))))"

definition doAddModerator :: command where
  "doAddModerator e args =
     logged_in not_logged_in (\<lambda>l. usage ''<id>, make user <id> a moderator'' (length args = 1)
       (with_ID (args ! 0) (\<lambda>i c.
         call (in_cli (on_handle l (AddModerator (ce_rt e) i)) c) (\<lambda>res c. case res of
           Inl err \<Rightarrow> Println (''Error making new moderator: '' @ error_text err @ ''.'') c
         | Inr _ \<Rightarrow> (Ok (), c)))))"

definition doRemoveModerator :: command where
  "doRemoveModerator e args =
     logged_in not_logged_in (\<lambda>l. usage ''<id>, remove user <id> from the list of moderators'' (length args = 1)
       (with_ID (args ! 0) (\<lambda>i c.
         call (in_cli (on_handle l (RemoveModerator (ce_rt e) i)) c) (\<lambda>res c. case res of
           Inl err \<Rightarrow> Println (''Error removing moderator: '' @ error_text err @ ''.'') c
         | Inr _ \<Rightarrow> (Ok (), c)))))"

definition doListModerators :: command where
  "doListModerators e args =
     logged_in not_logged_in (\<lambda>l. usage ''list the current user's moderators'' (args = []) (\<lambda>c.
       exec (in_cli (on_handle l (ListModerators (ce_rt e))) c) (\<lambda>mm c.
       exec (asks_cli (\<lambda>p. map_result (userSummary e l p) mm) c)
         (\<lambda>lines. Print_all (numbered (\<lambda>i line. [''#'' @ dec i @ '' '' @ line @ [newline]]) lines)))))"

section \<open>Operations\<close>

text \<open>
  When the operation cannot be made, the error is printed and the command goes on to post
  the nil operation, whose identifier is a nil dereference.
\<close>

definition makeOperation :: "gostring \<Rightarrow> int \<Rightarrow> command" where
  "makeOperation help typ e args =
     logged_in not_logged_in (\<lambda>l. usage help (length args = 2)
       (with_ID (args ! 0) (\<lambda>i c.
         (case OperationReason_ParseString (args ! 1) of
            Inl err \<Rightarrow> Println (args ! 0 @ '' is not a valid operation reason.'') c
          | Inr reason \<Rightarrow>
              exec (Print ''Enter optional comment: '' c) (\<lambda>_ c.
              exec (ReadLine c) (\<lambda>comment c.
              call (in_cli (handle_operation l (\<lambda>ow. NewOperation (ce_rt e) typ reason comment i (ce_clock e) ow)) c)
                (\<lambda>res c. case res of
                   Inl err \<Rightarrow>
                     exec (Println (''Error making new operation: '' @ error_text err @ ''.'') c) (\<lambda>_ c. (Inl Panic, c))
                 | Inr oper \<Rightarrow>
                     call (in_cli (on_handle l (PostEntity (ce_rt e) (EOperation oper) (ce_now e))) c) (\<lambda>res c. case res of
                       Inl err \<Rightarrow> Println (''Error posting new operation: '' @ error_text err @ ''.'') c
                     | Inr _ \<Rightarrow> Println ''Operation performed successfully.'' c))))))))"

definition doBanUser :: command where
  "doBanUser = makeOperation ''<id> <reason>, ban user <id> because of <reason>'' OperationTypeBanUser"

definition doRemoveMessage :: command where
  "doRemoveMessage = makeOperation ''<id> <reason>, remove message <id> because of <reason>'' OperationTypeRemoveMessage"

definition operation_entry :: "cli_env \<Rightarrow> handle_ref \<Rightarrow> process \<Rightarrow> nat \<Rightarrow> operation \<Rightarrow> gostring list result" where
  "operation_entry e l p i oper =
     (let c = operation_content_of oper
      in bind_result (userSummary e l p (oAuthorID c)) (\<lambda>author. Ok
           ((if i \<noteq> 0 then [[newline]] else []) @
            [''#'' @ dec i @ '' by '' @ author @ '', '' @ ce_RFC3339 e (oDatePerformed c) @ [newline],
             ''ID: '' @ ID_String (operation_id oper) @ [newline],
             ''Type: '' @ OperationType_String (oType c) @ [newline],
             ''Reason: '' @ OperationReason_String (oReason c) @ [newline]] @
            (if oComment c \<noteq> '''' then [''Comment: '' @ oComment c @ [newline]] else []))))"

definition doListOperations :: command where
  "doListOperations e args =
     logged_in ''No user is logged in.'' (\<lambda>l. usage ''(user|msg) <id>, list operations on user or message <id>'' (length args = 2)
       (with_ID (args ! 1) (\<lambda>i c.
         (let list = (\<lambda>get. call (asks_cli (ask_handle l (get (ce_rt e) i)) c) (\<lambda>res c. case res of
                Inl err \<Rightarrow> Println (''Error fetching operations: '' @ error_text err @ ''.'') c
              | Inr ops \<Rightarrow>
                  exec (asks_cli (\<lambda>p. map_result (\<lambda>(i, oper). operation_entry e l p i oper) (zip [0..<length ops] ops)) c)
                    (\<lambda>entries. Print_all (concat entries))))
          in if args ! 0 = ''user'' then list ListOperationsOnUser
             else if args ! 0 = ''msg'' then list ListOperationsOnMessage
             else Print_all [args ! 0 @ '' is not a valid entity type.'' @ [newline],
                    ''Expected: 'user' or 'msg'' @ [CHR 0x27, newline]] c))))"

definition doWhoAmI :: command where
  "doWhoAmI e args =
     usage ''display nickname of the current user'' (args = []) (logged_in ''No user is logged in.'' (\<lambda>l c.
       exec (asks_cli (ask_handle l (\<lambda>ow. Ok (GetLoggedUser ow))) c) (\<lambda>u.
         Print (uNickname (user_content_of u) @ '' ('' @ ID_String (user_id u) @ '')'' @ [newline]))))"

definition FullVersion :: "gostring \<Rightarrow> gostring" where
  "FullVersion goVersion = ''Dscuss library version: 0.1.0, protocol version: '' @ dec 1 @
     '', built with '' @ goVersion @ ''.'' @ [newline]"

definition cli_getVersion :: "gostring \<Rightarrow> gostring" where
  "cli_getVersion goVersion = FullVersion goVersion @ ''CLI version: 1.0.''"

definition doVersion :: command where
  "doVersion e args =
     usage ''display versions of Dscuss and the CLI'' (args = [])
       (Println (cli_getVersion (ce_GoVersion e)))"

section \<open>The shell\<close>

definition commandList :: "(gostring \<times> command) list" where
  "commandList =
     [(''reg'', doRegister), (''login'', doLogin), (''logout'', doLogout), (''lspeers'', doListPeers),
      (''lshist'', doListHistory), (''mkthread'', doMakeThread), (''mkreply'', doMakeReply), (''lsboard'', doListBoard),
      (''lsthread'', doListThread), (''sub'', doSubscribe), (''unsub'', doUnsubscribe), (''lssubs'', doListSubscriptions),
      (''addmdr'', doAddModerator), (''rmmdr'', doRemoveModerator), (''lsmdr'', doListModerators),
      (''rmmsg'', doRemoveMessage), (''ban'', doBanUser), (''lsop'', doListOperations), (''whoami'', doWhoAmI),
      (''ver'', doVersion)]"

text \<open>
  Commands run one after the other. What the peers do to the owner meanwhile is a step of
  its own; a fault ends the process.
\<close>

inductive shell_step :: "cli \<Rightarrow> cli \<Rightarrow> bool" where
  runs: "map_of commandList name = Some f \<Longrightarrow> f e args c = (Ok (), c') \<Longrightarrow> shell_step c c'"
| types: "shell_step c (c\<lparr>cl_in := lines\<rparr>)"
| peers: "cl_handle c = Some l \<Longrightarrow> ps_handles (cl_proc c) l = Some h \<Longrightarrow> owner_op rt (lh_owner h) ow \<Longrightarrow>
    shell_step c (c\<lparr>cl_proc := with_owner l ow (cl_proc c)\<rparr>)"

text \<open>\<open>main\<close>: the shell starts after \<open>Init\<close>, with nobody logged in.\<close>

definition shell_start :: "process \<Rightarrow> cli" where
  "shell_start p = \<lparr>cl_handle = None, cl_proc = p, cl_in = [], cl_out = [''Welcome to Dscuss.'' @ [newline]], cl_prompt = True\<rparr>"

section \<open>What commands do to the login\<close>

text \<open>All commands but the three that log in and out leave the login and the handles in place.\<close>

definition keeps_login :: "cli \<Rightarrow> cli \<Rightarrow> bool" where
  "keeps_login c d \<longleftrightarrow> cl_handle d = cl_handle c \<and> ps_login (cl_proc d) = ps_login (cl_proc c) \<and>
     dom (ps_handles (cl_proc d)) = dom (ps_handles (cl_proc c))"

interpretation login: effect keeps_login
  by unfold_locales (auto simp: keeps_login_def)

lemma keeps_Print [simp]: "keeps_login c (snd (Print s c))" "keeps_login c (snd (Println s c))"
  by (simp_all add: Print_def Println_def keeps_login_def)

lemma keeps_Print_all [simp]: "keeps_login c (snd (Print_all ss c))"
  by (induction ss arbitrary: c) (auto intro!: login.effects)

lemma keeps_reads [simp]:
  "keeps_login c (snd (ReadLine c))" "keeps_login c (snd (readMultiLines prompt c))"
  "keeps_login c (snd (asks_cli f c))"
  by (auto simp: ReadLine_def readMultiLines_def Print_def asks_cli_def keeps_login_def split: list.split)

lemma keeps_in_cli:
  "ps_login (snd (f (cl_proc c))) = ps_login (cl_proc c) \<Longrightarrow>
   dom (ps_handles (snd (f (cl_proc c)))) = dom (ps_handles (cl_proc c)) \<Longrightarrow> keeps_login c (snd (in_cli f c))"
  by (cases "f (cl_proc c)") (simp add: in_cli_def keeps_login_def)

lemma dom_with_owner: "dom (ps_handles (with_owner l ow p)) = dom (ps_handles p)"
  by (auto simp: with_owner_def dom_def)

lemma login_with_owner: "ps_login (with_owner l ow p) = ps_login p"
  by (simp add: with_owner_def)

lemma keeps_calls [simp]:
  "keeps_login c (snd (in_cli (on_handle l f) c))" "keeps_login c (snd (in_cli (handle_message l g) c))"
  "keeps_login c (snd (in_cli (handle_operation l k) c))" "keeps_login c (snd (in_cli (ApiRegister rt n i s) c))"
  by (rule keeps_in_cli; simp add: on_handle_def handle_message_def handle_operation_def ApiRegister_def
      dom_with_owner login_with_owner split: option.split prod.split)+

lemma keeps_combinators:
  "(\<And>d. keeps_login d (snd (f d))) \<Longrightarrow> keeps_login c (snd (without_prompt f c))"
  "(\<And>l d. keeps_login d (snd (g l d))) \<Longrightarrow> keeps_login c (snd (logged_in msg g c))"
  "(\<And>d. keeps_login d (snd (f d))) \<Longrightarrow> keeps_login c (snd (usage help ok f c))"
  "(\<And>i d. keeps_login d (snd (k i d))) \<Longrightarrow> keeps_login c (snd (with_ID s k c))"
  "(\<And>t d. keeps_login d (snd (m t d))) \<Longrightarrow> keeps_login c (snd (with_topic s m c))"
  "(\<And>a b d. keeps_login d (snd (r a b d))) \<Longrightarrow> keeps_login c (snd (read_message what r c))"
proof -
  assume f: "\<And>d. keeps_login d (snd (f d))"
  from f [of "c\<lparr>cl_prompt := False\<rparr>"] show "keeps_login c (snd (without_prompt f c))"
    by (cases "f (c\<lparr>cl_prompt := False\<rparr>)") (simp add: without_prompt_def keeps_login_def)
qed (auto simp: logged_in_def usage_def with_ID_def with_topic_def read_message_def
   intro!: login.effects split: option.split sum.split)

lemmas keeps_steps = login.effects keeps_combinators
lemmas keeps_splits = if_splits sum.splits option.splits list.splits

lemma keeps_make_and_post: "keeps_login c (snd (make_and_post e l what What emerge c))"
  by (auto simp: make_and_post_def intro!: keeps_steps split: keeps_splits)

lemma keeps_makeOperation: "keeps_login c (snd (makeOperation help typ e args c))"
  by (auto simp: makeOperation_def intro!: keeps_steps split: keeps_splits)

lemma commands_keep:
  assumes "map_of commandList name = Some f" "name \<notin> {''login'', ''logout''}"
  shows "keeps_login c (snd (f e args c))"
proof -
  have "keeps_login c (snd (doRegister e args c))"
    by (auto simp: doRegister_def intro!: keeps_steps split: keeps_splits)
  moreover have "keeps_login c (snd (doListPeers e args c))" "keeps_login c (snd (doListHistory e args c))"
    "keeps_login c (snd (doListBoard e args c))" "keeps_login c (snd (doListThread e args c))"
    "keeps_login c (snd (doListSubscriptions e args c))" "keeps_login c (snd (doListModerators e args c))"
    "keeps_login c (snd (doWhoAmI e args c))" "keeps_login c (snd (doVersion e args c))"
    by (auto simp: doListPeers_def doListHistory_def doListBoard_def doListThread_def doListSubscriptions_def
        doListModerators_def doWhoAmI_def doVersion_def intro!: keeps_steps split: keeps_splits)
  moreover have "keeps_login c (snd (doListOperations e args c))"
    by (auto simp: doListOperations_def Let_def intro!: keeps_steps split: keeps_splits)
  moreover have "keeps_login c (snd (doMakeThread e args c))" "keeps_login c (snd (doMakeReply e args c))"
    by (auto simp: doMakeThread_def doMakeReply_def intro!: keeps_steps keeps_make_and_post split: keeps_splits)
  moreover have "keeps_login c (snd (doSubscribe e args c))" "keeps_login c (snd (doUnsubscribe e args c))"
    "keeps_login c (snd (doAddModerator e args c))" "keeps_login c (snd (doRemoveModerator e args c))"
    by (auto simp: doSubscribe_def doUnsubscribe_def doAddModerator_def doRemoveModerator_def
        intro!: keeps_steps split: keeps_splits)
  moreover have "keeps_login c (snd (doBanUser e args c))" "keeps_login c (snd (doRemoveMessage e args c))"
    by (simp_all add: doBanUser_def doRemoveMessage_def keeps_makeOperation)
  ultimately show ?thesis using assms by (auto simp: commandList_def split: if_splits)
qed

definition cli_inv :: "cli \<Rightarrow> bool" where
  "cli_inv c \<longleftrightarrow> cl_handle c = ps_login (cl_proc c) \<and>
     (\<forall>l. cl_handle c = Some l \<longrightarrow> l \<in> dom (ps_handles (cl_proc c)))"

lemma keeps_inv: "keeps_login c d \<Longrightarrow> cli_inv c \<Longrightarrow> cli_inv d"
  by (simp add: keeps_login_def cli_inv_def)

lemma doLogin_inv:
  assumes "doLogin e args c = (Ok (), d)" "cli_inv c"
  shows "cli_inv d"
proof (cases "cl_handle c = None \<and> length args = 1")
  case True
  obtain r q where l: "Login (ce_rt e) (args ! 0) (ce_new e) (cl_proc c) = (r, q)" by fastforce
  show ?thesis
  proof (cases r)
    case (Inl f)
    with l have "q = cl_proc c" by (simp add: Login_err)
    with assms True l Inl show ?thesis
      by (cases f) (auto simp: doLogin_def usage_def in_cli_def Print_def cli_inv_def)
  next
    case (Inr h)
    with l have "h = ce_new e" "ps_login q = Some (ce_new e)" "ps_handles q (ce_new e) \<noteq> None"
      by (auto elim: Login_Ok)
    with assms True l Inr show ?thesis
      by (auto simp: doLogin_def usage_def in_cli_def cli_inv_def)
  qed
next
  case False
  then have "keeps_login c (snd (doLogin e args c))" by (auto simp: doLogin_def usage_def)
  with assms show ?thesis by (auto intro: keeps_inv)
qed

lemma doLogout_inv:
  assumes "cli_inv c"
  shows "fst (doLogout e args c) = Ok () \<and> cli_inv (snd (doLogout e args c))"
  using assms
  by (auto simp: doLogout_def logged_in_def usage_def Println_def Print_def in_cli_def Logout_def IsValid_def cli_inv_def
      split: option.splits)

interpretation shell: invariant "\<lambda>c. \<exists>p. c = shell_start p \<and> ps_login p = None" shell_step cli_inv
proof
  fix c d
  assume inv: "cli_inv c" and "shell_step c d"
  from this(2) show "cli_inv d"
  proof cases
    case (runs name f e args)
    consider "name = ''login''" | "name = ''logout''" | "name \<notin> {''login'', ''logout''}" by blast
    then show ?thesis
    proof cases
      case 1
      with runs inv show ?thesis by (auto simp: commandList_def intro: doLogin_inv)
    next
      case 2
      with runs doLogout_inv [OF inv, of e args] show ?thesis by (simp add: commandList_def)
    next
      case 3
      from commands_keep [OF runs(1) 3, of c e args] runs(2) inv show ?thesis by (auto intro: keeps_inv)
    qed
  next
    case (peers l h rt ow)
    with inv show ?thesis by (auto simp: cli_inv_def login_with_owner dom_with_owner)
  qed (use inv in \<open>simp add: cli_inv_def\<close>)
qed (auto simp: cli_inv_def shell_start_def)

section \<open>Printing a thread\<close>

lemma ListThread_ok:
  assumes "sound_runtime rt" "good_owner rt ow us ms os" "acyclic_replies ms" "\<forall>(m, t) \<in> set ms. message_id m \<noteq> ZeroID"
    and "(m, t) \<in> set ms" "length ms \<le> rt_fuel rt"
  shows "\<exists>n shown pr. ListThread rt (message_id m) ow = (Ok shown, ow\<lparr>ow_Profile := pr\<rparr>) \<and> Msg n = m \<and>
    thread_of (rt_eng rt) ms n \<and>
    branches_opt shown = filter (list_all (visible (moderator_set (ow_Profile ow)) os)) (branches n)"
proof -
  have rt: "faithful (rt_eng rt)" "reliable (rt_eng rt)" "preliable (rt_pe rt)"
    using assms(1) by (simp_all add: sound_runtime_def)
  have ow: "represents (rt_env rt) (ow_db ow) us ms os" "coherent (rt_pe rt) (ow_Profile ow)"
    using assms(2) by (simp_all add: good_owner_def)
  obtain n where n: "GetThread (rt_env rt) (rt_eng rt) (rt_fuel rt) (message_id m) (ow_db ow) = Some (Ok n)"
    "Msg n = m" "thread_of (rt_eng rt) ms n"
    using GetThread_ok [OF rt(1) ow(1) assms(3-6)] by blast
  from ModerateThread_ok [OF rt(2) ow(1) rt(3) ow(2), of n] n show ?thesis
    by (cases "ModerateThread (rt_env rt) (rt_eng rt) (rt_pe rt) (ow_db ow) (Some n) (ow_Profile ow)")
      (auto simp: ListThread_def)
qed

definition author_text :: "(user \<times> time) list \<Rightarrow> entity_id \<Rightarrow> gostring" where
  "author_text us i =
     (case find (\<lambda>(u, t). user_id u = i) us of
        None \<Rightarrow> ''[unknown user]''
      | Some (u, t) \<Rightarrow> uNickname (user_content_of u)) @ '' ('' @ ID_String i @ '')''"

lemma userSummary_ok:
  assumes "sound_runtime (ce_rt e)" "represents (rt_env (ce_rt e)) (ow_db (lh_owner h)) us ms os" "ps_handles p l = Some h"
  shows "userSummary e l p i = Ok (author_text us i)"
  using assms
  by (auto simp: userSummary_def ask_handle_def ApiGetUser_def sound_runtime_def GetUser_represents shown_nickname_def
      author_text_def split: option.split)

lemma run_until_printer:
  assumes "\<And>i. userSummary e l p i = Ok (author i)"
  shows "snd (run_until (ThreadPrinter_Handle e l p) locs (Ok ls)) =
    Ok (ls @ concat (map (\<lambda>n. thread_entry e (author (mAuthorID (message_content_of (Msg (here n))))) n) locs))"
  using assms by (induction locs arbitrary: ls) (auto simp: ThreadPrinter_Handle_def)

lemma Print_all_out: "Print_all ss c = (Ok (), c\<lparr>cl_out := cl_out c @ ss\<rparr>)"
  by (induction ss arbitrary: c) (simp_all add: Print_def)

section \<open>Properties\<close>

text \<open>
  C21. The shell never holds a stale handle: whatever commands were run, with whatever input and
  whatever the peers did meanwhile, it holds a handle exactly if somebody is logged in, that
  handle is the valid one, and logging out never meets the fatal check of the handle.
\<close>

theorem Shell_handle_valid:
  assumes "shell_step\<^sup>*\<^sup>* (shell_start p) c" "ps_login p = None"
  shows "(case cl_handle c of None \<Rightarrow> \<not> IsLoggedIn (cl_proc c) | Some l \<Rightarrow> IsValid (Some l) (cl_proc c)) \<and>
    fst (doLogout e args c) = Ok ()"
proof -
  have inv: "cli_inv c" using shell.reachable_holds [OF assms(1)] assms(2) by blast
  with doLogout_inv [OF inv, of e args] show ?thesis
    by (auto simp: cli_inv_def IsLoggedIn_def IsValid_def split: option.split)
qed

text \<open>
  A refused operation crashes the client: banning a user within a minute of the last operation
  is refused by the entity layer; the command prints this and then posts the operation it did not
  get, which is a nil dereference. Nothing was stored.
\<close>

theorem Refused_ban_crashes:
  assumes "cl_handle c = Some l" "ps_handles (cl_proc c) l = Some h" "args = [ID_String i, reasonStr]" "length i = IDLen"
    "OperationReason_ParseString reasonStr = Ok reason" "ce_clock e = (t1, t2, t3)"
    "time_sub t1 (ps_lastOper (cl_proc c)) < MinOperationPostDelay"
  shows "\<exists>d. doBanUser e args c = (Inl Panic, d) \<and> cl_proc d = cl_proc c \<and>
    last (cl_out d) = ''Error making new operation: '' @ error_text OperPostRateErr @ ''.'' @ [newline]"
  using assms
  by (auto simp: doBanUser_def makeOperation_def logged_in_def usage_def with_ID_def Print_def Println_def ReadLine_def
      in_cli_def handle_operation_def NewOperation_def EmergeOperation_def Let_def split: list.split)


section \<open>Witnesses\<close>

lemma length_preorder: "length (preorder p n) = length (branches n)"
  by (induction p n rule: preorder.induct) (simp add: length_concat comp_def cong: map_cong)

definition toy_cli_env :: cli_env where
  "toy_cli_env = \<lparr>ce_rt = toy_rt, ce_RFC3339 = (\<lambda>t. ''t''), ce_clock = (0, 0, 0), ce_now = 9, ce_peers = Ok [],
     ce_new = 0, ce_GoVersion = ''go''\<rparr>"

definition toy_cli :: "owner \<Rightarrow> cli" where
  "toy_cli ow = (shell_start (site_process ow))\<lparr>cl_handle := Some 0\<rparr>"

lemma toy_cli_parts:
  "cl_handle (toy_cli ow) = Some 0" "ps_handles (cl_proc (toy_cli ow)) 0 = Some (toy_handle ow)" "ce_rt toy_cli_env = toy_rt"
  by (simp_all add: toy_cli_def shell_start_def toy_site_process toy_cli_env_def)


theorem Shell_handle_valid_witness:
  "\<exists>dk c. shell_step\<^sup>*\<^sup>* (shell_start (toy_process dk)) c \<and> cl_handle c = Some 0 \<and> IsValid (Some 0) (cl_proc c) \<and>
     fst (doLogout toy_cli_env [] c) = Ok ()"
proof -
  obtain dk p1 where l: "Login toy_rt ''nick_1'' 0 (toy_process dk) = (Ok 0, p1)" using toy_login by blast
  let ?c = "(shell_start (toy_process dk))\<lparr>cl_proc := p1, cl_handle := Some 0\<rparr>"
  have "doLogin toy_cli_env [''nick_1''] (shell_start (toy_process dk)) = (Ok (), ?c)"
    using l by (simp add: doLogin_def usage_def in_cli_def shell_start_def toy_cli_env_def)
  then have "shell_step (shell_start (toy_process dk)) ?c"
    by (intro runs [of "''login''" doLogin]) (simp_all add: commandList_def)
  then have s: "shell_step\<^sup>*\<^sup>* (shell_start (toy_process dk)) ?c" ..
  have "ps_login (toy_process dk) = None" by (simp add: toy_process_def)
  from Shell_handle_valid [OF s this, of toy_cli_env "[]"] s show ?thesis
    by (intro exI [of _ dk] exI [of _ ?c]) simp
qed

theorem Refused_ban_crashes_witness:
  "\<exists>d. doBanUser toy_cli_env [ID_String (toy_id 7), ''SPAM''] (toy_cli (toy_owner empty_database)) = (Inl Panic, d) \<and>
     cl_proc d = cl_proc (toy_cli (toy_owner empty_database))"
proof -
  have "OperationReason_ParseString ''SPAM'' = Ok OperationReasonSpam"
    by (simp add: OperationReason_ParseString_def)
  moreover have "time_sub 0 (ps_lastOper (cl_proc (toy_cli (toy_owner empty_database)))) < MinOperationPostDelay"
    by (simp add: toy_cli_def shell_start_def site_process_def toy_process_def time_sub_def MinOperationPostDelay_def duration_defs)
  moreover have "ce_clock toy_cli_env = (0, 0, 0)" "length (toy_id 7) = IDLen" by (simp_all add: toy_cli_env_def IDLen_def)
  ultimately show ?thesis
    using Refused_ban_crashes [OF toy_cli_parts(1,2) refl, of "toy_id 7" "''SPAM''" OperationReasonSpam toy_cli_env 0 0 0] by blast
qed

end
