(* ===== verification/Startup.thy ===== *)
theory Startup
  imports SiteSafety Cli
begin

text \<open>
  The two programs from their first line to their last (\<open>main\<close> of \<open>cmd/dscuss-web/main.go\<close> and of
  \<open>cmd/dscuss-cli/main.go\<close>): what they refuse to start with, what they start, and how the shell and
  the signal to terminate take leave of the node.
\<close>

section \<open>Starting\<close>

text \<open>What the programs run on; the flags are as the library has parsed them.\<close>

record machine =
  mc_init :: init_host
  mc_rt :: runtime
  mc_handle :: handle_ref
  mc_RFC3339 :: "time \<Rightarrow> gostring"
  mc_Usage :: gostring
  mc_GoVersion :: gostring

record web_args =
  wa_config :: gostring
  wa_version :: bool
  wa_help :: bool
  wa_user :: gostring
  wa_password :: gostring

record cli_args =
  ca_config :: gostring
  ca_version :: bool
  ca_help :: bool

datatype 'a main_end = Returned process | Died fault process | Entered 'a

abbreviation line :: "gostring \<Rightarrow> gostring" where "line s \<equiv> s @ [newline]"

definition about :: gostring where
  "about = line ''Dscuss - P2P network for public discussions.''"

definition web_getVersion :: "gostring \<Rightarrow> gostring" where
  "web_getVersion goVersion = FullVersion goVersion @ ''Web UI version: 0.1.''"

text \<open>An error of \<open>Init\<close> is a panic; other faults end the process where they happen.\<close>

definition initialised :: "machine \<Rightarrow> gostring \<Rightarrow> process \<Rightarrow> (process \<Rightarrow> 'a main_end) \<Rightarrow> 'a main_end" where
  "initialised m dir p k =
     (case Init (mc_init m) dir p of
        (Inl (Error e), p1) \<Rightarrow> Died Panic p1
      | (Inl f, p1) \<Rightarrow> Died f p1
      | (Inr _, p1) \<Rightarrow> k p1)"

definition web_main ::
  "machine \<Rightarrow> web_args \<Rightarrow> session_heap \<Rightarrow> process \<Rightarrow> gostring list \<times> (site \<times> web) main_end" where
  "web_main m a heap p =
     (if wa_help a then ([about, mc_Usage m], Returned p)
      else if wa_version a then ([line (web_getVersion (mc_GoVersion m))], Returned p)
      else if wa_password a = '''' then ([line ''You have to specify a custom password for WebUI.''], Returned p)
      else if wa_user a = '''' then ([line ''You have to specify the name of the user to login as.''], Returned p)
      else if MaxPasswordLen < length (wa_password a)
      then ([''The specified password is too long. '', line (''Max password length = '' @ dec MaxPasswordLen @ ''.'')],
            Returned p)
      else ([line ''Starting Dscuss...''], initialised m (wa_config a) p (\<lambda>p1.
        case Login (mc_rt m) (wa_user a) (mc_handle m) p1 of
          (Inl (Error e), p2) \<Rightarrow> Returned p2
        | (Inl f, p2) \<Rightarrow> Died f p2
        | (Inr l, p2) \<Rightarrow> Entered (\<lparr>si_rt = mc_rt m, si_handle = l, si_password = wa_password a, si_RFC3339 = mc_RFC3339 m\<rparr>,
                                InitHandlers p2 heap))))"

definition cli_main :: "machine \<Rightarrow> cli_args \<Rightarrow> process \<Rightarrow> gostring list \<times> cli main_end" where
  "cli_main m a p =
     (if ca_help a then ([about, mc_Usage m], Returned p)
      else if ca_version a then ([line (cli_getVersion (mc_GoVersion m))], Returned p)
      else ([line ''Starting Dscuss...''], initialised m (ca_config a) p (\<lambda>p1. Entered (shell_start p1))))"

section \<open>Stopping\<close>

text \<open>What follows the shell in \<open>main\<close>.\<close>

definition cli_exit :: "cli \<Rightarrow> unit result \<times> cli" where
  "cli_exit c = exec (in_cli Uninit c) (\<lambda>_. Println ''Dscuss stopped.'')"

text \<open>The goroutine for \<open>SIGTERM\<close> stops the node and goes on waiting; the process does not exit.\<close>

definition termSignal :: "web \<Rightarrow> web" where
  "termSignal w =
     (case Uninit (wb_proc w) of
        (Inl f, p) \<Rightarrow> w\<lparr>wb_proc := p, wb_down := Some f\<rparr>
      | (Inr _, p) \<Rightarrow> w\<lparr>wb_proc := p\<rparr>)"

section \<open>What a start gives\<close>

lemma Init_keeps:
  assumes "Init ih dir p = (r, q)"
  shows "ps_login q = ps_login p \<and> ps_handles q = ps_handles p \<and> ps_disk q = ps_disk p"
  using assms by (auto simp: Init_def Let_def split: sum.splits if_splits)

lemma initialised_Entered:
  assumes "initialised m dir p k = Entered x"
  obtains q where "Init (mc_init m) dir p = (Ok (), q)" "k q = Entered x" "ps_login q = ps_login p" "ps_disk q = ps_disk p"
proof -
  obtain r q where i: "Init (mc_init m) dir p = (r, q)" by fastforce
  with assms have "r = Ok ()" "k q = Entered x"
    by (auto simp: initialised_def split: sum.splits fault.splits)
  with i Init_keeps [OF i] that show thesis by blast
qed

lemma web_main_Entered:
  assumes "web_main m a heap p = (outs, Entered (st, w))"
  obtains q p2 where "Init (mc_init m) (wa_config a) p = (Ok (), q)" "ps_login q = ps_login p" "ps_disk q = ps_disk p"
    "Login (mc_rt m) (wa_user a) (mc_handle m) q = (Ok (mc_handle m), p2)" "w = InitHandlers p2 heap"
    "si_handle st = mc_handle m" "si_rt st = mc_rt m" "si_password st = wa_password a"
    "wa_password a \<noteq> ''''" "length (wa_password a) \<le> MaxPasswordLen"
proof -
  let ?k = "\<lambda>p1. case Login (mc_rt m) (wa_user a) (mc_handle m) p1 of
      (Inl (Error e), p2) \<Rightarrow> Returned p2
    | (Inl f, p2) \<Rightarrow> Died f p2
    | (Inr l, p2) \<Rightarrow> Entered (\<lparr>si_rt = mc_rt m, si_handle = l, si_password = wa_password a, si_RFC3339 = mc_RFC3339 m\<rparr>,
                            InitHandlers p2 heap)"
  from assms have pw: "wa_password a \<noteq> ''''" "length (wa_password a) \<le> MaxPasswordLen"
    and i: "initialised m (wa_config a) p ?k = Entered (st, w)"
    by (auto simp: web_main_def split: if_splits)
  from i obtain q where q: "Init (mc_init m) (wa_config a) p = (Ok (), q)" "?k q = Entered (st, w)"
    "ps_login q = ps_login p" "ps_disk q = ps_disk p" by (rule initialised_Entered)
  obtain r p2 where l: "Login (mc_rt m) (wa_user a) (mc_handle m) q = (r, p2)" by fastforce
  with q(2) obtain l' where r: "r = Ok l'" and st: "st = \<lparr>si_rt = mc_rt m, si_handle = l', si_password = wa_password a,
      si_RFC3339 = mc_RFC3339 m\<rparr>" "w = InitHandlers p2 heap"
    by (auto split: sum.splits fault.splits)
  with l have "l' = mc_handle m" by (auto elim: Login_Ok)
  with that q(1,3,4) l r st pw show thesis by simp
qed

section \<open>Properties\<close>

text \<open>
  C16. A site that starts is protected: \<open>main\<close> starts serving only with a password that is not empty and
  not longer than a login form may carry, for a well-formed nickname that was not logged in;
  and whatever requests are then served, in whatever order, a session that is authenticated belongs to
  somebody who posted the password given on the command line and the nickname of the node's owner to
  \<open>/login\<close>, with the token of that very session.
\<close>

theorem Started_site_protected:
  assumes "web_main m a heap p = (outs, Entered (st, w))" "\<forall>s. \<not> se_IsAuthenticated (heap s)"
    and "web_run st w tr v" "se_IsAuthenticated (wb_heap v s)"
  shows "0 < length (wa_password a) \<and> length (wa_password a) \<le> MaxPasswordLen \<and> IsNicknameValid (wa_user a) \<and>
    ps_login p = None \<and> IsValid (Some (si_handle st)) (wb_proc w) \<and>
    (\<exists>u r outs. (u, Served r s outs) \<in> set tr \<and> rq_Path r = ''/login'' \<and> isPost r \<and>
       rq_PostFormValue r ''password'' = wa_password a \<and>
       (\<exists>h. ps_handles (wb_proc u) (mc_handle m) = Some h \<and>
          rq_PostFormValue r ''username'' = uNickname (user_content_of (ow_User (lh_owner h)))) \<and>
       rq_PostFormValue r ''csrf'' = se_CSRFToken (wb_heap v s))"
proof -
  from assms(1) obtain q p2 where q: "ps_login q = ps_login p"
    "Login (mc_rt m) (wa_user a) (mc_handle m) q = (Ok (mc_handle m), p2)" "w = InitHandlers p2 heap"
    "si_handle st = mc_handle m" "si_password st = wa_password a"
    "wa_password a \<noteq> ''''" "length (wa_password a) \<le> MaxPasswordLen" by (rule web_main_Entered)
  from q(2) have "\<not> IsLoggedIn q" "IsNicknameValid (wa_user a)" by (auto simp: Login_def split: if_splits)
  moreover have "IsValid (Some (mc_handle m)) p2" using q(2) by (auto simp: IsValid_def elim: Login_Ok)
  moreover obtain u r outs where "(u, Served r s outs) \<in> set tr" "credentials st (wb_proc u) r"
    "rq_PostFormValue r ''csrf'' = se_CSRFToken (wb_heap v s)"
    using authenticated_by_password [OF assms(3) [unfolded q(3)] assms(2,4)] by blast
  ultimately show ?thesis using q(1,3-) by (auto simp: credentials_def IsLoggedIn_def InitHandlers_def)
qed

text \<open>
  Leaving the shell saves: whatever commands were run and whatever the peers did, when the shell is
  left \<open>main\<close> ends without a fault, nobody is logged in any more, and if somebody was, the
  databases in the directory of that user are the ones the handle had at the end.
\<close>

theorem Quitting_saves:
  assumes "cli_main m a p = (outs, Entered c0)" "ps_login p = None" "shell_step\<^sup>*\<^sup>* c0 c"
  shows "\<exists>d. cli_exit c = (Ok (), d) \<and> \<not> IsLoggedIn (cl_proc d) \<and>
    last (cl_out d) = ''Dscuss stopped.'' @ [newline] \<and>
    (case cl_handle c of
       None \<Rightarrow> cl_proc d = cl_proc c
     | Some l \<Rightarrow> \<exists>h. ps_handles (cl_proc c) l = Some h \<and>
         (\<forall>ud. ps_disk (cl_proc c) (lh_userDir h) = Some ud \<longrightarrow>
            ps_disk (cl_proc d) (lh_userDir h) = Some (ud\<lparr>ud_entity := Some (ow_db (lh_owner h)),
              ud_profile := Some (pr_db (ow_Profile (lh_owner h)))\<rparr>)))"
proof -
  from assms(1) obtain q where q: "c0 = shell_start q" "ps_login q = None"
    using assms(2) by (auto simp: cli_main_def elim!: initialised_Entered split: if_splits)
  with assms(3) have inv: "cli_inv c" by (auto intro: shell.reachable_holds)
  show ?thesis
  proof (cases "cl_handle c")
    case None
    with inv show ?thesis
      by (auto simp: cli_inv_def cli_exit_def in_cli_def Uninit_def Println_def Print_def IsLoggedIn_def)
  next
    case (Some l)
    with inv obtain h where "ps_handles (cl_proc c) l = Some h" "ps_login (cl_proc c) = Some l"
      by (auto simp: cli_inv_def)
    with Some show ?thesis
      by (auto simp: cli_exit_def in_cli_def Uninit_def Logout_def IsValid_def Println_def Print_def IsLoggedIn_def OwnerClose_def)
  qed
qed

text \<open>
  The signal to terminate stops the node but not the site: the site goes on, and answers every new
  request for a page with \<open>500 Internal Server Error\<close>.
\<close>

theorem Terminated_site_answers:
  assumes "wb_down w = None" "IsValid (Some (si_handle st)) (wb_proc w)" "ps_handles (wb_proc w) (si_handle st) \<noteq> None"
    and "map_of routes (rq_Path r) \<noteq> None"
  shows "wb_down (termSignal w) = None \<and> \<not> IsLoggedIn (wb_proc (termSignal w)) \<and>
    web_step st (termSignal w) (Answered r [ServerError]) (termSignal w) \<and>
    \<not> web_step st (termSignal w) (Accepted n r s ck) w'"
proof -
  have t: "wb_down (termSignal w) = None" "ps_login (wb_proc (termSignal w)) = None"
    using assms(1-3) by (auto simp: termSignal_def Uninit_def Logout_def IsValid_def split: option.split)
  then have "\<not> IsValid (Some (si_handle st)) (wb_proc (termSignal w))" by (simp add: IsValid_def)
  with t assms(4) show ?thesis
    by (auto simp: IsLoggedIn_def intro: no_handle elim: web_stepE)
qed

section \<open>Witnesses\<close>

definition toy_machine :: machine where
  "toy_machine = \<lparr>mc_init = \<lparr>ih_home = None, ih_dir_missing = (\<lambda>_. False), ih_Mkdir_fails = False, ih_log_fails = False,
       ih_config = Decoded (defaultConfig\<lparr>cfg_AddressProvider := ''addrlist''\<rparr>), ih_can_save = True\<rparr>,
     mc_rt = toy_rt, mc_handle = 0, mc_RFC3339 = (\<lambda>_. []), mc_Usage = ''usage'', mc_GoVersion = ''go''\<rparr>"

lemma toy_Init: "Init (mc_init toy_machine) ''home'' (toy_process dk\<lparr>ps_cfg := None\<rparr>) = (Ok (), toy_process dk)"
  by (simp add: toy_machine_def Init_def Init_dir_def Truncate_def newConfig_def toy_process_def Let_def)

theorem Started_site_protected_witness:
  "\<exists>dk outs st w tr v r. web_main toy_machine
       \<lparr>wa_config = ''home'', wa_version = False, wa_help = False, wa_user = ''nick_1'', wa_password = ''pw''\<rparr>
       (\<lambda>_. SiteSafety.toy_session False) (toy_process dk\<lparr>ps_cfg := None\<rparr>) = (outs, Entered (st, w)) \<and>
     web_run st w tr v \<and> se_IsAuthenticated (wb_heap v 0) \<and> rq_PostFormValue r ''password'' = ''pw'' \<and>
     (\<exists>u outs. (u, Served r 0 outs) \<in> set tr)"
proof -
  obtain dk p1 h where l: "Login toy_rt ''nick_1'' 0 (toy_process dk) = (Ok 0, p1)" "ps_handles p1 0 = Some h"
    "uNickname (user_content_of (ow_User (lh_owner h))) = ''nick_1''" using toy_login by blast
  have login: "ps_login p1 = Some 0" by (rule Login_Ok [OF l(1)])
  let ?a = "\<lparr>wa_config = ''home'', wa_version = False, wa_help = False, wa_user = ''nick_1'', wa_password = ''pw''\<rparr>"
  have "mc_rt toy_machine = toy_rt" "mc_handle toy_machine = 0" "mc_RFC3339 toy_machine = (\<lambda>_. [])"
    by (simp_all add: toy_machine_def)
  then have main: "web_main toy_machine ?a (\<lambda>_. SiteSafety.toy_session False) (toy_process dk\<lparr>ps_cfg := None\<rparr>) =
      ([line ''Starting Dscuss...''], Entered (toy_site, InitHandlers p1 (\<lambda>_. SiteSafety.toy_session False)))"
    using l(1) by (simp add: web_main_def initialised_def toy_Init MaxPasswordLen_def toy_site_def)
  obtain tr v where run: "web_run toy_site (InitHandlers p1 (\<lambda>_. SiteSafety.toy_session False)) tr v"
    "wb_heap v 0 = SiteSafety.toy_session True" using toy_login_run [OF login l(2,3)] by blast
  have "se_IsAuthenticated (wb_heap v 0)" "\<forall>s::nat. \<not> se_IsAuthenticated (SiteSafety.toy_session False)"
    by (simp_all add: run(2) SiteSafety.toy_session_def)
  from Started_site_protected [OF main this(2) run(1) this(1)] main run(1) this(1) show ?thesis
    by (metis web_args.select_convs(5))
qed

theorem Quitting_saves_witness:
  "\<exists>dk outs c0 c d h. cli_main toy_machine \<lparr>ca_config = ''home'', ca_version = False, ca_help = False\<rparr>
       (toy_process dk\<lparr>ps_cfg := None\<rparr>) = (outs, Entered c0) \<and>
     shell_step\<^sup>*\<^sup>* c0 c \<and> cl_handle c = Some 0 \<and> ps_handles (cl_proc c) 0 = Some h \<and> cli_exit c = (Ok (), d) \<and>
     (\<exists>ud. ps_disk (cl_proc d) (lh_userDir h) = Some ud \<and> ud_entity ud = Some (ow_db (lh_owner h)))"
proof -
  obtain dk p1 h where l: "Login toy_rt ''nick_1'' 0 (toy_process dk) = (Ok 0, p1)" "ps_handles p1 0 = Some h"
    using toy_login by blast
  let ?p = "toy_process dk\<lparr>ps_cfg := None\<rparr>" and ?c = "(shell_start (toy_process dk))\<lparr>cl_proc := p1, cl_handle := Some 0\<rparr>"
  have main: "cli_main toy_machine \<lparr>ca_config = ''home'', ca_version = False, ca_help = False\<rparr> ?p =
      ([line ''Starting Dscuss...''], Entered (shell_start (toy_process dk)))"
    by (simp add: cli_main_def initialised_def toy_Init)
  have "doLogin toy_cli_env [''nick_1''] (shell_start (toy_process dk)) = (Ok (), ?c)"
    using l by (simp add: doLogin_def usage_def in_cli_def shell_start_def toy_cli_env_def)
  then have "shell_step (shell_start (toy_process dk)) ?c"
    by (intro runs [of "''login''" doLogin]) (simp_all add: commandList_def)
  then have s: "shell_step\<^sup>*\<^sup>* (shell_start (toy_process dk)) ?c" ..
  have "ps_login ?p = None" by (simp add: toy_process_def)
  from Quitting_saves [OF main this s] l(2) obtain d where d: "cli_exit ?c = (Ok (), d)"
    "\<forall>ud. ps_disk p1 (lh_userDir h) = Some ud \<longrightarrow> ps_disk (cl_proc d) (lh_userDir h) =
       Some (ud\<lparr>ud_entity := Some (ow_db (lh_owner h)), ud_profile := Some (pr_db (ow_Profile (lh_owner h)))\<rparr>)"
    by auto
  obtain ud where "ps_disk p1 (lh_userDir h) = Some ud"
    by (rule Login_Ok [OF l(1)]) (use l(2) that in simp)
  with main s d l(2) show ?thesis
    by (intro exI [of _ dk] exI [of _ "[line ''Starting Dscuss...'']"] exI [of _ "shell_start (toy_process dk)"] exI [of _ ?c]
        exI [of _ d] exI [of _ h]) simp
qed

end
