(* ===== verification/Spec2Isabelle.thy ===== *)
theory Spec2Isabelle
  imports Encoding Subs Crypto Pow Entity Thread EntityDB EntityStore ProfileDB Storage Owner Packet Wire
    Peer PeerSafety Receive Handshake PeerRun PeerInfo Reconnect Exchange Sync Meeting Address Crawler Provider Pool Account Keys Api Client Session Web
    Site SiteSafety Pages Cli Startup
begin

text \<open>
  Verification development for Dscuss, a peer-to-peer network for public discussions (Go).

  \<^bold>\<open>The program.\<close> Every node has an owner: a registered user, a profile database (moderators,
  subscriptions, histories of peers) and an entity database (users, messages, operations).
  Entities are signed and identified by a hash. Nodes connect to each other; each
  connection is served by a peer, a state machine that introduces the two nodes,
  synchronises what they missed and then passes new entities on. What a node shows is
  filtered by the operations of the moderators its owner trusts.

  \<^bold>\<open>The theories\<close>, in the order of the code's layers, and the code under \<open>src/\<close> they follow:
  \<^item> \<open>Prelude\<close>: results, errors (\<open>errors/errors.go\<close>), the end of the process, time in
    nanoseconds, Go's \<open>copy\<close>, loops that may leave their function.
  \<^item> \<open>Encoding\<close>: base64 and big-endian numbers of Go's library, with their round trips.
  \<^item> \<open>Subs\<close> (\<open>subs/\<close>): topics and subscriptions; what covers what, differences,
    combinations, the text form.
  \<^item> \<open>Crypto\<close>, \<open>Pow\<close> (\<open>crypto/\<close>): signatures and keys in their byte and text forms over
    abstract ECDSA, SHA-256 and PKIX functions; the parallel proof-of-work search as a step
    relation of its goroutines. \<open>Keys\<close>: private keys, and the files an owner keeps
    them in.
  \<^item> \<open>Entity\<close> (\<open>entity/\<close>): identifiers, users, messages, operations; how they are made,
    signed and validated.
  \<^item> \<open>Thread\<close> (\<open>thread/\<close>): trees of replies and the two visitors.
  \<^item> \<open>EntityDB\<close> (\<open>sqlite/entity_database.go\<close>): the tables, every statement and every
    query; \<open>EntityStore\<close>: the abstract store they implement and the refinement lemmas.
  \<^item> \<open>ProfileDB\<close> (\<open>sqlite/profile_database.go\<close>), \<open>Storage\<close> (\<open>storage/storage.go\<close>),
    \<open>Owner\<close> (\<open>owner/profile.go\<close>, \<open>owner/view.go\<close>): the profile, the observers, moderation.
  \<^item> \<open>Packet\<close> (\<open>packet/\<close>, \<open>p2p/connection/\<close>): packets, their checks, the size limits; \<open>Wire\<close>: packets
    as bytes through the limits and the decoder's buffer.
  \<^item> \<open>Peer\<close> (\<open>p2p/peer/\<close>): the six states as actions on a world; \<open>PeerSafety\<close>: frames and
    the meaning of the checks; \<open>Receive\<close>, \<open>Handshake\<close>, \<open>PeerRun\<close>: properties of one node;
    \<open>PeerInfo\<close>: what a peer says of itself; \<open>Reconnect\<close>: what a closed session leaves to the next one;
    \<open>Exchange\<close>: two nodes at the ends of a connection, each reading what the other writes
    (\<open>completes\<close>), and the transfer of a message with its branch and its authors; \<open>Sync\<close>: runs
    of two peers that read exactly what the other writes (\<open>meet\<close>), put one after the other until
    both nodes have been through the whole synchronisation; \<open>Meeting\<close>: the handshake of two nodes
    that know nothing of each other, in front of it.
  \<^item> \<open>Address\<close> (\<open>address/\<close>, \<open>p2p/address_list.go\<close>, \<open>p2p/dht_crawler.go\<close>): what an address is, and
    where addresses come from; \<open>Crawler\<close>: the goroutines that ask the hash table, and their end; \<open>Provider\<close> (\<open>p2p/connection_provider.go\<close>): the goroutines that
    listen, dial and close, interleaving on two counters and a map; \<open>Pool\<close> (\<open>p2p/peer_pool.go\<close>):
    the list of peers, its watchers, the validation of peers and the shutdown.
  \<^item> \<open>Account\<close> (\<open>owner/owner.go\<close>): registration and opening of an owner on disk; \<open>Api\<close>
    (\<open>dscuss.go\<close>, \<open>config.go\<close>): the process, its one login, and the operations of a handle.
  \<^item> \<open>Client\<close>: what the two programs of \<open>cmd/\<close> share: error texts, the calls through a login
    handle and how their errors are taken. \<open>Session\<close> (\<open>cmd/dscuss-web/controller/session.go\<close>,
    \<open>session_pool.go\<close>, \<open>sessions.go\<close>): sessions, their tokens and cookies. \<open>Web\<close> (the handlers and
    the page data of \<open>controller/\<close>), \<open>Site\<close> (\<open>controller.go\<close> and the routes of
    \<open>cmd/dscuss-web/main.go\<close>): requests against a site as a step relation; \<open>SiteSafety\<close>: the site
    and the node it serves; \<open>Pages\<close> (\<open>cmd/dscuss-web/view/\<close>): what the templates show and offer, and
    what becomes of it in a browser. \<open>Cli\<close> (\<open>cmd/dscuss-cli/main.go\<close>): the commands over a terminal, and
    the shell as a step relation. \<open>Startup\<close>: the two \<open>main\<close> functions, from the flags to the end.

  \<^bold>\<open>Conventions.\<close> A Go function that may fail returns \<open>'a result\<close>: \<open>Inr\<close> a value, \<open>Inl (Error e)\<close> an
  error value of the code, \<open>Inl Fatal\<close> the end of the process by \<open>log.Fatal\<close>, \<open>Inl Panic\<close>
  a runtime panic, \<open>Inl Hang\<close> a walk that does not end. State is passed explicitly;
  an operation that mutates its receiver returns the new one, also on failure. A topic is
  an option because nil is a value of its own. Library and service code is a
  parameter: \<open>crypto\<close> (hash, ECDSA, PKIX, scrypt), \<open>signer\<close> (a private key), \<open>env\<close> (JSON of the
  signed parts), \<open>codec\<close> (JSON of packets), \<open>engine\<close> and \<open>profile_engine\<close> (which statement
  fails when, in what order SQLite gives rows with equal keys, and what \<open>strftime\<close> gives).
  What a property needs of them is a named hypothesis (\<open>good_signer\<close>, \<open>good_codec\<close>,
  \<open>reliable\<close>, \<open>faithful\<close>, \<open>preliable\<close>), each with an instance in the witnesses. Clock readings
  are arguments.

  \<^bold>\<open>Loops and fuel.\<close> The walks to the root of a thread and the depth count are partial
  functions, because a cycle of parents would make them run forever; they are shown to end
  on stores without such a cycle, in whatever order replies and parents were stored.
  \<open>GetThread\<close> has fuel for the depth of the tree; as much fuel as there are stored messages
  suffices. The receiving loop ends
  because each round adds one of at most \<open>MaxPendingEntitiesNum\<close> entities; the sending loop
  ends because each round reads a packet. The goroutines of the provider and the pool are step
  relations without fuel; their properties hold in every reachable state.

  \<^bold>\<open>Interfaces.\<close> \<open>row_store\<close> (a table with a primary key), \<open>cached\<close> (a cache over the profile
  database), \<open>frame\<close> and \<open>db_relation\<close> (relations every action of a peer respects), \<open>invariant\<close>
  (what every interleaving of steps keeps), \<open>effect\<close> (what a piece of a client may do to its
  state), each interpreted on the model's own definitions.

  \<^bold>\<open>The clients.\<close> A request of the web site and a command of the shell runs to its end before
  the next one; what peers do to the node comes between them as a step of its own. In a reply a page is the
  data its template is given, from which \<open>Pages\<close> makes what is shown, a redirect is its address, and a reply is the list of
  everything a handler wrote, because some handlers write twice. Times in texts (RFC 3339) are
  a parameter.

  \<^bold>\<open>Not modelled\<close>: logging, the labels and layout of pages, style sheets and the script, the line editor of the
  shell, the path matching of the HTTP router, the operating system, the SQL, JSON, ASN.1 and PEM
  libraries themselves, sockets, the distributed hash table, and methods that only pass a
  call on to the database (\<open>storage/storage.go\<close>), for which the model uses the definition they
  call.
\<close>

end
